(* ===== verification/Prelude.thy ===== *)
theory Prelude
  imports Main "HOL-Library.Word"
begin

unbundle bit_operations_syntax

text \<open>
  Shared vocabulary of the development: the machine types of the source, the collections of
  rewrite rules the component proofs use, and the generic facts on lists and words that more than
  one component needs. Nothing here models code of the repository.
\<close>

section \<open>Machine types\<close>

type_synonym size_t = "64 word"
type_synonym uint64 = "64 word"
type_synonym uint32 = "32 word"
type_synonym uint16 = "16 word"
type_synonym uint8 = "8 word"
type_synonym int64 = "64 word"

text \<open>The largest number of elements a \<^verbatim>\<open>std::vector<char>\<close> can hold: \<open>max_size()\<close> is half the
  address space, so that pointer differences fit \<^verbatim>\<open>ptrdiff_t\<close>.\<close>

abbreviation vector_max_size :: nat where
  "vector_max_size \<equiv> 2 ^ 63 - 1"

section \<open>Collections\<close>

named_theorems word_nat \<open>unsigned word arithmetic moved to natural numbers\<close>
named_theorems flag_simps \<open>tests of single bits in flag words\<close>

section \<open>Results that can fail\<close>

text \<open>Sequencing of fallible operations: the first error ends the sequence, as an exception does.\<close>

definition bindE :: "'e + 'a \<Rightarrow> ('a \<Rightarrow> 'e + 'b) \<Rightarrow> 'e + 'b" where
  "bindE r f = (case r of Inl e \<Rightarrow> Inl e | Inr x \<Rightarrow> f x)"

lemma bindE_simps [simp]:
  "bindE (Inl e) f = Inl e"
  "bindE (Inr x) f = f x"
  by (simp_all add: bindE_def)

lemma bindE_eq_Inr [simp]: "bindE r f = Inr y \<longleftrightarrow> (\<exists>x. r = Inr x \<and> f x = Inr y)"
  by (cases r) simp_all

fun foldE :: "('s \<Rightarrow> 'a \<Rightarrow> 'e + 's) \<Rightarrow> 's \<Rightarrow> 'a list \<Rightarrow> 'e + 's" where
  "foldE f s [] = Inr s"
| "foldE f s (x # xs) = bindE (f s x) (\<lambda>s'. foldE f s' xs)"

lemma foldE_append: "foldE f s (xs @ ys) = bindE (foldE f s xs) (\<lambda>s'. foldE f s' ys)"
  by (induction xs arbitrary: s) (auto simp: bindE_def split: sum.splits)

section \<open>Lists\<close>

lemma nth_append_take_drop [simp]:
  "n \<le> length xs \<Longrightarrow> take n xs @ drop n xs = xs"
  by simp

lemma take_drop_append_take:
  "i \<le> j \<Longrightarrow> j \<le> length xs \<Longrightarrow> take (j - i) (drop i xs) @ drop j xs = drop i xs"
  by (metis append_take_drop_id drop_drop le_add_diff_inverse2)

lemma take_take_drop:
  "take n (drop i (take j xs)) = take (min n (j - i)) (drop i xs)"
  by (simp add: drop_take)

text \<open>Splicing a block of bytes into a buffer, the effect of copying \<open>ys\<close> to offset \<open>i\<close>.\<close>

definition splice_at :: "nat \<Rightarrow> 'a list \<Rightarrow> 'a list \<Rightarrow> 'a list" where
  "splice_at i ys xs = take i xs @ ys @ drop (i + length ys) xs"

lemma length_splice_at [simp]:
  "i + length ys \<le> length xs \<Longrightarrow> length (splice_at i ys xs) = length xs"
  by (simp add: splice_at_def)

lemma splice_at_Nil [simp]: "splice_at i [] xs = xs"
  by (simp add: splice_at_def)

lemma take_splice_at:
  "i + length ys \<le> length xs \<Longrightarrow> take (i + length ys) (splice_at i ys xs) = take i xs @ ys"
  by (simp add: splice_at_def)

lemma drop_take_splice_at:
  assumes "r \<le> i" "i + length ys \<le> length xs"
  shows "drop r (take (i + length ys) (splice_at i ys xs)) = drop r (take i xs) @ ys"
  using assms by (simp add: take_splice_at)

section \<open>Words\<close>

lemma unat_add_no_wrap [word_nat]:
  fixes a b :: "'a::len word"
  shows "unat a + unat b < 2 ^ LENGTH('a) \<Longrightarrow> unat (a + b) = unat a + unat b"
  by (simp add: unat_word_ariths)

lemma unat_mul_no_wrap [word_nat]:
  fixes a b :: "'a::len word"
  shows "unat a * unat b < 2 ^ LENGTH('a) \<Longrightarrow> unat (a * b) = unat a * unat b"
  by (simp add: unat_word_ariths)

lemma unat_sub_no_wrap [word_nat]:
  fixes a b :: "'a::len word"
  shows "b \<le> a \<Longrightarrow> unat (a - b) = unat a - unat b"
  by (rule unat_sub)

lemma unat_of_nat_id [word_nat]:
  "n < 2 ^ LENGTH('a) \<Longrightarrow> unat (of_nat n :: 'a::len word) = n"
  by (simp add: unat_of_nat)

lemma unat_lt_size_t: "unat (w :: size_t) < 2 ^ 64"
  using unsigned_less [of w] by simp

text \<open>Tests of flag words: \<open>w & f\<close> in a condition is \<open>w AND f \<noteq> 0\<close>.\<close>

lemma unat_ucast_32_64: "unat (ucast (x :: uint32) :: uint64) = unat x"
proof -
  have "unat x < 2 ^ 32" using unsigned_less [of x] by simp
  then show ?thesis by (simp add: unsigned_ucast_eq take_bit_nat_eq_self)
qed

definition has_flag :: "'a::len word \<Rightarrow> 'a word \<Rightarrow> bool" where
  "has_flag w f \<longleftrightarrow> w AND f \<noteq> 0"

lemma has_flag_zero [simp, flag_simps]: "\<not> has_flag 0 f"
  by (simp add: has_flag_def)

lemma has_flag_or [simp, flag_simps]: "has_flag (w OR g) f \<longleftrightarrow> has_flag w f \<or> has_flag g f"
  by (simp add: has_flag_def bit.conj_disj_distrib2 or_eq_0_iff)

end
