(* ===== verification/Http_Types.thy ===== *)
theory Http_Types
  imports Prelude
begin

text \<open>
  The data of the HTTP parser the web server uses: the enumerations, tables and structures of
  \<^verbatim>\<open>examples/http/http_parser.h\<close> and the private enumerations, character tables and character
  classes at the top of \<^verbatim>\<open>examples/http/http_parser.c\<close>, compiled as the repository's build does
  (\<^verbatim>\<open>HTTP_PARSER_STRICT\<close> is 1, assertions are enabled). Bytes are \<^typ>\<open>char\<close>; \<open>of_char\<close> is the
  conversion to \<^verbatim>\<open>unsigned char\<close>. An enumeration is a datatype with the source's enumerators in the
  source's order, and a bit field is a word of its width.
\<close>

section \<open>Enumerations and tables of the header file\<close>

definition HTTP_MAX_HEADER_SIZE :: uint32 where
  "HTTP_MAX_HEADER_SIZE = 80 * 1024"

text \<open>The status map: code and reason phrase.\<close>

definition HTTP_STATUS_MAP :: "(nat \<times> string) list" where
  "HTTP_STATUS_MAP =
    [(100, ''Continue''),
     (101, ''Switching Protocols''),
     (102, ''Processing''),
     (200, ''OK''),
     (201, ''Created''),
     (202, ''Accepted''),
     (203, ''Non-Authoritative Information''),
     (204, ''No Content''),
     (205, ''Reset Content''),
     (206, ''Partial Content''),
     (207, ''Multi-Status''),
     (208, ''Already Reported''),
     (226, ''IM Used''),
     (300, ''Multiple Choices''),
     (301, ''Moved Permanently''),
     (302, ''Found''),
     (303, ''See Other''),
     (304, ''Not Modified''),
     (305, ''Use Proxy''),
     (307, ''Temporary Redirect''),
     (308, ''Permanent Redirect''),
     (400, ''Bad Request''),
     (401, ''Unauthorized''),
     (402, ''Payment Required''),
     (403, ''Forbidden''),
     (404, ''Not Found''),
     (405, ''Method Not Allowed''),
     (406, ''Not Acceptable''),
     (407, ''Proxy Authentication Required''),
     (408, ''Request Timeout''),
     (409, ''Conflict''),
     (410, ''Gone''),
     (411, ''Length Required''),
     (412, ''Precondition Failed''),
     (413, ''Payload Too Large''),
     (414, ''URI Too Long''),
     (415, ''Unsupported Media Type''),
     (416, ''Range Not Satisfiable''),
     (417, ''Expectation Failed''),
     (421, ''Misdirected Request''),
     (422, ''Unprocessable Entity''),
     (423, ''Locked''),
     (424, ''Failed Dependency''),
     (426, ''Upgrade Required''),
     (428, ''Precondition Required''),
     (429, ''Too Many Requests''),
     (431, ''Request Header Fields Too Large''),
     (451, ''Unavailable For Legal Reasons''),
     (500, ''Internal Server Error''),
     (501, ''Not Implemented''),
     (502, ''Bad Gateway''),
     (503, ''Service Unavailable''),
     (504, ''Gateway Timeout''),
     (505, ''HTTP Version Not Supported''),
     (506, ''Variant Also Negotiates''),
     (507, ''Insufficient Storage''),
     (508, ''Loop Detected''),
     (510, ''Not Extended''),
     (511, ''Network Authentication Required'')]"

datatype (plugins only: code size) http_method =
    HTTP_DELETE | HTTP_GET | HTTP_HEAD | HTTP_POST | HTTP_PUT
  | HTTP_CONNECT | HTTP_OPTIONS | HTTP_TRACE | HTTP_COPY | HTTP_LOCK
  | HTTP_MKCOL | HTTP_MOVE | HTTP_PROPFIND | HTTP_PROPPATCH | HTTP_SEARCH
  | HTTP_UNLOCK | HTTP_BIND | HTTP_REBIND | HTTP_UNBIND | HTTP_ACL
  | HTTP_REPORT | HTTP_MKACTIVITY | HTTP_CHECKOUT | HTTP_MERGE | HTTP_MSEARCH
  | HTTP_NOTIFY | HTTP_SUBSCRIBE | HTTP_UNSUBSCRIBE | HTTP_PATCH | HTTP_PURGE
  | HTTP_MKCALENDAR | HTTP_LINK | HTTP_UNLINK | HTTP_SOURCE

text \<open>The method map: the string of each method.\<close>

primrec HTTP_METHOD_MAP :: "http_method \<Rightarrow> string" where
    "HTTP_METHOD_MAP HTTP_DELETE = ''DELETE''"
  | "HTTP_METHOD_MAP HTTP_GET = ''GET''"
  | "HTTP_METHOD_MAP HTTP_HEAD = ''HEAD''"
  | "HTTP_METHOD_MAP HTTP_POST = ''POST''"
  | "HTTP_METHOD_MAP HTTP_PUT = ''PUT''"
  | "HTTP_METHOD_MAP HTTP_CONNECT = ''CONNECT''"
  | "HTTP_METHOD_MAP HTTP_OPTIONS = ''OPTIONS''"
  | "HTTP_METHOD_MAP HTTP_TRACE = ''TRACE''"
  | "HTTP_METHOD_MAP HTTP_COPY = ''COPY''"
  | "HTTP_METHOD_MAP HTTP_LOCK = ''LOCK''"
  | "HTTP_METHOD_MAP HTTP_MKCOL = ''MKCOL''"
  | "HTTP_METHOD_MAP HTTP_MOVE = ''MOVE''"
  | "HTTP_METHOD_MAP HTTP_PROPFIND = ''PROPFIND''"
  | "HTTP_METHOD_MAP HTTP_PROPPATCH = ''PROPPATCH''"
  | "HTTP_METHOD_MAP HTTP_SEARCH = ''SEARCH''"
  | "HTTP_METHOD_MAP HTTP_UNLOCK = ''UNLOCK''"
  | "HTTP_METHOD_MAP HTTP_BIND = ''BIND''"
  | "HTTP_METHOD_MAP HTTP_REBIND = ''REBIND''"
  | "HTTP_METHOD_MAP HTTP_UNBIND = ''UNBIND''"
  | "HTTP_METHOD_MAP HTTP_ACL = ''ACL''"
  | "HTTP_METHOD_MAP HTTP_REPORT = ''REPORT''"
  | "HTTP_METHOD_MAP HTTP_MKACTIVITY = ''MKACTIVITY''"
  | "HTTP_METHOD_MAP HTTP_CHECKOUT = ''CHECKOUT''"
  | "HTTP_METHOD_MAP HTTP_MERGE = ''MERGE''"
  | "HTTP_METHOD_MAP HTTP_MSEARCH = ''M-SEARCH''"
  | "HTTP_METHOD_MAP HTTP_NOTIFY = ''NOTIFY''"
  | "HTTP_METHOD_MAP HTTP_SUBSCRIBE = ''SUBSCRIBE''"
  | "HTTP_METHOD_MAP HTTP_UNSUBSCRIBE = ''UNSUBSCRIBE''"
  | "HTTP_METHOD_MAP HTTP_PATCH = ''PATCH''"
  | "HTTP_METHOD_MAP HTTP_PURGE = ''PURGE''"
  | "HTTP_METHOD_MAP HTTP_MKCALENDAR = ''MKCALENDAR''"
  | "HTTP_METHOD_MAP HTTP_LINK = ''LINK''"
  | "HTTP_METHOD_MAP HTTP_UNLINK = ''UNLINK''"
  | "HTTP_METHOD_MAP HTTP_SOURCE = ''SOURCE''"

text \<open>The enumerators in order, so that the position of a method is its number.\<close>

definition http_methods :: "http_method list" where
  "http_methods =
    [HTTP_DELETE, HTTP_GET, HTTP_HEAD, HTTP_POST, HTTP_PUT,
     HTTP_CONNECT, HTTP_OPTIONS, HTTP_TRACE, HTTP_COPY, HTTP_LOCK,
     HTTP_MKCOL, HTTP_MOVE, HTTP_PROPFIND, HTTP_PROPPATCH, HTTP_SEARCH,
     HTTP_UNLOCK, HTTP_BIND, HTTP_REBIND, HTTP_UNBIND, HTTP_ACL,
     HTTP_REPORT, HTTP_MKACTIVITY, HTTP_CHECKOUT, HTTP_MERGE, HTTP_MSEARCH,
     HTTP_NOTIFY, HTTP_SUBSCRIBE, HTTP_UNSUBSCRIBE, HTTP_PATCH, HTTP_PURGE,
     HTTP_MKCALENDAR, HTTP_LINK, HTTP_UNLINK, HTTP_SOURCE]"

datatype http_parser_type = HTTP_REQUEST | HTTP_RESPONSE | HTTP_BOTH

definition F_CHUNKED :: uint8 where "F_CHUNKED = push_bit 0 1"
definition F_CONNECTION_KEEP_ALIVE :: uint8 where "F_CONNECTION_KEEP_ALIVE = push_bit 1 1"
definition F_CONNECTION_CLOSE :: uint8 where "F_CONNECTION_CLOSE = push_bit 2 1"
definition F_CONNECTION_UPGRADE :: uint8 where "F_CONNECTION_UPGRADE = push_bit 3 1"
definition F_TRAILING :: uint8 where "F_TRAILING = push_bit 4 1"
definition F_UPGRADE :: uint8 where "F_UPGRADE = push_bit 5 1"
definition F_SKIPBODY :: uint8 where "F_SKIPBODY = push_bit 6 1"
definition F_CONTENTLENGTH :: uint8 where "F_CONTENTLENGTH = push_bit 7 1"

lemmas flag_defs =
  F_CHUNKED_def F_CONNECTION_KEEP_ALIVE_def F_CONNECTION_CLOSE_def F_CONNECTION_UPGRADE_def
  F_TRAILING_def F_UPGRADE_def F_SKIPBODY_def F_CONTENTLENGTH_def

datatype (plugins only: code size) http_errno =
    HPE_OK | HPE_CB_message_begin | HPE_CB_url
  | HPE_CB_header_field | HPE_CB_header_value | HPE_CB_headers_complete
  | HPE_CB_body | HPE_CB_message_complete | HPE_CB_status
  | HPE_CB_chunk_header | HPE_CB_chunk_complete | HPE_INVALID_EOF_STATE
  | HPE_HEADER_OVERFLOW | HPE_CLOSED_CONNECTION | HPE_INVALID_VERSION
  | HPE_INVALID_STATUS | HPE_INVALID_METHOD | HPE_INVALID_URL
  | HPE_INVALID_HOST | HPE_INVALID_PORT | HPE_INVALID_PATH
  | HPE_INVALID_QUERY_STRING | HPE_INVALID_FRAGMENT | HPE_LF_EXPECTED
  | HPE_INVALID_HEADER_TOKEN | HPE_INVALID_CONTENT_LENGTH | HPE_UNEXPECTED_CONTENT_LENGTH
  | HPE_INVALID_CHUNK_SIZE | HPE_INVALID_CONSTANT | HPE_INVALID_INTERNAL_STATE
  | HPE_STRICT | HPE_PAUSED | HPE_UNKNOWN
  | HPE_INVALID_TRANSFER_ENCODING

primrec http_strerror_tab :: "http_errno \<Rightarrow> string \<times> string" where
    "http_strerror_tab HPE_OK =
      (''HPE_OK'', ''success'')"
  | "http_strerror_tab HPE_CB_message_begin =
      (''HPE_CB_message_begin'', ''the on_message_begin callback failed'')"
  | "http_strerror_tab HPE_CB_url =
      (''HPE_CB_url'', ''the on_url callback failed'')"
  | "http_strerror_tab HPE_CB_header_field =
      (''HPE_CB_header_field'', ''the on_header_field callback failed'')"
  | "http_strerror_tab HPE_CB_header_value =
      (''HPE_CB_header_value'', ''the on_header_value callback failed'')"
  | "http_strerror_tab HPE_CB_headers_complete =
      (''HPE_CB_headers_complete'', ''the on_headers_complete callback failed'')"
  | "http_strerror_tab HPE_CB_body =
      (''HPE_CB_body'', ''the on_body callback failed'')"
  | "http_strerror_tab HPE_CB_message_complete =
      (''HPE_CB_message_complete'', ''the on_message_complete callback failed'')"
  | "http_strerror_tab HPE_CB_status =
      (''HPE_CB_status'', ''the on_status callback failed'')"
  | "http_strerror_tab HPE_CB_chunk_header =
      (''HPE_CB_chunk_header'', ''the on_chunk_header callback failed'')"
  | "http_strerror_tab HPE_CB_chunk_complete =
      (''HPE_CB_chunk_complete'', ''the on_chunk_complete callback failed'')"
  | "http_strerror_tab HPE_INVALID_EOF_STATE =
      (''HPE_INVALID_EOF_STATE'', ''stream ended at an unexpected time'')"
  | "http_strerror_tab HPE_HEADER_OVERFLOW =
      (''HPE_HEADER_OVERFLOW'', ''too many header bytes seen; overflow detected'')"
  | "http_strerror_tab HPE_CLOSED_CONNECTION =
      (''HPE_CLOSED_CONNECTION'', ''data received after completed connection: close message'')"
  | "http_strerror_tab HPE_INVALID_VERSION =
      (''HPE_INVALID_VERSION'', ''invalid HTTP version'')"
  | "http_strerror_tab HPE_INVALID_STATUS =
      (''HPE_INVALID_STATUS'', ''invalid HTTP status code'')"
  | "http_strerror_tab HPE_INVALID_METHOD =
      (''HPE_INVALID_METHOD'', ''invalid HTTP method'')"
  | "http_strerror_tab HPE_INVALID_URL =
      (''HPE_INVALID_URL'', ''invalid URL'')"
  | "http_strerror_tab HPE_INVALID_HOST =
      (''HPE_INVALID_HOST'', ''invalid host'')"
  | "http_strerror_tab HPE_INVALID_PORT =
      (''HPE_INVALID_PORT'', ''invalid port'')"
  | "http_strerror_tab HPE_INVALID_PATH =
      (''HPE_INVALID_PATH'', ''invalid path'')"
  | "http_strerror_tab HPE_INVALID_QUERY_STRING =
      (''HPE_INVALID_QUERY_STRING'', ''invalid query string'')"
  | "http_strerror_tab HPE_INVALID_FRAGMENT =
      (''HPE_INVALID_FRAGMENT'', ''invalid fragment'')"
  | "http_strerror_tab HPE_LF_EXPECTED =
      (''HPE_LF_EXPECTED'', ''LF character expected'')"
  | "http_strerror_tab HPE_INVALID_HEADER_TOKEN =
      (''HPE_INVALID_HEADER_TOKEN'', ''invalid character in header'')"
  | "http_strerror_tab HPE_INVALID_CONTENT_LENGTH =
      (''HPE_INVALID_CONTENT_LENGTH'', ''invalid character in content-length header'')"
  | "http_strerror_tab HPE_UNEXPECTED_CONTENT_LENGTH =
      (''HPE_UNEXPECTED_CONTENT_LENGTH'', ''unexpected content-length header'')"
  | "http_strerror_tab HPE_INVALID_CHUNK_SIZE =
      (''HPE_INVALID_CHUNK_SIZE'', ''invalid character in chunk size header'')"
  | "http_strerror_tab HPE_INVALID_CONSTANT =
      (''HPE_INVALID_CONSTANT'', ''invalid constant string'')"
  | "http_strerror_tab HPE_INVALID_INTERNAL_STATE =
      (''HPE_INVALID_INTERNAL_STATE'', ''encountered unexpected internal state'')"
  | "http_strerror_tab HPE_STRICT =
      (''HPE_STRICT'', ''strict mode assertion failed'')"
  | "http_strerror_tab HPE_PAUSED =
      (''HPE_PAUSED'', ''parser is paused'')"
  | "http_strerror_tab HPE_UNKNOWN =
      (''HPE_UNKNOWN'', ''an unknown error occurred'')"
  | "http_strerror_tab HPE_INVALID_TRANSFER_ENCODING =
      (''HPE_INVALID_TRANSFER_ENCODING'', ''request has invalid transfer-encoding'')"

section \<open>Private enumerations of the parser\<close>

datatype (plugins only: code size) state =
    s_dead | s_start_req_or_res | s_res_or_resp_H | s_start_res
  | s_res_H | s_res_HT | s_res_HTT | s_res_HTTP
  | s_res_http_major | s_res_http_dot | s_res_http_minor | s_res_http_end
  | s_res_first_status_code | s_res_status_code | s_res_status_start | s_res_status
  | s_res_line_almost_done | s_start_req | s_req_method | s_req_spaces_before_url
  | s_req_schema | s_req_schema_slash | s_req_schema_slash_slash | s_req_server_start
  | s_req_server | s_req_server_with_at | s_req_path | s_req_query_string_start
  | s_req_query_string | s_req_fragment_start | s_req_fragment | s_req_http_start
  | s_req_http_H | s_req_http_HT | s_req_http_HTT | s_req_http_HTTP
  | s_req_http_I | s_req_http_IC | s_req_http_major | s_req_http_dot
  | s_req_http_minor | s_req_http_end | s_req_line_almost_done | s_header_field_start
  | s_header_field | s_header_value_discard_ws | s_header_value_discard_ws_almost_done | s_header_value_discard_lws
  | s_header_value_start | s_header_value | s_header_value_lws | s_header_almost_done
  | s_chunk_size_start | s_chunk_size | s_chunk_parameters | s_chunk_size_almost_done
  | s_headers_almost_done | s_headers_done | s_chunk_data | s_chunk_data_almost_done
  | s_chunk_data_done | s_body_identity | s_body_identity_eof | s_message_done

text \<open>\<^verbatim>\<open>PARSING_HEADER(state)\<close> is \<^verbatim>\<open>state <= s_headers_done\<close>: every state but the six enumerated after
  it.\<close>

definition PARSING_HEADER :: "state \<Rightarrow> bool" where
  "PARSING_HEADER s \<longleftrightarrow>
     s \<notin> {s_chunk_data, s_chunk_data_almost_done, s_chunk_data_done, s_body_identity,
          s_body_identity_eof, s_message_done}"

datatype (plugins only: code size) header_states =
    h_general | h_C | h_CO
  | h_CON | h_matching_connection | h_matching_proxy_connection
  | h_matching_content_length | h_matching_transfer_encoding | h_matching_upgrade
  | h_connection | h_content_length | h_content_length_num
  | h_content_length_ws | h_transfer_encoding | h_upgrade
  | h_matching_transfer_encoding_token_start | h_matching_transfer_encoding_chunked | h_matching_transfer_encoding_token
  | h_matching_connection_token_start | h_matching_connection_keep_alive | h_matching_connection_close
  | h_matching_connection_upgrade | h_matching_connection_token | h_transfer_encoding_chunked
  | h_connection_keep_alive | h_connection_close | h_connection_upgrade

datatype http_host_state =
    s_http_host_dead | s_http_userinfo_start | s_http_userinfo
  | s_http_host_start | s_http_host_v6_start | s_http_host
  | s_http_host_v6 | s_http_host_v6_end | s_http_host_v6_zone_start
  | s_http_host_v6_zone | s_http_host_port_start | s_http_host_port

section \<open>Characters\<close>

text \<open>The tables list 128 entries; C fills the other half with zeros.\<close>

definition tokens :: "char list" where
  "tokens =
    [CHR 0x00, CHR 0x00, CHR 0x00, CHR 0x00, CHR 0x00, CHR 0x00, CHR 0x00, CHR 0x00,
     CHR 0x00, CHR 0x00, CHR 0x00, CHR 0x00, CHR 0x00, CHR 0x00, CHR 0x00, CHR 0x00,
     CHR 0x00, CHR 0x00, CHR 0x00, CHR 0x00, CHR 0x00, CHR 0x00, CHR 0x00, CHR 0x00,
     CHR 0x00, CHR 0x00, CHR 0x00, CHR 0x00, CHR 0x00, CHR 0x00, CHR 0x00, CHR 0x00,
     CHR 0x20, CHR ''!'', CHR 0x00, CHR ''#'', CHR ''$'', CHR ''%'', CHR ''&'', CHR 0x27,
     CHR 0x00, CHR 0x00, CHR ''*'', CHR ''+'', CHR 0x00, CHR ''-'', CHR ''.'', CHR 0x00,
     CHR 0x30, CHR 0x31, CHR 0x32, CHR 0x33, CHR 0x34, CHR 0x35, CHR 0x36, CHR 0x37,
     CHR 0x38, CHR 0x39, CHR 0x00, CHR 0x00, CHR 0x00, CHR 0x00, CHR 0x00, CHR 0x00,
     CHR 0x00, CHR ''a'', CHR ''b'', CHR ''c'', CHR ''d'', CHR ''e'', CHR ''f'', CHR ''g'',
     CHR ''h'', CHR ''i'', CHR ''j'', CHR ''k'', CHR ''l'', CHR ''m'', CHR ''n'', CHR ''o'',
     CHR ''p'', CHR ''q'', CHR ''r'', CHR ''s'', CHR ''t'', CHR ''u'', CHR ''v'', CHR ''w'',
     CHR ''x'', CHR ''y'', CHR ''z'', CHR 0x00, CHR 0x00, CHR 0x00, CHR ''^'', CHR ''_'',
     CHR 0x60, CHR ''a'', CHR ''b'', CHR ''c'', CHR ''d'', CHR ''e'', CHR ''f'', CHR ''g'',
     CHR ''h'', CHR ''i'', CHR ''j'', CHR ''k'', CHR ''l'', CHR ''m'', CHR ''n'', CHR ''o'',
     CHR ''p'', CHR ''q'', CHR ''r'', CHR ''s'', CHR ''t'', CHR ''u'', CHR ''v'', CHR ''w'',
     CHR ''x'', CHR ''y'', CHR ''z'', CHR 0x00, CHR ''|'', CHR 0x00, CHR ''~'', CHR 0x00]"

definition unhex :: "int list" where
  "unhex =
    [-1, -1, -1, -1, -1, -1, -1, -1, -1, -1, -1, -1, -1, -1, -1, -1,
     -1, -1, -1, -1, -1, -1, -1, -1, -1, -1, -1, -1, -1, -1, -1, -1,
     -1, -1, -1, -1, -1, -1, -1, -1, -1, -1, -1, -1, -1, -1, -1, -1,
     0, 1, 2, 3, 4, 5, 6, 7, 8, 9, -1, -1, -1, -1, -1, -1,
     -1, 10, 11, 12, 13, 14, 15, -1, -1, -1, -1, -1, -1, -1, -1, -1,
     -1, -1, -1, -1, -1, -1, -1, -1, -1, -1, -1, -1, -1, -1, -1, -1,
     -1, 10, 11, 12, 13, 14, 15, -1, -1, -1, -1, -1, -1, -1, -1, -1,
     -1, -1, -1, -1, -1, -1, -1, -1, -1, -1, -1, -1, -1, -1, -1, -1]"

definition normal_url_char :: "uint8 list" where
  "normal_url_char =
    [0 OR 0 OR 0 OR 0 OR 0 OR 0 OR 0 OR 0,
     0 OR 0 OR 0 OR 0 OR 0 OR 0 OR 0 OR 0,
     0 OR 0 OR 0 OR 0 OR 0 OR 0 OR 0 OR 0,
     0 OR 0 OR 0 OR 0 OR 0 OR 0 OR 0 OR 0,
     0 OR 2 OR 4 OR 0 OR 16 OR 32 OR 64 OR 128,
     1 OR 2 OR 4 OR 8 OR 16 OR 32 OR 64 OR 128,
     1 OR 2 OR 4 OR 8 OR 16 OR 32 OR 64 OR 128,
     1 OR 2 OR 4 OR 8 OR 16 OR 32 OR 64 OR 0,
     1 OR 2 OR 4 OR 8 OR 16 OR 32 OR 64 OR 128,
     1 OR 2 OR 4 OR 8 OR 16 OR 32 OR 64 OR 128,
     1 OR 2 OR 4 OR 8 OR 16 OR 32 OR 64 OR 128,
     1 OR 2 OR 4 OR 8 OR 16 OR 32 OR 64 OR 128,
     1 OR 2 OR 4 OR 8 OR 16 OR 32 OR 64 OR 128,
     1 OR 2 OR 4 OR 8 OR 16 OR 32 OR 64 OR 128,
     1 OR 2 OR 4 OR 8 OR 16 OR 32 OR 64 OR 128,
     1 OR 2 OR 4 OR 8 OR 16 OR 32 OR 64 OR 0]"

text \<open>A read of a table at an index the initialiser does not list gives 0.\<close>

definition tokens_at :: "char \<Rightarrow> char" where
  "tokens_at c = (if (of_char c :: nat) < length tokens then tokens ! of_char c else CHR 0x00)"

definition unhex_at :: "char \<Rightarrow> int" where
  "unhex_at c = (if (of_char c :: nat) < length unhex then unhex ! of_char c else 0)"

definition BIT_AT_normal_url_char :: "char \<Rightarrow> bool" where
  "BIT_AT_normal_url_char c =
     (let i = of_char c :: nat
      in i div 8 < length normal_url_char \<and> bit (normal_url_char ! (i div 8)) (i mod 8))"

definition CR :: char where "CR = CHR 0x0D"
definition LF :: char where "LF = CHR 0x0A"

definition LOWER :: "char \<Rightarrow> char" where
  "LOWER c = (case c of Char b0 b1 b2 b3 b4 b5 b6 b7 \<Rightarrow> Char b0 b1 b2 b3 b4 True b6 b7)"

definition in_range :: "char \<Rightarrow> char \<Rightarrow> char \<Rightarrow> bool" where
  "in_range lo c hi \<longleftrightarrow> (of_char lo :: nat) \<le> of_char c \<and> (of_char c :: nat) \<le> of_char hi"

definition IS_ALPHA :: "char \<Rightarrow> bool" where
  "IS_ALPHA c \<longleftrightarrow> in_range (CHR ''a'') (LOWER c) (CHR ''z'')"

definition IS_NUM :: "char \<Rightarrow> bool" where
  "IS_NUM c \<longleftrightarrow> in_range (CHR ''0'') c (CHR ''9'')"

definition IS_ALPHANUM :: "char \<Rightarrow> bool" where
  "IS_ALPHANUM c \<longleftrightarrow> IS_ALPHA c \<or> IS_NUM c"

definition IS_HEX :: "char \<Rightarrow> bool" where
  "IS_HEX c \<longleftrightarrow> IS_NUM c \<or> in_range (CHR ''a'') (LOWER c) (CHR ''f'')"

definition IS_MARK :: "char \<Rightarrow> bool" where
  "IS_MARK c \<longleftrightarrow> c \<in> {CHR ''-'', CHR ''_'', CHR ''.'', CHR ''!'', CHR ''~'', CHR ''*'', CHR 0x27,
                       CHR ''('', CHR '')''}"

definition IS_USERINFO_CHAR :: "char \<Rightarrow> bool" where
  "IS_USERINFO_CHAR c \<longleftrightarrow>
     IS_ALPHANUM c \<or> IS_MARK c \<or>
     c \<in> {CHR ''%'', CHR '';'', CHR '':'', CHR ''&'', CHR ''='', CHR ''+'', CHR ''$'', CHR '',''}"

definition STRICT_TOKEN :: "char \<Rightarrow> char" where
  "STRICT_TOKEN c = (if c = CHR 0x20 then CHR 0x00 else tokens_at c)"

definition TOKEN :: "char \<Rightarrow> char" where
  "TOKEN c = STRICT_TOKEN c"

definition IS_URL_CHAR :: "char \<Rightarrow> bool" where
  "IS_URL_CHAR c = BIT_AT_normal_url_char c"

definition IS_HOST_CHAR :: "char \<Rightarrow> bool" where
  "IS_HOST_CHAR c \<longleftrightarrow> IS_ALPHANUM c \<or> c = CHR ''.'' \<or> c = CHR ''-''"

definition IS_HEADER_CHAR :: "char \<Rightarrow> bool" where
  "IS_HEADER_CHAR c \<longleftrightarrow>
     c = CR \<or> c = LF \<or> c = CHR 0x09 \<or> ((of_char c :: nat) > 31 \<and> c \<noteq> CHR 0x7F)"

lemmas char_class_defs =
  CR_def LF_def LOWER_def in_range_def IS_ALPHA_def IS_NUM_def IS_ALPHANUM_def IS_HEX_def
  IS_MARK_def IS_USERINFO_CHAR_def STRICT_TOKEN_def TOKEN_def IS_URL_CHAR_def IS_HOST_CHAR_def
  IS_HEADER_CHAR_def

text \<open>The value of a decimal digit, \<^verbatim>\<open>ch - '0'\<close>.\<close>

definition digit :: "char \<Rightarrow> nat" where
  "digit c = of_char c - 48"

section \<open>Constant strings\<close>

definition PROXY_CONNECTION :: string where "PROXY_CONNECTION = ''proxy-connection''"
definition CONNECTION :: string where "CONNECTION = ''connection''"
definition CONTENT_LENGTH :: string where "CONTENT_LENGTH = ''content-length''"
definition TRANSFER_ENCODING :: string where "TRANSFER_ENCODING = ''transfer-encoding''"
definition UPGRADE :: string where "UPGRADE = ''upgrade''"
definition CHUNKED :: string where "CHUNKED = ''chunked''"
definition KEEP_ALIVE :: string where "KEEP_ALIVE = ''keep-alive''"
definition CLOSE :: string where "CLOSE = ''close''"

lemmas const_string_defs =
  PROXY_CONNECTION_def CONNECTION_def CONTENT_LENGTH_def TRANSFER_ENCODING_def UPGRADE_def
  CHUNKED_def KEEP_ALIVE_def CLOSE_def

definition ULLONG_MAX :: uint64 where "ULLONG_MAX = - 1"

section \<open>Structures\<close>

text \<open>
  \<^verbatim>\<open>struct http_parser\<close>. The pointer \<^verbatim>\<open>data\<close> stands for the application object it points to, of
  type \<open>'a\<close>; a callback may change it through the pointer, so it is part of the parser's value.
\<close>

record 'a http_parser =
  hp_type :: http_parser_type
  hp_flags :: uint8
  hp_state :: state
  hp_header_state :: header_states
  hp_index :: "5 word"
  hp_uses_transfer_encoding :: bool
  hp_allow_chunked_length :: bool
  hp_lenient_http_headers :: bool
  hp_nread :: uint32
  hp_content_length :: uint64
  hp_http_major :: uint16
  hp_http_minor :: uint16
  hp_status_code :: uint16
  hp_method :: http_method
  hp_errno :: http_errno
  hp_upgrade :: bool
  hp_data :: 'a

text \<open>A callback gets the parser and returns its result and the parser as it left it; a data
  callback gets the bytes of its range as well. A null pointer is \<open>None\<close>.\<close>

type_synonym 'a http_cb = "'a http_parser \<Rightarrow> int \<times> 'a http_parser"
type_synonym 'a http_data_cb = "'a http_parser \<Rightarrow> char list \<Rightarrow> int \<times> 'a http_parser"

record 'a http_parser_settings =
  on_message_begin :: "'a http_cb option"
  on_url :: "'a http_data_cb option"
  on_status :: "'a http_data_cb option"
  on_header_field :: "'a http_data_cb option"
  on_header_value :: "'a http_data_cb option"
  on_headers_complete :: "'a http_cb option"
  on_body :: "'a http_data_cb option"
  on_message_complete :: "'a http_cb option"
  on_chunk_header :: "'a http_cb option"
  on_chunk_complete :: "'a http_cb option"

datatype http_parser_url_fields =
    UF_SCHEMA | UF_HOST | UF_PORT | UF_PATH | UF_QUERY | UF_FRAGMENT | UF_USERINFO | UF_MAX

record url_field =
  uf_off :: uint16
  uf_len :: uint16

text \<open>\<^verbatim>\<open>field_set\<close> is the bit mask of the fields that are set; it is modelled as the set of fields,
  \<open>field_data\<close> as the function from a field to its range.\<close>

record http_parser_url =
  field_set :: "http_parser_url_fields set"
  port :: uint16
  field_data :: "http_parser_url_fields \<Rightarrow> url_field"

end
