(* ===== verification/Http_Url.thy ===== *)
theory Http_Url
  imports Http_Types
begin

text \<open>
  The URL part of \<^verbatim>\<open>examples/http/http_parser.c\<close>: the byte-wise URL automaton that
  \<^verbatim>\<open>http_parser_execute\<close> uses to validate request targets, and \<^verbatim>\<open>http_parser_parse_url\<close>, which
  splits a URL into its components.
\<close>

section \<open>The URL automaton\<close>

definition parse_url_char :: "state \<Rightarrow> char \<Rightarrow> state" where
  "parse_url_char s ch =
     (if ch = CHR 0x20 \<or> ch = CR \<or> ch = LF then s_dead
      else if ch = CHR 0x09 \<or> ch = CHR 0x0C then s_dead
      else if s = s_req_spaces_before_url then
        (if ch = CHR ''/'' \<or> ch = CHR ''*'' then s_req_path
         else if IS_ALPHA ch then s_req_schema
         else s_dead)
      else if s = s_req_schema then
        (if IS_ALPHA ch then s
         else if ch = CHR '':'' then s_req_schema_slash
         else s_dead)
      else if s = s_req_schema_slash then
        (if ch = CHR ''/'' then s_req_schema_slash_slash else s_dead)
      else if s = s_req_schema_slash_slash then
        (if ch = CHR ''/'' then s_req_server_start else s_dead)
      else if s = s_req_server_with_at \<and> ch = CHR ''@'' then s_dead
      else if s = s_req_server_with_at \<or> s = s_req_server_start \<or> s = s_req_server then
        (if ch = CHR ''/'' then s_req_path
         else if ch = CHR ''?'' then s_req_query_string_start
         else if ch = CHR ''@'' then s_req_server_with_at
         else if IS_USERINFO_CHAR ch \<or> ch = CHR ''['' \<or> ch = CHR '']'' then s_req_server
         else s_dead)
      else if s = s_req_path then
        (if IS_URL_CHAR ch then s
         else if ch = CHR ''?'' then s_req_query_string_start
         else if ch = CHR ''#'' then s_req_fragment_start
         else s_dead)
      else if s = s_req_query_string_start \<or> s = s_req_query_string then
        (if IS_URL_CHAR ch then s_req_query_string
         else if ch = CHR ''?'' then s_req_query_string
         else if ch = CHR ''#'' then s_req_fragment_start
         else s_dead)
      else if s = s_req_fragment_start then
        (if IS_URL_CHAR ch then s_req_fragment
         else if ch = CHR ''?'' then s_req_fragment
         else if ch = CHR ''#'' then s
         else s_dead)
      else if s = s_req_fragment then
        (if IS_URL_CHAR ch then s
         else if ch = CHR ''?'' \<or> ch = CHR ''#'' then s
         else s_dead)
      else s_dead)"

section \<open>Splitting a URL\<close>

text \<open>Reading and writing the components of the result structure.\<close>

definition upd_field ::
    "http_parser_url_fields \<Rightarrow> (url_field \<Rightarrow> url_field) \<Rightarrow> http_parser_url \<Rightarrow> http_parser_url" where
  "upd_field f g u = u\<lparr>field_data := (field_data u)(f := g (field_data u f))\<rparr>"

text \<open>\<^verbatim>\<open>field_data[f].len++\<close>, on a 16-bit length.\<close>

definition extend_field :: "http_parser_url_fields \<Rightarrow> http_parser_url \<Rightarrow> http_parser_url" where
  "extend_field f u = upd_field f (\<lambda>d. d\<lparr>uf_len := uf_len d + 1\<rparr>) u"

text \<open>\<^verbatim>\<open>field_data[f].off = (uint16_t)(p - buf); field_data[f].len = n; field_set |= 1 << f\<close>.\<close>

definition open_field ::
    "http_parser_url_fields \<Rightarrow> nat \<Rightarrow> uint16 \<Rightarrow> http_parser_url \<Rightarrow> http_parser_url" where
  "open_field f p n u =
     (upd_field f (\<lambda>d. d\<lparr>uf_off := of_nat p, uf_len := n\<rparr>) u)
       \<lparr>field_set := insert f (field_set u)\<rparr>"

fun http_parse_host_char :: "http_host_state \<Rightarrow> char \<Rightarrow> http_host_state" where
  "http_parse_host_char s_http_userinfo ch =
     (if ch = CHR ''@'' then s_http_host_start
      else if IS_USERINFO_CHAR ch then s_http_userinfo else s_http_host_dead)"
| "http_parse_host_char s_http_userinfo_start ch =
     (if ch = CHR ''@'' then s_http_host_start
      else if IS_USERINFO_CHAR ch then s_http_userinfo else s_http_host_dead)"
| "http_parse_host_char s_http_host_start ch =
     (if ch = CHR ''['' then s_http_host_v6_start
      else if IS_HOST_CHAR ch then s_http_host else s_http_host_dead)"
| "http_parse_host_char s_http_host ch =
     (if IS_HOST_CHAR ch then s_http_host
      else if ch = CHR '':'' then s_http_host_port_start else s_http_host_dead)"
| "http_parse_host_char s_http_host_v6_end ch =
     (if ch = CHR '':'' then s_http_host_port_start else s_http_host_dead)"
| "http_parse_host_char s_http_host_v6 ch =
     (if ch = CHR '']'' then s_http_host_v6_end
      else if IS_HEX ch \<or> ch = CHR '':'' \<or> ch = CHR ''.'' then s_http_host_v6
      else if ch = CHR ''%'' then s_http_host_v6_zone_start else s_http_host_dead)"
| "http_parse_host_char s_http_host_v6_start ch =
     (if IS_HEX ch \<or> ch = CHR '':'' \<or> ch = CHR ''.'' then s_http_host_v6 else s_http_host_dead)"
| "http_parse_host_char s_http_host_v6_zone ch =
     (if ch = CHR '']'' then s_http_host_v6_end
      else if IS_ALPHANUM ch \<or> ch \<in> {CHR ''%'', CHR ''.'', CHR ''-'', CHR ''_'', CHR ''~''}
        then s_http_host_v6_zone else s_http_host_dead)"
| "http_parse_host_char s_http_host_v6_zone_start ch =
     (if IS_ALPHANUM ch \<or> ch \<in> {CHR ''%'', CHR ''.'', CHR ''-'', CHR ''_'', CHR ''~''}
      then s_http_host_v6_zone else s_http_host_dead)"
| "http_parse_host_char s_http_host_port ch =
     (if IS_NUM ch then s_http_host_port else s_http_host_dead)"
| "http_parse_host_char s_http_host_port_start ch =
     (if IS_NUM ch then s_http_host_port else s_http_host_dead)"
| "http_parse_host_char s_http_host_dead ch = s_http_host_dead"

text \<open>What the loop of \<^verbatim>\<open>http_parse_host\<close> does to the result when it goes from \<open>s\<close> to \<open>new_s\<close> at
  offset \<open>p\<close>.\<close>

definition host_step ::
    "http_host_state \<Rightarrow> http_host_state \<Rightarrow> nat \<Rightarrow> http_parser_url \<Rightarrow> http_parser_url" where
  "host_step s new_s p u =
     (if new_s = s_http_host \<or> new_s = s_http_host_v6 then
        extend_field UF_HOST
          (if s \<noteq> new_s then upd_field UF_HOST (\<lambda>d. d\<lparr>uf_off := of_nat p\<rparr>) u else u)
      else if new_s = s_http_host_v6_zone_start \<or> new_s = s_http_host_v6_zone then
        extend_field UF_HOST u
      else if new_s = s_http_host_port then
        extend_field UF_PORT (if s \<noteq> s_http_host_port then open_field UF_PORT p 0 u else u)
      else if new_s = s_http_userinfo then
        extend_field UF_USERINFO (if s \<noteq> s_http_userinfo then open_field UF_USERINFO p 0 u else u)
      else u)"

text \<open>The loop over the bytes of the host, \<open>p\<close> being the offset of the first of them: the state it
  ends in (\<open>s_http_host_dead\<close> at once when a byte does not fit) and the result so far.\<close>

fun host_loop ::
    "http_host_state \<Rightarrow> nat \<Rightarrow> char list \<Rightarrow> http_parser_url \<Rightarrow> http_host_state \<times> http_parser_url" where
  "host_loop s p [] u = (s, u)"
| "host_loop s p (ch # chs) u =
     (let new_s = http_parse_host_char s ch
      in if new_s = s_http_host_dead then (s_http_host_dead, u)
         else host_loop new_s (p + 1) chs (host_step s new_s p u))"

definition host_accepts :: "http_host_state \<Rightarrow> bool" where
  "host_accepts s \<longleftrightarrow>
     s \<notin> {s_http_host_dead, s_http_host_start, s_http_host_v6_start, s_http_host_v6,
           s_http_host_v6_zone_start, s_http_host_v6_zone, s_http_host_port_start,
           s_http_userinfo, s_http_userinfo_start}"

text \<open>\<^verbatim>\<open>http_parse_host\<close>: \<open>None\<close> when the host is not set (the assertion) or the range is not inside the
  buffer; otherwise whether the return value is 0, and the result.\<close>

definition http_parse_host ::
    "char list \<Rightarrow> http_parser_url \<Rightarrow> bool \<Rightarrow> (bool \<times> http_parser_url) option" where
  "http_parse_host buf u found_at =
     (let off = unat (uf_off (field_data u UF_HOST));
          buflen = off + unat (uf_len (field_data u UF_HOST))
      in if UF_HOST \<notin> field_set u \<or> buflen > length buf then None
         else
           let u1 = upd_field UF_HOST (\<lambda>d. d\<lparr>uf_len := 0\<rparr>) u;
               (s, u2) = host_loop (if found_at then s_http_userinfo_start else s_http_host_start)
                           off (drop off (take buflen buf)) u1
           in Some (host_accepts s, u2))"

definition http_parser_url_init :: http_parser_url where
  "http_parser_url_init =
     \<lparr>field_set = {}, port = 0, field_data = (\<lambda>_. \<lparr>uf_off = 0, uf_len = 0\<rparr>)\<rparr>"

text \<open>The switch on the new state: the field the byte belongs to.\<close>

datatype url_class = Dead | Delimiter | Field http_parser_url_fields | Unexpected

definition url_class_of :: "state \<Rightarrow> url_class" where
  "url_class_of s =
     (if s = s_dead then Dead
      else if s \<in> {s_req_schema_slash, s_req_schema_slash_slash, s_req_server_start,
                   s_req_query_string_start, s_req_fragment_start} then Delimiter
      else if s = s_req_schema then Field UF_SCHEMA
      else if s = s_req_server_with_at \<or> s = s_req_server then Field UF_HOST
      else if s = s_req_path then Field UF_PATH
      else if s = s_req_query_string then Field UF_QUERY
      else if s = s_req_fragment then Field UF_FRAGMENT
      else Unexpected)"

text \<open>The loop over the URL. The result is \<open>Url_return\<close> for an early return of 1, \<open>Url_assert\<close> for a
  failed assertion, \<open>Url_end\<close> with \<^verbatim>\<open>found_at\<close> at the end of the buffer.\<close>

datatype url_outcome = Url_return http_parser_url | Url_assert | Url_end bool http_parser_url

fun url_loop ::
    "state \<Rightarrow> http_parser_url_fields \<Rightarrow> bool \<Rightarrow> nat \<Rightarrow> char list \<Rightarrow> http_parser_url \<Rightarrow> url_outcome" where
  "url_loop s old_uf found_at p [] u = Url_end found_at u"
| "url_loop s old_uf found_at p (ch # chs) u =
     (let s1 = parse_url_char s ch;
          at1 = (found_at \<or> s1 = s_req_server_with_at)
      in case url_class_of s1 of
           Dead \<Rightarrow> Url_return u
         | Unexpected \<Rightarrow> Url_assert
         | Delimiter \<Rightarrow> url_loop s1 old_uf at1 (p + 1) chs u
         | Field uf \<Rightarrow>
             (if uf = old_uf then url_loop s1 old_uf at1 (p + 1) chs (extend_field uf u)
              else url_loop s1 uf at1 (p + 1) chs (open_field uf p 1 u)))"

text \<open>\<^verbatim>\<open>*p - '0'\<close>, with \<^verbatim>\<open>char\<close> a signed type.\<close>

definition digit_diff :: "char \<Rightarrow> int" where
  "digit_diff ch = (let n = int (of_char ch) in if n < 128 then n - 48 else n - 256 - 48)"

text \<open>The loop over the digits of the port; \<open>None\<close> when the number exceeds \<^verbatim>\<open>0xffff\<close>.\<close>

fun port_loop :: "uint64 \<Rightarrow> char list \<Rightarrow> uint64 option" where
  "port_loop v [] = Some v"
| "port_loop v (ch # chs) =
     (let v1 = v * 10 + of_int (digit_diff ch)
      in if v1 > 0xffff then None else port_loop v1 chs)"

definition parse_port :: "char list \<Rightarrow> http_parser_url \<Rightarrow> (bool \<times> http_parser_url) option" where
  "parse_port buf u =
     (if UF_PORT \<in> field_set u then
        (let off = unat (uf_off (field_data u UF_PORT));
             len = unat (uf_len (field_data u UF_PORT))
         in if off + len > length buf then None
            else case port_loop 0 (take len (drop off buf)) of
                   None \<Rightarrow> Some (False, u)
                 | Some v \<Rightarrow> Some (True, u\<lparr>port := ucast v\<rparr>))
      else Some (True, u))"

text \<open>\<^verbatim>\<open>http_parser_parse_url\<close>: \<open>None\<close> when an assertion fails, otherwise whether the return value is 0
  (success), and the result.\<close>

definition http_parser_parse_url ::
    "char list \<Rightarrow> bool \<Rightarrow> http_parser_url \<Rightarrow> (bool \<times> http_parser_url) option" where
  "http_parser_parse_url buf is_connect u =
     (if buf = [] then Some (False, u)
      else case url_loop (if is_connect then s_req_server_start else s_req_spaces_before_url)
                  UF_MAX False 0 buf (u\<lparr>port := 0, field_set := {}\<rparr>) of
        Url_return u1 \<Rightarrow> Some (False, u1)
      | Url_assert \<Rightarrow> None
      | Url_end found_at u1 \<Rightarrow>
          (if UF_SCHEMA \<in> field_set u1 \<and> UF_HOST \<notin> field_set u1 then Some (False, u1)
           else case (if UF_HOST \<in> field_set u1 then http_parse_host buf u1 found_at
                      else Some (True, u1)) of
                  None \<Rightarrow> None
                | Some (ok, u2) \<Rightarrow>
                    (if \<not> ok then Some (False, u2)
                     else if is_connect \<and> field_set u2 \<noteq> {UF_HOST, UF_PORT} then Some (False, u2)
                     else parse_port buf u2)))"

section \<open>The automaton stays inside a URL\<close>

definition url_states :: "state set" where
  "url_states =
     {s_req_schema, s_req_schema_slash, s_req_schema_slash_slash, s_req_server_start, s_req_server,
      s_req_server_with_at, s_req_path, s_req_query_string_start, s_req_query_string,
      s_req_fragment_start, s_req_fragment}"

lemma if_in: "(b \<Longrightarrow> x \<in> S) \<Longrightarrow> (\<not> b \<Longrightarrow> y \<in> S) \<Longrightarrow> (if b then x else y) \<in> S"
  by simp

lemma parse_url_char_url: "parse_url_char s ch \<in> insert s_dead url_states"
  unfolding parse_url_char_def url_states_def by (intro if_in; simp)

lemma url_class_url: "s \<in> insert s_dead url_states \<Longrightarrow> url_class_of s \<noteq> Unexpected"
  by (auto simp: url_states_def url_class_of_def)

section \<open>Ranges of the components\<close>

text \<open>
  The offsets and lengths of the result are 16-bit numbers. Field \<open>f\<close> ends by position \<open>p\<close> when its
  offset and length are the 16-bit truncations of numbers whose sum is at most \<open>p\<close>.
\<close>

definition ends_by :: "nat \<Rightarrow> http_parser_url_fields \<Rightarrow> http_parser_url \<Rightarrow> bool" where
  "ends_by p f u \<longleftrightarrow>
     (\<exists>i n. uf_off (field_data u f) = of_nat i \<and> uf_len (field_data u f) = of_nat n \<and> i + n \<le> p)"

definition fields_by :: "http_parser_url_fields set \<Rightarrow> nat \<Rightarrow> http_parser_url \<Rightarrow> bool" where
  "fields_by F p u \<longleftrightarrow> (\<forall>f \<in> F \<inter> field_set u. ends_by p f u)"

lemma unat_of_nat_le: "unat (of_nat n :: 'a::len word) \<le> n"
  by (simp add: unat_of_nat)

lemma ends_by_bound:
  assumes "ends_by p f u"
  shows "unat (uf_off (field_data u f)) + unat (uf_len (field_data u f)) \<le> p"
proof -
  from assms obtain i n where "uf_off (field_data u f) = of_nat i" "uf_len (field_data u f) = of_nat n"
    "i + n \<le> p" unfolding ends_by_def by blast
  with unat_of_nat_le [of i, where 'a = 16] unat_of_nat_le [of n, where 'a = 16] show ?thesis by simp
qed

lemma ends_by_mono: "ends_by p f u \<Longrightarrow> p \<le> p' \<Longrightarrow> ends_by p' f u"
  unfolding ends_by_def by (meson le_trans)

lemma field_simps [simp]:
  "field_set (upd_field f g u) = field_set u" "field_set (extend_field f u) = field_set u"
  "field_set (open_field f p n u) = insert f (field_set u)"
  "field_data (upd_field f g u) f' = (if f' = f then g (field_data u f) else field_data u f')"
  "field_data (extend_field f u) f' =
     (if f' = f then (field_data u f)\<lparr>uf_len := uf_len (field_data u f) + 1\<rparr> else field_data u f')"
  "field_data (open_field f p n u) f' =
     (if f' = f then (field_data u f)\<lparr>uf_off := of_nat p, uf_len := n\<rparr> else field_data u f')"
  "port (upd_field f g u) = port u" "port (extend_field f u) = port u"
  "port (open_field f p n u) = port u"
  by (simp_all add: upd_field_def extend_field_def open_field_def)

lemma ends_by_extend:
  assumes "ends_by p f u"
  shows "ends_by (p + 1) f (extend_field f u)"
proof -
  from assms obtain i n where "uf_off (field_data u f) = of_nat i" "uf_len (field_data u f) = of_nat n"
    "i + n \<le> p" unfolding ends_by_def by blast
  then show ?thesis unfolding ends_by_def
    by (intro exI [of _ i] exI [of _ "Suc n"]) simp
qed

lemma ends_by_other: "f' \<noteq> f \<Longrightarrow> ends_by p f' (extend_field f u) = ends_by p f' u"
  "f' \<noteq> f \<Longrightarrow> ends_by p f' (open_field f q n u) = ends_by p f' u"
  "f' \<noteq> f \<Longrightarrow> ends_by p f' (upd_field f g u) = ends_by p f' u"
  by (simp_all add: ends_by_def)

lemma ends_by_open: "ends_by p f (open_field f p 0 u)" "ends_by (p + 1) f (open_field f p 1 u)"
  unfolding ends_by_def by (force intro: exI [of _ p] exI [of _ 0] exI [of _ 1])+

lemma fields_by_extend: "fields_by F p u \<Longrightarrow> f \<in> F \<inter> field_set u \<Longrightarrow> fields_by F (p + 1) (extend_field f u)"
  unfolding fields_by_def
proof
  fix f' assume *: "\<forall>f \<in> F \<inter> field_set u. ends_by p f u" "f \<in> F \<inter> field_set u"
    "f' \<in> F \<inter> field_set (extend_field f u)"
  then show "ends_by (p + 1) f' (extend_field f u)"
    by (cases "f' = f") (auto simp: ends_by_extend [simplified] ends_by_other intro: ends_by_mono)
qed

lemma fields_by_mono: "fields_by F p u \<Longrightarrow> p \<le> p' \<Longrightarrow> fields_by F p' u"
  unfolding fields_by_def by (auto intro: ends_by_mono)

lemma fields_by_insert:
  assumes "fields_by F p u" "ends_by p f (open_field f q n u)"
  shows "fields_by F p (open_field f q n u)"
  unfolding fields_by_def
proof
  fix f' assume "f' \<in> F \<inter> field_set (open_field f q n u)"
  with assms show "ends_by p f' (open_field f q n u)"
    by (cases "f' = f") (simp_all add: fields_by_def ends_by_other)
qed

lemma fields_by_open:
  assumes "fields_by F p u"
  shows "fields_by F p (open_field f p 0 u)" "fields_by F (p + 1) (open_field f p 1 u)"
  using assms fields_by_mono [OF assms, of "p + 1"] by (simp_all add: fields_by_insert ends_by_open [simplified])

text \<open>The loop over the URL.\<close>

definition url_ok :: "nat \<Rightarrow> url_outcome \<Rightarrow> bool" where
  "url_ok n out \<longleftrightarrow> out \<noteq> Url_assert \<and> (\<forall>fa u. out = Url_end fa u \<longrightarrow> fields_by UNIV n u)"

lemma url_loop_ok:
  assumes "fields_by UNIV p u" "old_uf = UF_MAX \<or> old_uf \<in> field_set u"
  shows "url_ok (p + length chs) (url_loop s old_uf found_at p chs u)"
  using assms
proof (induction chs arbitrary: s old_uf found_at p u)
  case (Cons ch chs)
  have f: "fields_by UNIV (p + 1) u"
    using Cons.prems(1) unfolding fields_by_def by (auto intro: ends_by_mono)
  have ok: "url_class_of (parse_url_char s ch) \<noteq> Unexpected"
    by (rule url_class_url [OF parse_url_char_url])
  show ?case
  proof (cases "url_class_of (parse_url_char s ch)")
    case (Field uf)
    then have uf: "uf \<noteq> UF_MAX" by (auto simp: url_class_of_def split: if_splits)
    show ?thesis
    proof (cases "uf = old_uf")
      case True
      with Cons.IH [OF fields_by_extend [OF Cons.prems(1)], of uf] Cons.prems(2) uf Field show ?thesis
        by (simp add: Let_def)
    next
      case False
      with Cons.IH [OF fields_by_open(2) [OF Cons.prems(1)], of uf] Field show ?thesis
        by (simp add: Let_def)
    qed
  qed (use Cons.IH [OF f, of old_uf] Cons.prems(2) ok in \<open>simp_all add: Let_def url_ok_def\<close>)
qed (simp add: url_ok_def)

text \<open>The loop over the host. Until the host begins its length is zero.\<close>

definition host_fields :: "http_parser_url_fields set" where
  "host_fields = {UF_HOST, UF_PORT, UF_USERINFO}"

definition host_inv :: "http_host_state \<Rightarrow> nat \<Rightarrow> http_parser_url \<Rightarrow> bool" where
  "host_inv s p u \<longleftrightarrow>
     fields_by host_fields p u \<and> UF_HOST \<in> field_set u \<and>
     (s \<in> {s_http_userinfo_start, s_http_userinfo, s_http_host_start, s_http_host_v6_start} \<longrightarrow>
        uf_len (field_data u UF_HOST) = 0) \<and>
     (s = s_http_host_port \<longrightarrow> UF_PORT \<in> field_set u) \<and>
     (s = s_http_userinfo \<longrightarrow> UF_USERINFO \<in> field_set u)"

lemma fields_by_host_off:
  assumes "fields_by host_fields p u" "uf_len (field_data u UF_HOST) = 0"
  shows "fields_by host_fields p (upd_field UF_HOST (\<lambda>d. d\<lparr>uf_off := of_nat p\<rparr>) u)"
  unfolding fields_by_def
proof
  let ?u = "upd_field UF_HOST (\<lambda>d. d\<lparr>uf_off := of_nat p\<rparr>) u"
  fix f assume "f \<in> host_fields \<inter> field_set ?u"
  moreover have "ends_by p UF_HOST ?u" unfolding ends_by_def using assms(2)
    by (intro exI [of _ p] exI [of _ 0]) simp
  ultimately show "ends_by p f ?u"
    using assms(1) by (cases "f = UF_HOST") (simp_all add: fields_by_def ends_by_other)
qed

lemma host_step_inv:
  assumes "host_inv s p u" "http_parse_host_char s ch = s'" "s' \<noteq> s_http_host_dead"
  shows "host_inv s' (p + 1) (host_step s s' p u)"
proof -
  from assms(1) have u: "fields_by host_fields p u" "fields_by host_fields (p + 1) u" "UF_HOST \<in> field_set u"
    by (auto simp: host_inv_def intro: fields_by_mono)
  show ?thesis
    using assms u fields_by_extend fields_by_open(1) fields_by_host_off
    by (cases s) (auto simp: host_inv_def host_step_def host_fields_def split: if_splits)
qed

lemma host_loop_inv:
  assumes "host_inv s p u" "host_loop s p chs u = (s', u')" "s' \<noteq> s_http_host_dead"
  shows "host_inv s' (p + length chs) u'"
  using assms
proof (induction chs arbitrary: s p u)
  case (Cons ch chs)
  let ?s = "http_parse_host_char s ch"
  from Cons.prems have n: "?s \<noteq> s_http_host_dead" by (auto simp: Let_def split: if_splits)
  with Cons.prems have "host_loop ?s (p + 1) chs (host_step s ?s p u) = (s', u')" by (simp add: Let_def)
  from Cons.IH [OF host_step_inv [OF Cons.prems(1) refl n] this Cons.prems(3)] show ?case by simp
qed simp

lemma host_loop_fields:
  assumes "host_inv s p u"
  shows "UF_HOST \<in> field_set (snd (host_loop s p chs u))" 
  using assms
proof (induction chs arbitrary: s p u)
  case (Cons ch chs)
  show ?case
  proof (cases "http_parse_host_char s ch = s_http_host_dead")
    case True
    with Cons.prems show ?thesis by (simp add: host_inv_def)
  next
    case False
    from Cons.IH [OF host_step_inv [OF Cons.prems refl False]] False show ?thesis by (simp add: Let_def)
  qed
qed (simp add: host_inv_def)

lemma host_step_other: "f \<notin> host_fields \<Longrightarrow> field_data (host_step s s' p u) f = field_data u f"
  "f \<notin> host_fields \<Longrightarrow> f \<in> field_set (host_step s s' p u) \<longleftrightarrow> f \<in> field_set u"
  by (auto simp: host_step_def host_fields_def)

lemma host_loop_other:
  "f \<notin> host_fields \<Longrightarrow> field_data (snd (host_loop s p chs u)) f = field_data u f \<and>
     (f \<in> field_set (snd (host_loop s p chs u)) \<longleftrightarrow> f \<in> field_set u)"
  by (induction chs arbitrary: s p u) (simp_all add: Let_def host_step_other)

lemma http_parse_host_ok:
  assumes "fields_by UNIV (length buf) u" "UF_HOST \<in> field_set u" "UF_PORT \<notin> field_set u"
    "UF_USERINFO \<notin> field_set u"
  shows "\<exists>ok u'. http_parse_host buf u found_at = Some (ok, u') \<and> (ok \<longrightarrow> fields_by UNIV (length buf) u')"
proof -
  let ?off = "unat (uf_off (field_data u UF_HOST))" and ?len = "unat (uf_len (field_data u UF_HOST))"
  let ?u = "upd_field UF_HOST (\<lambda>d. d\<lparr>uf_len := 0\<rparr>) u"
  let ?s = "if found_at then s_http_userinfo_start else s_http_host_start"
  let ?chs = "drop ?off (take (?off + ?len) buf)"
  obtain s' u' where run: "host_loop ?s ?off ?chs ?u = (s', u')" by force
  from assms have b: "?off + ?len \<le> length buf" by (auto simp: fields_by_def intro: ends_by_bound)
  have "ends_by ?off UF_HOST ?u" unfolding ends_by_def by (intro exI [of _ ?off] exI [of _ 0]) simp
  with assms have inv: "host_inv ?s ?off ?u"
    by (auto simp: host_inv_def fields_by_def host_fields_def)
  have "fields_by UNIV (length buf) u'" if "host_accepts s'"
  proof -
    from that have "s' \<noteq> s_http_host_dead" by (auto simp: host_accepts_def)
    from host_loop_inv [OF inv run this] b have "fields_by host_fields (length buf) u'"
      by (auto simp: host_inv_def min_def intro: fields_by_mono)
    moreover have "ends_by (length buf) f u'" if "f \<notin> host_fields" "f \<in> field_set u'" for f
    proof -
      from that have "f \<noteq> UF_HOST" by (auto simp: host_fields_def)
      with host_loop_other [OF that(1), of ?s ?off ?chs ?u] run that
      have "field_data u' f = field_data u f" "f \<in> field_set u" by simp_all
      with assms(1) show ?thesis by (simp add: fields_by_def ends_by_def)
    qed
    ultimately show ?thesis by (auto simp: fields_by_def)
  qed
  with assms(2) b run show ?thesis by (simp add: http_parse_host_def Let_def)
qed

text \<open>The first loop opens none of the fields of the host.\<close>

lemma url_loop_fields:
  assumes "url_loop s old_uf found_at p chs u = Url_end fa u'" "f \<in> {UF_PORT, UF_USERINFO}"
    "f \<notin> field_set u"
  shows "f \<notin> field_set u'"
  using assms
proof (induction chs arbitrary: s old_uf found_at p u)
  case (Cons ch chs)
  have "url_class_of (parse_url_char s ch) \<noteq> Field f"
    using Cons.prems(2) by (auto simp: url_class_of_def split: if_splits)
  with Cons show ?case by (auto simp: Let_def split: url_class.splits if_splits)
qed simp

lemma parse_port_ok:
  "fields_by UNIV (length buf) u \<Longrightarrow>
     \<exists>ok u'. parse_port buf u = Some (ok, u') \<and> field_set u' = field_set u \<and> field_data u' = field_data u"
  using ends_by_bound [of "length buf" UF_PORT u]
  by (auto simp: parse_port_def fields_by_def Let_def split: option.split)

text \<open>How a successful run of \<^verbatim>\<open>http_parser_parse_url\<close> went.\<close>

lemma parse_url_loop_ok:
  "url_ok (length buf) (url_loop s UF_MAX False 0 buf (u\<lparr>port := 0, field_set := {}\<rparr>))"
  using url_loop_ok [of 0 "u\<lparr>port := 0, field_set := {}\<rparr>" UF_MAX buf s False]
  by (simp add: fields_by_def)

lemma parse_url_no_port:
  assumes "url_loop s UF_MAX False 0 buf (u\<lparr>port := 0, field_set := {}\<rparr>) = Url_end fa u1"
  shows "UF_PORT \<notin> field_set u1" "UF_USERINFO \<notin> field_set u1"
  using url_loop_fields [OF assms, of UF_PORT] url_loop_fields [OF assms, of UF_USERINFO] by simp_all

lemma parse_url_result:
  "\<exists>ok u'. http_parser_parse_url buf is_connect u = Some (ok, u') \<and> (ok \<longrightarrow> fields_by UNIV (length buf) u')"
proof (cases "buf = []")
  case True
  then show ?thesis by (auto simp: http_parser_parse_url_def)
next
  case False
  let ?s = "if is_connect then s_req_server_start else s_req_spaces_before_url"
  let ?run = "url_loop ?s UF_MAX False 0 buf (u\<lparr>port := 0, field_set := {}\<rparr>)"
  note ok = parse_url_loop_ok [of buf ?s u]
  show ?thesis
  proof (cases ?run)
    case (Url_return u1)
    with False show ?thesis by (auto simp: http_parser_parse_url_def)
  next
    case Url_assert
    with ok show ?thesis by (simp add: url_ok_def)
  next
    case (Url_end fa u1)
    with ok have u1: "fields_by UNIV (length buf) u1" by (simp add: url_ok_def)
    have host: "\<exists>ok u2. (if UF_HOST \<in> field_set u1 then http_parse_host buf u1 fa else Some (True, u1)) =
        Some (ok, u2) \<and> (ok \<longrightarrow> fields_by UNIV (length buf) u2)"
      using http_parse_host_ok [OF u1 _ parse_url_no_port [OF Url_end], of fa] u1 by auto
    then obtain ok2 u2 where h: "(if UF_HOST \<in> field_set u1 then http_parse_host buf u1 fa else Some (True, u1)) =
        Some (ok2, u2)" "ok2 \<longrightarrow> fields_by UNIV (length buf) u2" by blast
    show ?thesis
    proof (cases ok2)
      case True
      with h have u2: "fields_by UNIV (length buf) u2" by simp
      from parse_port_ok [OF u2] obtain ok3 u3 where "parse_port buf u2 = Some (ok3, u3)"
        "field_set u3 = field_set u2" "field_data u3 = field_data u2" by blast
      moreover with u2 have "fields_by UNIV (length buf) u3" by (simp add: fields_by_def ends_by_def)
      ultimately show ?thesis using h True False Url_end by (auto simp: http_parser_parse_url_def)
    next
      case False
      with h \<open>buf \<noteq> []\<close> Url_end show ?thesis by (auto simp: http_parser_parse_url_def)
    qed
  qed
qed

section \<open>The port\<close>

text \<open>The number a string of digits stands for, continuing from \<open>v\<close>.\<close>

fun decimal :: "nat \<Rightarrow> char list \<Rightarrow> nat" where
  "decimal v [] = v"
| "decimal v (ch # chs) = decimal (v * 10 + digit ch) chs"

lemma decimal_ge: "v \<le> decimal v chs"
proof (induction chs arbitrary: v)
  case (Cons ch chs)
  from Cons [of "v * 10 + digit ch"] show ?case by simp
qed simp

lemma IS_NUM_digit:
  assumes "IS_NUM ch"
  shows "digit ch \<le> 9" "digit_diff ch = int (digit ch)"
  using assms by (auto simp: IS_NUM_def in_range_def digit_def digit_diff_def Let_def)

lemma port_loop_decimal:
  assumes "\<forall>ch \<in> set chs. IS_NUM ch" "unat v \<le> 0xffff"
  shows "port_loop v chs =
    (if decimal (unat v) chs \<le> 0xffff then Some (of_nat (decimal (unat v) chs)) else None)"
  using assms
proof (induction chs arbitrary: v)
  case (Cons ch chs)
  let ?v = "v * 10 + of_int (digit_diff ch)"
  from Cons.prems have d: "digit ch \<le> 9" "digit_diff ch = int (digit ch)" by (simp_all add: IS_NUM_digit)
  then have "unat (of_nat (digit ch) :: uint64) = digit ch" by (intro unat_of_nat_id) simp
  moreover have "unat (v * 10) = unat v * 10" using Cons.prems by (simp add: unat_mul_no_wrap)
  ultimately have v: "unat ?v = unat v * 10 + digit ch"
    using Cons.prems d by (simp add: unat_add_no_wrap)
  show ?case
  proof (cases "?v > 0xffff")
    case True
    with v decimal_ge [of "unat ?v" chs] show ?thesis by (simp add: Let_def word_less_nat_alt)
  next
    case False
    with v Cons.IH [of ?v] Cons.prems show ?thesis by (simp add: Let_def word_less_nat_alt)
  qed
qed simp

text \<open>What the loop over the host leaves in the field of the port, while offsets fit 16 bits.\<close>

definition port_inv :: "char list \<Rightarrow> http_host_state \<Rightarrow> nat \<Rightarrow> http_parser_url \<Rightarrow> bool" where
  "port_inv buf s p u \<longleftrightarrow>
     (UF_PORT \<in> field_set u \<longrightarrow>
        (let i = unat (uf_off (field_data u UF_PORT)); n = unat (uf_len (field_data u UF_PORT))
         in i + n \<le> p \<and> 0 < n \<and> (\<forall>j. i \<le> j \<and> j < i + n \<longrightarrow> IS_NUM (buf ! j)) \<and>
            (s = s_http_host_port \<longrightarrow> i + n = p))) \<and>
     (s = s_http_host_port \<longrightarrow> UF_PORT \<in> field_set u)"

lemma port_char: "http_parse_host_char s ch = s_http_host_port \<Longrightarrow> IS_NUM ch"
  by (cases s) (auto split: if_splits)

lemma port_step_inv:
  assumes "port_inv buf s p u" "http_parse_host_char s (buf ! p) = s'" "s' \<noteq> s_http_host_dead"
    "p < 65535"
  shows "port_inv buf s' (p + 1) (host_step s s' p u)"
proof (cases "s' = s_http_host_port")
  case True
  with assms(2) have num: "IS_NUM (buf ! p)" by (auto dest: port_char)
  show ?thesis
  proof (cases "s = s_http_host_port")
    case s: True
    let ?n = "uf_len (field_data u UF_PORT)"
    from s assms(1) have *: "unat (uf_off (field_data u UF_PORT)) + unat ?n = p" "0 < unat ?n"
      "\<forall>j. unat (uf_off (field_data u UF_PORT)) \<le> j \<and> j < p \<longrightarrow> IS_NUM (buf ! j)"
      "UF_PORT \<in> field_set u"
      by (auto simp: port_inv_def Let_def)
    then have "unat (?n + 1) = unat ?n + 1" using assms(4) by (simp add: unat_add_no_wrap)
    with * True s num show ?thesis
      by (auto simp: port_inv_def host_step_def Let_def less_Suc_eq)
  next
    case False
    have "unat (of_nat p :: uint16) = p" using assms(4) by (intro unat_of_nat_id) simp
    with True False num show ?thesis
      by (auto simp: port_inv_def host_step_def Let_def less_Suc_eq)
  qed
next
  case False
  then have "s \<noteq> s_http_host_port" using assms(2,3) by (auto split: if_splits)
  with False assms(1) show ?thesis
    by (auto simp: port_inv_def host_step_def Let_def)
qed

lemma host_loop_port:
  assumes "port_inv buf s p u" "host_loop s p chs u = (s', u')" "s' \<noteq> s_http_host_dead"
    "p + length chs \<le> length buf" "\<And>j. j < length chs \<Longrightarrow> chs ! j = buf ! (p + j)" "length buf < 65536"
  shows "port_inv buf s' (p + length chs) u'"
  using assms
proof (induction chs arbitrary: s p u)
  case (Cons ch chs)
  let ?s = "http_parse_host_char s ch"
  from Cons.prems have n: "?s \<noteq> s_http_host_dead" by (auto simp: Let_def split: if_splits)
  with Cons.prems have run: "host_loop ?s (p + 1) chs (host_step s ?s p u) = (s', u')" by (simp add: Let_def)
  from Cons.prems(5) [of 0] have ch: "ch = buf ! p" by simp
  have "port_inv buf ?s (p + 1) (host_step s ?s p u)"
    using port_step_inv [OF Cons.prems(1) _ n] ch Cons.prems(4,6) by simp
  from Cons.IH [OF this run Cons.prems(3)] Cons.prems(4,5,6) show ?case
    by (fastforce dest: spec [of _ "Suc _"])
qed simp

lemma http_parse_host_port:
  assumes "http_parse_host buf u found_at = Some (True, u')" "UF_PORT \<notin> field_set u"
    "length buf < 65536"
  shows "\<exists>s p. port_inv buf s p u' \<and> p \<le> length buf"
proof -
  let ?off = "unat (uf_off (field_data u UF_HOST))" and ?len = "unat (uf_len (field_data u UF_HOST))"
  let ?u = "upd_field UF_HOST (\<lambda>d. d\<lparr>uf_len := 0\<rparr>) u"
  let ?s = "if found_at then s_http_userinfo_start else s_http_host_start"
  let ?chs = "drop ?off (take (?off + ?len) buf)"
  from assms(1) obtain s' where run: "host_loop ?s ?off ?chs ?u = (s', u')" and acc: "host_accepts s'"
    and b: "?off + ?len \<le> length buf"
    by (auto simp: http_parse_host_def Let_def split: if_splits prod.splits)
  have "port_inv buf ?s ?off ?u" using assms(2) by (simp add: port_inv_def)
  moreover from acc have "s' \<noteq> s_http_host_dead" by (auto simp: host_accepts_def)
  moreover have len: "?off + length ?chs \<le> length buf" using b by simp
  moreover have "?chs ! j = buf ! (?off + j)" if "j < length ?chs" for j using that by simp
  ultimately have "port_inv buf s' (?off + length ?chs) u'" using run assms(3) by (intro host_loop_port)
  with len show ?thesis by blast
qed

lemma unat_ucast_fits: "n \<le> 0xffff \<Longrightarrow> unat (ucast (of_nat n :: uint64) :: uint16) = n"
  by (simp add: unsigned_ucast_eq unsigned_of_nat take_bit_nat_eq_self unsigned_take_bit_eq)

text \<open>A path of one repeated letter.\<close>

lemma path_letter: "parse_url_char s_req_path (CHR ''a'') = s_req_path"
  "parse_url_char s_req_spaces_before_url (CHR ''/'') = s_req_path"
  by code_simp+

lemma url_loop_path:
  "\<exists>u'. url_loop s_req_path UF_PATH fa p (replicate n (CHR ''a'')) u = Url_end fa u' \<and>
     field_set u' = field_set u \<and>
     uf_len (field_data u' UF_PATH) = uf_len (field_data u UF_PATH) + of_nat n"
proof (induction n arbitrary: p u)
  case (Suc n)
  from Suc [of "p + 1" "extend_field UF_PATH u"] show ?case
    by (simp add: Let_def path_letter url_class_of_def add.assoc)
qed simp

section \<open>Properties\<close>

text \<open>C38: \<^verbatim>\<open>http_parser_parse_url\<close> never fails an assertion and never reads outside the buffer, for a
  buffer of any length; when it succeeds, every component it reports lies inside the buffer.\<close>

theorem parse_url_safe:
  "\<exists>ok u'. http_parser_parse_url buf is_connect u = Some (ok, u') \<and>
     (\<not> ok \<or> (\<forall>f. f \<in> field_set u' \<longrightarrow>
        unat (uf_off (field_data u' f)) + unat (uf_len (field_data u' f)) \<le> length buf))"
  using parse_url_result [of buf is_connect u] ends_by_bound by (fastforce simp: fields_by_def)

theorem parse_url_safe_witness:
  "\<exists>ok u'. http_parser_parse_url ''http://h:80/p?q'' False http_parser_url_init = Some (ok, u') \<and>
     (\<not> ok \<or> (\<forall>f. f \<in> field_set u' \<longrightarrow>
        unat (uf_off (field_data u' f)) + unat (uf_len (field_data u' f)) \<le> 15))"
proof -
  have "length ''http://h:80/p?q'' = 15" by simp
  with parse_url_safe [of "''http://h:80/p?q''" False http_parser_url_init] show ?thesis by metis
qed

text \<open>The port of a URL that fits 16-bit offsets. When \<^verbatim>\<open>http_parser_parse_url\<close> succeeds and sets
  the port, the component is a non-empty string of digits and \<^verbatim>\<open>u->port\<close> is the number it stands for.\<close>

theorem parse_url_port:
  assumes "http_parser_parse_url buf is_connect u = Some (True, u')" "UF_PORT \<in> field_set u'"
    and "length buf < 65536"
  shows "\<exists>txt. txt = take (unat (uf_len (field_data u' UF_PORT)))
      (drop (unat (uf_off (field_data u' UF_PORT))) buf) \<and>
    txt \<noteq> [] \<and> (\<forall>ch. ch \<in> set txt \<longrightarrow> IS_NUM ch) \<and> unat (port u') = decimal 0 txt"
proof -
  from assms(1) obtain fa u1 u2
    where run: "url_loop (if is_connect then s_req_server_start else s_req_spaces_before_url) UF_MAX
        False 0 buf (u\<lparr>port := 0, field_set := {}\<rparr>) = Url_end fa u1"
      and host: "(if UF_HOST \<in> field_set u1 then http_parse_host buf u1 fa else Some (True, u1)) =
        Some (True, u2)"
      and port: "parse_port buf u2 = Some (True, u')"
    by (auto simp: http_parser_parse_url_def split: if_splits url_outcome.splits option.splits)
  let ?i = "unat (uf_off (field_data u' UF_PORT))" and ?n = "unat (uf_len (field_data u' UF_PORT))"
  let ?txt = "take ?n (drop ?i buf)"
  from port have same: "field_data u' = field_data u2" "field_set u' = field_set u2"
    by (auto simp: parse_port_def Let_def split: if_splits option.splits)
  with assms(2) parse_url_no_port [OF run] host have "http_parse_host buf u1 fa = Some (True, u2)"
    by (auto split: if_splits)
  from http_parse_host_port [OF this parse_url_no_port(1) [OF run] assms(3)] same assms(2)
  have inv: "?i + ?n \<le> length buf" "0 < ?n" "\<And>j. ?i \<le> j \<Longrightarrow> j < ?i + ?n \<Longrightarrow> IS_NUM (buf ! j)"
    by (auto simp: port_inv_def Let_def)
  then have num: "\<forall>ch \<in> set ?txt. IS_NUM ch" by (auto simp: in_set_conv_nth)
  have "unat (port u') = decimal 0 ?txt"
    using port same assms(2) port_loop_decimal [OF num, of 0]
    by (auto simp: parse_port_def Let_def unat_ucast_fits split: if_splits option.splits)
  with num inv show ?thesis by auto
qed

theorem parse_url_port_witness:
  "\<exists>u'. http_parser_parse_url ''http://h:8080/p'' False http_parser_url_init = Some (True, u') \<and>
     unat (port u') = 8080 \<and> decimal 0 ''8080'' = 8080"
proof -
  let ?res = "http_parser_parse_url ''http://h:8080/p'' False http_parser_url_init"
  have run: "(case ?res of Some (ok, u') \<Rightarrow> ok \<and> UF_PORT \<in> field_set u' \<and>
      field_data u' UF_PORT = \<lparr>uf_off = 9, uf_len = 4\<rparr> | None \<Rightarrow> False)"
    by code_simp
  then obtain u' where u': "?res = Some (True, u')" "UF_PORT \<in> field_set u'"
    "field_data u' UF_PORT = \<lparr>uf_off = 9, uf_len = 4\<rparr>"
    by (auto split: option.splits)
  from parse_url_port [OF u'(1,2)] u'(3) have "unat (port u') = decimal 0 ''8080''" by simp
  moreover have "decimal 0 ''8080'' = 8080" by (simp add: digit_def)
  ultimately show ?thesis using u'(1) by auto
qed

text \<open>The components are recorded with 16-bit lengths that wrap around: for the path \<^verbatim>\<open>/aa...a\<close> of
  any length \<^verbatim>\<open>http_parser_parse_url\<close> succeeds and reports the length modulo 65536, so that a path of
  65536 bytes is reported as present and empty.\<close>

theorem parse_url_long_path:
  "\<exists>u'. http_parser_parse_url (CHR ''/'' # replicate n (CHR ''a'')) False u = Some (True, u') \<and>
     field_set u' = {UF_PATH} \<and> unat (uf_len (field_data u' UF_PATH)) = (n + 1) mod 65536"
proof -
  let ?u = "open_field UF_PATH 0 1 (u\<lparr>port := 0, field_set := {}\<rparr>)"
  from url_loop_path [of False 1 n ?u] obtain u'
    where run: "url_loop s_req_path UF_PATH False 1 (replicate n (CHR ''a'')) ?u = Url_end False u'"
      "field_set u' = {UF_PATH}" "uf_len (field_data u' UF_PATH) = of_nat (n + 1)"
    by auto
  then have "http_parser_parse_url (CHR ''/'' # replicate n (CHR ''a'')) False u = Some (True, u')"
    by (simp add: http_parser_parse_url_def path_letter Let_def url_class_of_def parse_port_def)
  with run show ?thesis by (simp add: unat_of_nat del: of_nat_Suc)
qed

end
