(* ===== verification/Http_Exec.thy ===== *)
theory Http_Exec
  imports Http_Types Http_Url
begin

text \<open>
  \<^verbatim>\<open>http_parser_execute\<close> and the other entry points of \<^verbatim>\<open>examples/http/http_parser.c\<close>.

  The locals of \<^verbatim>\<open>http_parser_execute\<close> are the record \<open>ctx\<close>; the pointer \<^verbatim>\<open>p\<close> and the marks are
  offsets into \<^verbatim>\<open>data\<close>. What one pass through the \<^verbatim>\<open>switch\<close> does next is an \<open>outcome\<close>: leave the
  switch and advance (\<^verbatim>\<open>break\<close>), run the switch again on the same byte (\<^verbatim>\<open>REEXECUTE\<close>), return from
  the function, jump to the label \<^verbatim>\<open>error\<close>, or abort, because an assertion fails or a read is outside
  the data or a string. One definition models one group of \<^verbatim>\<open>case\<close> labels. The macros that can
  leave the function take the rest of the case as a continuation.

  A callback is any function on the parser, so it can also change the private field \<^verbatim>\<open>state\<close> and make
  the parser run the switch again for ever: the loop \<open>exec_loop\<close> counts the passes with fuel, and the
  termination theorem gives the fuel that is enough when callbacks leave the private fields alone.
\<close>

section \<open>Execution context\<close>

datatype mark = M_header_field | M_header_value | M_url | M_body | M_status

record 'a env =
  e_settings :: "'a http_parser_settings"
  e_data :: "char list"
  e_lenient :: bool
  e_allow_chunked_length :: bool
  e_max_header_size :: uint32

record 'a ctx =
  x_parser :: "'a http_parser"
  x_p :: nat
  x_ch :: char
  x_state :: state
  x_nread :: uint32
  x_marks :: "mark \<Rightarrow> nat option"

datatype abort_reason = AssertionFailed | ReadOutOfBounds

datatype 'a outcome =
    Break "'a ctx"
  | Reexecute "'a ctx"
  | Return nat "'a http_parser"
  | Goto_error "'a ctx"
  | Abort abort_reason

definition upd :: "('a http_parser \<Rightarrow> 'a http_parser) \<Rightarrow> 'a ctx \<Rightarrow> 'a ctx" where
  "upd f c = c\<lparr>x_parser := f (x_parser c)\<rparr>"

definition UPDATE_STATE :: "state \<Rightarrow> 'a ctx \<Rightarrow> 'a ctx" where
  "UPDATE_STATE s c = c\<lparr>x_state := s\<rparr>"

section \<open>Macros\<close>

definition SET_ERRNO :: "http_errno \<Rightarrow> 'a ctx \<Rightarrow> 'a ctx" where
  "SET_ERRNO err c = upd (\<lambda>q. q\<lparr>hp_nread := x_nread c, hp_errno := err\<rparr>) c"

text \<open>\<^verbatim>\<open>SET_ERRNO(e); goto error;\<close>\<close>

definition fail :: "http_errno \<Rightarrow> 'a ctx \<Rightarrow> 'a outcome" where
  "fail err c = Goto_error (SET_ERRNO err c)"

definition RETURN :: "nat \<Rightarrow> 'a ctx \<Rightarrow> 'a outcome" where
  "RETURN v c = Return v ((x_parser c)\<lparr>hp_nread := x_nread c, hp_state := x_state c\<rparr>)"

definition assert_that :: "bool \<Rightarrow> 'a outcome \<Rightarrow> 'a outcome" where
  "assert_that b k = (if b then k else Abort AssertionFailed)"

definition STRICT_CHECK :: "bool \<Rightarrow> 'a ctx \<Rightarrow> 'a outcome \<Rightarrow> 'a outcome" where
  "STRICT_CHECK cond c k = (if cond then fail HPE_STRICT c else k)"

definition CALLBACK_NOTIFY_ER ::
    "'a http_cb option \<Rightarrow> http_errno \<Rightarrow> nat \<Rightarrow> 'a ctx \<Rightarrow> ('a ctx \<Rightarrow> 'a outcome) \<Rightarrow> 'a outcome" where
  "CALLBACK_NOTIFY_ER cb err er c k =
     assert_that (hp_errno (x_parser c) = HPE_OK)
       (case cb of
          None \<Rightarrow> k c
        | Some f \<Rightarrow>
            (let (r, q) = f ((x_parser c)\<lparr>hp_state := x_state c\<rparr>);
                 c1 = c\<lparr>x_parser := q\<rparr>;
                 c2 = (if r \<noteq> 0 then SET_ERRNO err c1 else c1);
                 c3 = UPDATE_STATE (hp_state (x_parser c2)) c2
             in if hp_errno (x_parser c3) \<noteq> HPE_OK then Return er (x_parser c3) else k c3))"

definition CALLBACK_NOTIFY ::
    "'a http_cb option \<Rightarrow> http_errno \<Rightarrow> 'a ctx \<Rightarrow> ('a ctx \<Rightarrow> 'a outcome) \<Rightarrow> 'a outcome" where
  "CALLBACK_NOTIFY cb err c k = CALLBACK_NOTIFY_ER cb err (x_p c + 1) c k"

definition CALLBACK_NOTIFY_NOADVANCE ::
    "'a http_cb option \<Rightarrow> http_errno \<Rightarrow> 'a ctx \<Rightarrow> ('a ctx \<Rightarrow> 'a outcome) \<Rightarrow> 'a outcome" where
  "CALLBACK_NOTIFY_NOADVANCE cb err c k = CALLBACK_NOTIFY_ER cb err (x_p c) c k"

primrec data_cb :: "mark \<Rightarrow> 'a http_parser_settings \<Rightarrow> 'a http_data_cb option" where
  "data_cb M_header_field s = on_header_field s"
| "data_cb M_header_value s = on_header_value s"
| "data_cb M_url s = on_url s"
| "data_cb M_body s = on_body s"
| "data_cb M_status s = on_status s"

primrec data_errno :: "mark \<Rightarrow> http_errno" where
  "data_errno M_header_field = HPE_CB_header_field"
| "data_errno M_header_value = HPE_CB_header_value"
| "data_errno M_url = HPE_CB_url"
| "data_errno M_body = HPE_CB_body"
| "data_errno M_status = HPE_CB_status"

text \<open>
  \<^verbatim>\<open>CALLBACK_DATA_(FOR, LEN, ER)\<close>: \<open>stop\<close> is the offset where the range ends, so \<^verbatim>\<open>LEN\<close> is
  \<^verbatim>\<open>stop - FOR_mark\<close>. A range that is not inside the data aborts the model.
\<close>

definition CALLBACK_DATA_ER ::
    "mark \<Rightarrow> nat \<Rightarrow> nat \<Rightarrow> 'a env \<Rightarrow> 'a ctx \<Rightarrow> ('a ctx \<Rightarrow> 'a outcome) \<Rightarrow> 'a outcome" where
  "CALLBACK_DATA_ER m stop er e c k =
     assert_that (hp_errno (x_parser c) = HPE_OK)
       (case x_marks c m of
          None \<Rightarrow> k c
        | Some start \<Rightarrow>
            (let finish = (\<lambda>c'. k (c'\<lparr>x_marks := (x_marks c')(m := None)\<rparr>))
             in case data_cb m (e_settings e) of
                  None \<Rightarrow> finish c
                | Some f \<Rightarrow>
                    if start > stop \<or> stop > length (e_data e) then Abort ReadOutOfBounds
                    else
                      (let (r, q) = f ((x_parser c)\<lparr>hp_state := x_state c\<rparr>)
                                      (take (stop - start) (drop start (e_data e)));
                           c1 = c\<lparr>x_parser := q\<rparr>;
                           c2 = (if r \<noteq> 0 then SET_ERRNO (data_errno m) c1 else c1);
                           c3 = UPDATE_STATE (hp_state (x_parser c2)) c2
                       in if hp_errno (x_parser c3) \<noteq> HPE_OK then Return er (x_parser c3)
                          else finish c3)))"

definition CALLBACK_DATA :: "mark \<Rightarrow> 'a env \<Rightarrow> 'a ctx \<Rightarrow> ('a ctx \<Rightarrow> 'a outcome) \<Rightarrow> 'a outcome" where
  "CALLBACK_DATA m e c k = CALLBACK_DATA_ER m (x_p c) (x_p c + 1) e c k"

definition CALLBACK_DATA_NOADVANCE ::
    "mark \<Rightarrow> 'a env \<Rightarrow> 'a ctx \<Rightarrow> ('a ctx \<Rightarrow> 'a outcome) \<Rightarrow> 'a outcome" where
  "CALLBACK_DATA_NOADVANCE m e c k = CALLBACK_DATA_ER m (x_p c) (x_p c) e c k"

definition MARK :: "mark \<Rightarrow> 'a ctx \<Rightarrow> 'a ctx" where
  "MARK m c =
     (case x_marks c m of
        None \<Rightarrow> c\<lparr>x_marks := (x_marks c)(m := Some (x_p c))\<rparr>
      | Some _ \<Rightarrow> c)"

definition COUNT_HEADER_SIZE ::
    "nat \<Rightarrow> 'a env \<Rightarrow> 'a ctx \<Rightarrow> ('a ctx \<Rightarrow> 'a outcome) \<Rightarrow> 'a outcome" where
  "COUNT_HEADER_SIZE v e c k =
     (let c' = c\<lparr>x_nread := x_nread c + of_nat v\<rparr>
      in if x_nread c' > e_max_header_size e then fail HPE_HEADER_OVERFLOW c' else k c')"

section \<open>Keep-alive\<close>

definition http_message_needs_eof :: "'a http_parser \<Rightarrow> bool" where
  "http_message_needs_eof q =
     (if hp_type q = HTTP_REQUEST then False
      else if hp_status_code q div 100 = 1 \<or> hp_status_code q = 204 \<or> hp_status_code q = 304 \<or>
              has_flag (hp_flags q) F_SKIPBODY
      then False
      else if hp_uses_transfer_encoding q \<and> \<not> has_flag (hp_flags q) F_CHUNKED then True
      else if has_flag (hp_flags q) F_CHUNKED \<or> hp_content_length q \<noteq> ULLONG_MAX then False
      else True)"

definition http_should_keep_alive :: "'a http_parser \<Rightarrow> bool" where
  "http_should_keep_alive q =
     (if hp_http_major q > 0 \<and> hp_http_minor q > 0
      then (if has_flag (hp_flags q) F_CONNECTION_CLOSE then False
            else \<not> http_message_needs_eof q)
      else (if \<not> has_flag (hp_flags q) F_CONNECTION_KEEP_ALIVE then False
            else \<not> http_message_needs_eof q))"

definition start_state :: "'a http_parser \<Rightarrow> state" where
  "start_state q = (if hp_type q = HTTP_REQUEST then s_start_req else s_start_res)"

definition NEW_MESSAGE :: "'a http_parser \<Rightarrow> state" where
  "NEW_MESSAGE q = (if http_should_keep_alive q then start_state q else s_dead)"

definition NEW_MESSAGE_state :: "'a ctx \<Rightarrow> 'a ctx" where
  "NEW_MESSAGE_state c = UPDATE_STATE (NEW_MESSAGE (x_parser c)) c"

section \<open>The states of the request and response line\<close>

definition reset_message :: "'a http_parser \<Rightarrow> 'a http_parser" where
  "reset_message q =
     q\<lparr>hp_flags := 0, hp_uses_transfer_encoding := False, hp_content_length := ULLONG_MAX\<rparr>"

definition exec_dead :: "'a env \<Rightarrow> 'a ctx \<Rightarrow> 'a outcome" where
  "exec_dead e c =
     (if x_ch c = CR \<or> x_ch c = LF then Break c else fail HPE_CLOSED_CONNECTION c)"

definition exec_start_req_or_res :: "'a env \<Rightarrow> 'a ctx \<Rightarrow> 'a outcome" where
  "exec_start_req_or_res e c =
     (if x_ch c = CR \<or> x_ch c = LF then Break c
      else let c1 = upd reset_message c in
        if x_ch c = CHR ''H''
        then CALLBACK_NOTIFY (on_message_begin (e_settings e)) HPE_CB_message_begin
               (UPDATE_STATE s_res_or_resp_H c1) Break
        else Reexecute (UPDATE_STATE s_start_req (upd (\<lambda>q. q\<lparr>hp_type := HTTP_REQUEST\<rparr>) c1)))"

definition exec_res_or_resp_H :: "'a env \<Rightarrow> 'a ctx \<Rightarrow> 'a outcome" where
  "exec_res_or_resp_H e c =
     (if x_ch c = CHR ''T''
      then Break (UPDATE_STATE s_res_HT (upd (\<lambda>q. q\<lparr>hp_type := HTTP_RESPONSE\<rparr>) c))
      else if x_ch c \<noteq> CHR ''E'' then fail HPE_INVALID_CONSTANT c
      else Break (UPDATE_STATE s_req_method
             (upd (\<lambda>q. q\<lparr>hp_type := HTTP_REQUEST, hp_method := HTTP_HEAD, hp_index := 2\<rparr>) c)))"

definition exec_start_res :: "'a env \<Rightarrow> 'a ctx \<Rightarrow> 'a outcome" where
  "exec_start_res e c =
     (if x_ch c = CR \<or> x_ch c = LF then Break c
      else let c1 = upd reset_message c in
        if x_ch c = CHR ''H''
        then CALLBACK_NOTIFY (on_message_begin (e_settings e)) HPE_CB_message_begin
               (UPDATE_STATE s_res_H c1) Break
        else fail HPE_INVALID_CONSTANT c1)"

text \<open>The states that expect one fixed character and then go on, in strict mode.\<close>

definition exec_expect :: "char \<Rightarrow> state \<Rightarrow> 'a ctx \<Rightarrow> 'a outcome" where
  "exec_expect ch next_state c =
     STRICT_CHECK (x_ch c \<noteq> ch) c (Break (UPDATE_STATE next_state c))"

definition exec_res_HTTP :: "'a env \<Rightarrow> 'a ctx \<Rightarrow> 'a outcome" where
  "exec_res_HTTP e c =
     (if x_state c = s_res_H then exec_expect (CHR ''T'') s_res_HT c
      else if x_state c = s_res_HT then exec_expect (CHR ''T'') s_res_HTT c
      else if x_state c = s_res_HTT then exec_expect (CHR ''P'') s_res_HTTP c
      else exec_expect (CHR ''/'') s_res_http_major c)"

definition exec_res_version :: "'a env \<Rightarrow> 'a ctx \<Rightarrow> 'a outcome" where
  "exec_res_version e c =
     (if x_state c = s_res_http_major then
        (if \<not> IS_NUM (x_ch c) then fail HPE_INVALID_VERSION c
         else Break (UPDATE_STATE s_res_http_dot
                (upd (\<lambda>q. q\<lparr>hp_http_major := of_nat (digit (x_ch c))\<rparr>) c)))
      else if x_state c = s_res_http_dot then
        (if x_ch c \<noteq> CHR ''.'' then fail HPE_INVALID_VERSION c
         else Break (UPDATE_STATE s_res_http_minor c))
      else if x_state c = s_res_http_minor then
        (if \<not> IS_NUM (x_ch c) then fail HPE_INVALID_VERSION c
         else Break (UPDATE_STATE s_res_http_end
                (upd (\<lambda>q. q\<lparr>hp_http_minor := of_nat (digit (x_ch c))\<rparr>) c)))
      else
        (if x_ch c \<noteq> CHR 0x20 then fail HPE_INVALID_VERSION c
         else Break (UPDATE_STATE s_res_first_status_code c)))"

definition exec_res_first_status_code :: "'a env \<Rightarrow> 'a ctx \<Rightarrow> 'a outcome" where
  "exec_res_first_status_code e c =
     (if \<not> IS_NUM (x_ch c) then
        (if x_ch c = CHR 0x20 then Break c else fail HPE_INVALID_STATUS c)
      else Break (UPDATE_STATE s_res_status_code
             (upd (\<lambda>q. q\<lparr>hp_status_code := of_nat (digit (x_ch c))\<rparr>) c)))"

definition exec_res_status_code :: "'a env \<Rightarrow> 'a ctx \<Rightarrow> 'a outcome" where
  "exec_res_status_code e c =
     (if \<not> IS_NUM (x_ch c) then
        (if x_ch c = CHR 0x20 then Break (UPDATE_STATE s_res_status_start c)
         else if x_ch c = CR \<or> x_ch c = LF then Reexecute (UPDATE_STATE s_res_status_start c)
         else fail HPE_INVALID_STATUS c)
      else
        let c1 = upd (\<lambda>q. q\<lparr>hp_status_code := hp_status_code q * 10 + of_nat (digit (x_ch c))\<rparr>) c
        in if hp_status_code (x_parser c1) > 999 then fail HPE_INVALID_STATUS c1 else Break c1)"

definition exec_res_status_start :: "'a env \<Rightarrow> 'a ctx \<Rightarrow> 'a outcome" where
  "exec_res_status_start e c =
     (let c1 = upd (\<lambda>q. q\<lparr>hp_index := 0\<rparr>) (UPDATE_STATE s_res_status (MARK M_status c))
      in if x_ch c = CR \<or> x_ch c = LF then Reexecute c1 else Break c1)"

definition exec_res_status :: "'a env \<Rightarrow> 'a ctx \<Rightarrow> 'a outcome" where
  "exec_res_status e c =
     (if x_ch c = CR
      then CALLBACK_DATA M_status e (UPDATE_STATE s_res_line_almost_done c) Break
      else if x_ch c = LF
      then CALLBACK_DATA M_status e (UPDATE_STATE s_header_field_start c) Break
      else Break c)"

definition exec_res_line_almost_done :: "'a env \<Rightarrow> 'a ctx \<Rightarrow> 'a outcome" where
  "exec_res_line_almost_done e c = exec_expect LF s_header_field_start c"

text \<open>The method the first letter of a request stands for.\<close>

definition start_method :: "char \<Rightarrow> http_method option" where
  "start_method ch =
     map_of
       [(CHR ''A'', HTTP_ACL), (CHR ''B'', HTTP_BIND), (CHR ''C'', HTTP_CONNECT),
        (CHR ''D'', HTTP_DELETE), (CHR ''G'', HTTP_GET), (CHR ''H'', HTTP_HEAD),
        (CHR ''L'', HTTP_LOCK), (CHR ''M'', HTTP_MKCOL), (CHR ''N'', HTTP_NOTIFY),
        (CHR ''O'', HTTP_OPTIONS), (CHR ''P'', HTTP_POST), (CHR ''R'', HTTP_REPORT),
        (CHR ''S'', HTTP_SUBSCRIBE), (CHR ''T'', HTTP_TRACE), (CHR ''U'', HTTP_UNLOCK)] ch"

definition exec_start_req :: "'a env \<Rightarrow> 'a ctx \<Rightarrow> 'a outcome" where
  "exec_start_req e c =
     (if x_ch c = CR \<or> x_ch c = LF then Break c
      else let c1 = upd reset_message c in
        if \<not> IS_ALPHA (x_ch c) then fail HPE_INVALID_METHOD c1
        else let c2 = upd (\<lambda>q. q\<lparr>hp_method := HTTP_DELETE, hp_index := 1\<rparr>) c1 in
          case start_method (x_ch c) of
            None \<Rightarrow> fail HPE_INVALID_METHOD c2
          | Some m \<Rightarrow>
              CALLBACK_NOTIFY (on_message_begin (e_settings e)) HPE_CB_message_begin
                (UPDATE_STATE s_req_method (upd (\<lambda>q. q\<lparr>hp_method := m\<rparr>) c2)) Break)"

text \<open>A string constant with its terminating zero.\<close>

definition cstr :: "string \<Rightarrow> nat \<Rightarrow> char" where
  "cstr str i = (if i < length str then str ! i else CHR 0x00)"

text \<open>Where the letters read so far fit several methods, the letter that decides for another one.\<close>

definition method_switch :: "((http_method \<times> nat \<times> char) \<times> http_method) list" where
  "method_switch =
     [((HTTP_POST, 1, CHR ''U''), HTTP_PUT), ((HTTP_POST, 1, CHR ''A''), HTTP_PATCH),
      ((HTTP_POST, 1, CHR ''R''), HTTP_PROPFIND), ((HTTP_PUT, 2, CHR ''R''), HTTP_PURGE),
      ((HTTP_CONNECT, 1, CHR ''H''), HTTP_CHECKOUT), ((HTTP_CONNECT, 2, CHR ''P''), HTTP_COPY),
      ((HTTP_MKCOL, 1, CHR ''O''), HTTP_MOVE), ((HTTP_MKCOL, 1, CHR ''E''), HTTP_MERGE),
      ((HTTP_MKCOL, 1, CHR ''-''), HTTP_MSEARCH), ((HTTP_MKCOL, 2, CHR ''A''), HTTP_MKACTIVITY),
      ((HTTP_MKCOL, 3, CHR ''A''), HTTP_MKCALENDAR), ((HTTP_SUBSCRIBE, 1, CHR ''E''), HTTP_SEARCH),
      ((HTTP_SUBSCRIBE, 1, CHR ''O''), HTTP_SOURCE), ((HTTP_REPORT, 2, CHR ''B''), HTTP_REBIND),
      ((HTTP_PROPFIND, 4, CHR ''P''), HTTP_PROPPATCH), ((HTTP_LOCK, 1, CHR ''I''), HTTP_LINK),
      ((HTTP_UNLOCK, 2, CHR ''S''), HTTP_UNSUBSCRIBE), ((HTTP_UNLOCK, 2, CHR ''B''), HTTP_UNBIND),
      ((HTTP_UNLOCK, 3, CHR ''I''), HTTP_UNLINK)]"

text \<open>The read \<^verbatim>\<open>matcher[parser->index]\<close> is inside the string when the index is at most its length,
  where the terminating zero is.\<close>

definition exec_req_method :: "'a env \<Rightarrow> 'a ctx \<Rightarrow> 'a outcome" where
  "exec_req_method e c =
     (let q = x_parser c;
          matcher = HTTP_METHOD_MAP (hp_method q);
          i = unat (hp_index q);
          next_index = upd (\<lambda>q. q\<lparr>hp_index := hp_index q + 1\<rparr>)
      in if x_ch c = CHR 0x00 then fail HPE_INVALID_METHOD c
         else if i > length matcher then Abort ReadOutOfBounds
         else if x_ch c = CHR 0x20 \<and> cstr matcher i = CHR 0x00
           then Break (next_index (UPDATE_STATE s_req_spaces_before_url c))
         else if x_ch c = cstr matcher i then Break (next_index c)
         else if in_range (CHR ''A'') (x_ch c) (CHR ''Z'') \<or> x_ch c = CHR ''-'' then
           (case map_of method_switch (hp_method q, i, x_ch c) of
              None \<Rightarrow> fail HPE_INVALID_METHOD c
            | Some m \<Rightarrow> Break (next_index (upd (\<lambda>q. q\<lparr>hp_method := m\<rparr>) c)))
         else fail HPE_INVALID_METHOD c)"

definition exec_url_char :: "'a ctx \<Rightarrow> 'a outcome" where
  "exec_url_char c =
     (let c1 = UPDATE_STATE (parse_url_char (x_state c) (x_ch c)) c
      in if x_state c1 = s_dead then fail HPE_INVALID_URL c1 else Break c1)"

definition exec_req_spaces_before_url :: "'a env \<Rightarrow> 'a ctx \<Rightarrow> 'a outcome" where
  "exec_req_spaces_before_url e c =
     (if x_ch c = CHR 0x20 then Break c
      else let c1 = MARK M_url c;
               c2 = (if hp_method (x_parser c1) = HTTP_CONNECT
                     then UPDATE_STATE s_req_server_start c1 else c1)
           in exec_url_char c2)"

definition exec_req_schema :: "'a env \<Rightarrow> 'a ctx \<Rightarrow> 'a outcome" where
  "exec_req_schema e c =
     (if x_ch c = CHR 0x20 \<or> x_ch c = CR \<or> x_ch c = LF then fail HPE_INVALID_URL c
      else exec_url_char c)"

definition exec_req_url :: "'a env \<Rightarrow> 'a ctx \<Rightarrow> 'a outcome" where
  "exec_req_url e c =
     (if x_ch c = CHR 0x20 then CALLBACK_DATA M_url e (UPDATE_STATE s_req_http_start c) Break
      else if x_ch c = CR \<or> x_ch c = LF then
        CALLBACK_DATA M_url e
          (UPDATE_STATE (if x_ch c = CR then s_req_line_almost_done else s_header_field_start)
            (upd (\<lambda>q. q\<lparr>hp_http_major := 0, hp_http_minor := 9\<rparr>) c)) Break
      else exec_url_char c)"

definition exec_req_http_start :: "'a env \<Rightarrow> 'a ctx \<Rightarrow> 'a outcome" where
  "exec_req_http_start e c =
     (if x_ch c = CHR 0x20 then Break c
      else if x_ch c = CHR ''H'' then Break (UPDATE_STATE s_req_http_H c)
      else if x_ch c = CHR ''I'' \<and> hp_method (x_parser c) = HTTP_SOURCE
        then Break (UPDATE_STATE s_req_http_I c)
      else fail HPE_INVALID_CONSTANT c)"

definition exec_req_HTTP :: "'a env \<Rightarrow> 'a ctx \<Rightarrow> 'a outcome" where
  "exec_req_HTTP e c =
     (if x_state c = s_req_http_H then exec_expect (CHR ''T'') s_req_http_HT c
      else if x_state c = s_req_http_HT then exec_expect (CHR ''T'') s_req_http_HTT c
      else if x_state c = s_req_http_HTT then exec_expect (CHR ''P'') s_req_http_HTTP c
      else if x_state c = s_req_http_I then exec_expect (CHR ''C'') s_req_http_IC c
      else if x_state c = s_req_http_IC then exec_expect (CHR ''E'') s_req_http_HTTP c
      else exec_expect (CHR ''/'') s_req_http_major c)"

definition exec_req_version :: "'a env \<Rightarrow> 'a ctx \<Rightarrow> 'a outcome" where
  "exec_req_version e c =
     (if x_state c = s_req_http_major then
        (if \<not> IS_NUM (x_ch c) then fail HPE_INVALID_VERSION c
         else Break (UPDATE_STATE s_req_http_dot
                (upd (\<lambda>q. q\<lparr>hp_http_major := of_nat (digit (x_ch c))\<rparr>) c)))
      else if x_state c = s_req_http_dot then
        (if x_ch c \<noteq> CHR ''.'' then fail HPE_INVALID_VERSION c
         else Break (UPDATE_STATE s_req_http_minor c))
      else if x_state c = s_req_http_minor then
        (if \<not> IS_NUM (x_ch c) then fail HPE_INVALID_VERSION c
         else Break (UPDATE_STATE s_req_http_end
                (upd (\<lambda>q. q\<lparr>hp_http_minor := of_nat (digit (x_ch c))\<rparr>) c)))
      else
        (if x_ch c = CR then Break (UPDATE_STATE s_req_line_almost_done c)
         else if x_ch c = LF then Break (UPDATE_STATE s_header_field_start c)
         else fail HPE_INVALID_VERSION c))"

definition exec_req_line_almost_done :: "'a env \<Rightarrow> 'a ctx \<Rightarrow> 'a outcome" where
  "exec_req_line_almost_done e c =
     (if x_ch c \<noteq> LF then fail HPE_LF_EXPECTED c
      else Break (UPDATE_STATE s_header_field_start c))"

section \<open>Header names\<close>

definition exec_header_field_start :: "'a env \<Rightarrow> 'a ctx \<Rightarrow> 'a outcome" where
  "exec_header_field_start e c =
     (if x_ch c = CR then Break (UPDATE_STATE s_headers_almost_done c)
      else if x_ch c = LF then Reexecute (UPDATE_STATE s_headers_almost_done c)
      else let tk = TOKEN (x_ch c) in
        if tk = CHR 0x00 then fail HPE_INVALID_HEADER_TOKEN c
        else Break (upd (\<lambda>q. q\<lparr>hp_header_state :=
                 (if tk = CHR ''c'' then h_C
                  else if tk = CHR ''p'' then h_matching_proxy_connection
                  else if tk = CHR ''t'' then h_matching_transfer_encoding
                  else if tk = CHR ''u'' then h_matching_upgrade
                  else h_general)\<rparr>)
               (UPDATE_STATE s_header_field (upd (\<lambda>q. q\<lparr>hp_index := 0\<rparr>) (MARK M_header_field c)))))"

text \<open>Comparing one more letter with a constant name, after the index has been incremented.\<close>

datatype match_result = Mismatch | Partial | Full

definition match_at :: "string \<Rightarrow> 5 word \<Rightarrow> char \<Rightarrow> match_result" where
  "match_at str i tk =
     (if unat i > length str \<or> tk \<noteq> cstr str (unat i) then Mismatch
      else if unat i = length str - 1 then Full
      else Partial)"

definition bump_index :: "'a http_parser \<Rightarrow> 'a http_parser" where
  "bump_index q = q\<lparr>hp_index := hp_index q + 1\<rparr>"

definition match_name :: "string \<Rightarrow> header_states \<Rightarrow> char \<Rightarrow> 'a http_parser \<Rightarrow> 'a http_parser" where
  "match_name str full tk q =
     (let q1 = bump_index q
      in case match_at str (hp_index q1) tk of
           Mismatch \<Rightarrow> q1\<lparr>hp_header_state := h_general\<rparr>
         | Partial \<Rightarrow> q1
         | Full \<Rightarrow> q1\<lparr>hp_header_state := full\<rparr>)"

text \<open>\<^verbatim>\<open>while (p+1 < pe && TOKEN(p[1])) p++;\<close>\<close>

function skip_token :: "char list \<Rightarrow> nat \<Rightarrow> nat \<Rightarrow> nat" where
  "skip_token data pe p =
     (if p + 1 < pe \<and> TOKEN (data ! (p + 1)) \<noteq> CHR 0x00 then skip_token data pe (p + 1) else p)"
  by pat_completeness auto
termination
  by (relation "measure (\<lambda>(data, pe, p). pe - p)") auto

declare skip_token.simps [simp del]

lemma skip_token_ge: "p \<le> skip_token data pe p"
  by (induction data pe p rule: skip_token.induct) (subst skip_token.simps, auto)

text \<open>One pass of the loop over the header name: the parser and the position before \<^verbatim>\<open>p++\<close>, or
  \<open>None\<close> where the assertion on the header state fails.\<close>

definition header_field_step ::
    "'a env \<Rightarrow> 'a http_parser \<Rightarrow> nat \<Rightarrow> char \<Rightarrow> char \<Rightarrow> ('a http_parser \<times> nat) option" where
  "header_field_step e q p ch tk =
     (case hp_header_state q of
        h_general \<Rightarrow>
          Some (q, skip_token (e_data e)
                     (p + min (length (e_data e) - p) (unat (e_max_header_size e))) p)
      | h_C \<Rightarrow>
          Some ((bump_index q)\<lparr>hp_header_state := (if tk = CHR ''o'' then h_CO else h_general)\<rparr>, p)
      | h_CO \<Rightarrow>
          Some ((bump_index q)\<lparr>hp_header_state := (if tk = CHR ''n'' then h_CON else h_general)\<rparr>, p)
      | h_CON \<Rightarrow>
          Some ((bump_index q)\<lparr>hp_header_state :=
                  (if tk = CHR ''n'' then h_matching_connection
                   else if tk = CHR ''t'' then h_matching_content_length
                   else h_general)\<rparr>, p)
      | h_matching_connection \<Rightarrow> Some (match_name CONNECTION h_connection tk q, p)
      | h_matching_proxy_connection \<Rightarrow> Some (match_name PROXY_CONNECTION h_connection tk q, p)
      | h_matching_content_length \<Rightarrow> Some (match_name CONTENT_LENGTH h_content_length tk q, p)
      | h_matching_transfer_encoding \<Rightarrow>
          (let q1 = match_name TRANSFER_ENCODING h_transfer_encoding tk q
           in Some (if hp_header_state q1 = h_transfer_encoding
                    then q1\<lparr>hp_uses_transfer_encoding := True\<rparr> else q1, p))
      | h_matching_upgrade \<Rightarrow> Some (match_name UPGRADE h_upgrade tk q, p)
      | h_connection \<Rightarrow> Some (if ch \<noteq> CHR 0x20 then q\<lparr>hp_header_state := h_general\<rparr> else q, p)
      | h_content_length \<Rightarrow> Some (if ch \<noteq> CHR 0x20 then q\<lparr>hp_header_state := h_general\<rparr> else q, p)
      | h_transfer_encoding \<Rightarrow> Some (if ch \<noteq> CHR 0x20 then q\<lparr>hp_header_state := h_general\<rparr> else q, p)
      | h_upgrade \<Rightarrow> Some (if ch \<noteq> CHR 0x20 then q\<lparr>hp_header_state := h_general\<rparr> else q, p)
      | _ \<Rightarrow> None)"

lemma header_field_step_ge: "header_field_step e q p ch tk = Some (q', p') \<Longrightarrow> p \<le> p'"
  by (cases "hp_header_state q") (auto simp: header_field_step_def skip_token_ge Let_def)

text \<open>The loop: it ends at the end of the data or at the first byte that is not a token.\<close>

function header_field_loop ::
    "'a env \<Rightarrow> 'a http_parser \<Rightarrow> nat \<Rightarrow> char \<Rightarrow> ('a http_parser \<times> nat \<times> char) option" where
  "header_field_loop e q p ch =
     (if p < length (e_data e) then
        (let ch1 = e_data e ! p; tk = TOKEN ch1
         in if tk = CHR 0x00 then Some (q, p, ch1)
            else (case header_field_step e q p ch1 tk of
                    None \<Rightarrow> None
                  | Some (q1, p1) \<Rightarrow> header_field_loop e q1 (p1 + 1) ch1))
      else Some (q, p, ch))"
  by pat_completeness auto
termination
  by (relation "measure (\<lambda>(e, q, p, ch). length (e_data e) - p)")
    (auto dest!: header_field_step_ge)

declare header_field_loop.simps [simp del]

definition exec_header_field :: "'a env \<Rightarrow> 'a ctx \<Rightarrow> 'a outcome" where
  "exec_header_field e c =
     (let start = x_p c
      in case header_field_loop e (x_parser c) (x_p c) (x_ch c) of
           None \<Rightarrow> Abort AssertionFailed
         | Some (q, p, ch) \<Rightarrow>
             (let c1 = c\<lparr>x_parser := q, x_p := p, x_ch := ch\<rparr>
              in if p = length (e_data e)
                 then COUNT_HEADER_SIZE (p - 1 - start) e (c1\<lparr>x_p := p - 1\<rparr>) Break
                 else COUNT_HEADER_SIZE (p - start) e c1 (\<lambda>c2.
                        if ch = CHR '':''
                        then CALLBACK_DATA M_header_field e
                               (UPDATE_STATE s_header_value_discard_ws c2) Break
                        else fail HPE_INVALID_HEADER_TOKEN c2)))"

section \<open>Header values\<close>

definition exec_header_value_start :: "'a env \<Rightarrow> 'a ctx \<Rightarrow> 'a outcome" where
  "exec_header_value_start e c =
     (let c1 = upd (\<lambda>q. q\<lparr>hp_index := 0\<rparr>) (UPDATE_STATE s_header_value (MARK M_header_value c));
          lo = LOWER (x_ch c);
          goto = (\<lambda>h. Break (upd (\<lambda>q. q\<lparr>hp_header_state := h\<rparr>) c1))
      in case hp_header_state (x_parser c1) of
           h_upgrade \<Rightarrow>
             Break (upd (\<lambda>q. q\<lparr>hp_flags := hp_flags q OR F_UPGRADE, hp_header_state := h_general\<rparr>) c1)
         | h_transfer_encoding \<Rightarrow>
             goto (if lo = CHR ''c'' then h_matching_transfer_encoding_chunked
                   else h_matching_transfer_encoding_token)
         | h_matching_transfer_encoding_token_start \<Rightarrow> Break c1
         | h_content_length \<Rightarrow>
             (if \<not> IS_NUM (x_ch c) then fail HPE_INVALID_CONTENT_LENGTH c1
              else if has_flag (hp_flags (x_parser c1)) F_CONTENTLENGTH
                then fail HPE_UNEXPECTED_CONTENT_LENGTH c1
              else Break (upd (\<lambda>q. q\<lparr>hp_flags := hp_flags q OR F_CONTENTLENGTH,
                                     hp_content_length := of_nat (digit (x_ch c)),
                                     hp_header_state := h_content_length_num\<rparr>) c1))
         | h_content_length_ws \<Rightarrow> Break c1
         | h_connection \<Rightarrow>
             goto (if lo = CHR ''k'' then h_matching_connection_keep_alive
                   else if lo = CHR ''c'' then h_matching_connection_close
                   else if lo = CHR ''u'' then h_matching_connection_upgrade
                   else h_matching_connection_token)
         | h_matching_connection_token_start \<Rightarrow> Break c1
         | _ \<Rightarrow> goto h_general)"

definition exec_header_value_discard_ws :: "'a env \<Rightarrow> 'a ctx \<Rightarrow> 'a outcome" where
  "exec_header_value_discard_ws e c =
     (if x_ch c = CHR 0x20 \<or> x_ch c = CHR 0x09 then Break c
      else if x_ch c = CR then Break (UPDATE_STATE s_header_value_discard_ws_almost_done c)
      else if x_ch c = LF then Break (UPDATE_STATE s_header_value_discard_lws c)
      else exec_header_value_start e c)"

text \<open>The scan over a value nobody looks at: it ends at a line end, at a byte that may not occur in
  a value, or at the bound \<^verbatim>\<open>pe\<close>.\<close>

datatype scan_result = LineEnd nat | BadChar nat | AtBound

function scan_value :: "bool \<Rightarrow> char list \<Rightarrow> nat \<Rightarrow> nat \<Rightarrow> scan_result" where
  "scan_value lenient data pe p =
     (if p < pe then
        (if data ! p = CR \<or> data ! p = LF then LineEnd p
         else if \<not> lenient \<and> \<not> IS_HEADER_CHAR (data ! p) then BadChar p
         else scan_value lenient data pe (p + 1))
      else AtBound)"
  by pat_completeness auto
termination
  by (relation "measure (\<lambda>(lenient, data, pe, p). pe - p)") auto

declare scan_value.simps [simp del]

text \<open>At the bound the byte last read stays in \<^verbatim>\<open>ch\<close>, which nothing reads before the next byte replaces
  it; the model leaves \<open>x_ch\<close> as it was there.\<close>

definition header_value_general ::
    "'a env \<Rightarrow> 'a ctx \<Rightarrow> 'a outcome + (header_states \<times> 'a ctx)" where
  "header_value_general e c =
     (let p = x_p c;
          len = length (e_data e);
          pe = p + min (len - p) (unat (e_max_header_size e))
      in case scan_value (e_lenient e) (e_data e) pe p of
           LineEnd i \<Rightarrow> Inr (h_general, c\<lparr>x_p := i - 1, x_ch := e_data e ! i\<rparr>)
         | BadChar i \<Rightarrow> Inl (fail HPE_INVALID_HEADER_TOKEN (c\<lparr>x_p := i, x_ch := e_data e ! i\<rparr>))
         | AtBound \<Rightarrow> Inr (h_general, c\<lparr>x_p := (if pe = len then len - 1 else pe)\<rparr>))"

definition fail_content_length :: "header_states \<Rightarrow> 'a ctx \<Rightarrow> 'a outcome" where
  "fail_content_length h c =
     Goto_error (upd (\<lambda>q. q\<lparr>hp_header_state := h\<rparr>) (SET_ERRNO HPE_INVALID_CONTENT_LENGTH c))"

definition header_value_content_length_num ::
    "'a ctx \<Rightarrow> 'a outcome + (header_states \<times> 'a ctx)" where
  "header_value_content_length_num c =
     (let cl = hp_content_length (x_parser c);
          t = cl * 10 + of_nat (digit (x_ch c))
      in if x_ch c = CHR 0x20 then Inr (h_content_length_ws, c)
         else if \<not> IS_NUM (x_ch c) then Inl (fail_content_length h_content_length_num c)
         else if (ULLONG_MAX - 10) div 10 < cl then Inl (fail_content_length h_content_length_num c)
         else Inr (h_content_length_num, upd (\<lambda>q. q\<lparr>hp_content_length := t\<rparr>) c))"

text \<open>Comparing one more letter of a value token with a constant.\<close>

definition match_value ::
    "string \<Rightarrow> header_states \<Rightarrow> header_states \<Rightarrow> header_states \<Rightarrow> char \<Rightarrow> 'a ctx \<Rightarrow>
     header_states \<times> 'a ctx" where
  "match_value str this full other lo c =
     (let c1 = upd bump_index c
      in (case match_at str (hp_index (x_parser c1)) lo of
            Mismatch \<Rightarrow> other | Partial \<Rightarrow> this | Full \<Rightarrow> full, c1))"

definition reset_index :: "'a ctx \<Rightarrow> 'a ctx" where
  "reset_index c = upd (\<lambda>q. q\<lparr>hp_index := 0\<rparr>) c"

definition set_flag :: "uint8 \<Rightarrow> 'a ctx \<Rightarrow> 'a ctx" where
  "set_flag f c = upd (\<lambda>q. q\<lparr>hp_flags := hp_flags q OR f\<rparr>) c"

definition header_value_step ::
    "'a env \<Rightarrow> header_states \<Rightarrow> 'a ctx \<Rightarrow> 'a outcome + (header_states \<times> 'a ctx)" where
  "header_value_step e h c =
     (let ch = x_ch c; lo = LOWER ch
      in case h of
           h_general \<Rightarrow> header_value_general e c
         | h_connection \<Rightarrow> Inl (Abort AssertionFailed)
         | h_transfer_encoding \<Rightarrow> Inl (Abort AssertionFailed)
         | h_content_length \<Rightarrow>
             (if ch = CHR 0x20 then Inr (h, c) else header_value_content_length_num c)
         | h_content_length_num \<Rightarrow> header_value_content_length_num c
         | h_content_length_ws \<Rightarrow>
             (if ch = CHR 0x20 then Inr (h, c) else Inl (fail_content_length h c))
         | h_matching_transfer_encoding_token_start \<Rightarrow>
             Inr (if lo = CHR ''c'' then h_matching_transfer_encoding_chunked
                  else if STRICT_TOKEN lo \<noteq> CHR 0x00 then h_matching_transfer_encoding_token
                  else if lo = CHR 0x20 \<or> lo = CHR 0x09 then h
                  else h_general, c)
         | h_matching_transfer_encoding_chunked \<Rightarrow>
             Inr (match_value CHUNKED h h_transfer_encoding_chunked
                    h_matching_transfer_encoding_token lo c)
         | h_matching_transfer_encoding_token \<Rightarrow>
             (if ch = CHR '','' then Inr (h_matching_transfer_encoding_token_start, reset_index c)
              else Inr (h, c))
         | h_matching_connection_token_start \<Rightarrow>
             Inr (if lo = CHR ''k'' then h_matching_connection_keep_alive
                  else if lo = CHR ''c'' then h_matching_connection_close
                  else if lo = CHR ''u'' then h_matching_connection_upgrade
                  else if STRICT_TOKEN lo \<noteq> CHR 0x00 then h_matching_connection_token
                  else if lo = CHR 0x20 \<or> lo = CHR 0x09 then h
                  else h_general, c)
         | h_matching_connection_keep_alive \<Rightarrow>
             Inr (match_value KEEP_ALIVE h h_connection_keep_alive h_matching_connection_token lo c)
         | h_matching_connection_close \<Rightarrow>
             Inr (match_value CLOSE h h_connection_close h_matching_connection_token lo c)
         | h_matching_connection_upgrade \<Rightarrow>
             Inr (match_value UPGRADE h h_connection_upgrade h_matching_connection_token lo c)
         | h_matching_connection_token \<Rightarrow>
             (if ch = CHR '','' then Inr (h_matching_connection_token_start, reset_index c)
              else Inr (h, c))
         | h_transfer_encoding_chunked \<Rightarrow>
             Inr (if ch \<noteq> CHR 0x20 then h_matching_transfer_encoding_token else h, c)
         | h_connection_keep_alive \<Rightarrow>
             (if ch = CHR '',''
              then Inr (h_matching_connection_token_start,
                        reset_index (set_flag F_CONNECTION_KEEP_ALIVE c))
              else Inr (if ch \<noteq> CHR 0x20 then h_matching_connection_token else h, c))
         | h_connection_close \<Rightarrow>
             (if ch = CHR '',''
              then Inr (h_matching_connection_token_start,
                        reset_index (set_flag F_CONNECTION_CLOSE c))
              else Inr (if ch \<noteq> CHR 0x20 then h_matching_connection_token else h, c))
         | h_connection_upgrade \<Rightarrow>
             (if ch = CHR '',''
              then Inr (h_matching_connection_token_start,
                        reset_index (set_flag F_CONNECTION_UPGRADE c))
              else Inr (if ch \<noteq> CHR 0x20 then h_matching_connection_token else h, c))
         | _ \<Rightarrow> Inr (h_general, UPDATE_STATE s_header_value c))"

text \<open>What follows the loop over the value.\<close>

definition header_value_end :: "'a env \<Rightarrow> nat \<Rightarrow> header_states \<Rightarrow> 'a ctx \<Rightarrow> 'a outcome" where
  "header_value_end e start h c =
     (let c1 = upd (\<lambda>q. q\<lparr>hp_header_state := h\<rparr>) c;
          c2 = (if x_p c1 = length (e_data e) then c1\<lparr>x_p := x_p c1 - 1\<rparr> else c1)
      in COUNT_HEADER_SIZE (x_p c2 - start) e c2 Break)"

lemma scan_value_LineEnd:
  "scan_value lenient data pe p = LineEnd i \<Longrightarrow>
     p \<le> i \<and> i < pe \<and> (data ! i = CR \<or> data ! i = LF)"
proof (induction lenient data pe p rule: scan_value.induct)
  case (1 lenient data pe p)
  then show ?case
    by (subst (asm) (2) scan_value.simps) (auto split: if_splits)
qed

lemma scan_value_BadChar: "scan_value lenient data pe p = BadChar i \<Longrightarrow> p \<le> i \<and> i < pe"
proof (induction lenient data pe p rule: scan_value.induct)
  case (1 lenient data pe p)
  then show ?case
    by (subst (asm) (2) scan_value.simps) (auto split: if_splits)
qed

lemmas ctx_ops_defs = upd_def UPDATE_STATE_def reset_index_def set_flag_def

lemma x_p_simps [simp]:
  "x_p (upd f c) = x_p c" "x_p (UPDATE_STATE s c) = x_p c"
  "x_p (reset_index c) = x_p c" "x_p (set_flag g c) = x_p c"
  by (simp_all add: ctx_ops_defs)

lemma x_ch_simps [simp]:
  "x_ch (upd f c) = x_ch c" "x_ch (UPDATE_STATE s c) = x_ch c"
  "x_ch (reset_index c) = x_ch c" "x_ch (set_flag g c) = x_ch c"
  by (simp_all add: ctx_ops_defs)

lemma header_value_step_p:
  assumes "header_value_step e h c = Inr (h', c')"
    and "x_p c < length (e_data e)" "e_data e ! x_p c \<noteq> CR" "e_data e ! x_p c \<noteq> LF"
  shows "x_p c \<le> x_p c' \<and> x_p c' < length (e_data e)"
proof (cases "h = h_general")
  case False
  with assms(1) have "x_p c' = x_p c"
    by (cases h)
      (auto simp: header_value_step_def Let_def header_value_content_length_num_def match_value_def
        split: if_splits)
  with assms(2) show ?thesis by simp
next
  case True
  let ?pe = "x_p c + min (length (e_data e) - x_p c) (unat (e_max_header_size e))"
  show ?thesis
  proof (cases "scan_value (e_lenient e) (e_data e) ?pe (x_p c)")
    case (LineEnd i)
    with scan_value_LineEnd [OF LineEnd] assms(3,4) have "x_p c < i" "i < ?pe"
      by (auto simp: le_less)
    with assms True LineEnd show ?thesis
      by (auto simp: header_value_step_def header_value_general_def)
  next
    case (BadChar i)
    with assms True show ?thesis
      by (simp add: header_value_step_def header_value_general_def)
  next
    case AtBound
    with assms True show ?thesis
      by (auto simp: header_value_step_def header_value_general_def min_def Let_def split: if_splits)
  qed
qed

text \<open>The loop over the value, with \<^verbatim>\<open>start\<close> the position where it began.\<close>

function header_value_loop ::
    "'a env \<Rightarrow> nat \<Rightarrow> header_states \<Rightarrow> 'a ctx \<Rightarrow> 'a outcome" where
  "header_value_loop e start h c =
     (if x_p c < length (e_data e) then
        (let ch = e_data e ! x_p c; c0 = c\<lparr>x_ch := ch\<rparr>
         in if ch = CR then
              CALLBACK_DATA M_header_value e
                (upd (\<lambda>q. q\<lparr>hp_header_state := h\<rparr>) (UPDATE_STATE s_header_almost_done c0))
                (header_value_end e start h)
            else if ch = LF then
              COUNT_HEADER_SIZE (x_p c0 - start) e (UPDATE_STATE s_header_almost_done c0) (\<lambda>c1.
                CALLBACK_DATA_NOADVANCE M_header_value e
                  (upd (\<lambda>q. q\<lparr>hp_header_state := h\<rparr>) c1) Reexecute)
            else if \<not> e_lenient e \<and> \<not> IS_HEADER_CHAR ch then fail HPE_INVALID_HEADER_TOKEN c0
            else (case header_value_step e h c0 of
                    Inl out \<Rightarrow> out
                  | Inr (h1, c1) \<Rightarrow> header_value_loop e start h1 (c1\<lparr>x_p := x_p c1 + 1\<rparr>)))
      else header_value_end e start h c)"
  by pat_completeness auto
termination
proof (relation "measure (\<lambda>(e, start, h, c). length (e_data e) - x_p c)", goal_cases)
  case (2 e start h c ch c0 y h1 c1)
  with header_value_step_p [of e h c0 h1 c1] show ?case by auto
qed simp

declare header_value_loop.simps [simp del]

definition exec_header_value :: "'a env \<Rightarrow> 'a ctx \<Rightarrow> 'a outcome" where
  "exec_header_value e c = header_value_loop e (x_p c) (hp_header_state (x_parser c)) c"

definition exec_header_almost_done :: "'a env \<Rightarrow> 'a ctx \<Rightarrow> 'a outcome" where
  "exec_header_almost_done e c =
     (if x_ch c \<noteq> LF then fail HPE_LF_EXPECTED c else Break (UPDATE_STATE s_header_value_lws c))"

definition exec_header_value_lws :: "'a env \<Rightarrow> 'a ctx \<Rightarrow> 'a outcome" where
  "exec_header_value_lws e c =
     (if x_ch c = CHR 0x20 \<or> x_ch c = CHR 0x09 then
        Reexecute (UPDATE_STATE s_header_value_start
          (if hp_header_state (x_parser c) = h_content_length_num
           then upd (\<lambda>q. q\<lparr>hp_header_state := h_content_length_ws\<rparr>) c else c))
      else
        Reexecute (UPDATE_STATE s_header_field_start
          (case hp_header_state (x_parser c) of
             h_connection_keep_alive \<Rightarrow> set_flag F_CONNECTION_KEEP_ALIVE c
           | h_connection_close \<Rightarrow> set_flag F_CONNECTION_CLOSE c
           | h_transfer_encoding_chunked \<Rightarrow> set_flag F_CHUNKED c
           | h_connection_upgrade \<Rightarrow> set_flag F_CONNECTION_UPGRADE c
           | _ \<Rightarrow> c)))"

definition exec_header_value_discard_ws_almost_done :: "'a env \<Rightarrow> 'a ctx \<Rightarrow> 'a outcome" where
  "exec_header_value_discard_ws_almost_done e c = exec_expect LF s_header_value_discard_lws c"

definition exec_header_value_discard_lws :: "'a env \<Rightarrow> 'a ctx \<Rightarrow> 'a outcome" where
  "exec_header_value_discard_lws e c =
     (if x_ch c = CHR 0x20 \<or> x_ch c = CHR 0x09
      then Break (UPDATE_STATE s_header_value_discard_ws c)
      else
        let empty_value = (\<lambda>c1. CALLBACK_DATA_NOADVANCE M_header_value e
               (UPDATE_STATE s_header_field_start (MARK M_header_value c1)) Reexecute)
        in case hp_header_state (x_parser c) of
             h_connection_keep_alive \<Rightarrow> empty_value (set_flag F_CONNECTION_KEEP_ALIVE c)
           | h_connection_close \<Rightarrow> empty_value (set_flag F_CONNECTION_CLOSE c)
           | h_connection_upgrade \<Rightarrow> empty_value (set_flag F_CONNECTION_UPGRADE c)
           | h_transfer_encoding_chunked \<Rightarrow> empty_value (set_flag F_CHUNKED c)
           | h_content_length \<Rightarrow> fail HPE_INVALID_CONTENT_LENGTH c
           | _ \<Rightarrow> empty_value c)"

section \<open>End of the headers\<close>

text \<open>Content length and transfer encoding together are refused, but for the lenient settings.\<close>

definition conflicting_length :: "'a env \<Rightarrow> 'a http_parser \<Rightarrow> bool" where
  "conflicting_length e q \<longleftrightarrow>
     hp_uses_transfer_encoding q \<and> has_flag (hp_flags q) F_CONTENTLENGTH \<and>
     (if has_flag (hp_flags q) F_CHUNKED then \<not> e_allow_chunked_length e else \<not> e_lenient e)"

definition set_upgrade :: "'a http_parser \<Rightarrow> 'a http_parser" where
  "set_upgrade q =
     (if has_flag (hp_flags q) F_UPGRADE \<and> has_flag (hp_flags q) F_CONNECTION_UPGRADE
      then q\<lparr>hp_upgrade := (hp_type q = HTTP_REQUEST \<or> hp_status_code q = 101)\<rparr>
      else q\<lparr>hp_upgrade := (hp_method q = HTTP_CONNECT)\<rparr>)"

definition exec_headers_almost_done :: "'a env \<Rightarrow> 'a ctx \<Rightarrow> 'a outcome" where
  "exec_headers_almost_done e c =
     STRICT_CHECK (x_ch c \<noteq> LF) c
       (if has_flag (hp_flags (x_parser c)) F_TRAILING then
          CALLBACK_NOTIFY_NOADVANCE (on_chunk_complete (e_settings e)) HPE_CB_chunk_complete
            (UPDATE_STATE s_message_done c) Reexecute
        else if conflicting_length e (x_parser c) then fail HPE_UNEXPECTED_CONTENT_LENGTH c
        else
          let c1 = upd set_upgrade (UPDATE_STATE s_headers_done c);
              after = (\<lambda>c2. if hp_errno (x_parser c2) \<noteq> HPE_OK then RETURN (x_p c2) c2
                            else Reexecute c2)
          in case on_headers_complete (e_settings e) of
               None \<Rightarrow> after c1
             | Some f \<Rightarrow>
                 (let (r, q) = f (x_parser c1); c2 = c1\<lparr>x_parser := q\<rparr>
                  in if r = 0 then after c2
                     else if r = 2 then after (set_flag F_SKIPBODY (upd (\<lambda>q. q\<lparr>hp_upgrade := True\<rparr>) c2))
                     else if r = 1 then after (set_flag F_SKIPBODY c2)
                     else RETURN (x_p c2) (SET_ERRNO HPE_CB_headers_complete c2)))"

definition has_body :: "'a http_parser \<Rightarrow> bool" where
  "has_body q \<longleftrightarrow>
     has_flag (hp_flags q) F_CHUNKED \<or> (hp_content_length q > 0 \<and> hp_content_length q \<noteq> ULLONG_MAX)"

definition message_complete ::
    "'a env \<Rightarrow> 'a ctx \<Rightarrow> ('a ctx \<Rightarrow> 'a outcome) \<Rightarrow> 'a outcome" where
  "message_complete e c k =
     CALLBACK_NOTIFY (on_message_complete (e_settings e)) HPE_CB_message_complete
       (NEW_MESSAGE_state c) k"

definition exec_headers_done :: "'a env \<Rightarrow> 'a ctx \<Rightarrow> 'a outcome" where
  "exec_headers_done e c =
     STRICT_CHECK (x_ch c \<noteq> LF) c
       (let c1 = (upd (\<lambda>q. q\<lparr>hp_nread := 0\<rparr>) c)\<lparr>x_nread := 0\<rparr>;
            q = x_parser c1
        in if hp_upgrade q \<and> (hp_method q = HTTP_CONNECT \<or> has_flag (hp_flags q) F_SKIPBODY \<or>
                              \<not> has_body q)
           then message_complete e c1 (\<lambda>c2. RETURN (x_p c2 + 1) c2)
           else if has_flag (hp_flags q) F_SKIPBODY then message_complete e c1 Break
           else if has_flag (hp_flags q) F_CHUNKED then Break (UPDATE_STATE s_chunk_size_start c1)
           else if hp_uses_transfer_encoding q then
             (if hp_type q = HTTP_REQUEST \<and> \<not> e_lenient e
              then RETURN (x_p c1) (SET_ERRNO HPE_INVALID_TRANSFER_ENCODING c1)
              else Break (UPDATE_STATE s_body_identity_eof c1))
           else if hp_content_length q = 0 then message_complete e c1 Break
           else if hp_content_length q \<noteq> ULLONG_MAX then Break (UPDATE_STATE s_body_identity c1)
           else if \<not> http_message_needs_eof q then message_complete e c1 Break
           else Break (UPDATE_STATE s_body_identity_eof c1))"

section \<open>The body\<close>

definition to_read :: "'a env \<Rightarrow> 'a ctx \<Rightarrow> uint64" where
  "to_read e c = min (hp_content_length (x_parser c)) (of_nat (length (e_data e) - x_p c))"

text \<open>\<^verbatim>\<open>MARK(body); parser->content_length -= to_read; p += to_read - 1;\<close>\<close>

definition take_body :: "'a env \<Rightarrow> 'a ctx \<Rightarrow> 'a ctx" where
  "take_body e c =
     (let n = to_read e c
      in (upd (\<lambda>q. q\<lparr>hp_content_length := hp_content_length q - n\<rparr>) (MARK M_body c))
           \<lparr>x_p := x_p c + unat n - 1\<rparr>)"

definition exec_body_identity :: "'a env \<Rightarrow> 'a ctx \<Rightarrow> 'a outcome" where
  "exec_body_identity e c =
     assert_that (hp_content_length (x_parser c) \<noteq> 0 \<and> hp_content_length (x_parser c) \<noteq> ULLONG_MAX)
       (let c1 = take_body e c
        in if hp_content_length (x_parser c1) = 0
           then CALLBACK_DATA_ER M_body (x_p c1 + 1) (x_p c1) e (UPDATE_STATE s_message_done c1)
                  Reexecute
           else Break c1)"

definition exec_body_identity_eof :: "'a env \<Rightarrow> 'a ctx \<Rightarrow> 'a outcome" where
  "exec_body_identity_eof e c = Break ((MARK M_body c)\<lparr>x_p := length (e_data e) - 1\<rparr>)"

definition exec_message_done :: "'a env \<Rightarrow> 'a ctx \<Rightarrow> 'a outcome" where
  "exec_message_done e c =
     message_complete e c (\<lambda>c1.
       if hp_upgrade (x_parser c1) then RETURN (x_p c1 + 1) c1 else Break c1)"

definition chunked_flag :: "'a ctx \<Rightarrow> bool" where
  "chunked_flag c \<longleftrightarrow> has_flag (hp_flags (x_parser c)) F_CHUNKED"

definition exec_chunk_size_start :: "'a env \<Rightarrow> 'a ctx \<Rightarrow> 'a outcome" where
  "exec_chunk_size_start e c =
     assert_that (x_nread c = 1) (assert_that (chunked_flag c)
       (if unhex_at (x_ch c) = -1 then fail HPE_INVALID_CHUNK_SIZE c
        else Break (UPDATE_STATE s_chunk_size
               (upd (\<lambda>q. q\<lparr>hp_content_length := of_int (unhex_at (x_ch c))\<rparr>) c))))"

definition exec_chunk_size :: "'a env \<Rightarrow> 'a ctx \<Rightarrow> 'a outcome" where
  "exec_chunk_size e c =
     assert_that (chunked_flag c)
       (if x_ch c = CR then Break (UPDATE_STATE s_chunk_size_almost_done c)
        else if unhex_at (x_ch c) = -1 then
          (if x_ch c = CHR '';'' \<or> x_ch c = CHR 0x20 then Break (UPDATE_STATE s_chunk_parameters c)
           else fail HPE_INVALID_CHUNK_SIZE c)
        else let cl = hp_content_length (x_parser c);
                 t = cl * 16 + of_int (unhex_at (x_ch c))
             in if (ULLONG_MAX - 16) div 16 < cl then fail HPE_INVALID_CONTENT_LENGTH c
                else Break (upd (\<lambda>q. q\<lparr>hp_content_length := t\<rparr>) c))"

definition exec_chunk_parameters :: "'a env \<Rightarrow> 'a ctx \<Rightarrow> 'a outcome" where
  "exec_chunk_parameters e c =
     assert_that (chunked_flag c)
       (if x_ch c = CR then Break (UPDATE_STATE s_chunk_size_almost_done c) else Break c)"

definition exec_chunk_size_almost_done :: "'a env \<Rightarrow> 'a ctx \<Rightarrow> 'a outcome" where
  "exec_chunk_size_almost_done e c =
     assert_that (chunked_flag c)
       (STRICT_CHECK (x_ch c \<noteq> LF) c
         (let c1 = (upd (\<lambda>q. q\<lparr>hp_nread := 0\<rparr>) c)\<lparr>x_nread := 0\<rparr>;
              c2 = (if hp_content_length (x_parser c1) = 0
                    then UPDATE_STATE s_header_field_start (set_flag F_TRAILING c1)
                    else UPDATE_STATE s_chunk_data c1)
          in CALLBACK_NOTIFY (on_chunk_header (e_settings e)) HPE_CB_chunk_header c2 Break))"

definition exec_chunk_data :: "'a env \<Rightarrow> 'a ctx \<Rightarrow> 'a outcome" where
  "exec_chunk_data e c =
     assert_that (chunked_flag c) (assert_that
       (hp_content_length (x_parser c) \<noteq> 0 \<and> hp_content_length (x_parser c) \<noteq> ULLONG_MAX)
       (let c1 = take_body e c
        in if hp_content_length (x_parser c1) = 0
           then Break (UPDATE_STATE s_chunk_data_almost_done c1) else Break c1))"

definition exec_chunk_data_almost_done :: "'a env \<Rightarrow> 'a ctx \<Rightarrow> 'a outcome" where
  "exec_chunk_data_almost_done e c =
     assert_that (chunked_flag c) (assert_that (hp_content_length (x_parser c) = 0)
       (STRICT_CHECK (x_ch c \<noteq> CR) c
         (CALLBACK_DATA M_body e (UPDATE_STATE s_chunk_data_done c) Break)))"

definition exec_chunk_data_done :: "'a env \<Rightarrow> 'a ctx \<Rightarrow> 'a outcome" where
  "exec_chunk_data_done e c =
     assert_that (chunked_flag c)
       (STRICT_CHECK (x_ch c \<noteq> LF) c
         (CALLBACK_NOTIFY (on_chunk_complete (e_settings e)) HPE_CB_chunk_complete
           (UPDATE_STATE s_chunk_size_start ((upd (\<lambda>q. q\<lparr>hp_nread := 0\<rparr>) c)\<lparr>x_nread := 0\<rparr>)) Break))"

section \<open>The loop\<close>

text \<open>The \<^verbatim>\<open>switch\<close>: which definition models which \<^verbatim>\<open>case\<close> label.\<close>

primrec switch :: "state \<Rightarrow> 'a env \<Rightarrow> 'a ctx \<Rightarrow> 'a outcome" where
  "switch s_dead = exec_dead"
| "switch s_start_req_or_res = exec_start_req_or_res"
| "switch s_res_or_resp_H = exec_res_or_resp_H"
| "switch s_start_res = exec_start_res"
| "switch s_res_H = exec_res_HTTP"
| "switch s_res_HT = exec_res_HTTP"
| "switch s_res_HTT = exec_res_HTTP"
| "switch s_res_HTTP = exec_res_HTTP"
| "switch s_res_http_major = exec_res_version"
| "switch s_res_http_dot = exec_res_version"
| "switch s_res_http_minor = exec_res_version"
| "switch s_res_http_end = exec_res_version"
| "switch s_res_first_status_code = exec_res_first_status_code"
| "switch s_res_status_code = exec_res_status_code"
| "switch s_res_status_start = exec_res_status_start"
| "switch s_res_status = exec_res_status"
| "switch s_res_line_almost_done = exec_res_line_almost_done"
| "switch s_start_req = exec_start_req"
| "switch s_req_method = exec_req_method"
| "switch s_req_spaces_before_url = exec_req_spaces_before_url"
| "switch s_req_schema = exec_req_schema"
| "switch s_req_schema_slash = exec_req_schema"
| "switch s_req_schema_slash_slash = exec_req_schema"
| "switch s_req_server_start = exec_req_schema"
| "switch s_req_server = exec_req_url"
| "switch s_req_server_with_at = exec_req_url"
| "switch s_req_path = exec_req_url"
| "switch s_req_query_string_start = exec_req_url"
| "switch s_req_query_string = exec_req_url"
| "switch s_req_fragment_start = exec_req_url"
| "switch s_req_fragment = exec_req_url"
| "switch s_req_http_start = exec_req_http_start"
| "switch s_req_http_H = exec_req_HTTP"
| "switch s_req_http_HT = exec_req_HTTP"
| "switch s_req_http_HTT = exec_req_HTTP"
| "switch s_req_http_HTTP = exec_req_HTTP"
| "switch s_req_http_I = exec_req_HTTP"
| "switch s_req_http_IC = exec_req_HTTP"
| "switch s_req_http_major = exec_req_version"
| "switch s_req_http_dot = exec_req_version"
| "switch s_req_http_minor = exec_req_version"
| "switch s_req_http_end = exec_req_version"
| "switch s_req_line_almost_done = exec_req_line_almost_done"
| "switch s_header_field_start = exec_header_field_start"
| "switch s_header_field = exec_header_field"
| "switch s_header_value_discard_ws = exec_header_value_discard_ws"
| "switch s_header_value_discard_ws_almost_done = exec_header_value_discard_ws_almost_done"
| "switch s_header_value_discard_lws = exec_header_value_discard_lws"
| "switch s_header_value_start = exec_header_value_start"
| "switch s_header_value = exec_header_value"
| "switch s_header_value_lws = exec_header_value_lws"
| "switch s_header_almost_done = exec_header_almost_done"
| "switch s_chunk_size_start = exec_chunk_size_start"
| "switch s_chunk_size = exec_chunk_size"
| "switch s_chunk_parameters = exec_chunk_parameters"
| "switch s_chunk_size_almost_done = exec_chunk_size_almost_done"
| "switch s_headers_almost_done = exec_headers_almost_done"
| "switch s_headers_done = exec_headers_done"
| "switch s_chunk_data = exec_chunk_data"
| "switch s_chunk_data_almost_done = exec_chunk_data_almost_done"
| "switch s_chunk_data_done = exec_chunk_data_done"
| "switch s_body_identity = exec_body_identity"
| "switch s_body_identity_eof = exec_body_identity_eof"
| "switch s_message_done = exec_message_done"

definition exec_switch :: "'a env \<Rightarrow> 'a ctx \<Rightarrow> 'a outcome" where
  "exec_switch e c = switch (x_state c) e c"

text \<open>The top of the \<^verbatim>\<open>for\<close> loop: read the byte at \<^verbatim>\<open>p\<close>, count it, run the switch.\<close>

definition loop_top :: "'a env \<Rightarrow> 'a ctx \<Rightarrow> 'a outcome" where
  "loop_top e c =
     (if x_p c \<ge> length (e_data e) then Abort ReadOutOfBounds
      else let c1 = c\<lparr>x_ch := e_data e ! x_p c\<rparr>
           in if PARSING_HEADER (x_state c1) then COUNT_HEADER_SIZE 1 e c1 (exec_switch e)
              else exec_switch e c1)"

text \<open>After the loop: at most one mark is left, and its callback runs before the function returns.\<close>

definition marks_left :: "'a ctx \<Rightarrow> nat" where
  "marks_left c =
     length (filter (\<lambda>m. x_marks c m \<noteq> None) [M_header_field, M_header_value, M_url, M_body, M_status])"

definition finish_data :: "'a env \<Rightarrow> 'a ctx \<Rightarrow> 'a outcome" where
  "finish_data e c =
     assert_that (marks_left c \<le> 1)
       (CALLBACK_DATA_NOADVANCE M_header_field e c (\<lambda>c1.
        CALLBACK_DATA_NOADVANCE M_header_value e c1 (\<lambda>c2.
        CALLBACK_DATA_NOADVANCE M_url e c2 (\<lambda>c3.
        CALLBACK_DATA_NOADVANCE M_body e c3 (\<lambda>c4.
        CALLBACK_DATA_NOADVANCE M_status e c4 (\<lambda>c5.
        RETURN (length (e_data e)) c5))))))"

definition error_label :: "'a ctx \<Rightarrow> 'a outcome" where
  "error_label c =
     RETURN (x_p c) (if hp_errno (x_parser c) = HPE_OK then SET_ERRNO HPE_UNKNOWN c else c)"

fun exec_loop :: "nat \<Rightarrow> 'a env \<Rightarrow> 'a outcome \<Rightarrow> 'a outcome option" where
  "exec_loop 0 e out = None"
| "exec_loop (Suc n) e (Break c) =
     (let c1 = c\<lparr>x_p := x_p c + 1\<rparr>
      in if x_p c1 = length (e_data e) then Some (finish_data e c1)
         else exec_loop n e (loop_top e c1))"
| "exec_loop (Suc n) e (Reexecute c) = exec_loop n e (exec_switch e c)"
| "exec_loop (Suc n) e (Goto_error c) = Some (error_label c)"
| "exec_loop (Suc n) e (Return v q) = Some (Return v q)"
| "exec_loop (Suc n) e (Abort r) = Some (Abort r)"

section \<open>Entry points\<close>

text \<open>The states in which a new call continues a range that the last call began.\<close>

definition entry_marks :: "state \<Rightarrow> mark \<Rightarrow> nat option" where
  "entry_marks s =
     (if s = s_header_field then (\<lambda>_. None)(M_header_field := Some 0)
      else if s = s_header_value then (\<lambda>_. None)(M_header_value := Some 0)
      else if s \<in> {s_req_path, s_req_schema, s_req_schema_slash, s_req_schema_slash_slash,
                  s_req_server_start, s_req_server, s_req_server_with_at, s_req_query_string_start,
                  s_req_query_string, s_req_fragment_start, s_req_fragment}
        then (\<lambda>_. None)(M_url := Some 0)
      else if s = s_res_status then (\<lambda>_. None)(M_status := Some 0)
      else (\<lambda>_. None))"

definition entry_ctx :: "'a http_parser \<Rightarrow> 'a ctx" where
  "entry_ctx q =
     \<lparr>x_parser = q, x_p = 0, x_ch = CHR 0x00, x_state = hp_state q, x_nread = hp_nread q,
      x_marks = entry_marks (hp_state q)\<rparr>"

definition mk_env :: "'a http_parser_settings \<Rightarrow> uint32 \<Rightarrow> char list \<Rightarrow> 'a http_parser \<Rightarrow> 'a env" where
  "mk_env settings max_size data q =
     \<lparr>e_settings = settings, e_data = data, e_lenient = hp_lenient_http_headers q,
      e_allow_chunked_length = hp_allow_chunked_length q, e_max_header_size = max_size\<rparr>"

text \<open>End of input (\<^verbatim>\<open>len == 0\<close>).\<close>

definition execute_eof :: "'a http_parser_settings \<Rightarrow> 'a http_parser \<Rightarrow> 'a outcome" where
  "execute_eof settings q =
     (if hp_state q = s_body_identity_eof
      then CALLBACK_NOTIFY_NOADVANCE (on_message_complete settings) HPE_CB_message_complete
             (entry_ctx q) (\<lambda>c. Return 0 (x_parser c))
      else if hp_state q \<in> {s_dead, s_start_req_or_res, s_start_res, s_start_req} then Return 0 q
      else Return 1 (x_parser (SET_ERRNO HPE_INVALID_EOF_STATE (entry_ctx q))))"

text \<open>
  \<^verbatim>\<open>http_parser_execute\<close>: \<open>None\<close> when the fuel is used up, otherwise \<open>Return\<close> with the number of bytes
  parsed and the parser, or \<open>Abort\<close>. \<open>max_size\<close> is the file's static variable \<^verbatim>\<open>max_header_size\<close>.
\<close>

definition http_parser_execute ::
    "nat \<Rightarrow> uint32 \<Rightarrow> 'a http_parser \<Rightarrow> 'a http_parser_settings \<Rightarrow> char list \<Rightarrow> 'a outcome option" where
  "http_parser_execute fuel max_size q settings data =
     (if hp_errno q \<noteq> HPE_OK then Some (Return 0 q)
      else if data = [] then Some (execute_eof settings q)
      else let e = mk_env settings max_size data q
           in exec_loop fuel e (loop_top e (entry_ctx q)))"

definition http_method_str :: "http_method \<Rightarrow> string" where
  "http_method_str m = HTTP_METHOD_MAP m"

definition http_status_str :: "nat \<Rightarrow> string" where
  "http_status_str n = (case map_of HTTP_STATUS_MAP n of Some str \<Rightarrow> str | None \<Rightarrow> ''<unknown>'')"

text \<open>\<^verbatim>\<open>memset\<close> zeroes every field: state 0 is overwritten at once, the other enumerations start with
  their first enumerator.\<close>

definition http_parser_init :: "'a http_parser \<Rightarrow> http_parser_type \<Rightarrow> 'a http_parser" where
  "http_parser_init q t =
     \<lparr>hp_type = t, hp_flags = 0,
      hp_state = (case t of HTTP_REQUEST \<Rightarrow> s_start_req | HTTP_RESPONSE \<Rightarrow> s_start_res
                  | HTTP_BOTH \<Rightarrow> s_start_req_or_res),
      hp_header_state = h_general, hp_index = 0, hp_uses_transfer_encoding = False,
      hp_allow_chunked_length = False, hp_lenient_http_headers = False, hp_nread = 0,
      hp_content_length = 0, hp_http_major = 0, hp_http_minor = 0, hp_status_code = 0,
      hp_method = HTTP_DELETE, hp_errno = HPE_OK, hp_upgrade = False, hp_data = hp_data q\<rparr>"

definition http_parser_settings_init :: "'a http_parser_settings" where
  "http_parser_settings_init =
     \<lparr>on_message_begin = None, on_url = None, on_status = None, on_header_field = None,
      on_header_value = None, on_headers_complete = None, on_body = None,
      on_message_complete = None, on_chunk_header = None, on_chunk_complete = None\<rparr>"

definition http_errno_name :: "http_errno \<Rightarrow> string" where
  "http_errno_name err = fst (http_strerror_tab err)"

definition http_errno_description :: "http_errno \<Rightarrow> string" where
  "http_errno_description err = snd (http_strerror_tab err)"

text \<open>\<open>None\<close>: pausing a parser that is in an error state fails an assertion.\<close>

definition http_parser_pause :: "'a http_parser \<Rightarrow> bool \<Rightarrow> 'a http_parser option" where
  "http_parser_pause q paused =
     (if hp_errno q = HPE_OK \<or> hp_errno q = HPE_PAUSED
      then Some (q\<lparr>hp_nread := hp_nread q, hp_errno := (if paused then HPE_PAUSED else HPE_OK)\<rparr>)
      else None)"

definition http_body_is_final :: "'a http_parser \<Rightarrow> bool" where
  "http_body_is_final q \<longleftrightarrow> hp_state q = s_message_done"

definition http_parser_version :: "64 word" where
  "http_parser_version = (2 * 0x10000) OR (9 * 0x00100) OR (4 * 0x00001)"

text \<open>The static variable \<^verbatim>\<open>max_header_size\<close> is the argument \<open>max_size\<close> of \<open>http_parser_execute\<close>; this
  replaces it.\<close>

definition http_parser_set_max_header_size :: "uint32 \<Rightarrow> uint32 \<Rightarrow> uint32" where
  "http_parser_set_max_header_size new_size old = new_size"

end
