(* ===== verification/Http_Data.thy ===== *)
theory Http_Data
  imports Http_Exec
begin

text \<open>
  What \<^verbatim>\<open>http_parser_execute\<close> does to the data of the application. The parser never touches \<^verbatim>\<open>parser->data\<close>
  itself; only the callbacks change what it points to. So a property of that data which every callback
  keeps is kept by a whole call, whatever bytes it is given. The locale \<open>data_invariant\<close> is that rule:
  the application instantiates it with its settings and a property, and obtains the property after
  every call.
\<close>

section \<open>Outcomes\<close>

text \<open>The data of an outcome satisfies a property.\<close>

fun data_in :: "('a \<Rightarrow> bool) \<Rightarrow> 'a outcome \<Rightarrow> bool" where
  "data_in P (Break c) \<longleftrightarrow> P (hp_data (x_parser c))"
| "data_in P (Reexecute c) \<longleftrightarrow> P (hp_data (x_parser c))"
| "data_in P (Goto_error c) \<longleftrightarrow> P (hp_data (x_parser c))"
| "data_in P (Return v q) \<longleftrightarrow> P (hp_data q)"
| "data_in P (Abort r) \<longleftrightarrow> True"

definition cb_keeps :: "('a \<Rightarrow> bool) \<Rightarrow> 'a http_cb option \<Rightarrow> bool" where
  "cb_keeps P cb \<longleftrightarrow> (\<forall>f q. cb = Some f \<longrightarrow> P (hp_data q) \<longrightarrow> P (hp_data (snd (f q))))"

definition data_cb_keeps :: "('a \<Rightarrow> bool) \<Rightarrow> 'a http_data_cb option \<Rightarrow> bool" where
  "data_cb_keeps P cb \<longleftrightarrow> (\<forall>f q str. cb = Some f \<longrightarrow> P (hp_data q) \<longrightarrow> P (hp_data (snd (f q str))))"

named_theorems data_simps \<open>the data is the same\<close>

lemma data_ctx [data_simps]:
  "hp_data (x_parser (UPDATE_STATE s c)) = hp_data (x_parser c)"
  "hp_data (x_parser (SET_ERRNO err c)) = hp_data (x_parser c)"
  "hp_data (x_parser (MARK m c)) = hp_data (x_parser c)"
  "hp_data (x_parser (set_flag f c)) = hp_data (x_parser c)"
  "hp_data (x_parser (reset_index c)) = hp_data (x_parser c)"
  "hp_data (x_parser (NEW_MESSAGE_state c)) = hp_data (x_parser c)"
  "x_parser (upd g c) = g (x_parser c)"
  by (simp_all add: ctx_ops_defs SET_ERRNO_def MARK_def NEW_MESSAGE_state_def split: option.split)

lemma data_parser [data_simps]:
  "hp_data (bump_index q) = hp_data q" "hp_data (reset_message q) = hp_data q"
  "hp_data (set_upgrade q) = hp_data q" "hp_data (match_name str full tk q) = hp_data q"
  by (simp_all add: bump_index_def reset_message_def set_upgrade_def match_name_def Let_def split: match_result.split)

lemma data_take_body [data_simps]: "hp_data (x_parser (take_body e c)) = hp_data (x_parser c)"
  by (simp add: take_body_def Let_def data_simps)

lemma data_in_if: "(b \<Longrightarrow> data_in P x) \<Longrightarrow> (\<not> b \<Longrightarrow> data_in P y) \<Longrightarrow> data_in P (if b then x else y)"
  by simp

lemma data_in_fail [simp]: "data_in P (fail err c) \<longleftrightarrow> P (hp_data (x_parser c))"
  by (simp add: fail_def data_simps)

lemma data_in_RETURN [simp]: "data_in P (RETURN v c) \<longleftrightarrow> P (hp_data (x_parser c))"
  by (simp add: RETURN_def)

lemma data_in_error_label [simp]: "data_in P (error_label c) \<longleftrightarrow> P (hp_data (x_parser c))"
  by (simp add: error_label_def data_simps)

lemma data_in_assert_that [intro!]: "data_in P k \<Longrightarrow> data_in P (assert_that b k)"
  by (simp add: assert_that_def)

lemma data_in_STRICT_CHECK [intro!]:
  "P (hp_data (x_parser c)) \<Longrightarrow> data_in P k \<Longrightarrow> data_in P (STRICT_CHECK b c k)"
  by (simp add: STRICT_CHECK_def)

lemma data_in_COUNT_HEADER_SIZE [intro!]:
  "P (hp_data (x_parser c)) \<Longrightarrow> (\<And>c'. P (hp_data (x_parser c')) \<Longrightarrow> data_in P (k c')) \<Longrightarrow>
     data_in P (COUNT_HEADER_SIZE v e c k)"
  by (simp add: COUNT_HEADER_SIZE_def Let_def)

lemma data_in_CALLBACK_NOTIFY_ER:
  assumes "cb_keeps P cb" "P (hp_data (x_parser c))" "\<And>c'. P (hp_data (x_parser c')) \<Longrightarrow> data_in P (k c')"
  shows "data_in P (CALLBACK_NOTIFY_ER cb err er c k)"
proof (cases cb)
  case (Some f)
  have "P (hp_data (snd (f ((x_parser c)\<lparr>hp_state := x_state c\<rparr>))))"
    using assms(1,2) Some by (simp add: cb_keeps_def)
  with Some assms(3) show ?thesis
    by (auto simp: CALLBACK_NOTIFY_ER_def Let_def data_simps split: prod.split intro!: assms(3))
qed (simp add: CALLBACK_NOTIFY_ER_def assms data_in_assert_that)

lemma data_in_CALLBACK_DATA_ER:
  assumes "data_cb_keeps P (data_cb m (e_settings e))" "P (hp_data (x_parser c))"
    "\<And>c'. P (hp_data (x_parser c')) \<Longrightarrow> data_in P (k c')"
  shows "data_in P (CALLBACK_DATA_ER m stop er e c k)"
proof (cases "x_marks c m")
  case None
  then show ?thesis by (simp add: CALLBACK_DATA_ER_def assms data_in_assert_that)
next
  case (Some i)
  note mark = this
  show ?thesis
  proof (cases "data_cb m (e_settings e)")
    case None
    then show ?thesis by (simp add: CALLBACK_DATA_ER_def assms data_in_assert_that mark)
  next
    case (Some f)
    have "P (hp_data (snd (f ((x_parser c)\<lparr>hp_state := x_state c\<rparr>) (take (stop - i) (drop i (e_data e))))))"
      using assms(1,2) Some by (simp add: data_cb_keeps_def)
    with Some mark show ?thesis
      by (auto simp: CALLBACK_DATA_ER_def Let_def data_simps split: prod.split intro!: assms(3))
  qed
qed

section \<open>The rule\<close>

locale data_invariant =
  fixes P :: "'a \<Rightarrow> bool" and settings :: "'a http_parser_settings"
  assumes begin_keeps: "cb_keeps P (on_message_begin settings)"
    and headers_keeps: "cb_keeps P (on_headers_complete settings)"
    and complete_keeps: "cb_keeps P (on_message_complete settings)"
    and chunk_header_keeps: "cb_keeps P (on_chunk_header settings)"
    and chunk_complete_keeps: "cb_keeps P (on_chunk_complete settings)"
    and data_keeps: "data_cb_keeps P (data_cb m settings)"
begin

definition env_ok :: "'a env \<Rightarrow> bool" where
  "env_ok e \<longleftrightarrow> e_settings e = settings"

definition keeps :: "('a env \<Rightarrow> 'a ctx \<Rightarrow> 'a outcome) \<Rightarrow> bool" where
  "keeps h \<longleftrightarrow> (\<forall>e c. env_ok e \<longrightarrow> P (hp_data (x_parser c)) \<longrightarrow> data_in P (h e c))"

lemma keepsI: "(\<And>e c. env_ok e \<Longrightarrow> P (hp_data (x_parser c)) \<Longrightarrow> data_in P (h e c)) \<Longrightarrow> keeps h"
  by (simp add: keeps_def)

lemma keepsD: "keeps h \<Longrightarrow> env_ok e \<Longrightarrow> P (hp_data (x_parser c)) \<Longrightarrow> data_in P (h e c)"
  by (simp add: keeps_def)

lemma callbacks [intro!]:
  assumes "env_ok e" "P (hp_data (x_parser c))"
    "\<And>c'. P (hp_data (x_parser c')) \<Longrightarrow> data_in P (k c')"
  shows "data_in P (CALLBACK_DATA m e c k)" "data_in P (CALLBACK_DATA_NOADVANCE m e c k)"
    "data_in P (CALLBACK_NOTIFY (on_message_begin (e_settings e)) err c k)"
    "data_in P (CALLBACK_NOTIFY (on_message_complete (e_settings e)) err c k)"
    "data_in P (CALLBACK_NOTIFY (on_chunk_header (e_settings e)) err c k)"
    "data_in P (CALLBACK_NOTIFY (on_chunk_complete (e_settings e)) err c k)"
    "data_in P (CALLBACK_NOTIFY_NOADVANCE (on_chunk_complete (e_settings e)) err c k)"
    "data_in P (CALLBACK_NOTIFY_NOADVANCE (on_message_complete (e_settings e)) err c k)"
    "data_in P (CALLBACK_DATA_ER m stop er e c k)"
    "data_in P (message_complete e c k)"
  using assms begin_keeps headers_keeps complete_keeps chunk_header_keeps chunk_complete_keeps data_keeps
  by (auto simp: env_ok_def CALLBACK_DATA_def CALLBACK_DATA_NOADVANCE_def CALLBACK_NOTIFY_def CALLBACK_NOTIFY_NOADVANCE_def
      message_complete_def data_simps intro!: data_in_CALLBACK_NOTIFY_ER data_in_CALLBACK_DATA_ER)

lemma keeps_request_line:
  "keeps exec_dead" "keeps exec_start_req_or_res" "keeps exec_res_or_resp_H" "keeps exec_start_res"
  "keeps exec_res_HTTP" "keeps exec_res_version" "keeps exec_res_first_status_code" "keeps exec_res_status_code"
  "keeps exec_res_status_start" "keeps exec_res_status" "keeps exec_res_line_almost_done" "keeps exec_start_req"
  by (rule keepsI, auto simp: exec_dead_def exec_start_req_or_res_def exec_res_or_resp_H_def exec_start_res_def
      exec_res_HTTP_def exec_res_version_def exec_res_first_status_code_def exec_res_status_code_def
      exec_res_status_start_def exec_res_status_def exec_res_line_almost_done_def exec_start_req_def
      exec_expect_def data_simps Let_def split: option.split)+

lemma keeps_url:
  "keeps exec_req_method" "keeps exec_req_spaces_before_url" "keeps exec_req_schema" "keeps exec_req_url"
  "keeps exec_req_http_start" "keeps exec_req_HTTP" "keeps exec_req_version" "keeps exec_req_line_almost_done"
  by (rule keepsI, auto simp: exec_req_method_def exec_req_spaces_before_url_def exec_req_schema_def
      exec_req_url_def exec_req_http_start_def exec_req_HTTP_def exec_req_version_def
      exec_req_line_almost_done_def exec_url_char_def exec_expect_def data_simps Let_def split: option.split)+

lemma data_header_field_step:
  "header_field_step e q p ch tk = Some (q', p') \<Longrightarrow> hp_data q' = hp_data q"
  by (cases "hp_header_state q") (auto simp: header_field_step_def data_simps Let_def)

lemma data_header_field_loop:
  "header_field_loop e q p ch = Some (q', p', ch') \<Longrightarrow> hp_data q' = hp_data q"
proof (induction e q p ch rule: header_field_loop.induct)
  case (1 e q p ch)
  show ?case
  proof (cases "p < length (e_data e) \<and> TOKEN (e_data e ! p) \<noteq> CHR 0x00")
    case True
    with 1 data_header_field_step show ?thesis
      by (subst (asm) (2) header_field_loop.simps) (fastforce simp: Let_def split: option.splits)
  next
    case False
    with 1 show ?thesis by (subst (asm) (2) header_field_loop.simps) (auto simp: Let_def split: if_splits)
  qed
qed

lemma keeps_header_field: "keeps exec_header_field"
  by (rule keepsI) (auto simp: exec_header_field_def Let_def data_simps split: option.split
      dest!: data_header_field_loop)

lemma data_content_length_num:
  "header_value_content_length_num c = Inr (h', c') \<Longrightarrow> hp_data (x_parser c') = hp_data (x_parser c)"
  "header_value_content_length_num c = Inl out \<Longrightarrow> data_in P out \<longleftrightarrow> P (hp_data (x_parser c))"
  by (auto simp: header_value_content_length_num_def fail_content_length_def data_simps Let_def split: if_splits)

lemma data_value_general:
  "header_value_general e c = Inr (h', c') \<Longrightarrow> hp_data (x_parser c') = hp_data (x_parser c)"
  "header_value_general e c = Inl out \<Longrightarrow> data_in P out \<longleftrightarrow> P (hp_data (x_parser c))"
  by (auto simp: header_value_general_def data_simps Let_def split: scan_result.splits if_splits)

lemma data_header_value_step:
  "header_value_step e h c = Inr (h', c') \<Longrightarrow> hp_data (x_parser c') = hp_data (x_parser c)"
  "header_value_step e h c = Inl out \<Longrightarrow> P (hp_data (x_parser c)) \<Longrightarrow> data_in P out"
  by (cases h; auto simp: header_value_step_def fail_content_length_def match_value_def data_simps Let_def
      data_content_length_num data_value_general split: if_splits)+

lemma keeps_header_value_end:
  "env_ok e \<Longrightarrow> P (hp_data (x_parser c)) \<Longrightarrow> data_in P (header_value_end e start h c)"
  by (auto simp: header_value_end_def data_simps Let_def)

lemma keeps_header_value_loop:
  "env_ok e \<Longrightarrow> P (hp_data (x_parser c)) \<Longrightarrow> data_in P (header_value_loop e start h c)"
proof (induction e start h c rule: header_value_loop.induct)
  case (1 e start h c)
  let ?ch = "e_data e ! x_p c" and ?c = "c\<lparr>x_ch := e_data e ! x_p c\<rparr>"
  consider "\<not> x_p c < length (e_data e)" | "x_p c < length (e_data e)" "?ch = CR" | "x_p c < length (e_data e)" "?ch = LF"
    | "x_p c < length (e_data e)" "?ch \<noteq> CR" "?ch \<noteq> LF" by blast
  then show ?case
  proof cases
    case 4
    show ?thesis
    proof (cases "header_value_step e h ?c")
      case (Inl out)
      with 4 1 data_header_value_step(2) show ?thesis
        by (subst header_value_loop.simps) (auto simp: Let_def)
    next
      case (Inr hc)
      obtain h1 c1 where hc: "hc = (h1, c1)" by fastforce
      from data_header_value_step(1) [OF Inr [unfolded hc]] 4 1 Inr hc show ?thesis
        by (subst header_value_loop.simps) (auto simp: Let_def)
    qed
  qed (subst header_value_loop.simps, auto simp: Let_def data_simps "1.prems" keeps_header_value_end)+
qed

lemma keeps_headers:
  "keeps exec_header_field_start" "keeps exec_header_value_discard_ws" "keeps exec_header_value_start"
  "keeps exec_header_value" "keeps exec_header_almost_done" "keeps exec_header_value_lws"
  "keeps exec_header_value_discard_ws_almost_done" "keeps exec_header_value_discard_lws"
  by (rule keepsI, auto simp: exec_header_field_start_def exec_header_value_discard_ws_def
      exec_header_value_start_def exec_header_value_def exec_header_almost_done_def exec_header_value_lws_def
      exec_header_value_discard_ws_almost_done_def exec_header_value_discard_lws_def exec_expect_def
      data_simps Let_def keeps_header_value_loop split: header_states.split)+

lemma keeps_headers_almost_done: "keeps exec_headers_almost_done"
proof (rule keepsI)
  fix e :: "'a env" and c :: "'a ctx"
  assume e: "env_ok e" and c: "P (hp_data (x_parser c))"
  show "data_in P (exec_headers_almost_done e c)"
  proof (cases "on_headers_complete (e_settings e)")
    case None
    with e c show ?thesis by (auto simp: exec_headers_almost_done_def data_simps Let_def)
  next
    case (Some f)
    have "P (hp_data (snd (f q)))" if "P (hp_data q)" for q
      using headers_keeps e Some that by (simp add: cb_keeps_def env_ok_def)
    from this [of "x_parser (upd set_upgrade (UPDATE_STATE s_headers_done c))"] Some e c show ?thesis
      by (auto simp: exec_headers_almost_done_def data_simps Let_def split: prod.split)
  qed
qed

lemma keeps_body:
  "keeps exec_headers_done" "keeps exec_body_identity" "keeps exec_body_identity_eof" "keeps exec_message_done"
  "keeps exec_chunk_size_start" "keeps exec_chunk_size" "keeps exec_chunk_parameters"
  "keeps exec_chunk_size_almost_done" "keeps exec_chunk_data" "keeps exec_chunk_data_almost_done"
  "keeps exec_chunk_data_done"
  by (rule keepsI, auto simp: exec_headers_done_def exec_body_identity_def exec_body_identity_eof_def
      exec_message_done_def exec_chunk_size_start_def exec_chunk_size_def exec_chunk_parameters_def
      exec_chunk_size_almost_done_def exec_chunk_data_def exec_chunk_data_almost_done_def
      exec_chunk_data_done_def data_simps Let_def)+

lemma keeps_switch: "keeps (switch s)"
  by (cases s) (simp_all add: keeps_request_line keeps_url keeps_header_field keeps_headers
      keeps_headers_almost_done keeps_body)

lemma keeps_exec_switch: "keeps exec_switch"
  using keepsD [OF keeps_switch] by (auto simp: keeps_def exec_switch_def)

lemma keeps_loop_top: "keeps loop_top"
  by (rule keepsI) (auto simp: loop_top_def Let_def intro: keepsD [OF keeps_exec_switch])

lemma keeps_finish_data: "keeps finish_data"
  by (rule keepsI) (auto simp: finish_data_def)

lemma keeps_exec_loop:
  "env_ok e \<Longrightarrow> data_in P out \<Longrightarrow> exec_loop n e out = Some res \<Longrightarrow> data_in P res"
proof (induction n e out rule: exec_loop.induct)
  case (2 n e c)
  then show ?case
    using keepsD [OF keeps_finish_data, of e "c\<lparr>x_p := x_p c + 1\<rparr>"] keepsD [OF keeps_loop_top, of e "c\<lparr>x_p := x_p c + 1\<rparr>"]
    by (auto simp: Let_def split: if_splits)
next
  case (3 n e c)
  then show ?case using keepsD [OF keeps_exec_switch, of e c] by auto
qed auto

text \<open>The property holds after a call if it held before.\<close>

lemma execute_keeps:
  assumes "P (hp_data q)" "http_parser_execute fuel max_size q settings data = Some (Return n q')"
  shows "P (hp_data q')"
proof -
  let ?e = "mk_env settings max_size data q"
  have e: "env_ok ?e" by (simp add: env_ok_def mk_env_def)
  have c: "P (hp_data (x_parser (entry_ctx q)))" using assms(1) by (simp add: entry_ctx_def)
  have "data_in P (execute_eof settings q)"
    using c e by (auto simp: execute_eof_def entry_ctx_def data_simps CALLBACK_NOTIFY_NOADVANCE_def
        intro!: data_in_CALLBACK_NOTIFY_ER complete_keeps)
  moreover have "data_in P (Return n q')"
    if "exec_loop fuel ?e (loop_top ?e (entry_ctx q)) = Some (Return n q')"
    using keeps_exec_loop [OF e keepsD [OF keeps_loop_top e c] that] .
  ultimately show ?thesis using assms
    by (auto simp: http_parser_execute_def Let_def split: if_splits)
qed

end

end
