(* ===== verification/Http_Safety.thy ===== *)
theory Http_Safety
  imports Http_Exec
begin

text \<open>
  Safety and termination of \<^verbatim>\<open>http_parser_execute\<close>: whatever bytes arrive, in whatever portions, no
  assertion of the parser fails, nothing outside the data or a string constant is read, and the call
  returns. The proof has one lemma per state handler: a handler started in a context that
  satisfies the invariant of its state leaves one that does, or returns a result within bounds.

  The callbacks are code of the application. What the parser relies on is that a callback changes
  nothing of the parser but the application data and the error number (to pause).
\<close>

section \<open>The contract of the callbacks\<close>

definition cb_ok :: "'a http_cb option \<Rightarrow> bool" where
  "cb_ok cb \<longleftrightarrow>
     (\<forall>f. cb = Some f \<longrightarrow> (\<forall>q. \<exists>r d err. f q = (r, q\<lparr>hp_errno := err, hp_data := d\<rparr>)))"

definition data_cb_ok :: "'a http_data_cb option \<Rightarrow> bool" where
  "data_cb_ok cb \<longleftrightarrow>
     (\<forall>f. cb = Some f \<longrightarrow> (\<forall>q str. \<exists>r d err. f q str = (r, q\<lparr>hp_errno := err, hp_data := d\<rparr>)))"

definition settings_ok :: "'a http_parser_settings \<Rightarrow> bool" where
  "settings_ok s \<longleftrightarrow>
     cb_ok (on_message_begin s) \<and> data_cb_ok (on_url s) \<and> data_cb_ok (on_status s) \<and>
     data_cb_ok (on_header_field s) \<and> data_cb_ok (on_header_value s) \<and>
     cb_ok (on_headers_complete s) \<and> data_cb_ok (on_body s) \<and> cb_ok (on_message_complete s) \<and>
     cb_ok (on_chunk_header s) \<and> cb_ok (on_chunk_complete s)"

section \<open>The invariant\<close>

definition field_state :: "header_states \<Rightarrow> bool" where
  "field_state h =
     (case h of
        h_general \<Rightarrow> True
      | h_C \<Rightarrow> True
      | h_CO \<Rightarrow> True
      | h_CON \<Rightarrow> True
      | h_matching_connection \<Rightarrow> True
      | h_matching_proxy_connection \<Rightarrow> True
      | h_matching_content_length \<Rightarrow> True
      | h_matching_transfer_encoding \<Rightarrow> True
      | h_matching_upgrade \<Rightarrow> True
      | h_connection \<Rightarrow> True
      | h_content_length \<Rightarrow> True
      | h_transfer_encoding \<Rightarrow> True
      | h_upgrade \<Rightarrow> True
      | _ \<Rightarrow> False)"

definition chunked :: "'a http_parser \<Rightarrow> bool" where
  "chunked q \<longleftrightarrow> has_flag (hp_flags q) F_CHUNKED"

text \<open>What holds of the fields in each state; \<open>k\<close> is the count of header bytes with which
  \<^verbatim>\<open>s_chunk_size_start\<close> is entered.\<close>

definition st_ok :: "uint32 \<Rightarrow> state \<Rightarrow> uint32 \<Rightarrow> 'a http_parser \<Rightarrow> bool" where
  "st_ok k s n q \<longleftrightarrow>
     (case s of
        s_req_method \<Rightarrow> unat (hp_index q) \<le> length (HTTP_METHOD_MAP (hp_method q))
      | s_header_field \<Rightarrow> field_state (hp_header_state q)
      | s_header_value \<Rightarrow> hp_header_state q \<notin> {h_connection, h_transfer_encoding}
      | s_body_identity \<Rightarrow> hp_content_length q \<noteq> 0 \<and> hp_content_length q \<noteq> ULLONG_MAX
      | s_chunk_size_start \<Rightarrow> chunked q \<and> n = k
      | s_chunk_size \<Rightarrow> chunked q \<and> hp_content_length q \<noteq> ULLONG_MAX
      | s_chunk_parameters \<Rightarrow> chunked q \<and> hp_content_length q \<noteq> ULLONG_MAX
      | s_chunk_size_almost_done \<Rightarrow> chunked q \<and> hp_content_length q \<noteq> ULLONG_MAX
      | s_chunk_data \<Rightarrow> chunked q \<and> hp_content_length q \<noteq> 0 \<and> hp_content_length q \<noteq> ULLONG_MAX
      | s_chunk_data_almost_done \<Rightarrow> chunked q \<and> hp_content_length q = 0
      | s_chunk_data_done \<Rightarrow> chunked q
      | _ \<Rightarrow> True)"

text \<open>The mark that can be set in a state.\<close>

definition mark_of :: "state \<Rightarrow> mark option" where
  "mark_of s =
     (case s of
        s_header_field \<Rightarrow> Some M_header_field
      | s_header_value \<Rightarrow> Some M_header_value
      | s_req_schema \<Rightarrow> Some M_url
      | s_req_schema_slash \<Rightarrow> Some M_url
      | s_req_schema_slash_slash \<Rightarrow> Some M_url
      | s_req_server_start \<Rightarrow> Some M_url
      | s_req_server \<Rightarrow> Some M_url
      | s_req_server_with_at \<Rightarrow> Some M_url
      | s_req_path \<Rightarrow> Some M_url
      | s_req_query_string_start \<Rightarrow> Some M_url
      | s_req_query_string \<Rightarrow> Some M_url
      | s_req_fragment_start \<Rightarrow> Some M_url
      | s_req_fragment \<Rightarrow> Some M_url
      | s_res_status \<Rightarrow> Some M_status
      | s_body_identity \<Rightarrow> Some M_body
      | s_body_identity_eof \<Rightarrow> Some M_body
      | s_chunk_data \<Rightarrow> Some M_body
      | s_chunk_data_almost_done \<Rightarrow> Some M_body
      | _ \<Rightarrow> None)"

definition marks_ok :: "'a ctx \<Rightarrow> bool" where
  "marks_ok c \<longleftrightarrow>
     (\<forall>m i. x_marks c m = Some i \<longrightarrow> mark_of (x_state c) = Some m \<and> i \<le> x_p c)"

definition ctx_ok :: "uint32 \<Rightarrow> 'a env \<Rightarrow> 'a ctx \<Rightarrow> bool" where
  "ctx_ok k e c \<longleftrightarrow>
     hp_errno (x_parser c) = HPE_OK \<and> x_p c < length (e_data e) \<and>
     st_ok k (x_state c) (x_nread c) (x_parser c) \<and> marks_ok c"

text \<open>A parser between two calls.\<close>

definition parser_ok :: "'a http_parser \<Rightarrow> bool" where
  "parser_ok q \<longleftrightarrow> (hp_errno q \<in> {HPE_OK, HPE_PAUSED} \<longrightarrow> st_ok 0 (hp_state q) (hp_nread q) q)"

text \<open>How often the switch can run again on the same byte.\<close>

definition rank :: "state \<Rightarrow> nat" where
  "rank s =
     (if s = s_header_value_discard_lws \<or> s = s_header_value_lws then 3
      else if s = s_header_field_start \<or> s = s_res_status_code then 2
      else if s \<in> {s_start_req_or_res, s_res_status_start, s_headers_almost_done, s_header_value,
                  s_body_identity} then 1
      else 0)"

text \<open>The outcomes a handler may have when it is started at offset \<open>p\<close> in a state of rank \<open>r\<close>.\<close>

fun good :: "'a env \<Rightarrow> nat \<Rightarrow> nat \<Rightarrow> 'a outcome \<Rightarrow> bool" where
  "good e p r (Break c) \<longleftrightarrow> ctx_ok 0 e c \<and> p \<le> x_p c"
| "good e p r (Reexecute c) \<longleftrightarrow>
     ctx_ok 1 e c \<and> p \<le> x_p c \<and> rank (x_state c) < r"
| "good e p r (Return v q) \<longleftrightarrow>
     v \<le> length (e_data e) \<and> parser_ok q \<and> 
     (hp_errno q = HPE_OK \<longrightarrow> hp_upgrade q \<or> v = length (e_data e))"
| "good e p r (Goto_error c) \<longleftrightarrow>
     x_p c \<le> length (e_data e) \<and> hp_errno (x_parser c) \<notin> {HPE_OK, HPE_PAUSED}"
| "good e p r (Abort a) \<longleftrightarrow> False"

section \<open>The macros\<close>

text \<open>A context that a callback left unchanged but for the application data.\<close>

definition with_data :: "'a ctx \<Rightarrow> 'a \<Rightarrow> 'a ctx" where
  "with_data c d = upd (\<lambda>q. q\<lparr>hp_state := x_state c, hp_data := d\<rparr>) c"

lemma with_data_simps [simp]:
  "x_p (with_data c d) = x_p c" "x_ch (with_data c d) = x_ch c" "x_state (with_data c d) = x_state c"
  "x_nread (with_data c d) = x_nread c" "x_marks (with_data c d) = x_marks c"
  "hp_errno (x_parser (with_data c d)) = hp_errno (x_parser c)"
  "hp_upgrade (x_parser (with_data c d)) = hp_upgrade (x_parser c)"
  "hp_state (x_parser (with_data c d)) = x_state c"
  "hp_flags (x_parser (with_data c d)) = hp_flags (x_parser c)"
  "hp_content_length (x_parser (with_data c d)) = hp_content_length (x_parser c)"
  "(with_data c d)\<lparr>x_state := x_state c\<rparr> = with_data c d"
  by (simp_all add: with_data_def upd_def)

lemma st_ok_cong:
  assumes "hp_index q = hp_index q'" "hp_method q = hp_method q'"
    "hp_header_state q = hp_header_state q'" "hp_content_length q = hp_content_length q'"
    "hp_flags q = hp_flags q'"
  shows "st_ok k s n q = st_ok k s n q'"
  using assms by (cases s) (simp_all add: st_ok_def chunked_def)

lemma st_ok_with_data [simp]:
  "st_ok k s n (x_parser (with_data c d)) = st_ok k s n (x_parser c)"
  by (rule st_ok_cong) (simp_all add: with_data_def upd_def)

lemma st_ok_irrelevant [simp]:
  "st_ok k s n (q\<lparr>hp_state := t\<rparr>) = st_ok k s n q"
  "st_ok k s n (q\<lparr>hp_data := d\<rparr>) = st_ok k s n q"
  "st_ok k s n (q\<lparr>hp_errno := err\<rparr>) = st_ok k s n q"
  "st_ok k s n (q\<lparr>hp_nread := m\<rparr>) = st_ok k s n q"
  "st_ok k s n (q\<lparr>hp_upgrade := b\<rparr>) = st_ok k s n q"
  "st_ok k s n (q\<lparr>hp_type := ty\<rparr>) = st_ok k s n q"
  "st_ok k s n (q\<lparr>hp_http_major := v\<rparr>) = st_ok k s n q"
  "st_ok k s n (q\<lparr>hp_http_minor := v\<rparr>) = st_ok k s n q"
  "st_ok k s n (q\<lparr>hp_status_code := v\<rparr>) = st_ok k s n q"
  "st_ok k s n (q\<lparr>hp_uses_transfer_encoding := b\<rparr>) = st_ok k s n q"
  by (rule st_ok_cong, simp_all)+

lemma ctx_ok_with_data [simp]: "ctx_ok k e (with_data c d) = ctx_ok k e c"
  by (simp add: ctx_ok_def marks_ok_def)

lemma good_fail [simp]:
  "good e p r (fail err c) \<longleftrightarrow> x_p c \<le> length (e_data e) \<and> err \<notin> {HPE_OK, HPE_PAUSED}"
  by (simp add: fail_def SET_ERRNO_def upd_def)

lemma good_STRICT_CHECK [intro!]:
  "x_p c \<le> length (e_data e) \<Longrightarrow> (\<not> b \<Longrightarrow> good e p r k) \<Longrightarrow> good e p r (STRICT_CHECK b c k)"
  by (simp add: STRICT_CHECK_def)

lemma good_assert_that [intro!]:
  "b \<Longrightarrow> good e p r k \<Longrightarrow> good e p r (assert_that b k)"
  by (simp add: assert_that_def)

lemma good_COUNT_HEADER_SIZE [intro!]:
  assumes "x_p c \<le> length (e_data e)"
    and "good e p r (k (c\<lparr>x_nread := x_nread c + of_nat v\<rparr>))"
  shows "good e p r (COUNT_HEADER_SIZE v e c k)"
  using assms by (simp add: COUNT_HEADER_SIZE_def Let_def)

lemma good_CALLBACK_NOTIFY_ER:
  assumes "cb_ok cb" "hp_errno (x_parser c) = HPE_OK" "er \<le> length (e_data e)"
    and st: "st_ok 0 (x_state c) (hp_nread (x_parser c)) (x_parser c)"
    and k: "good e p r (k c)" "\<And>d. good e p r (k (with_data c d))"
    and err: "err \<notin> {HPE_OK, HPE_PAUSED}"
  shows "good e p r (CALLBACK_NOTIFY_ER cb err er c k)"
proof (cases cb)
  case None
  with assms show ?thesis by (simp add: CALLBACK_NOTIFY_ER_def assert_that_def)
next
  case (Some f)
  let ?q = "(x_parser c)\<lparr>hp_state := x_state c\<rparr>"
  obtain ret d er' where f: "f ?q = (ret, ?q\<lparr>hp_errno := er', hp_data := d\<rparr>)"
    using \<open>cb_ok cb\<close> Some unfolding cb_ok_def by blast
  have "UPDATE_STATE (x_state c) (c\<lparr>x_parser := ?q\<lparr>hp_errno := HPE_OK, hp_data := d\<rparr>\<rparr>) = with_data c d"
    using assms(2) by (simp add: with_data_def upd_def UPDATE_STATE_def)
  with Some f assms show ?thesis
    by (auto simp: CALLBACK_NOTIFY_ER_def assert_that_def SET_ERRNO_def upd_def UPDATE_STATE_def
        parser_ok_def Let_def)
qed

lemma settings_ok_data_cb: "settings_ok s \<Longrightarrow> data_cb_ok (data_cb m s)"
  by (cases m) (simp_all add: settings_ok_def)

lemma good_CALLBACK_DATA_ER:
  assumes "settings_ok (e_settings e)" "hp_errno (x_parser c) = HPE_OK" "er \<le> length (e_data e)"
    and st: "x_marks c m \<noteq> None \<Longrightarrow> st_ok 0 (x_state c) (hp_nread (x_parser c)) (x_parser c)"
    and m: "\<And>i. x_marks c m = Some i \<Longrightarrow> i \<le> stop" "stop \<le> length (e_data e)"
    and k: "x_marks c m = None \<Longrightarrow> good e p r (k c)"
      "good e p r (k (c\<lparr>x_marks := (x_marks c)(m := None)\<rparr>))"
      "\<And>d. good e p r (k ((with_data c d)\<lparr>x_marks := (x_marks c)(m := None)\<rparr>))"
  shows "good e p r (CALLBACK_DATA_ER m stop er e c k)"
proof (cases "x_marks c m")
  case None
  with assms show ?thesis by (simp add: CALLBACK_DATA_ER_def assert_that_def)
next
  case (Some i)
  note mark = this
  show ?thesis
  proof (cases "data_cb m (e_settings e)")
    case None
    with assms mark show ?thesis by (simp add: CALLBACK_DATA_ER_def assert_that_def)
  next
    case (Some f)
    let ?q = "(x_parser c)\<lparr>hp_state := x_state c\<rparr>"
    obtain ret d er' where f: "f ?q (take (stop - i) (drop i (e_data e))) =
        (ret, ?q\<lparr>hp_errno := er', hp_data := d\<rparr>)"
      using settings_ok_data_cb [OF assms(1), of m] Some unfolding data_cb_ok_def by blast
    have "UPDATE_STATE (x_state c) (c\<lparr>x_parser := ?q\<lparr>hp_errno := HPE_OK, hp_data := d\<rparr>\<rparr>) = with_data c d"
      using assms(2) by (simp add: with_data_def upd_def UPDATE_STATE_def)
    moreover have "data_errno m \<notin> {HPE_OK, HPE_PAUSED}" by (cases m) simp_all
    ultimately show ?thesis using Some f assms mark
      by (auto simp: CALLBACK_DATA_ER_def assert_that_def SET_ERRNO_def upd_def UPDATE_STATE_def
          parser_ok_def Let_def)
  qed
qed


section \<open>The handlers\<close>

lemma ctx_simps [simp]:
  "x_state (upd f c) = x_state c" "x_state (UPDATE_STATE s c) = s"
  "x_nread (upd f c) = x_nread c" "x_nread (UPDATE_STATE s c) = x_nread c"
  "x_marks (upd f c) = x_marks c" "x_marks (UPDATE_STATE s c) = x_marks c"
  "x_parser (upd f c) = f (x_parser c)" "x_parser (UPDATE_STATE s c) = x_parser c"
  by (simp_all add: ctx_ops_defs)

lemma MARK_simps [simp]:
  "x_state (MARK m c) = x_state c" "x_nread (MARK m c) = x_nread c" "x_p (MARK m c) = x_p c"
  "x_parser (MARK m c) = x_parser c" "x_ch (MARK m c) = x_ch c"
  by (simp_all add: MARK_def split: option.split)

lemma no_marks:
  "marks_ok c \<Longrightarrow> mark_of (x_state c) = None \<Longrightarrow> x_marks c m = None"
  unfolding marks_ok_def by (metis option.exhaust option.distinct(1))

lemma marks_none [simp]: "(\<And>m. x_marks c m = None) \<Longrightarrow> marks_ok c"
  by (simp add: marks_ok_def)

text \<open>What a handler for state \<open>s\<close> may assume, and what it has to achieve.\<close>

definition pre :: "state \<Rightarrow> 'a env \<Rightarrow> 'a ctx \<Rightarrow> bool" where
  "pre s e c \<longleftrightarrow>
     ctx_ok 1 e c \<and> x_state c = s \<and> settings_ok (e_settings e) \<and> length (e_data e) < 2 ^ 64"

definition safe_in :: "state \<Rightarrow> ('a env \<Rightarrow> 'a ctx \<Rightarrow> 'a outcome) \<Rightarrow> bool" where
  "safe_in s h \<longleftrightarrow> (\<forall>e c. pre s e c \<longrightarrow> good e (x_p c) (rank s) (h e c))"

lemma safe_inI:
  assumes "\<And>e c. hp_errno (x_parser c) = HPE_OK \<Longrightarrow> x_p c < length (e_data e) \<Longrightarrow>
      st_ok 1 s (x_nread c) (x_parser c) \<Longrightarrow> marks_ok c \<Longrightarrow> x_state c = s \<Longrightarrow>
      settings_ok (e_settings e) \<Longrightarrow> length (e_data e) < 2 ^ 64 \<Longrightarrow>
      good e (x_p c) (rank s) (h e c)"
  shows "safe_in s h"
  using assms unfolding safe_in_def pre_def ctx_ok_def by blast

lemma safe_in_plainI:
  assumes "mark_of s = None"
    and "\<And>e c. hp_errno (x_parser c) = HPE_OK \<Longrightarrow> x_p c < length (e_data e) \<Longrightarrow>
      st_ok 1 s (x_nread c) (x_parser c) \<Longrightarrow> x_marks c = (\<lambda>_. None) \<Longrightarrow> x_state c = s \<Longrightarrow>
      settings_ok (e_settings e) \<Longrightarrow> good e (x_p c) (rank s) (h e c)"
  shows "safe_in s h"
proof (rule safe_inI)
  fix e :: "'a env" and c :: "'a ctx"
  assume *: "hp_errno (x_parser c) = HPE_OK" "x_p c < length (e_data e)"
    "st_ok 1 s (x_nread c) (x_parser c)" "x_state c = s" "settings_ok (e_settings e)" and m: "marks_ok c"
  have "x_marks c = (\<lambda>_. None)" using no_marks [OF m] * assms(1) by auto
  with * assms(2) show "good e (x_p c) (rank s) (h e c)" by blast
qed

lemma one_mark:
  assumes "marks_ok c" "mark_of (x_state c) = Some m"
  shows "x_marks c = (\<lambda>_. None)(m := x_marks c m)" "x_marks c m = Some i \<Longrightarrow> i \<le> x_p c"
proof -
  have "x_marks c n = ((\<lambda>_. None)(m := x_marks c m)) n" for n
  proof (cases "x_marks c n")
    case (Some i)
    with assms have "n = m" unfolding marks_ok_def by fastforce
    then show ?thesis by simp
  qed auto
  then show "x_marks c = (\<lambda>_. None)(m := x_marks c m)" by (rule ext)
  show "x_marks c m = Some i \<Longrightarrow> i \<le> x_p c" using assms unfolding marks_ok_def by blast
qed

lemma safe_in_markI:
  assumes "mark_of s = Some m"
    and "\<And>e c mo. hp_errno (x_parser c) = HPE_OK \<Longrightarrow> x_p c < length (e_data e) \<Longrightarrow>
      st_ok 1 s (x_nread c) (x_parser c) \<Longrightarrow> x_marks c = (\<lambda>_. None)(m := mo) \<Longrightarrow>
      (\<And>i. mo = Some i \<Longrightarrow> i \<le> x_p c) \<Longrightarrow> x_state c = s \<Longrightarrow>
      settings_ok (e_settings e) \<Longrightarrow> length (e_data e) < 2 ^ 64 \<Longrightarrow>
      good e (x_p c) (rank s) (h e c)"
  shows "safe_in s h"
proof (rule safe_inI)
  fix e :: "'a env" and c :: "'a ctx"
  assume *: "hp_errno (x_parser c) = HPE_OK" "x_p c < length (e_data e)"
    "st_ok 1 s (x_nread c) (x_parser c)" "x_state c = s" "settings_ok (e_settings e)"
    "length (e_data e) < 2 ^ 64" and mk: "marks_ok c"
  from *(4) assms(1) have m: "mark_of (x_state c) = Some m" by simp
  show "good e (x_p c) (rank s) (h e c)"
    by (rule assms(2) [OF *(1-3) one_mark(1) [OF mk m] one_mark(2) [OF mk m] *(4-6)])
qed

lemma fun_upd_None [simp]: "(\<lambda>_. None)(m := None) = (\<lambda>_. None)"
  by (simp add: fun_eq_iff)

lemma CR_LF [simp]: "CR \<noteq> LF" "LF \<noteq> CR"
  by (simp_all add: CR_def LF_def)

lemmas out_simps = ctx_ok_def marks_ok_def st_ok_def mark_of_def rank_def Let_def
  CALLBACK_NOTIFY_def CALLBACK_NOTIFY_NOADVANCE_def CALLBACK_DATA_def CALLBACK_DATA_NOADVANCE_def

lemmas callback_intros = good_CALLBACK_NOTIFY_ER good_CALLBACK_DATA_ER

lemma settings_okD:
  assumes "settings_ok s"
  shows "cb_ok (on_message_begin s)" "cb_ok (on_headers_complete s)" "cb_ok (on_message_complete s)"
    "cb_ok (on_chunk_header s)" "cb_ok (on_chunk_complete s)"
  using assms by (simp_all add: settings_ok_def)

lemma safe_dead: "safe_in s_dead exec_dead"
  by (rule safe_in_plainI) (auto simp: exec_dead_def out_simps)

lemma reset_message_simps [simp]:
  "hp_errno (reset_message q) = hp_errno q" "hp_nread (reset_message q) = hp_nread q"
  by (simp_all add: reset_message_def)

lemma safe_start_req_or_res: "safe_in s_start_req_or_res exec_start_req_or_res"
  by (rule safe_in_plainI)
    (auto simp: exec_start_req_or_res_def out_simps settings_okD intro!: callback_intros)

lemma safe_res_or_resp_H: "safe_in s_res_or_resp_H exec_res_or_resp_H"
  by (rule safe_in_plainI)
    (auto simp: exec_res_or_resp_H_def out_simps settings_okD intro!: callback_intros)

lemma safe_start_res: "safe_in s_start_res exec_start_res"
  by (rule safe_in_plainI)
    (auto simp: exec_start_res_def out_simps settings_okD intro!: callback_intros)

lemma good_expect:
  assumes "hp_errno (x_parser c) = HPE_OK" "x_p c < length (e_data e)" "x_marks c = (\<lambda>_. None)"
    "st_ok 0 t (x_nread c) (x_parser c)"
  shows "good e (x_p c) r (exec_expect ch t c)"
  using assms by (auto simp: exec_expect_def ctx_ok_def)

lemma safe_res_HTTP: "s \<in> {s_res_H, s_res_HT, s_res_HTT, s_res_HTTP} \<Longrightarrow> safe_in s exec_res_HTTP"
  by (rule safe_in_plainI) (auto simp: exec_res_HTTP_def mark_of_def st_ok_def intro!: good_expect)


lemma safe_res_version:
  "s \<in> {s_res_http_major, s_res_http_dot, s_res_http_minor, s_res_http_end} \<Longrightarrow>
     safe_in s exec_res_version"
  by (rule safe_in_plainI) (auto simp: exec_res_version_def out_simps)

lemma safe_res_first_status_code: "safe_in s_res_first_status_code exec_res_first_status_code"
  by (rule safe_in_plainI) (auto simp: exec_res_first_status_code_def out_simps)

lemma safe_res_status_code: "safe_in s_res_status_code exec_res_status_code"
  by (rule safe_in_plainI) (auto simp: exec_res_status_code_def out_simps)

lemma safe_res_status_start: "safe_in s_res_status_start exec_res_status_start"
  by (rule safe_in_plainI) (auto simp: exec_res_status_start_def MARK_def out_simps)

lemma safe_res_status: "safe_in s_res_status exec_res_status"
  by (rule safe_in_markI [where m = M_status])
    (auto simp: exec_res_status_def out_simps intro!: callback_intros)

lemma safe_res_line_almost_done: "safe_in s_res_line_almost_done exec_res_line_almost_done"
  by (rule safe_in_plainI) (auto simp: exec_res_line_almost_done_def exec_expect_def out_simps)

lemma start_method_length:
  "start_method ch = Some m \<Longrightarrow> 1 \<le> length (HTTP_METHOD_MAP m)"
  by (cases m) simp_all

lemma safe_start_req: "safe_in s_start_req exec_start_req"
  by (rule safe_in_plainI)
    (auto simp: exec_start_req_def out_simps settings_okD with_data_def split: option.splits
      intro!: callback_intros start_method_length [simplified])

lemma method_switch_length:
  "map_of method_switch (m, i, ch) = Some m' \<Longrightarrow> i < length (HTTP_METHOD_MAP m')"
  by (drule map_of_SomeD) (auto simp: method_switch_def)

lemma method_length: "length (HTTP_METHOD_MAP m) \<le> 11"
  by (cases m) simp_all

lemma unat_index_Suc: "unat (i :: 5 word) < 11 \<Longrightarrow> unat (i + 1) = Suc (unat i)"
  by (simp add: unat_add_no_wrap)

lemma method_index_step:
  fixes i :: "5 word"
  assumes "unat i \<le> length (HTTP_METHOD_MAP m)" "ch \<noteq> CHR 0x00" "ch = cstr (HTTP_METHOD_MAP m) (unat i)"
  shows "unat (i + 1) \<le> length (HTTP_METHOD_MAP m)"
proof -
  from assms have "unat i < length (HTTP_METHOD_MAP m)" by (auto simp: cstr_def split: if_splits)
  with method_length [of m] unat_index_Suc [of i] show ?thesis by linarith
qed

lemma method_index_switch:
  fixes i :: "5 word"
  assumes "map_of method_switch (m, unat i, ch) = Some m'"
  shows "unat (i + 1) \<le> length (HTTP_METHOD_MAP m')"
  using method_switch_length [OF assms] method_length [of m'] unat_index_Suc [of i] by linarith

lemma safe_req_method: "safe_in s_req_method exec_req_method"
  by (rule safe_in_plainI)
    (auto simp: exec_req_method_def out_simps method_index_switch
      intro: method_index_step split: option.splits)

lemma url_states_facts:
  assumes "s \<in> url_states"
  shows "mark_of s = Some M_url" "st_ok k s n q" "rank s = 0"
  using assms by (auto simp: mark_of_def url_states_def st_ok_def rank_def)

lemma good_url_char:
  assumes "hp_errno (x_parser c) = HPE_OK"
    "x_p c < length (e_data e)" "\<And>m i. x_marks c m = Some i \<Longrightarrow> M_url = m \<and> i \<le> x_p c" "p \<le> x_p c"
  shows "good e p r (exec_url_char c)"
  using assms parse_url_char_url [of "x_state c" "x_ch c"]
  by (auto simp: exec_url_char_def Let_def ctx_ok_def marks_ok_def url_states_facts)

lemma safe_req_spaces_before_url: "safe_in s_req_spaces_before_url exec_req_spaces_before_url"
  by (rule safe_in_plainI)
    (auto simp: exec_req_spaces_before_url_def out_simps MARK_def intro!: good_url_char split: if_splits)

lemma safe_req_schema:
  assumes "s \<in> url_states"
  shows "safe_in s exec_req_schema"
proof (rule safe_in_markI)
  show "mark_of s = Some M_url" by (rule url_states_facts [OF assms])
qed (use assms in \<open>auto simp: exec_req_schema_def intro!: good_url_char split: if_splits\<close>)

lemma safe_req_url:
  assumes "s \<in> url_states"
  shows "safe_in s exec_req_url"
proof (rule safe_in_markI)
  show "mark_of s = Some M_url" by (rule url_states_facts [OF assms])
  fix e :: "'a env" and c :: "'a ctx" and mo
  assume *: "hp_errno (x_parser c) = HPE_OK" "x_p c < length (e_data e)"
    "x_marks c = (\<lambda>_. None)(M_url := mo)" "\<And>i. mo = Some i \<Longrightarrow> i \<le> x_p c" "settings_ok (e_settings e)"
  then have "good e (x_p c) r (exec_req_url e c)" for r
    by (auto simp: exec_req_url_def CALLBACK_DATA_def ctx_ok_def st_ok_def
        intro!: good_url_char callback_intros split: if_split_asm)
  then show "good e (x_p c) (rank s) (exec_req_url e c)" .
qed

lemma safe_req_http_start: "safe_in s_req_http_start exec_req_http_start"
  by (rule safe_in_plainI) (auto simp: exec_req_http_start_def out_simps)

lemma safe_req_HTTP: "s \<in> {s_req_http_H, s_req_http_HT, s_req_http_HTT, s_req_http_HTTP, s_req_http_I, s_req_http_IC} \<Longrightarrow>
   safe_in s exec_req_HTTP"
  by (rule safe_in_plainI) (auto simp: exec_req_HTTP_def mark_of_def st_ok_def intro!: good_expect)

lemma safe_req_version:
  "s \<in> {s_req_http_major, s_req_http_dot, s_req_http_minor, s_req_http_end} \<Longrightarrow>
     safe_in s exec_req_version"
  by (rule safe_in_plainI) (auto simp: exec_req_version_def out_simps)

lemma safe_req_line_almost_done: "safe_in s_req_line_almost_done exec_req_line_almost_done"
  by (rule safe_in_plainI) (auto simp: exec_req_line_almost_done_def out_simps)

lemma safe_header_field_start: "safe_in s_header_field_start exec_header_field_start"
  by (rule safe_in_plainI) (auto simp: exec_header_field_start_def MARK_def field_state_def out_simps)


lemma skip_token_lt: "p < n \<Longrightarrow> pe \<le> n \<Longrightarrow> skip_token data pe p < n"
  by (induction data pe p rule: skip_token.induct) (subst skip_token.simps, auto)

lemma match_name_errno [simp]: "hp_errno (match_name str full tk q) = hp_errno q"
  by (simp add: match_name_def bump_index_def Let_def split: match_result.split)

lemma match_name_field_state:
  assumes "field_state (hp_header_state q)" "field_state full"
  shows "field_state (hp_header_state (match_name str full tk q))"
  using assms
  by (simp add: match_name_def bump_index_def Let_def field_state_def [of h_general] split: match_result.split)

lemma header_field_step_ok:
  assumes "field_state (hp_header_state q)" "p < length (e_data e)"
  shows "\<exists>q' p'. header_field_step e q p ch tk = Some (q', p') \<and> p \<le> p' \<and> p' < length (e_data e) \<and>
    field_state (hp_header_state q') \<and> hp_errno q' = hp_errno q"
proof (cases "hp_header_state q = h_general")
  case True
  with assms show ?thesis by (auto simp: header_field_step_def skip_token_ge intro!: skip_token_lt)
next
  case False
  with assms match_name_field_state [OF assms(1)] show ?thesis
    by (cases "hp_header_state q")
      (simp_all add: header_field_step_def field_state_def [of h for h] bump_index_def Let_def)
qed

lemma header_field_loop_ok:
  "field_state (hp_header_state q) \<Longrightarrow> p \<le> length (e_data e) \<Longrightarrow>
     \<exists>q' p' ch'. header_field_loop e q p ch = Some (q', p', ch') \<and> p \<le> p' \<and> p' \<le> length (e_data e) \<and>
       field_state (hp_header_state q') \<and> hp_errno q' = hp_errno q"
proof (induction e q p ch rule: header_field_loop.induct)
  case (1 e q p ch)
  show ?case
  proof (cases "p < length (e_data e) \<and> TOKEN (e_data e ! p) \<noteq> CHR 0x00")
    case True
    obtain q1 p1 where step: "header_field_step e q p (e_data e ! p) (TOKEN (e_data e ! p)) = Some (q1, p1)"
      and q1: "p \<le> p1" "p1 < length (e_data e)" "field_state (hp_header_state q1)" "hp_errno q1 = hp_errno q"
      using header_field_step_ok [OF "1.prems"(1), of p e] True by blast
    have "\<exists>q' p' ch'. header_field_loop e q1 (p1 + 1) (e_data e ! p) = Some (q', p', ch') \<and>
        p1 + 1 \<le> p' \<and> p' \<le> length (e_data e) \<and> field_state (hp_header_state q') \<and> hp_errno q' = hp_errno q1"
      using "1.IH" [OF _ refl refl _ step refl] True q1 by simp
    then show ?thesis using True step q1
      by (subst header_field_loop.simps) (auto simp: Let_def)
  next
    case False
    with "1.prems" show ?thesis by (subst header_field_loop.simps) (auto simp: Let_def)
  qed
qed

lemma safe_header_field: "safe_in s_header_field exec_header_field"
proof (rule safe_in_markI)
  show "mark_of s_header_field = Some M_header_field" by (simp add: mark_of_def)
  fix e :: "'a env" and c :: "'a ctx" and mo
  assume *: "hp_errno (x_parser c) = HPE_OK" "x_p c < length (e_data e)"
    "st_ok 1 s_header_field (x_nread c) (x_parser c)" "x_state c = s_header_field"
    "x_marks c = (\<lambda>_. None)(M_header_field := mo)" "\<And>i. mo = Some i \<Longrightarrow> i \<le> x_p c" "settings_ok (e_settings e)"
  then have "field_state (hp_header_state (x_parser c))" "x_p c \<le> length (e_data e)"
    by (simp_all add: st_ok_def)
  from header_field_loop_ok [OF this] obtain q p ch
    where "header_field_loop e (x_parser c) (x_p c) (x_ch c) = Some (q, p, ch)"
      "x_p c \<le> p" "p \<le> length (e_data e)" "field_state (hp_header_state q)" "hp_errno q = HPE_OK"
    using * by metis
  with * show "good e (x_p c) (rank s_header_field) (exec_header_field e c)"
    by (fastforce simp: exec_header_field_def out_simps intro!: callback_intros)
qed

text \<open>The loop over a header value.\<close>

definition value_ok :: "'a env \<Rightarrow> nat \<Rightarrow> header_states \<Rightarrow> 'a ctx \<Rightarrow> bool" where
  "value_ok e start h c \<longleftrightarrow>
     hp_errno (x_parser c) = HPE_OK \<and> start \<le> x_p c \<and> x_p c \<le> length (e_data e) \<and>
     start < length (e_data e) \<and> x_state c = s_header_value \<and> h \<notin> {h_connection, h_transfer_encoding} \<and>
     settings_ok (e_settings e) \<and>
     (\<exists>mo. x_marks c = (\<lambda>_. None)(M_header_value := mo) \<and> (\<forall>i. mo = Some i \<longrightarrow> i \<le> start))"

lemma value_ok_upd:
  assumes "value_ok e start h c" "h' \<notin> {h_connection, h_transfer_encoding}"
    "x_state c' = x_state c" "x_marks c' = x_marks c" "hp_errno (x_parser c') = hp_errno (x_parser c)"
    "x_p c \<le> x_p c'" "x_p c' \<le> length (e_data e)"
  shows "value_ok e start h' c'"
  using assms unfolding value_ok_def by fastforce

definition step_ok ::
    "'a env \<Rightarrow> nat \<Rightarrow> 'a outcome + (header_states \<times> 'a ctx) \<Rightarrow> bool" where
  "step_ok e start res \<longleftrightarrow>
     (case res of Inl out \<Rightarrow> good e start 1 out | Inr (h, c) \<Rightarrow> value_ok e start h c)"

lemma step_ok_simps [simp]:
  "step_ok e start (Inl out) = good e start 1 out"
  "step_ok e start (Inr (h, c)) = value_ok e start h c"
  by (simp_all add: step_ok_def)

lemma good_fail_content_length [simp]:
  "good e p r (fail_content_length h c) \<longleftrightarrow> x_p c \<le> length (e_data e)"
  by (simp add: fail_content_length_def SET_ERRNO_def)

lemma value_ok_p: "value_ok e start h c \<Longrightarrow> x_p c \<le> length (e_data e)"
  by (simp add: value_ok_def)

lemma errno_simps [simp]:
  "hp_errno (x_parser (set_flag f c)) = hp_errno (x_parser c)"
  "hp_errno (x_parser (reset_index c)) = hp_errno (x_parser c)"
  "hp_errno (bump_index q) = hp_errno q"
  "x_marks (set_flag f c) = x_marks c" "x_state (set_flag f c) = x_state c"
  "x_marks (reset_index c) = x_marks c" "x_state (reset_index c) = x_state c"
  "x_nread (set_flag f c) = x_nread c" "x_nread (reset_index c) = x_nread c"
  by (simp_all add: ctx_ops_defs bump_index_def)

lemma value_ok_upd_parser [simp]:
  "hp_errno (f (x_parser c)) = hp_errno (x_parser c) \<Longrightarrow> value_ok e start h (upd f c) = value_ok e start h c"
  "value_ok e start h (set_flag g c) = value_ok e start h c"
  "value_ok e start h (reset_index c) = value_ok e start h c"
  by (simp_all add: value_ok_def)

lemma value_ok_state [simp]:
  "value_ok e start h c \<Longrightarrow> h' \<notin> {h_connection, h_transfer_encoding} \<Longrightarrow> value_ok e start h' c"
  by (simp add: value_ok_def)

lemma step_ok_match_value:
  "value_ok e start h c \<Longrightarrow> {this, full, other} \<inter> {h_connection, h_transfer_encoding} = {} \<Longrightarrow>
     step_ok e start (Inr (match_value str this full other lo c))"
  by (auto simp: match_value_def Let_def split: match_result.split)

lemma step_ok_content_length_num:
  "value_ok e start h c \<Longrightarrow> step_ok e start (header_value_content_length_num c)"
  by (auto simp: header_value_content_length_num_def Let_def value_ok_p)

lemma step_ok_general:
  assumes "value_ok e start h_general c" "x_p c < length (e_data e)"
    "e_data e ! x_p c \<noteq> CR" "e_data e ! x_p c \<noteq> LF"
  shows "step_ok e start (header_value_general e c)"
proof (cases "header_value_general e c")
  case (Inl out)
  then show ?thesis using assms(1,2)
    by (auto simp: header_value_general_def Let_def dest: scan_value_BadChar split: scan_result.splits)
next
  case (Inr res)
  obtain h' c' where res: "res = (h', c')" by force
  with Inr have "header_value_step e h_general c = Inr (h', c')"
    by (simp add: header_value_step_def)
  from header_value_step_p [OF this assms(2-4)] have p: "x_p c \<le> x_p c'" "x_p c' \<le> length (e_data e)"
    by simp_all
  from Inr res have same: "h' = h_general" "x_state c' = x_state c" "x_marks c' = x_marks c"
      "x_parser c' = x_parser c"
    by (auto simp: header_value_general_def Let_def split: scan_result.splits)
  have "value_ok e start h' c'"
    by (rule value_ok_upd [OF assms(1)]) (simp_all add: same p)
  with Inr res show ?thesis by simp
qed

lemma value_ok_bad [simp]: "\<not> value_ok e start h_connection c" "\<not> value_ok e start h_transfer_encoding c"
  by (simp_all add: value_ok_def)

lemma value_ok_UPDATE_STATE:
  "value_ok e start h c \<Longrightarrow> value_ok e start h_general (UPDATE_STATE s_header_value c)"
  by (simp add: value_ok_def)

lemma header_value_step_ok:
  assumes "value_ok e start h c" "x_p c < length (e_data e)"
    "e_data e ! x_p c \<noteq> CR" "e_data e ! x_p c \<noteq> LF"
  shows "step_ok e start (header_value_step e h c)"
  using assms step_ok_general [OF _ assms(2-4)]
  by (cases h) (simp_all add: header_value_step_def Let_def step_ok_match_value step_ok_content_length_num
      value_ok_p value_ok_UPDATE_STATE)

lemma good_header_value_end:
  assumes "hp_errno (x_parser c) = HPE_OK" "start \<le> x_p c" "x_p c \<le> length (e_data e)"
    "start < length (e_data e)" "h \<notin> {h_connection, h_transfer_encoding}"
    "x_state c = s_header_value \<or> x_state c = s_header_almost_done"
    "x_marks c = (\<lambda>_. None) \<or> x_state c = s_header_value \<and>
       x_marks c = (\<lambda>_. None)(M_header_value := mo) \<and> (\<forall>i. mo = Some i \<longrightarrow> i \<le> start)"
  shows "good e start r (header_value_end e start h c)"
  using assms unfolding header_value_end_def Let_def
  by (auto simp: ctx_ok_def st_ok_def marks_ok_def mark_of_def)

lemma value_ok_x_ch [simp]: "value_ok e start h (c\<lparr>x_ch := ch\<rparr>) = value_ok e start h c"
  by (simp add: value_ok_def)

lemma value_ok_next:
  "value_ok e start h c \<Longrightarrow> x_p c < length (e_data e) \<Longrightarrow> value_ok e start h (c\<lparr>x_p := x_p c + 1\<rparr>)"
  by (simp add: value_ok_def)

text \<open>A byte of the value that is not a line end.\<close>

lemma good_value_byte:
  assumes ok: "value_ok e start h c" and p: "x_p c < length (e_data e)"
    and ch: "e_data e ! x_p c \<noteq> CR" "e_data e ! x_p c \<noteq> LF"
    and IH: "\<And>h1 c1. \<not> (\<not> e_lenient e \<and> \<not> IS_HEADER_CHAR (e_data e ! x_p c)) \<Longrightarrow>
      header_value_step e h (c\<lparr>x_ch := e_data e ! x_p c\<rparr>) = Inr (h1, c1) \<Longrightarrow>
      value_ok e start h1 (c1\<lparr>x_p := x_p c1 + 1\<rparr>) \<Longrightarrow>
      good e start 1 (header_value_loop e start h1 (c1\<lparr>x_p := x_p c1 + 1\<rparr>))"
  shows "good e start 1 (header_value_loop e start h c)"
proof (cases "\<not> e_lenient e \<and> \<not> IS_HEADER_CHAR (e_data e ! x_p c)")
  case True
  with p ch show ?thesis by (subst header_value_loop.simps) (simp add: Let_def)
next
  case False
  let ?c = "c\<lparr>x_ch := e_data e ! x_p c\<rparr>"
  have step: "step_ok e start (header_value_step e h ?c)"
    using header_value_step_ok [of e start h ?c] ok p ch by simp
  show ?thesis
  proof (cases "header_value_step e h ?c")
    case (Inl out)
    with step p ch False show ?thesis by (subst header_value_loop.simps) (simp add: Let_def)
  next
    case (Inr res)
    obtain h1 c1 where res: "res = (h1, c1)" by force
    with Inr step header_value_step_p [of e h ?c h1 c1] p ch
    have "value_ok e start h1 (c1\<lparr>x_p := x_p c1 + 1\<rparr>)" by (intro value_ok_next) auto
    from IH [OF False _ this] Inr res p ch False show ?thesis
      by (subst header_value_loop.simps) (simp add: Let_def)
  qed
qed

lemma good_header_value_loop:
  "value_ok e start h c \<Longrightarrow> good e start 1 (header_value_loop e start h c)"
proof (induction e start h c rule: header_value_loop.induct)
  case (1 e start h c)
  from "1.prems" obtain mo
    where mo: "x_marks c = (\<lambda>_. None)(M_header_value := mo)" "\<forall>i. mo = Some i \<longrightarrow> i \<le> start"
    and c: "hp_errno (x_parser c) = HPE_OK" "start \<le> x_p c" "x_p c \<le> length (e_data e)"
      "start < length (e_data e)" "x_state c = s_header_value" "h \<notin> {h_connection, h_transfer_encoding}"
      "settings_ok (e_settings e)"
    unfolding value_ok_def by blast
  let ?ch = "e_data e ! x_p c"
  consider "x_p c = length (e_data e)" | "x_p c < length (e_data e)" "?ch = CR"
    | "x_p c < length (e_data e)" "?ch = LF" | "x_p c < length (e_data e)" "?ch \<noteq> CR" "?ch \<noteq> LF"
    using c by linarith
  then show ?case
  proof cases
    case 1
    with c mo show ?thesis
      by (subst header_value_loop.simps) (auto intro!: good_header_value_end)
  next
    case 2
    with c mo show ?thesis
      by (subst header_value_loop.simps)
       (auto simp: Let_def CALLBACK_DATA_def st_ok_def intro!: callback_intros good_header_value_end)
  next
    case 3
    with c mo show ?thesis
      by (subst header_value_loop.simps) (fastforce simp: out_simps intro!: callback_intros)
  next
    case 4
    show ?thesis
      by (rule good_value_byte [OF "1.prems" 4]) (rule "1.IH" [OF 4(1) refl refl 4(2,3) _ _ refl])
  qed
qed

lemma safe_header_value: "safe_in s_header_value exec_header_value"
proof (rule safe_in_markI)
  show "mark_of s_header_value = Some M_header_value" by (simp add: mark_of_def)
  fix e :: "'a env" and c :: "'a ctx" and mo
  assume *: "hp_errno (x_parser c) = HPE_OK" "x_p c < length (e_data e)"
    "st_ok 1 s_header_value (x_nread c) (x_parser c)" "x_state c = s_header_value"
    "x_marks c = (\<lambda>_. None)(M_header_value := mo)" "\<And>i. mo = Some i \<Longrightarrow> i \<le> x_p c" "settings_ok (e_settings e)"
  then have "value_ok e (x_p c) (hp_header_state (x_parser c)) c"
    by (auto simp: value_ok_def st_ok_def)
  from good_header_value_loop [OF this] show "good e (x_p c) (rank s_header_value) (exec_header_value e c)"
    by (simp add: exec_header_value_def rank_def)
qed

lemma good_header_value_start:
  assumes "hp_errno (x_parser c) = HPE_OK" "x_p c < length (e_data e)" "x_marks c = (\<lambda>_. None)"
  shows "good e (x_p c) r (exec_header_value_start e c)"
  using assms
  by (cases "hp_header_state (x_parser c)")
    (simp_all add: exec_header_value_start_def Let_def ctx_ok_def st_ok_def marks_ok_def mark_of_def MARK_def)

lemma safe_header_value_start: "safe_in s_header_value_start exec_header_value_start"
  by (rule safe_in_plainI) (auto simp: mark_of_def intro!: good_header_value_start)

lemma safe_header_value_discard_ws: "safe_in s_header_value_discard_ws exec_header_value_discard_ws"
  by (rule safe_in_plainI)
    (auto simp: exec_header_value_discard_ws_def out_simps intro!: good_header_value_start)

lemma safe_header_value_discard_ws_almost_done:
  "safe_in s_header_value_discard_ws_almost_done exec_header_value_discard_ws_almost_done"
  by (rule safe_in_plainI)
    (auto simp: exec_header_value_discard_ws_almost_done_def mark_of_def st_ok_def intro!: good_expect)

lemma good_empty_value:
  assumes "hp_errno (x_parser c) = HPE_OK" "x_p c < length (e_data e)" "x_marks c = (\<lambda>_. None)"
    "settings_ok (e_settings e)" "p \<le> x_p c"
  shows "good e p 3 (CALLBACK_DATA_NOADVANCE M_header_value e
               (UPDATE_STATE s_header_field_start (MARK M_header_value c)) Reexecute)"
  using assms by (auto simp: out_simps MARK_def intro!: callback_intros)

lemma safe_header_value_discard_lws:
  "safe_in s_header_value_discard_lws exec_header_value_discard_lws"
  by (rule safe_in_plainI)
    (auto simp: exec_header_value_discard_lws_def ctx_ok_def st_ok_def mark_of_def rank_def Let_def
      intro!: good_empty_value split: header_states.split)

lemma safe_header_value_lws: "safe_in s_header_value_lws exec_header_value_lws"
  by (rule safe_in_plainI)
    (auto simp: exec_header_value_lws_def out_simps split: header_states.split)

lemma safe_header_almost_done: "safe_in s_header_almost_done exec_header_almost_done"
  by (rule safe_in_plainI) (auto simp: exec_header_almost_done_def out_simps)

lemma good_RETURN [simp]:
  "good e p r (RETURN v c) \<longleftrightarrow>
     v \<le> length (e_data e) \<and> 
     (hp_errno (x_parser c) = HPE_OK \<longrightarrow> hp_upgrade (x_parser c) \<or> v = length (e_data e)) \<and>
     (hp_errno (x_parser c) \<in> {HPE_OK, HPE_PAUSED} \<longrightarrow> st_ok 0 (x_state c) (x_nread c) (x_parser c))"
  by (auto simp: RETURN_def parser_ok_def)

definition new_states :: "state set" where
  "new_states = {s_start_req, s_start_res, s_dead}"

lemma new_states_facts:
  assumes "s \<in> new_states"
  shows "mark_of s = None" "st_ok k s n q"
  using assms by (auto simp: new_states_def mark_of_def st_ok_def)

lemma NEW_MESSAGE_in: "NEW_MESSAGE q \<in> new_states"
  by (simp add: NEW_MESSAGE_def start_state_def new_states_def)

lemma good_message_complete:
  assumes "hp_errno (x_parser c) = HPE_OK" "x_p c < length (e_data e)" "x_marks c = (\<lambda>_. None)"
    "settings_ok (e_settings e)"
    and k: "\<And>c'. hp_errno (x_parser c') = HPE_OK \<Longrightarrow> x_p c' = x_p c \<Longrightarrow> x_marks c' = (\<lambda>_. None) \<Longrightarrow>
      x_state c' \<in> new_states \<Longrightarrow> hp_upgrade (x_parser c') = hp_upgrade (x_parser c) \<Longrightarrow> good e p r (k c')"
  shows "good e p r (message_complete e c k)"
  unfolding message_complete_def CALLBACK_NOTIFY_def
  using assms
  by (intro good_CALLBACK_NOTIFY_ER k)
    (simp_all add: settings_okD NEW_MESSAGE_state_def NEW_MESSAGE_in new_states_facts)

lemma safe_headers_almost_done: "safe_in s_headers_almost_done exec_headers_almost_done"
proof (rule safe_in_plainI)
  show "mark_of s_headers_almost_done = None" by (simp add: mark_of_def)
  fix e :: "'a env" and c :: "'a ctx"
  assume *: "hp_errno (x_parser c) = HPE_OK" "x_p c < length (e_data e)"
    "x_state c = s_headers_almost_done" "x_marks c = (\<lambda>_. None)" "settings_ok (e_settings e)"
  let ?q = "set_upgrade (x_parser c)"
  have f: "\<exists>ret d err. f ?q = (ret, ?q\<lparr>hp_errno := err, hp_data := d\<rparr>)"
    if "on_headers_complete (e_settings e) = Some f" for f
    using * that unfolding settings_ok_def cb_ok_def by blast
  have u: "hp_errno ?q = HPE_OK" using * by (simp add: set_upgrade_def)
  have "good e (x_p c) 1 (exec_headers_almost_done e c)"
  proof (cases "on_headers_complete (e_settings e)")
    case None
    with * u show ?thesis
      by (auto simp: exec_headers_almost_done_def out_simps settings_okD intro!: callback_intros)
  next
    case (Some g)
    from f [OF this] obtain ret d err where "g ?q = (ret, ?q\<lparr>hp_errno := err, hp_data := d\<rparr>)" by blast
    with Some * u show ?thesis
      by (auto simp: exec_headers_almost_done_def out_simps settings_okD set_flag_def SET_ERRNO_def
          intro!: callback_intros)
  qed
  then show "good e (x_p c) (rank s_headers_almost_done) (exec_headers_almost_done e c)"
    by (simp add: rank_def)
qed

lemma safe_headers_done: "safe_in s_headers_done exec_headers_done"
proof (rule safe_in_plainI)
  show "mark_of s_headers_done = None" by (simp add: mark_of_def)
  fix e :: "'a env" and c :: "'a ctx"
  assume *: "hp_errno (x_parser c) = HPE_OK" "x_p c < length (e_data e)"
    "x_state c = s_headers_done" "x_marks c = (\<lambda>_. None)" "settings_ok (e_settings e)"
  define c1 where "c1 = (upd (\<lambda>q. q\<lparr>hp_nread := 0\<rparr>) c)\<lparr>x_nread := 0\<rparr>"
  from * have c1: "hp_errno (x_parser c1) = HPE_OK" "x_p c1 = x_p c" "x_marks c1 = (\<lambda>_. None)" "x_nread c1 = 0"
    by (simp_all add: c1_def)
  have mc: "good e (x_p c) 0 (message_complete e c1 Break)"
    using * c1 by (auto simp: ctx_ok_def new_states_facts intro!: good_message_complete)
  have mr: "hp_upgrade (x_parser c1) \<Longrightarrow> good e (x_p c) 0 (message_complete e c1 (\<lambda>c2. RETURN (x_p c2 + 1) c2))"
    using * c1 by (auto simp: new_states_facts intro!: good_message_complete)
  show "good e (x_p c) (rank s_headers_done) (exec_headers_done e c)"
    unfolding exec_headers_done_def c1_def [symmetric] Let_def using * c1 mc mr
    by (intro good_STRICT_CHECK)
      (simp_all add: rank_def ctx_ok_def st_ok_def chunked_def SET_ERRNO_def)
qed

lemma safe_body_identity_eof: "safe_in s_body_identity_eof exec_body_identity_eof"
  by (rule safe_in_markI [where m = M_body])
    (auto simp: exec_body_identity_eof_def out_simps MARK_def split: option.split)

lemma safe_message_done: "safe_in s_message_done exec_message_done"
  by (rule safe_in_plainI)
    (auto simp: exec_message_done_def mark_of_def ctx_ok_def new_states_facts intro!: good_message_complete)

lemma unhex_range: "unhex_at ch \<noteq> -1 \<Longrightarrow> 0 \<le> unhex_at ch \<and> unhex_at ch \<le> 15"
proof -
  have "list_all (\<lambda>v. v = -1 \<or> 0 \<le> v \<and> v \<le> 15) unhex" by (simp add: unhex_def)
  then show "unhex_at ch \<noteq> -1 \<Longrightarrow> ?thesis" by (auto simp: unhex_at_def list_all_length)
qed

lemma unhex_word: "unhex_at ch \<noteq> -1 \<Longrightarrow> (of_int (unhex_at ch) :: uint64) \<le> 15"
proof -
  assume "unhex_at ch \<noteq> -1"
  with unhex_range obtain n where "unhex_at ch = int n" "n \<le> 15" by (metis nat_int nat_le_iff nonneg_int_cases of_nat_numeral)
  then show ?thesis by (simp add: word_le_nat_alt unsigned_of_nat take_bit_nat_eq_self)
qed

lemma unat_ULLONG_MAX: "unat ULLONG_MAX = 2 ^ 64 - 1"
  by (simp add: ULLONG_MAX_def unsigned_minus_1_eq_mask mask_eq_exp_minus_1)

lemma chunk_guard: "(ULLONG_MAX - 16) div 16 = 0xFFFFFFFFFFFFFFE"
  by (simp add: ULLONG_MAX_def)

lemma chunk_size_no_wrap:
  fixes cl v :: uint64
  assumes "\<not> (ULLONG_MAX - 16) div 16 < cl" "v \<le> 15"
  shows "unat (cl * 16 + v) = unat cl * 16 + unat v" "cl * 16 + v \<noteq> ULLONG_MAX"
proof -
  from assms have "unat cl \<le> 0xFFFFFFFFFFFFFFE" "unat v \<le> 15"
    by (simp_all add: chunk_guard not_less word_le_nat_alt)
  then have m: "unat (cl * 16) = unat cl * 16" and b: "unat cl * 16 + unat v < 2 ^ 64 - 1"
    by (simp_all add: unat_mul_no_wrap)
  then show s: "unat (cl * 16 + v) = unat cl * 16 + unat v"
    by (simp add: unat_add_no_wrap)
  show "cl * 16 + v \<noteq> ULLONG_MAX"
  proof
    assume "cl * 16 + v = ULLONG_MAX"
    with s have "unat cl * 16 + unat v = 2 ^ 64 - 1" by (simp add: unat_ULLONG_MAX)
    with b show False by simp
  qed
qed

lemma small_not_max: "v \<le> 15 \<Longrightarrow> v \<noteq> ULLONG_MAX" for v :: uint64
  by (auto simp: word_le_nat_alt unat_ULLONG_MAX)

lemma safe_chunk_size_start: "safe_in s_chunk_size_start exec_chunk_size_start"
  by (rule safe_in_plainI)
    (auto simp: exec_chunk_size_start_def out_simps chunked_flag_def chunked_def
      dest: small_not_max [OF unhex_word])

lemma safe_chunk_size: "safe_in s_chunk_size exec_chunk_size"
  by (rule safe_in_plainI)
    (auto simp: exec_chunk_size_def out_simps chunked_flag_def chunked_def chunk_size_no_wrap unhex_word)

lemma safe_chunk_parameters: "safe_in s_chunk_parameters exec_chunk_parameters"
  by (rule safe_in_plainI)
    (auto simp: exec_chunk_parameters_def out_simps chunked_flag_def chunked_def)

lemma safe_chunk_size_almost_done: "safe_in s_chunk_size_almost_done exec_chunk_size_almost_done"
  by (rule safe_in_plainI)
    (auto simp: exec_chunk_size_almost_done_def out_simps chunked_flag_def chunked_def settings_okD set_flag_def intro!: callback_intros)

lemma safe_chunk_data_almost_done: "safe_in s_chunk_data_almost_done exec_chunk_data_almost_done"
  by (rule safe_in_markI [where m = M_body])
    (auto simp: exec_chunk_data_almost_done_def out_simps chunked_flag_def chunked_def settings_okD intro!: callback_intros)

lemma safe_chunk_data_done: "safe_in s_chunk_data_done exec_chunk_data_done"
  by (rule safe_in_plainI)
    (auto simp: exec_chunk_data_done_def out_simps chunked_flag_def chunked_def settings_okD intro!: callback_intros)

lemma to_read_bounds:
  assumes "x_p c < length (e_data e)" "length (e_data e) < 2 ^ 64" "hp_content_length (x_parser c) \<noteq> 0"
  shows "unat (to_read e c) = min (unat (hp_content_length (x_parser c))) (length (e_data e) - x_p c)"
    "0 < unat (to_read e c)" 
    "to_read e c \<le> hp_content_length (x_parser c)"
proof -
  have "unat (of_nat (length (e_data e) - x_p c) :: uint64) = length (e_data e) - x_p c"
    using assms(2) by (intro unat_of_nat_id) simp
  then show u: "unat (to_read e c) = min (unat (hp_content_length (x_parser c))) (length (e_data e) - x_p c)"
    by (simp add: to_read_def min_def word_le_nat_alt)
  from assms(3) have "unat (hp_content_length (x_parser c)) \<noteq> 0" by (simp add: unat_eq_0)
  with u assms(1) show "0 < unat (to_read e c)" by simp
  show "to_read e c \<le> hp_content_length (x_parser c)" by (simp add: to_read_def)
qed

lemma take_body_simps:
  "x_state (take_body e c) = x_state c" "x_nread (take_body e c) = x_nread c"
  "x_parser (take_body e c) =
     (x_parser c)\<lparr>hp_content_length := hp_content_length (x_parser c) - to_read e c\<rparr>"
  "x_marks (take_body e c) = x_marks (MARK M_body c)"
  "x_p (take_body e c) = x_p c + unat (to_read e c) - 1"
  by (simp_all add: take_body_def Let_def)

lemma body_left:
  fixes cl n :: uint64
  assumes "n \<le> cl" "cl \<noteq> ULLONG_MAX"
  shows "cl - n \<noteq> ULLONG_MAX"
proof
  assume "cl - n = ULLONG_MAX"
  then have "unat cl - unat n = 2 ^ 64 - 1" using assms(1) by (metis unat_ULLONG_MAX unat_sub)
  moreover have "unat cl < 2 ^ 64" by (rule unat_lt_size_t)
  ultimately have "unat cl = unat ULLONG_MAX" by (simp add: unat_ULLONG_MAX)
  with assms(2) show False by (simp add: word_unat_eq_iff)
qed
lemma take_body_ok:
  assumes "x_p c < length (e_data e)" "length (e_data e) < 2 ^ 64" "hp_content_length (x_parser c) \<noteq> 0"
    "x_marks c = (\<lambda>_. None)(M_body := mo)" "\<And>i. mo = Some i \<Longrightarrow> i \<le> x_p c"
  shows "x_p c \<le> x_p (take_body e c)" "x_p (take_body e c) < length (e_data e)"
    "\<exists>i \<le> x_p c. x_marks (take_body e c) = (\<lambda>_. None)(M_body := Some i)"
proof -
  note r = to_read_bounds [OF assms(1-3)]
  show "x_p c \<le> x_p (take_body e c)" "x_p (take_body e c) < length (e_data e)"
    using r(1,2) assms(1) by (auto simp: take_body_simps)
  show "\<exists>i \<le> x_p c. x_marks (take_body e c) = (\<lambda>_. None)(M_body := Some i)"
    using assms(4,5) by (cases mo) (auto simp: take_body_simps MARK_def)
qed

lemma safe_body_identity: "safe_in s_body_identity exec_body_identity"
proof (rule safe_in_markI)
  show "mark_of s_body_identity = Some M_body" by (simp add: mark_of_def)
  fix e :: "'a env" and c :: "'a ctx" and mo
  assume *: "hp_errno (x_parser c) = HPE_OK" "x_p c < length (e_data e)"
    "st_ok 1 s_body_identity (x_nread c) (x_parser c)" "x_state c = s_body_identity"
    "x_marks c = (\<lambda>_. None)(M_body := mo)" "\<And>i. mo = Some i \<Longrightarrow> i \<le> x_p c" "settings_ok (e_settings e)"
    "length (e_data e) < 2 ^ 64"
  then have cl: "hp_content_length (x_parser c) \<noteq> 0" "hp_content_length (x_parser c) \<noteq> ULLONG_MAX"
    by (simp_all add: st_ok_def)
  from * cl take_body_ok [OF *(2,8) cl(1) *(5)]
    body_left [OF to_read_bounds(3) [OF *(2,8) cl(1)] cl(2)]
  show "good e (x_p c) (rank s_body_identity) (exec_body_identity e c)"
    by (auto simp: exec_body_identity_def out_simps take_body_simps(1-3) intro!: callback_intros)
qed

lemma safe_chunk_data: "safe_in s_chunk_data exec_chunk_data"
proof (rule safe_in_markI)
  show "mark_of s_chunk_data = Some M_body" by (simp add: mark_of_def)
  fix e :: "'a env" and c :: "'a ctx" and mo
  assume *: "hp_errno (x_parser c) = HPE_OK" "x_p c < length (e_data e)"
    "st_ok 1 s_chunk_data (x_nread c) (x_parser c)" "x_state c = s_chunk_data"
    "x_marks c = (\<lambda>_. None)(M_body := mo)" "\<And>i. mo = Some i \<Longrightarrow> i \<le> x_p c" "settings_ok (e_settings e)"
    "length (e_data e) < 2 ^ 64"
  then have cl: "hp_content_length (x_parser c) \<noteq> 0" "hp_content_length (x_parser c) \<noteq> ULLONG_MAX"
    and ch: "chunked_flag c" by (simp_all add: st_ok_def chunked_def chunked_flag_def)
  from * cl ch take_body_ok [OF *(2,8) cl(1) *(5)]
    body_left [OF to_read_bounds(3) [OF *(2,8) cl(1)] cl(2)]
  show "good e (x_p c) (rank s_chunk_data) (exec_chunk_data e c)"
    by (auto simp: exec_chunk_data_def out_simps take_body_simps(1-3) chunked_flag_def chunked_def)
qed

section \<open>The whole loop\<close>

lemmas safe_handlers = safe_dead safe_start_req_or_res safe_res_or_resp_H safe_start_res safe_res_HTTP
  safe_res_version safe_res_first_status_code safe_res_status_code safe_res_status_start
  safe_res_status safe_res_line_almost_done safe_start_req safe_req_method
  safe_req_spaces_before_url safe_req_schema safe_req_url safe_req_http_start safe_req_HTTP
  safe_req_version safe_req_line_almost_done safe_header_field_start safe_header_field
  safe_header_value_discard_ws safe_header_value_discard_ws_almost_done
  safe_header_value_discard_lws safe_header_value_start safe_header_value safe_header_value_lws
  safe_header_almost_done safe_chunk_size_start safe_chunk_size safe_chunk_parameters
  safe_chunk_size_almost_done safe_headers_almost_done safe_headers_done safe_chunk_data
  safe_chunk_data_almost_done safe_chunk_data_done safe_body_identity safe_body_identity_eof
  safe_message_done

lemma safe_switch: "safe_in s (switch s)"
  by (cases s) (simp_all add: safe_handlers url_states_def)

lemma good_exec_switch:
  assumes "ctx_ok 1 e c" "settings_ok (e_settings e)" "length (e_data e) < 2 ^ 64"
  shows "good e (x_p c) (rank (x_state c)) (exec_switch e c)"
  using safe_switch [of "x_state c"] assms unfolding safe_in_def pre_def exec_switch_def by blast

lemma st_ok_count: "PARSING_HEADER s \<Longrightarrow> st_ok 0 s n q \<Longrightarrow> st_ok 1 s (n + 1) q"
  by (cases s) (simp_all add: st_ok_def)

lemma st_ok_no_count: "\<not> PARSING_HEADER s \<Longrightarrow> st_ok 0 s n q \<Longrightarrow> st_ok 1 s n q"
  by (cases s) (simp_all add: st_ok_def PARSING_HEADER_def)

lemma good_loop_top:
  assumes "ctx_ok 0 e c" "settings_ok (e_settings e)" "length (e_data e) < 2 ^ 64"
  shows "good e (x_p c) (rank (x_state c)) (loop_top e c)"
proof -
  let ?c = "c\<lparr>x_ch := e_data e ! x_p c\<rparr>"
  have p: "x_p c < length (e_data e)" using assms(1) by (simp add: ctx_ok_def)
  show ?thesis
  proof (cases "PARSING_HEADER (x_state c)")
    case True
    let ?c1 = "?c\<lparr>x_nread := x_nread c + 1\<rparr>"
    have "ctx_ok 1 e ?c1" using assms(1) st_ok_count [OF True, of "x_nread c" "x_parser c"] by (simp add: ctx_ok_def marks_ok_def)
    from good_exec_switch [OF this assms(2,3)] True p show ?thesis
      by (auto simp: loop_top_def)
  next
    case False
    have "ctx_ok 1 e ?c" using assms(1) st_ok_no_count [OF False, of "x_nread c" "x_parser c"] by (simp add: ctx_ok_def marks_ok_def)
    from good_exec_switch [OF this assms(2,3)] False p show ?thesis
      by (auto simp: loop_top_def)
  qed
qed

lemma rank_le: "rank s \<le> 3"
  by (simp add: rank_def)

text \<open>The end of the data.\<close>

definition fin_ok :: "'a env \<Rightarrow> 'a ctx \<Rightarrow> bool" where
  "fin_ok e c \<longleftrightarrow>
     hp_errno (x_parser c) = HPE_OK \<and> x_p c = length (e_data e) \<and> settings_ok (e_settings e) \<and>
     marks_ok c \<and> st_ok 0 (x_state c) (x_nread c) (x_parser c)"

lemma st_ok_marked: "mark_of s = Some m \<Longrightarrow> st_ok k s n q \<Longrightarrow> st_ok k' s n' q"
  by (cases s) (simp_all add: mark_of_def st_ok_def)

lemma good_finish_step:
  assumes "fin_ok e c" and k: "\<And>c'. fin_ok e c' \<Longrightarrow> good e p r (k c')"
  shows "good e p r (CALLBACK_DATA_NOADVANCE m e c k)"
  unfolding CALLBACK_DATA_NOADVANCE_def
proof (rule good_CALLBACK_DATA_ER)
  show "st_ok 0 (x_state c) (hp_nread (x_parser c)) (x_parser c)" if "x_marks c m \<noteq> None"
    using that assms(1) st_ok_marked by (fastforce simp: fin_ok_def marks_ok_def)
qed (use assms in \<open>auto simp: fin_ok_def marks_ok_def intro!: k\<close>)

lemma marks_left_le:
  assumes "marks_ok c"
  shows "marks_left c \<le> 1"
proof (cases "mark_of (x_state c)")
  case None
  then show ?thesis using no_marks [OF assms] by (simp add: marks_left_def)
next
  case (Some m)
  have "x_marks c n = None" if "n \<noteq> m" for n
    using one_mark(1) [OF assms Some] that by (metis fun_upd_other)
  then show ?thesis by (cases m) (simp_all add: marks_left_def)
qed

lemma good_finish_data: "fin_ok e c \<Longrightarrow> good e p r (finish_data e c)"
  unfolding finish_data_def
  by (intro good_assert_that good_finish_step) (auto simp: fin_ok_def marks_left_le [simplified])

definition is_final :: "'a outcome \<Rightarrow> bool" where
  "is_final out \<longleftrightarrow> (case out of Return _ _ \<Rightarrow> True | Abort _ \<Rightarrow> True | _ \<Rightarrow> False)"

lemma is_final_step:
  "(\<And>c. is_final (k c)) \<Longrightarrow> is_final (CALLBACK_DATA_NOADVANCE m e c k)"
  by (simp add: CALLBACK_DATA_NOADVANCE_def CALLBACK_DATA_ER_def assert_that_def is_final_def [of "Abort x" for x]
      is_final_def [of "Return v q" for v q] Let_def split: option.split prod.split)

lemma is_final_finish_data: "is_final (finish_data e c)"
proof -
  have "is_final (RETURN v c)" "is_final (Abort a :: 'a outcome)" for v a and c :: "'a ctx"
    by (simp_all add: is_final_def RETURN_def)
  then show ?thesis by (simp add: finish_data_def assert_that_def is_final_step)
qed

text \<open>With four passes per byte and four more the loop ends, and what it returns is as promised.\<close>

definition result_ok :: "'a env \<Rightarrow> 'a outcome option \<Rightarrow> bool" where
  "result_ok e res \<longleftrightarrow>
     (\<exists>v q. res = Some (Return v q) \<and> v \<le> length (e_data e) \<and> parser_ok q \<and>
        (hp_errno q = HPE_OK \<longrightarrow> hp_upgrade q \<or> v = length (e_data e)))"

lemma result_ok_error_label:
  "x_p c \<le> length (e_data e) \<Longrightarrow> hp_errno (x_parser c) \<notin> {HPE_OK, HPE_PAUSED} \<Longrightarrow>
     result_ok e (Some (error_label c))"
  by (simp add: result_ok_def error_label_def RETURN_def parser_ok_def)

lemma result_ok_final: "good e p r out \<Longrightarrow> is_final out \<Longrightarrow> result_ok e (Some out)"
  by (cases out) (simp_all add: result_ok_def is_final_def)

lemma exec_loop_ok:
  assumes "settings_ok (e_settings e)" "length (e_data e) < 2 ^ 64"
  shows "good e p r out \<Longrightarrow> 4 * (length (e_data e) - p) + r < n \<Longrightarrow> result_ok e (exec_loop n e out)"
proof (induction n arbitrary: out p r)
  case (Suc n)
  show ?case
  proof (cases out)
    case (Break c)
    let ?c = "c\<lparr>x_p := x_p c + 1\<rparr>"
    have c: "ctx_ok 0 e c" "p \<le> x_p c" "x_p c < length (e_data e)"
      using Suc.prems Break by (simp_all add: ctx_ok_def)
    have m: "marks_ok ?c" using c(1) by (fastforce simp: ctx_ok_def marks_ok_def)
    show ?thesis
    proof (cases "x_p c + 1 = length (e_data e)")
      case True
      with c m assms have "fin_ok e ?c" by (simp add: fin_ok_def ctx_ok_def)
      from result_ok_final [OF good_finish_data [OF this] is_final_finish_data] True Break
      show ?thesis by simp
    next
      case False
      with c m have "ctx_ok 0 e ?c" by (simp add: ctx_ok_def)
      from good_loop_top [OF this assms] have "good e (x_p c + 1) (rank (x_state c)) (loop_top e ?c)" by simp
      from Suc.IH [OF this] Suc.prems(2) c rank_le [of "x_state c"] False Break show ?thesis
        by (simp add: Let_def)
    qed
  next
    case (Reexecute c)
    with Suc.prems have "ctx_ok 1 e c" "p \<le> x_p c" "rank (x_state c) < r" by simp_all
    with Suc.IH [OF good_exec_switch [OF _ assms]] Suc.prems(2) Reexecute show ?thesis by simp
  next
    case (Goto_error c)
    with Suc.prems show ?thesis by (simp add: result_ok_error_label)
  qed (use Suc.prems in \<open>simp_all add: result_ok_def\<close>)
qed simp

lemma exec_loop_mono: "exec_loop n e out = Some res \<Longrightarrow> n \<le> m \<Longrightarrow> exec_loop m e out = Some res"
proof (induction n e out arbitrary: m rule: exec_loop.induct)
  case (2 n e c)
  then obtain m' where "m = Suc m'" by (cases m) auto
  with 2 show ?case by (auto simp: Let_def split: if_splits)
next
  case (3 n e c)
  then obtain m' where "m = Suc m'" by (cases m) auto
  with 3 show ?case by simp
next
  case (4 n e c)
  then show ?case by (cases m) auto
next
  case (5 n e v q)
  then show ?case by (cases m) auto
next
  case (6 n e r)
  then show ?case by (cases m) auto
qed simp

lemma entry_marks_ok: "marks_ok (entry_ctx q)"
  by (auto simp: marks_ok_def entry_ctx_def entry_marks_def mark_of_def split: if_splits)

lemma execute_ok:
  assumes q: "parser_ok q" "hp_errno q = HPE_OK" and "settings_ok settings" "data \<noteq> []"
    "length data < 2 ^ 64" "4 * (length data + 1) \<le> fuel"
  shows "result_ok (mk_env settings max_size data q) (http_parser_execute fuel max_size q settings data)"
proof -
  let ?e = "mk_env settings max_size data q"
  have c: "ctx_ok 0 ?e (entry_ctx q)"
    using q assms(4) entry_marks_ok [of q] by (simp add: ctx_ok_def parser_ok_def entry_ctx_def mk_env_def)
  have "good ?e 0 (rank (hp_state q)) (loop_top ?e (entry_ctx q))"
    using good_loop_top [OF c] assms(3,5) by (simp add: mk_env_def entry_ctx_def)
  from exec_loop_ok [OF _ _ this, of fuel] rank_le [of "hp_state q"] assms show ?thesis
    by (simp add: http_parser_execute_def Let_def mk_env_def)
qed

lemma execute_eof_ok:
  assumes "parser_ok q" "hp_errno q = HPE_OK" "settings_ok settings"
  shows "\<exists>v q'. execute_eof settings q = Return v q' \<and> v \<le> 1 \<and> parser_ok q' \<and>
    (hp_errno q' = HPE_OK \<longrightarrow> v = 0)"
proof (cases "hp_state q = s_body_identity_eof")
  case True
  let ?k = "\<lambda>c. Return 0 (x_parser c)"
  let ?out = "CALLBACK_NOTIFY_ER (on_message_complete settings) HPE_CB_message_complete 0 (entry_ctx q) ?k"
  have ok: "parser_ok q'" if "hp_state q' = s_body_identity_eof" for q' :: "'a http_parser"
    using that by (simp add: parser_ok_def st_ok_def)
  have "good (mk_env settings 0 [] q) 0 0 ?out"
    using assms True
    by (intro good_CALLBACK_NOTIFY_ER)
      (simp_all add: settings_okD entry_ctx_def st_ok_def mk_env_def ok)
  moreover have "is_final ?out"
    by (simp add: CALLBACK_NOTIFY_ER_def assert_that_def is_final_def Let_def split: option.split prod.split)
  ultimately show ?thesis using True
    by (cases ?out) (auto simp: execute_eof_def CALLBACK_NOTIFY_NOADVANCE_def entry_ctx_def mk_env_def is_final_def)
next
  case False
  with assms show ?thesis
    by (auto simp: execute_eof_def SET_ERRNO_def entry_ctx_def parser_ok_def)
qed

section \<open>Reachable parsers\<close>

text \<open>
  The parsers a program can get to: initialised, with the two public switches set as documented,
  executed on any data with callbacks that keep the contract, and paused or unpaused. The header
  limit may be changed between the calls.
\<close>

inductive reachable :: "'a http_parser \<Rightarrow> bool" where
  init: "reachable (http_parser_init q t)"
| lenient: "reachable q \<Longrightarrow> reachable (q\<lparr>hp_lenient_http_headers := b\<rparr>)"
| allow_chunked_length: "reachable q \<Longrightarrow> reachable (q\<lparr>hp_allow_chunked_length := b\<rparr>)"
| execute:
    "reachable q \<Longrightarrow> settings_ok settings \<Longrightarrow> length data < 2 ^ 64 \<Longrightarrow>
     http_parser_execute fuel max_size q settings data = Some (Return v q') \<Longrightarrow> reachable q'"
| pause: "reachable q \<Longrightarrow> http_parser_pause q paused = Some q' \<Longrightarrow> reachable q'"

lemma execute_mono:
  assumes "http_parser_execute fuel max_size q settings data = Some res" "fuel \<le> fuel'"
  shows "http_parser_execute fuel' max_size q settings data = Some res"
  using assms exec_loop_mono by (auto simp: http_parser_execute_def Let_def split: if_splits)

lemma execute_result:
  assumes "parser_ok q" "settings_ok settings" "length data < 2 ^ 64" "4 * (length data + 1) \<le> fuel"
  shows "\<exists>v q'. http_parser_execute fuel max_size q settings data = Some (Return v q') \<and> parser_ok q' \<and>
    v \<le> max 1 (length data) \<and>
    (hp_errno q = HPE_OK \<and> hp_errno q' = HPE_OK \<longrightarrow> hp_upgrade q' \<or> v = length data)"
proof -
  consider "hp_errno q \<noteq> HPE_OK" | "hp_errno q = HPE_OK" "data = []" | "hp_errno q = HPE_OK" "data \<noteq> []"
    by blast
  then show ?thesis
  proof cases
    case 1
    with assms show ?thesis by (simp add: http_parser_execute_def)
  next
    case 2
    with execute_eof_ok [OF assms(1) 2(1) assms(2)] show ?thesis
      by (auto simp: http_parser_execute_def)
  next
    case 3
    from execute_ok [OF assms(1) 3(1) assms(2) 3(2) assms(3,4), where max_size = max_size]
    show ?thesis by (fastforce simp: result_ok_def mk_env_def)
  qed
qed

lemma reachable_ok: "reachable q \<Longrightarrow> parser_ok q"
proof (induction rule: reachable.induct)
  case (init q t)
  then show ?case by (cases t) (simp_all add: parser_ok_def http_parser_init_def st_ok_def)
next
  case (lenient q b)
  then show ?case using st_ok_cong [of "q\<lparr>hp_lenient_http_headers := b\<rparr>" q] by (simp add: parser_ok_def)
next
  case (allow_chunked_length q b)
  then show ?case using st_ok_cong [of "q\<lparr>hp_allow_chunked_length := b\<rparr>" q] by (simp add: parser_ok_def)
next
  case (execute q settings data fuel max_size v q')
  let ?fuel = "max fuel (4 * (length data + 1))"
  from execute_mono [OF execute.hyps(4), of ?fuel]
  have "http_parser_execute ?fuel max_size q settings data = Some (Return v q')" by simp
  with execute_result [OF execute.IH execute.hyps(2,3), of ?fuel max_size] show ?case by auto
next
  case (pause q paused q')
  then show ?case by (auto simp: parser_ok_def http_parser_pause_def split: if_splits)
qed

section \<open>Properties\<close>

definition blank_parser :: "nat http_parser" where
  "blank_parser =
     \<lparr>hp_type = HTTP_BOTH, hp_flags = 0, hp_state = s_dead, hp_header_state = h_general, hp_index = 0,
      hp_uses_transfer_encoding = False, hp_allow_chunked_length = False,
      hp_lenient_http_headers = False, hp_nread = 0, hp_content_length = 0, hp_http_major = 0,
      hp_http_minor = 0, hp_status_code = 0, hp_method = HTTP_DELETE, hp_errno = HPE_OK,
      hp_upgrade = False, hp_data = 0\<rparr>"

text \<open>Callbacks that count the calls; \<open>stop_at n\<close> pauses the parser when the count reaches \<open>n\<close>.\<close>

definition count_cb :: "nat http_cb" where
  "count_cb q = (0, q\<lparr>hp_data := hp_data q + 1\<rparr>)"

definition stop_at :: "nat \<Rightarrow> nat http_data_cb" where
  "stop_at n q str =
     (0, if hp_data q + 1 = n then q\<lparr>hp_errno := HPE_PAUSED, hp_data := hp_data q + 1\<rparr>
         else q\<lparr>hp_data := hp_data q + 1\<rparr>)"

definition counting_settings :: "nat \<Rightarrow> nat http_parser_settings" where
  "counting_settings n =
     \<lparr>on_message_begin = Some count_cb, on_url = Some (stop_at n), on_status = Some (stop_at n),
      on_header_field = Some (stop_at n), on_header_value = Some (stop_at n),
      on_headers_complete = Some count_cb, on_body = Some (stop_at n),
      on_message_complete = Some count_cb, on_chunk_header = Some count_cb,
      on_chunk_complete = Some count_cb\<rparr>"

lemma settings_ok_counting: "settings_ok (counting_settings n)"
proof -
  have "count_cb q = (0, q\<lparr>hp_errno := hp_errno q, hp_data := hp_data q + 1\<rparr>)" for q
    by (simp add: count_cb_def)
  then have "cb_ok (Some count_cb)" unfolding cb_ok_def by blast
  moreover have "stop_at n q str =
      (0, q\<lparr>hp_errno := (if hp_data q + 1 = n then HPE_PAUSED else hp_errno q), hp_data := hp_data q + 1\<rparr>)"
    for q str by (simp add: stop_at_def)
  then have "data_cb_ok (Some (stop_at n))" unfolding data_cb_ok_def by blast
  ultimately show ?thesis by (simp add: settings_ok_def counting_settings_def)
qed

text \<open>C37: \<^verbatim>\<open>http_parser_execute\<close> always returns, without a failed assertion and without a read outside
  the data. From any parser a program can reach, for any data shorter than the address space and
  any callbacks that keep the contract, four passes through the switch per byte and four more are
  enough; the count returned is at most the length of the data, or 1 for an unexpected end of
  input, and the parser that comes out is reachable again.\<close>

theorem http_parser_execute_returns:
  assumes "reachable q" "settings_ok settings" "length data < 2 ^ 64"
    and "4 * (length data + 1) \<le> fuel"
  shows "\<exists>n q'. http_parser_execute fuel max_size q settings data = Some (Return n q') \<and>
    n \<le> max 1 (length data) \<and> reachable q'"
proof -
  from execute_result [OF reachable_ok [OF assms(1)] assms(2-4), of max_size] obtain n q'
    where r: "http_parser_execute fuel max_size q settings data = Some (Return n q')"
      "n \<le> max 1 (length data)" by blast
  with reachable.execute [OF assms(1-3) r(1)] show ?thesis by blast
qed

definition sample_request :: "char list" where
  "sample_request =
     ''POST /x HTTP/1.1'' @ [CR, LF] @ ''Content-Length: 2'' @ [CR, LF, CR, LF] @ ''ab''"

lemma length_sample_request: "length sample_request = 41"
  by (simp add: sample_request_def)

theorem http_parser_execute_returns_witness:
  "\<exists>n q'. http_parser_execute 200 80 (http_parser_init blank_parser HTTP_REQUEST)
      (counting_settings 3) sample_request = Some (Return n q') \<and> n \<le> 41 \<and> reachable q'"
  using http_parser_execute_returns
    [OF reachable.init [of blank_parser HTTP_REQUEST] settings_ok_counting [of 3],
      of sample_request 200 80]
  by (simp add: length_sample_request)

text \<open>What \<^verbatim>\<open>http_parser_execute\<close> reports as parsed. When it was called on a parser without error and
  leaves it without error and not upgraded, it has consumed all the data: a caller that gets a
  smaller count is looking at an error, a pause or an upgrade, as the header file documents.\<close>

theorem http_parser_execute_consumes_all:
  assumes "reachable q" "settings_ok settings" "length data < 2 ^ 64"
    and "http_parser_execute fuel max_size q settings data = Some (Return n q')"
    and "hp_errno q = HPE_OK" "hp_errno q' = HPE_OK" "\<not> hp_upgrade q'"
  shows "n = length data"
proof -
  let ?fuel = "max fuel (4 * (length data + 1))"
  from execute_mono [OF assms(4), of ?fuel]
  have "http_parser_execute ?fuel max_size q settings data = Some (Return n q')" by simp
  with execute_result [OF reachable_ok [OF assms(1)] assms(2,3), of ?fuel max_size] assms(5-7)
  show ?thesis by auto
qed

definition returned :: "'a outcome option \<Rightarrow> (nat \<times> 'a http_parser) option" where
  "returned res = (case res of Some (Return n q) \<Rightarrow> Some (n, q) | _ \<Rightarrow> None)"

lemma returned_eq_Some: "returned res = Some (n, q) \<longleftrightarrow> res = Some (Return n q)"
  by (auto simp: returned_def split: option.splits outcome.splits)

theorem http_parser_execute_consumes_all_witness:
  "\<exists>n q'. http_parser_execute 40 80 (http_parser_init blank_parser HTTP_REQUEST)
      (counting_settings 0) ''GET /a'' = Some (Return n q') \<and> n = 6 \<and> hp_data q' = 2"
proof -
  have "returned (http_parser_execute 40 80 (http_parser_init blank_parser HTTP_REQUEST)
      (counting_settings 0) ''GET /a'') =
      Some (6, blank_parser\<lparr>hp_type := HTTP_REQUEST, hp_state := s_req_path, hp_nread := 6,
        hp_index := 4, hp_content_length := ULLONG_MAX, hp_method := HTTP_GET, hp_data := 2\<rparr>)"
    by code_simp
  then have run: "http_parser_execute 40 80 (http_parser_init blank_parser HTTP_REQUEST)
      (counting_settings 0) ''GET /a'' =
      Some (Return 6 (blank_parser\<lparr>hp_type := HTTP_REQUEST, hp_state := s_req_path, hp_nread := 6,
        hp_index := 4, hp_content_length := ULLONG_MAX, hp_method := HTTP_GET, hp_data := 2\<rparr>))"
    by (simp add: returned_eq_Some)
  from http_parser_execute_consumes_all [OF reachable.init settings_ok_counting _ this] run show ?thesis
    by (simp add: http_parser_init_def blank_parser_def)
qed

end
