(* ===== verification/Buffer.thy ===== *)
theory Buffer
  imports Prelude
begin

text \<open>
  The growing byte buffer of \<^verbatim>\<open>code/Buffer.h\<close> and \<^verbatim>\<open>code/Buffer.cpp\<close>. The vector \<^verbatim>\<open>buff_\<close> is a
  list of bytes; the two indices are \<^verbatim>\<open>size_t\<close> words, so every sum and difference below wraps as the
  machine's does. A member that can fail returns a sum: the \<^verbatim>\<open>std::length_error\<close> of
  \<^verbatim>\<open>vector::resize\<close>, or an access outside the vector, which is undefined behaviour in C++.
  Allocation itself is taken to succeed. The abstract value of a buffer is its \<open>contents\<close>, the
  readable bytes; the locale \<open>byte_channel\<close> states what clients rely on, and the interpretation
  \<open>bytes\<close> discharges it for the model.
\<close>

section \<open>State and operations\<close>

record buffer =
  buff :: "char list"
  read_index :: size_t
  write_index :: size_t

datatype buffer_error = LengthError | OutOfBounds

definition InitialSize :: size_t where
  "InitialSize = 1024"

text \<open>The constructor: \<^verbatim>\<open>std::vector<char>(n)\<close> holds \<open>n\<close> zero bytes.\<close>

definition mk_buffer :: "size_t \<Rightarrow> buffer" where
  "mk_buffer initialsize =
     \<lparr>buff = replicate (unat initialsize) (CHR 0x00), read_index = 0, write_index = 0\<rparr>"

definition swap_buffer :: "buffer \<Rightarrow> buffer \<Rightarrow> buffer \<times> buffer" where
  "swap_buffer b rhs =
     (\<lparr>buff = buff rhs, read_index = read_index rhs, write_index = write_index rhs\<rparr>,
      \<lparr>buff = buff b, read_index = read_index b, write_index = write_index b\<rparr>)"

definition buff_size :: "buffer \<Rightarrow> size_t" where
  "buff_size b = of_nat (length (buff b))"

definition readable_bytes :: "buffer \<Rightarrow> size_t" where
  "readable_bytes b = write_index b - read_index b"

definition writable_bytes :: "buffer \<Rightarrow> size_t" where
  "writable_bytes b = buff_size b - write_index b"

definition has_written :: "buffer \<Rightarrow> size_t \<Rightarrow> buffer" where
  "has_written b n =
     (if n \<le> writable_bytes b then b\<lparr>write_index := write_index b + n\<rparr> else b)"

definition has_readall :: "buffer \<Rightarrow> buffer" where
  "has_readall b = b\<lparr>read_index := 0, write_index := 0\<rparr>"

definition has_readed :: "buffer \<Rightarrow> size_t \<Rightarrow> buffer" where
  "has_readed b n =
     (if n < readable_bytes b then b\<lparr>read_index := read_index b + n\<rparr> else has_readall b)"

text \<open>The bytes a caller sees at \<^verbatim>\<open>begin_read()\<close>, \<open>n\<close> of them.\<close>

definition read_at :: "buffer \<Rightarrow> size_t \<Rightarrow> buffer_error + char list" where
  "read_at b n =
     (if unat (read_index b) + unat n \<le> length (buff b)
      then Inr (take (unat n) (drop (unat (read_index b)) (buff b)))
      else Inl OutOfBounds)"

definition read_string_n :: "buffer \<Rightarrow> size_t \<Rightarrow> buffer_error + (char list \<times> buffer)" where
  "read_string_n b n =
     (let len = readable_bytes b;
          n' = (if n > len then len else n)
      in bindE (read_at b n') (\<lambda>str. Inr (str, has_readed b n')))"

definition read_string :: "buffer \<Rightarrow> buffer_error + (char list \<times> buffer)" where
  "read_string b = read_string_n b (readable_bytes b)"

text \<open>\<^verbatim>\<open>shrink_to_fit\<close> changes the capacity of the vector only, not its elements.\<close>

definition shrink :: "buffer \<Rightarrow> buffer" where
  "shrink b = b"

text \<open>\<^verbatim>\<open>std::copy\<close> with source and destination in the same vector: element by element, forwards.\<close>

fun copy_forward :: "char list \<Rightarrow> nat \<Rightarrow> nat \<Rightarrow> nat \<Rightarrow> char list" where
  "copy_forward xs src dst 0 = xs"
| "copy_forward xs src dst (Suc n) = copy_forward (xs[dst := xs ! src]) (Suc src) (Suc dst) n"

definition resize_buff :: "buffer \<Rightarrow> size_t \<Rightarrow> buffer_error + buffer" where
  "resize_buff b n =
     (if unat n > vector_max_size then Inl LengthError
      else Inr (b\<lparr>buff := take (unat n) (buff b) @
                   replicate (unat n - length (buff b)) (CHR 0x00)\<rparr>))"

definition make_space :: "buffer \<Rightarrow> size_t \<Rightarrow> buffer_error + buffer" where
  "make_space b n =
     (if read_index b + writable_bytes b < n then resize_buff b (write_index b + n)
      else if read_index b = 0 then Inr b
      else if length (buff b) < unat (write_index b) then Inl OutOfBounds
      else let count = readable_bytes b
           in Inr (b\<lparr>buff := copy_forward (buff b) (unat (read_index b)) 0
                               (unat (write_index b) - unat (read_index b)),
                     read_index := 0,
                     write_index := count\<rparr>))"

definition ensure_writable :: "buffer \<Rightarrow> size_t \<Rightarrow> buffer_error + buffer" where
  "ensure_writable b n = (if n > writable_bytes b then make_space b n else Inr b)"

text \<open>
  \<^verbatim>\<open>write(const char* data, size_t n)\<close>: a null pointer is \<open>None\<close>, any other pointer the bytes that
  can be read from it. Copying more bytes than the source holds, or past the end of the vector, is
  an access out of bounds.
\<close>

definition write_data :: "buffer \<Rightarrow> char list option \<Rightarrow> size_t \<Rightarrow> buffer_error + buffer" where
  "write_data b data n =
     (case data of
        None \<Rightarrow> Inr b
      | Some d \<Rightarrow>
          if n = 0 then Inr b
          else bindE (ensure_writable b n) (\<lambda>b'.
            if length d < unat n \<or> length (buff b') < unat (write_index b') + unat n
            then Inl OutOfBounds
            else Inr (has_written
                   (b'\<lparr>buff := splice_at (unat (write_index b')) (take (unat n) d) (buff b')\<rparr>) n)))"

definition write_str :: "buffer \<Rightarrow> char list \<Rightarrow> buffer_error + buffer" where
  "write_str b str = write_data b (Some str) (of_nat (length str))"

text \<open>What the socket does between \<^verbatim>\<open>begin_write()\<close> and \<^verbatim>\<open>has_written()\<close>: it stores received bytes
  at the write position of the vector without moving the index.\<close>

definition store_at_write :: "buffer \<Rightarrow> char list \<Rightarrow> buffer_error + buffer" where
  "store_at_write b bs =
     (if unat (write_index b) + length bs \<le> length (buff b)
      then Inr (b\<lparr>buff := splice_at (unat (write_index b)) bs (buff b)\<rparr>)
      else Inl OutOfBounds)"

section \<open>Invariant and abstract value\<close>

definition buffer_inv :: "buffer \<Rightarrow> bool" where
  "buffer_inv b \<longleftrightarrow>
     read_index b \<le> write_index b \<and>
     unat (write_index b) \<le> length (buff b) \<and>
     length (buff b) \<le> vector_max_size"

definition contents :: "buffer \<Rightarrow> char list" where
  "contents b = take (unat (readable_bytes b)) (drop (unat (read_index b)) (buff b))"

named_theorems buffer_defs \<open>definitions of the buffer's members\<close>

lemmas buffer_basic_defs [buffer_defs] =
  mk_buffer_def swap_buffer_def buff_size_def readable_bytes_def writable_bytes_def
  has_written_def has_readall_def has_readed_def

lemma buffer_invE:
  assumes "buffer_inv b"
  obtains "unat (read_index b) \<le> unat (write_index b)"
    "unat (write_index b) \<le> length (buff b)" "length (buff b) \<le> vector_max_size"
    "unat (buff_size b) = length (buff b)"
    "unat (readable_bytes b) = unat (write_index b) - unat (read_index b)"
    "unat (writable_bytes b) = length (buff b) - unat (write_index b)"
proof -
  from assms have le: "read_index b \<le> write_index b"
    and w: "unat (write_index b) \<le> length (buff b)" and m: "length (buff b) \<le> vector_max_size"
    by (simp_all add: buffer_inv_def)
  from m have size: "unat (buff_size b) = length (buff b)"
    by (simp add: buff_size_def unat_of_nat_id)
  with w have "write_index b \<le> buff_size b"
    by (simp add: word_le_nat_alt)
  then have "unat (writable_bytes b) = length (buff b) - unat (write_index b)"
    by (simp add: writable_bytes_def unat_sub_no_wrap size)
  moreover from le have "unat (readable_bytes b) = unat (write_index b) - unat (read_index b)"
    by (simp add: readable_bytes_def unat_sub_no_wrap)
  ultimately show thesis
    using that le w m size by (simp add: word_le_nat_alt)
qed

lemma contents_eq:
  "buffer_inv b \<Longrightarrow>
     contents b = drop (unat (read_index b)) (take (unat (write_index b)) (buff b))"
  by (erule buffer_invE) (simp add: contents_def drop_take)

lemma length_contents [simp]:
  "buffer_inv b \<Longrightarrow> length (contents b) = unat (readable_bytes b)"
  by (erule buffer_invE) (simp add: contents_def)

section \<open>Every member keeps the invariant\<close>

lemma mk_buffer_inv: "unat n \<le> vector_max_size \<Longrightarrow> buffer_inv (mk_buffer n)"
  by (simp add: buffer_inv_def mk_buffer_def)

lemma contents_mk_buffer [simp]: "contents (mk_buffer n) = []"
  by (simp add: contents_def buffer_defs)

lemma has_readall_inv: "buffer_inv b \<Longrightarrow> buffer_inv (has_readall b)"
  by (simp add: buffer_inv_def has_readall_def)

lemma contents_has_readall [simp]: "contents (has_readall b) = []"
  by (simp add: contents_def buffer_defs)

lemma has_readed_inv:
  assumes "buffer_inv b" shows "buffer_inv (has_readed b n)"
proof (cases "n < readable_bytes b")
  case True
  from assms True have "unat (read_index b) + unat n < unat (write_index b)"
    by (auto elim!: buffer_invE simp: word_less_nat_alt)
  with assms True show ?thesis
    using unat_lt_size_t [of "write_index b"]
    by (auto simp: buffer_inv_def has_readed_def word_le_nat_alt unat_add_no_wrap)
qed (simp add: assms has_readed_def has_readall_inv)

text \<open>Consuming \<open>n\<close> bytes drops them from the front; consuming at least as many as there are
  empties the buffer, whatever \<open>n\<close> is.\<close>

lemma contents_has_readed:
  assumes "buffer_inv b" shows "contents (has_readed b n) = drop (unat n) (contents b)"
proof (cases "n < readable_bytes b")
  case True
  with assms have lt: "unat (read_index b) + unat n < unat (write_index b)"
    by (auto elim!: buffer_invE simp: word_less_nat_alt)
  then have "unat (read_index b + n) = unat (read_index b) + unat n"
    using unat_lt_size_t [of "write_index b"] by (intro unat_add_no_wrap) simp
  moreover from assms True have "buffer_inv (b\<lparr>read_index := read_index b + n\<rparr>)"
    using has_readed_inv [of b n] by (simp add: has_readed_def)
  ultimately show ?thesis
    using assms True by (simp add: has_readed_def contents_eq add.commute)
next
  case False
  with assms have "length (contents b) \<le> unat n"
    by (simp add: word_less_nat_alt)
  with False show ?thesis by (simp add: has_readed_def)
qed

lemma has_written_inv:
  assumes "buffer_inv b" shows "buffer_inv (has_written b n)"
proof (cases "n \<le> writable_bytes b")
  case True
  with assms have "unat (write_index b) + unat n \<le> length (buff b)"
    "length (buff b) \<le> vector_max_size" "unat (read_index b) \<le> unat (write_index b)"
    by (auto elim!: buffer_invE simp: word_le_nat_alt)
  with True show ?thesis
    by (simp add: buffer_inv_def has_written_def word_le_nat_alt unat_add_no_wrap)
qed (simp add: assms has_written_def)

section \<open>Making room\<close>

lemma length_copy_forward [simp]: "length (copy_forward xs src dst n) = length xs"
  by (induction n arbitrary: xs src dst) simp_all

text \<open>Copying forwards to a lower offset is correct although the two ranges overlap: no source
  element is overwritten before it is read.\<close>

lemma copy_forward_splice:
  assumes "dst \<le> src" "src + n \<le> length xs"
  shows "copy_forward xs src dst n = splice_at dst (take n (drop src xs)) xs"
  using assms
proof (induction n arbitrary: xs src dst)
  case (Suc n)
  let ?ys = "xs[dst := xs ! src]"
  have "copy_forward xs src dst (Suc n) = splice_at (Suc dst) (take n (drop (Suc src) ?ys)) ?ys"
    using Suc.prems by (simp add: Suc.IH)
  also have "take n (drop (Suc src) ?ys) = take n (drop (Suc src) xs)"
    using Suc.prems by simp
  also have "splice_at (Suc dst) (take n (drop (Suc src) xs)) ?ys
      = splice_at dst (take (Suc n) (drop src xs)) xs"
  proof -
    have "take (Suc dst) ?ys = take dst xs @ [xs ! src]"
      using Suc.prems by (simp add: take_Suc_conv_app_nth)
    moreover have "take (Suc n) (drop src xs) = xs ! src # take n (drop (Suc src) xs)"
      using Suc.prems by (simp add: take_Suc_conv_app_nth Cons_nth_drop_Suc [symmetric])
    ultimately show ?thesis
      using Suc.prems by (simp add: splice_at_def)
  qed
  finally show ?case .
qed simp

definition fits :: "buffer \<Rightarrow> nat \<Rightarrow> bool" where
  "fits b n \<longleftrightarrow> unat (write_index b) + n \<le> vector_max_size"

text \<open>
  \<^verbatim>\<open>make_space\<close> either grows the vector or moves the readable bytes to its front. Both keep the
  contents and leave room for \<open>n\<close> bytes behind them.
\<close>

definition made_room :: "buffer \<Rightarrow> nat \<Rightarrow> buffer \<Rightarrow> bool" where
  "made_room b n b' \<longleftrightarrow>
     buffer_inv b' \<and> contents b' = contents b \<and> n \<le> unat (writable_bytes b') \<and>
     write_index b' \<le> write_index b"

lemma made_room_grow:
  assumes "buffer_inv b" "fits b (unat n)" "unat (read_index b) + unat (writable_bytes b) < unat n"
  shows "\<exists>b'. resize_buff b (write_index b + n) = Inr b' \<and> made_room b (unat n) b'"
proof -
  let ?w = "unat (write_index b)"
  let ?b' = "b\<lparr>buff := take (?w + unat n) (buff b) @
                 replicate (?w + unat n - length (buff b)) (CHR 0x00)\<rparr>"
  from assms have n: "unat (write_index b + n) = ?w + unat n"
    by (simp add: fits_def unat_add_no_wrap)
  from assms have len: "length (buff b) < ?w + unat n" and w: "?w \<le> length (buff b)"
    by (auto elim!: buffer_invE)
  from assms len w have inv: "buffer_inv ?b'"
    by (simp add: buffer_inv_def fits_def)
  moreover from inv assms w len have "contents ?b' = contents b"
    by (simp add: contents_eq)
  moreover from inv len have "unat n \<le> unat (writable_bytes ?b')"
    by (auto elim!: buffer_invE)
  ultimately have "made_room b (unat n) ?b'" by (simp add: made_room_def)
  moreover have "resize_buff b (write_index b + n) = Inr ?b'"
    using assms by (simp add: resize_buff_def n fits_def)
  ultimately show ?thesis by blast
qed

lemma made_room_compact:
  assumes "buffer_inv b" "unat n \<le> unat (read_index b) + unat (writable_bytes b)"
  shows "made_room b (unat n)
           (b\<lparr>buff := copy_forward (buff b) (unat (read_index b)) 0
                       (unat (write_index b) - unat (read_index b)),
              read_index := 0, write_index := readable_bytes b\<rparr>)" (is "made_room b _ ?b'")
proof -
  let ?k = "unat (write_index b) - unat (read_index b)"
  have facts: "unat (read_index b) \<le> unat (write_index b)"
      "unat (write_index b) \<le> length (buff b)" "length (buff b) \<le> vector_max_size"
      "unat (readable_bytes b) = ?k" "unat (writable_bytes b) = length (buff b) - unat (write_index b)"
    using assms(1) by (auto elim!: buffer_invE)
  from facts have inv: "buffer_inv ?b'"
    by (simp add: buffer_inv_def)
  moreover from inv facts assms(1) have "contents ?b' = contents b"
    by (simp add: contents_def copy_forward_splice splice_at_def readable_bytes_def)
  moreover have "unat n \<le> unat (writable_bytes ?b')"
  proof -
    from inv have "unat (writable_bytes ?b') = length (buff b) - ?k"
      using facts by (auto elim!: buffer_invE)
    with facts assms(2) show ?thesis by linarith
  qed
  moreover have "readable_bytes b \<le> write_index b"
    using facts by (simp add: word_le_nat_alt)
  ultimately show ?thesis by (simp add: made_room_def)
qed

lemma ensure_writable_room:
  assumes "buffer_inv b" "fits b (unat n)"
  shows "\<exists>b'. ensure_writable b n = Inr b' \<and> made_room b (unat n) b'"
proof (cases "n > writable_bytes b")
  case False
  with assms show ?thesis
    by (auto simp: ensure_writable_def made_room_def word_less_nat_alt)
next
  case True
  have sum: "unat (read_index b + writable_bytes b) = unat (read_index b) + unat (writable_bytes b)"
    using assms(1) by (auto elim!: buffer_invE intro!: unat_add_no_wrap)
  show ?thesis
  proof (cases "read_index b + writable_bytes b < n")
    case grow: True
    with assms made_room_grow [of b n] sum True show ?thesis
      by (simp add: ensure_writable_def make_space_def word_less_nat_alt)
  next
    case compact: False
    then have le: "unat n \<le> unat (read_index b) + unat (writable_bytes b)"
      using sum by (simp add: word_less_nat_alt)
    with True have "read_index b \<noteq> 0"
      by (auto simp: word_less_nat_alt)
    moreover have "\<not> length (buff b) < unat (write_index b)"
      using assms(1) by (auto elim!: buffer_invE)
    ultimately show ?thesis
      using made_room_compact [OF assms(1) le] True compact
      by (simp add: ensure_writable_def make_space_def Let_def)
  qed
qed

section \<open>Writing and reading\<close>

lemma splice_written:
  assumes "buffer_inv b" "length d = unat n" "unat n \<le> unat (writable_bytes b)"
  defines "b' \<equiv> has_written (b\<lparr>buff := splice_at (unat (write_index b)) d (buff b)\<rparr>) n"
  shows "buffer_inv b' \<and> contents b' = contents b @ d \<and> write_index b' = write_index b + n"
proof -
  let ?s = "b\<lparr>buff := splice_at (unat (write_index b)) d (buff b)\<rparr>"
  have facts: "unat (read_index b) \<le> unat (write_index b)"
      "unat (write_index b) + unat n \<le> length (buff b)" "length (buff b) \<le> vector_max_size"
    using assms(1,3) by (auto elim!: buffer_invE)
  have "buffer_inv ?s"
    using assms(1,2) facts by (simp add: buffer_inv_def)
  then have inv: "buffer_inv b'"
    unfolding b'_def by (rule has_written_inv)
  have "writable_bytes ?s = writable_bytes b"
    using assms(2) facts by (simp add: writable_bytes_def buff_size_def)
  with assms(3) have b': "b' = ?s\<lparr>write_index := write_index b + n\<rparr>"
    by (simp add: b'_def has_written_def word_le_nat_alt)
  have "unat (write_index b + n) = unat (write_index b) + length d"
    using facts assms(2) by (simp add: unat_add_no_wrap)
  with inv b' assms(1,2) facts have "contents b' = contents b @ d"
    using drop_take_splice_at [of "unat (read_index b)" "unat (write_index b)" d "buff b"]
    by (simp add: contents_eq)
  with inv b' show ?thesis by simp
qed

lemma write_data_append:
  assumes "buffer_inv b" "fits b (unat n)" "unat n \<le> length d"
  shows "\<exists>b'. write_data b (Some d) n = Inr b' \<and> buffer_inv b' \<and>
           contents b' = contents b @ take (unat n) d \<and>
           unat (write_index b') \<le> unat (write_index b) + unat n"
proof (cases "n = 0")
  case True
  with assms show ?thesis by (simp add: write_data_def)
next
  case False
  obtain b1 where b1: "ensure_writable b n = Inr b1" and room: "made_room b (unat n) b1"
    using ensure_writable_room [OF assms(1,2)] by blast
  let ?d = "take (unat n) d"
  let ?b' = "has_written (b1\<lparr>buff := splice_at (unat (write_index b1)) ?d (buff b1)\<rparr>) n"
  from room have inv1: "buffer_inv b1" and n: "unat n \<le> unat (writable_bytes b1)"
    and w: "unat (write_index b1) \<le> unat (write_index b)" and c1: "contents b1 = contents b"
    by (simp_all add: made_room_def word_le_nat_alt)
  have b': "buffer_inv ?b' \<and> contents ?b' = contents b1 @ ?d \<and> write_index ?b' = write_index b1 + n"
    using inv1 n assms(3) by (intro splice_written) simp_all
  have "unat (write_index b1) + unat n \<le> length (buff b1)"
    using inv1 n by (auto elim!: buffer_invE)
  with b1 False assms(3) have "write_data b (Some d) n = Inr ?b'"
    by (simp add: write_data_def)
  moreover have "unat (write_index ?b') \<le> unat (write_index b) + unat n"
    using b' w by (simp add: unat_word_ariths mod_less_eq_dividend [THEN le_trans])
  ultimately show ?thesis using b' c1 by auto
qed

lemma write_str_append:
  assumes "buffer_inv b" "fits b (length str)"
  shows "\<exists>b'. write_str b str = Inr b' \<and> buffer_inv b' \<and> contents b' = contents b @ str \<and>
           unat (write_index b') \<le> unat (write_index b) + length str"
proof -
  from assms(2) have n: "unat (of_nat (length str) :: size_t) = length str"
    by (simp add: fits_def unat_of_nat_id)
  with assms write_data_append [of b "of_nat (length str)" str] show ?thesis
    by (simp add: write_str_def)
qed

lemma read_string_n_take:
  assumes "buffer_inv b"
  shows "read_string_n b n = Inr (take (unat n) (contents b), has_readed b (min n (readable_bytes b)))"
proof -
  let ?m = "if n > readable_bytes b then readable_bytes b else n"
  have m: "?m = min n (readable_bytes b)" by (auto simp: min_def not_less dest: antisym)
  have "read_at b ?m = Inr (take (unat n) (contents b))"
    using assms
    by (auto elim!: buffer_invE simp: read_at_def contents_def word_less_nat_alt take_drop min_def)
  then show ?thesis by (simp add: read_string_n_def Let_def m)
qed

section \<open>The interface clients rely on\<close>

text \<open>
  A byte channel: bytes put at the end come out at the front, in order. \<open>room c n\<close> says that \<open>n\<close>
  more bytes can be put without failing.
\<close>

locale byte_channel =
  fixes inv :: "'c \<Rightarrow> bool" and val :: "'c \<Rightarrow> char list" and room :: "'c \<Rightarrow> nat \<Rightarrow> bool"
    and put :: "'c \<Rightarrow> char list \<Rightarrow> 'e + 'c" and drain :: "'c \<Rightarrow> nat \<Rightarrow> 'c"
  assumes put_ok:
      "inv c \<Longrightarrow> room c (length s) \<Longrightarrow>
         \<exists>c'. put c s = Inr c' \<and> inv c' \<and> val c' = val c @ s \<and>
           (\<forall>n. room c (length s + n) \<longrightarrow> room c' n)"
    and drain_inv: "inv c \<Longrightarrow> inv (drain c n)"
    and drain_val: "inv c \<Longrightarrow> n \<le> length (val c) \<Longrightarrow> val (drain c n) = drop n (val c)"
begin

lemma put_all_ok:
  assumes "inv c" "room c (length (concat ss))" "\<And>c m n. room c n \<Longrightarrow> m \<le> n \<Longrightarrow> room c m"
  shows "\<exists>c'. foldE put c ss = Inr c' \<and> inv c' \<and> val c' = val c @ concat ss"
  using assms(1,2)
proof (induction ss arbitrary: c)
  case (Cons s ss)
  from Cons.prems(2) have "room c (length s)"
    by (rule assms(3)) simp
  with Cons.prems(1) obtain c1 where c1: "put c s = Inr c1" "inv c1" "val c1 = val c @ s"
    and rest: "\<forall>n. room c (length s + n) \<longrightarrow> room c1 n"
    using put_ok [of c s] by blast
  from rest Cons.prems(2) have "room c1 (length (concat ss))" by simp
  with c1 Cons.IH [of c1] show ?case by auto
qed simp

lemma put_drain:
  assumes "inv c" "room c (length s)" "val c = []" "put c s = Inr c'"
  shows "val (drain c' (length s)) = []"
  using put_ok [OF assms(1,2)] assms(3,4) drain_val [of c' "length s"] by auto

end

interpretation bytes: byte_channel buffer_inv contents fits write_str
  "\<lambda>b n. has_readed b (of_nat n)"
proof
  fix b :: buffer and s :: "char list" and n :: nat
  show "buffer_inv b \<Longrightarrow> fits b (length s) \<Longrightarrow>
      \<exists>c'. write_str b s = Inr c' \<and> buffer_inv c' \<and> contents c' = contents b @ s \<and>
        (\<forall>n. fits b (length s + n) \<longrightarrow> fits c' n)"
    using write_str_append [of b s] by (fastforce simp: fits_def)
  show "buffer_inv b \<Longrightarrow> buffer_inv (has_readed b (of_nat n))"
    by (rule has_readed_inv)
  assume "buffer_inv b" "n \<le> length (contents b)"
  moreover from this have "n < 2 ^ 64"
    using unat_lt_size_t [of "readable_bytes b"] by simp
  ultimately show "contents (has_readed b (of_nat n)) = drop n (contents b)"
    by (simp add: contents_has_readed unat_of_nat_id)
qed

lemma fits_mono: "fits b n \<Longrightarrow> m \<le> n \<Longrightarrow> fits b m"
  by (simp add: fits_def)

lemma write_strs_append:
  assumes "buffer_inv b" "fits b (length (concat ss))"
  shows "\<exists>b'. foldE write_str b ss = Inr b' \<and> buffer_inv b' \<and> contents b' = contents b @ concat ss"
  using assms by (rule bytes.put_all_ok) (rule fits_mono)

section \<open>The buffer is a byte queue\<close>

text \<open>
  The abstract specification: a buffer is the list of its readable bytes. A client program is a
  list of calls; \<open>run_buffer\<close> performs them on the model and collects what the reads return,
  \<open>run_bytes\<close> performs them on the list.
\<close>

datatype buffer_call =
    Write "char list"
  | Read size_t
  | ReadAll
  | Consume size_t
  | ConsumeAll
  | Ensure size_t
  | Shrink

fun call_buffer :: "char list list \<times> buffer \<Rightarrow> buffer_call \<Rightarrow> buffer_error + (char list list \<times> buffer)"
where
  "call_buffer (out, b) (Write d) = bindE (write_str b d) (\<lambda>b'. Inr (out, b'))"
| "call_buffer (out, b) (Read n) = bindE (read_string_n b n) (\<lambda>(d, b'). Inr (out @ [d], b'))"
| "call_buffer (out, b) ReadAll = bindE (read_string b) (\<lambda>(d, b'). Inr (out @ [d], b'))"
| "call_buffer (out, b) (Consume n) = Inr (out, has_readed b n)"
| "call_buffer (out, b) ConsumeAll = Inr (out, has_readall b)"
| "call_buffer (out, b) (Ensure n) = bindE (ensure_writable b n) (\<lambda>b'. Inr (out, b'))"
| "call_buffer (out, b) Shrink = Inr (out, shrink b)"

definition run_buffer ::
    "buffer \<Rightarrow> buffer_call list \<Rightarrow> buffer_error + (char list list \<times> buffer)" where
  "run_buffer b cs = foldE call_buffer ([], b) cs"

fun call_bytes :: "char list list \<times> char list \<Rightarrow> buffer_call \<Rightarrow> char list list \<times> char list" where
  "call_bytes (out, v) (Write d) = (out, v @ d)"
| "call_bytes (out, v) (Read n) = (out @ [take (unat n) v], drop (unat n) v)"
| "call_bytes (out, v) ReadAll = (out @ [v], [])"
| "call_bytes (out, v) (Consume n) = (out, drop (unat n) v)"
| "call_bytes (out, v) ConsumeAll = (out, [])"
| "call_bytes (out, v) (Ensure n) = (out, v)"
| "call_bytes (out, v) Shrink = (out, v)"

definition run_bytes :: "char list \<Rightarrow> buffer_call list \<Rightarrow> char list list \<times> char list" where
  "run_bytes v cs = foldl call_bytes ([], v) cs"

text \<open>The room a call asks for, an upper bound of what it adds to the write index.\<close>

fun demand :: "buffer_call \<Rightarrow> nat" where
  "demand (Write d) = length d"
| "demand (Ensure n) = unat n"
| "demand _ = 0"

definition simulates :: "char list list \<times> buffer \<Rightarrow> char list list \<times> char list \<Rightarrow> bool" where
  "simulates c a \<longleftrightarrow> fst c = fst a \<and> buffer_inv (snd c) \<and> contents (snd c) = snd a"

lemma write_index_has_readed: "buffer_inv b \<Longrightarrow> write_index (has_readed b n) \<le> write_index b"
  by (simp add: has_readed_def has_readall_def)

lemma read_string_n_sim:
  assumes "buffer_inv b"
  shows "read_string_n b n = Inr (take (unat n) (contents b), has_readed b (min n (readable_bytes b)))"
    and "contents (has_readed b (min n (readable_bytes b))) = drop (unat n) (contents b)"
    and "buffer_inv (has_readed b m)"
proof -
  show "contents (has_readed b (min n (readable_bytes b))) = drop (unat n) (contents b)"
    using assms by (simp add: contents_has_readed min_def word_le_nat_alt)
qed (simp_all add: assms read_string_n_take has_readed_inv)

text \<open>One call: the concrete and the abstract side stay related, and the write index grows by at
  most the call's demand.\<close>

lemma call_buffer_simulates:
  assumes "simulates c a" "unat (write_index (snd c)) + demand x \<le> vector_max_size"
  shows "\<exists>c'. call_buffer c x = Inr c' \<and> simulates c' (call_bytes a x) \<and>
           unat (write_index (snd c')) \<le> unat (write_index (snd c)) + demand x"
proof -
  obtain out b where c: "c = (out, b)" by (cases c)
  from assms(1) have a: "a = (out, contents b)" and inv: "buffer_inv b"
    by (cases a, simp_all add: simulates_def c)
  note idx = write_index_has_readed [OF inv, unfolded word_le_nat_alt]
  show ?thesis
  proof (cases x)
    case (Write d)
    with assms(2) write_str_append [OF inv, of d] show ?thesis
      by (auto simp: c a simulates_def fits_def)
  next
    case (Read n)
    with inv idx show ?thesis by (simp add: c a simulates_def read_string_n_sim)
  next
    case ReadAll
    with inv idx show ?thesis
      using read_string_n_sim [OF inv, of "readable_bytes b"]
      by (simp add: c a simulates_def read_string_def)
  next
    case (Consume n)
    with inv idx show ?thesis by (simp add: c a simulates_def has_readed_inv contents_has_readed)
  next
    case ConsumeAll
    with inv show ?thesis by (simp add: c a simulates_def has_readall_inv) (simp add: has_readall_def)
  next
    case (Ensure n)
    with assms(2) ensure_writable_room [OF inv, of n] show ?thesis
      by (auto simp: c a simulates_def fits_def made_room_def word_le_nat_alt)
  next
    case Shrink
    with inv show ?thesis by (simp add: c a simulates_def shrink_def)
  qed
qed

lemma calls_simulate:
  assumes "simulates c a" "unat (write_index (snd c)) + sum_list (map demand cs) \<le> vector_max_size"
  shows "\<exists>c'. foldE call_buffer c cs = Inr c' \<and> simulates c' (foldl call_bytes a cs)"
  using assms
proof (induction cs arbitrary: c a)
  case (Cons x cs)
  obtain c1 where c1: "call_buffer c x = Inr c1" "simulates c1 (call_bytes a x)"
    and w: "unat (write_index (snd c1)) \<le> unat (write_index (snd c)) + demand x"
    using call_buffer_simulates [OF Cons.prems(1), of x] Cons.prems(2) by auto
  with Cons.IH [OF c1(2)] Cons.prems(2) show ?case by auto
qed simp

text \<open>C36. Refinement: any sequence of writes, reads, consumes and reservations on a freshly
  constructed buffer succeeds, returns exactly what the same sequence returns on a plain list of
  bytes, and leaves exactly its bytes readable, as long as the requested sizes add up to no more
  than a vector can hold. Growing and compacting the vector are invisible to the client.\<close>

theorem buffer_refines_byte_queue:
  assumes "unat n \<le> vector_max_size" "sum_list (map demand cs) \<le> vector_max_size"
  shows "\<exists>b. run_buffer (mk_buffer n) cs = Inr (fst (run_bytes [] cs), b) \<and>
           buffer_inv b \<and> contents b = snd (run_bytes [] cs)"
proof -
  have "simulates ([], mk_buffer n) ([], [])"
    using assms(1) by (simp add: simulates_def mk_buffer_inv)
  then obtain c where "foldE call_buffer ([], mk_buffer n) cs = Inr c"
    "simulates c (foldl call_bytes ([], []) cs)"
    using calls_simulate [of "([], mk_buffer n)" "([], [])" cs] assms(2)
    by (auto simp: mk_buffer_def)
  then show ?thesis
    by (cases c) (auto simp: run_buffer_def run_bytes_def simulates_def)
qed

theorem buffer_refines_byte_queue_witness:
  "\<exists>b. run_buffer (mk_buffer 4) [Write ''hello'', Read 2, Write ''ab'', Consume 1, ReadAll]
         = Inr ([''he'', ''loab''], b) \<and> buffer_inv b \<and> contents b = []"
  using buffer_refines_byte_queue
    [of 4 "[Write ''hello'', Read 2, Write ''ab'', Consume 1, ReadAll]"]
  by (simp add: run_bytes_def)

text \<open>C40. Overflow of a reservation: when the write index plus the requested size exceeds the range
  of \<^verbatim>\<open>size_t\<close>, \<^verbatim>\<open>ensure_writable\<close> reports success, but the vector has been cut to fewer
  bytes than are readable, and the buffer's invariant is lost. No check in the code excludes it.\<close>

theorem ensure_writable_overflow:
  assumes "buffer_inv b" "2 ^ 64 \<le> unat (write_index b) + unat n"
  shows "\<exists>b'. ensure_writable b n = Inr b' \<and> length (buff b') < unat (write_index b') \<and>
           \<not> buffer_inv b'"
proof -
  have facts: "unat (write_index b) \<le> length (buff b)" "length (buff b) \<le> vector_max_size"
      "unat (writable_bytes b) = length (buff b) - unat (write_index b)"
      "unat (read_index b) \<le> unat (write_index b)"
    using assms(1) by (auto elim!: buffer_invE)
  have n: "unat n < 2 ^ 64" by (rule unat_lt_size_t)
  have sum: "unat (read_index b + writable_bytes b) = unat (read_index b) + unat (writable_bytes b)"
    using facts by (intro unat_add_no_wrap) simp
  have wrapped: "unat (write_index b + n) = unat (write_index b) + unat n - 2 ^ 64"
    using assms(2) facts n by (simp add: unat_word_ariths mod_if)
  let ?b' = "b\<lparr>buff := take (unat (write_index b + n)) (buff b) @
               replicate (unat (write_index b + n) - length (buff b)) (CHR 0x00)\<rparr>"
  have "ensure_writable b n = Inr ?b'"
    using assms(2) facts n sum wrapped
    by (simp add: ensure_writable_def make_space_def resize_buff_def word_less_nat_alt)
  moreover have "length (buff ?b') < unat (write_index ?b')"
    using facts n wrapped assms(2) by simp
  ultimately show ?thesis by (auto simp: buffer_inv_def)
qed

theorem ensure_writable_overflow_witness:
  "\<exists>b'. ensure_writable \<lparr>buff = ''0123456789'', read_index = 0, write_index = 10\<rparr>
          18446744073709551611 = Inr b' \<and>
        length (buff b') < unat (write_index b') \<and> \<not> buffer_inv b'"
  using ensure_writable_overflow
    [of "\<lparr>buff = ''0123456789'', read_index = 0, write_index = 10\<rparr>" 18446744073709551611]
  by (simp add: buffer_inv_def)

end
