(* ===== verification/TcpConnection.thy ===== *)
theory TcpConnection
  imports Buffer "HOL-Library.Sublist"
begin

text \<open>
  \<^verbatim>\<open>code/TcpConnection.h\<close> and \<^verbatim>\<open>code/TcpConnection.cpp\<close>: one TCP connection on an event loop.

  All members that touch the state run on the thread of the loop, one at a time; \<^verbatim>\<open>send\<close> and \<^verbatim>\<open>close\<close>
  reach it through \<^verbatim>\<open>dispatch\<close>, which runs them at once on that thread and queues them otherwise. The
  socket belongs to boost::asio: what the code asks of it is the output of the members, a list of
  \<open>socket_op\<close>, and what it answers is their input, the completions that the step relation below lets
  happen. The user's callbacks are code outside the repository too. A callback acts on the connection
  by the calls it makes, so a member that invokes one takes the list of those calls as an argument;
  a callback that is not set makes none. Notifications appear among the outputs as well.

  A buffer given to \<^verbatim>\<open>send\<close> is shared with the caller, who must leave it alone until it is sent.
\<close>

section \<open>State\<close>

record tcp_connection =
  conn_loop :: nat
  conn_name :: string
  connected :: bool
  recv_buffer :: buffer
  send_buffer :: "buffer list"
  local_ep :: "string \<times> uint16"
  remote_ep :: "string \<times> uint16"

datatype socket_op =
    Set_no_delay
  | Set_linger_0
  | Shutdown_both
  | Close_socket
  | Async_receive size_t
  | Async_write "char list"
  | Notify_connection bool
  | Notify_recv size_t
  | Notify_sendcomplete
  | Notify_close

datatype app_call =
    Send_data "char list option" size_t
  | Send_buffer "buffer option"
  | Close
  | Consume size_t

type_synonym conn_result = "buffer_error + socket_op list \<times> tcp_connection"

definition mk_connection :: "nat \<Rightarrow> string \<Rightarrow> tcp_connection" where
  "mk_connection loop name =
     \<lparr>conn_loop = loop, conn_name = name, connected = False, recv_buffer = mk_buffer InitialSize,
      send_buffer = [], local_ep = ('''', 0), remote_ep = ('''', 0)\<rparr>"

definition destroy_connection :: "bool \<Rightarrow> tcp_connection \<Rightarrow> socket_op list \<times> tcp_connection" where
  "destroy_connection is_open c = (if is_open then [Close_socket] else [], c\<lparr>send_buffer := []\<rparr>)"

text \<open>Running one member after another, collecting what they ask for.\<close>

definition and_then :: "conn_result \<Rightarrow> (tcp_connection \<Rightarrow> conn_result) \<Rightarrow> conn_result" where
  "and_then r f = bindE r (\<lambda>(ops, c). bindE (f c) (\<lambda>(ops', c'). Inr (ops @ ops', c')))"

definition request :: "socket_op \<Rightarrow> tcp_connection \<Rightarrow> conn_result" where
  "request oper c = Inr ([oper], c)"

section \<open>Members\<close>

definition conn_init :: "string \<times> uint16 \<Rightarrow> string \<times> uint16 \<Rightarrow> tcp_connection \<Rightarrow> socket_op list \<times> tcp_connection" where
  "conn_init remote local c = ([Set_no_delay, Set_linger_0], c\<lparr>remote_ep := remote, local_ep := local\<rparr>)"

definition local_ip :: "tcp_connection \<Rightarrow> string" where "local_ip c = fst (local_ep c)"
definition local_port :: "tcp_connection \<Rightarrow> uint16" where "local_port c = snd (local_ep c)"
definition remote_ip :: "tcp_connection \<Rightarrow> string" where "remote_ip c = fst (remote_ep c)"
definition remote_port :: "tcp_connection \<Rightarrow> uint16" where "remote_port c = snd (remote_ep c)"

definition close_loop :: "tcp_connection \<Rightarrow> conn_result" where
  "close_loop c = Inr (if connected c then ([Shutdown_both], c\<lparr>connected := False\<rparr>) else ([], c))"

definition async_send :: "tcp_connection \<Rightarrow> conn_result" where
  "async_send c =
     (case send_buffer c of
        [] \<Rightarrow> Inl OutOfBounds
      | b # _ \<Rightarrow> bindE (read_at b (readable_bytes b)) (\<lambda>d. Inr ([Async_write d], c)))"

definition send_loop :: "buffer \<Rightarrow> tcp_connection \<Rightarrow> conn_result" where
  "send_loop b c =
     (if connected c then
        (let sending = (send_buffer c \<noteq> []); c1 = c\<lparr>send_buffer := send_buffer c @ [b]\<rparr>
         in if \<not> sending then async_send c1 else Inr ([], c1))
      else Inr ([], c))"

definition send_buff :: "buffer option \<Rightarrow> tcp_connection \<Rightarrow> conn_result" where
  "send_buff bp c =
     (case bp of
        None \<Rightarrow> Inr ([], c)
      | Some b \<Rightarrow> if readable_bytes b = 0 then Inr ([], c) else send_loop b c)"

definition send_data :: "char list option \<Rightarrow> size_t \<Rightarrow> tcp_connection \<Rightarrow> conn_result" where
  "send_data data n c =
     (if data = None \<or> n = 0 then Inr ([], c)
      else bindE (write_data (mk_buffer n) data n) (\<lambda>b. send_buff (Some b) c))"

text \<open>The calls of a callback, on the thread of the loop.\<close>

fun do_call :: "app_call \<Rightarrow> tcp_connection \<Rightarrow> conn_result" where
  "do_call (Send_data data n) c = send_data data n c"
| "do_call (Send_buffer b) c = send_buff b c"
| "do_call Close c = close_loop c"
| "do_call (Consume n) c = Inr ([], c\<lparr>recv_buffer := has_readed (recv_buffer c) n\<rparr>)"

fun do_calls :: "app_call list \<Rightarrow> tcp_connection \<Rightarrow> conn_result" where
  "do_calls [] c = Inr ([], c)"
| "do_calls (x # xs) c = and_then (do_call x c) (do_calls xs)"

definition async_recv :: "tcp_connection \<Rightarrow> conn_result" where
  "async_recv c =
     bindE (ensure_writable (recv_buffer c) InitialSize) (\<lambda>b.
       Inr ([Async_receive (writable_bytes b)], c\<lparr>recv_buffer := b\<rparr>))"

definition handle_establish :: "app_call list \<Rightarrow> tcp_connection \<Rightarrow> conn_result" where
  "handle_establish calls c =
     and_then (async_recv (c\<lparr>connected := True\<rparr>)) (\<lambda>c.
     and_then (request (Notify_connection (connected c)) c) (do_calls calls))"

definition handle_close :: "app_call list \<Rightarrow> tcp_connection \<Rightarrow> conn_result" where
  "handle_close calls c =
     and_then (Inr (if connected c then ([Shutdown_both], c\<lparr>connected := False\<rparr>) else ([], c))) (\<lambda>c.
     and_then (request (Notify_connection (connected c)) c) (\<lambda>c.
     and_then (do_calls calls c) (request Notify_close)))"

text \<open>\<^verbatim>\<open>handle_recv\<close>; the socket has stored the received bytes \<open>data\<close> where \<^verbatim>\<open>async_recv\<close> said.\<close>

definition handle_recv :: "bool \<Rightarrow> char list \<Rightarrow> app_call list \<Rightarrow> tcp_connection \<Rightarrow> conn_result" where
  "handle_recv ec data calls c =
     (if ec then handle_close calls c
      else
        bindE (store_at_write (recv_buffer c) data) (\<lambda>b.
        and_then (request (Notify_recv (of_nat (length data)))
            (c\<lparr>recv_buffer := has_written b (of_nat (length data))\<rparr>)) (\<lambda>c.
        and_then (do_calls calls c) async_recv)))"

definition handle_send :: "bool \<Rightarrow> app_call list \<Rightarrow> tcp_connection \<Rightarrow> conn_result" where
  "handle_send ec calls c =
     (if ec then handle_close calls c
      else
        and_then (request Notify_sendcomplete
            (if send_buffer c \<noteq> [] then c\<lparr>send_buffer := tl (send_buffer c)\<rparr> else c)) (\<lambda>c.
        and_then (do_calls calls c) (\<lambda>c.
          if send_buffer c \<noteq> [] then async_send c else Inr ([], c))))"

section \<open>What a callback does\<close>

text \<open>The messages that a series of calls puts into the queue of the connection.\<close>

fun sent_by :: "app_call list \<Rightarrow> bool \<Rightarrow> char list list" where
  "sent_by [] conn = []"
| "sent_by (Send_data (Some d) n # xs) conn =
     (if conn \<and> n \<noteq> 0 then [take (unat n) d] else []) @ sent_by xs conn"
| "sent_by (Send_buffer (Some b) # xs) conn =
     (if conn \<and> contents b \<noteq> [] then [contents b] else []) @ sent_by xs conn"
| "sent_by (Close # xs) conn = sent_by xs False"
| "sent_by (x # xs) conn = sent_by xs conn"

text \<open>The calls a user may make: pointers and lengths agree, and sizes fit a vector.\<close>

fun valid_call :: "app_call \<Rightarrow> bool" where
  "valid_call (Send_data (Some d) n) \<longleftrightarrow> unat n \<le> length d \<and> length d \<le> vector_max_size"
| "valid_call (Send_buffer (Some b)) \<longleftrightarrow> buffer_inv b"
| "valid_call _ \<longleftrightarrow> True"

fun consumes :: "app_call \<Rightarrow> bool" where
  "consumes (Consume n) \<longleftrightarrow> True"
| "consumes _ \<longleftrightarrow> False"

definition conn_ok :: "tcp_connection \<Rightarrow> bool" where
  "conn_ok c \<longleftrightarrow> buffer_inv (recv_buffer c) \<and> (\<forall>b \<in> set (send_buffer c). buffer_inv b \<and> contents b \<noteq> [])"

abbreviation pending :: "tcp_connection \<Rightarrow> char list list" where
  "pending c \<equiv> map contents (send_buffer c)"

lemma read_at_contents: "buffer_inv b \<Longrightarrow> read_at b (readable_bytes b) = Inr (contents b)"
  by (erule buffer_invE) (simp add: read_at_def contents_def)

lemma contents_empty_iff: "buffer_inv b \<Longrightarrow> readable_bytes b = 0 \<longleftrightarrow> contents b = []"
  using length_contents [of b] by (simp add: unat_eq_0 flip: length_0_conv)

lemma send_loop_spec:
  assumes "conn_ok c" "buffer_inv b" "contents b \<noteq> []"
  shows "send_loop b c = Inr (if connected c \<and> send_buffer c = [] then [Async_write (contents b)] else [],
    if connected c then c\<lparr>send_buffer := send_buffer c @ [b]\<rparr> else c)"
  using assms by (simp add: send_loop_def async_send_def read_at_contents)

lemma send_data_buffer:
  assumes "unat n \<le> length d" "length d \<le> vector_max_size"
  shows "\<exists>b. write_data (mk_buffer n) (Some d) n = Inr b \<and> buffer_inv b \<and> contents b = take (unat n) d"
proof -
  have "buffer_inv (mk_buffer n)" by (rule mk_buffer_inv) (use assms in linarith)
  moreover have "fits (mk_buffer n) (unat n)" using assms by (simp add: fits_def mk_buffer_def)
  ultimately show ?thesis using write_data_append [of "mk_buffer n" n d] assms(1) by auto
qed

text \<open>One call: it does not fail, it appends what it sends to the queue, and it starts a write exactly
  when the queue was empty before.\<close>

definition call_effect :: "app_call list \<Rightarrow> tcp_connection \<Rightarrow> socket_op list \<Rightarrow> tcp_connection \<Rightarrow> bool" where
  "call_effect xs c ops c' \<longleftrightarrow>
     conn_ok c' \<and> pending c' = pending c @ sent_by xs (connected c) \<and>
     connected c' = (connected c \<and> Close \<notin> set xs) \<and>
     filter (\<lambda>oper. oper \<noteq> Shutdown_both) ops =
       map Async_write (if send_buffer c = [] then take 1 (sent_by xs (connected c)) else []) \<and>
     (\<not> list_ex consumes xs \<longrightarrow> recv_buffer c' = recv_buffer c) \<and>
     suffix (contents (recv_buffer c')) (contents (recv_buffer c)) \<and>
     unat (write_index (recv_buffer c')) \<le> unat (write_index (recv_buffer c))"

lemma do_call_effect:
  assumes "conn_ok c" "valid_call x"
  shows "\<exists>ops c'. do_call x c = Inr (ops, c') \<and> call_effect [x] c ops c'"
proof (cases x)
  case (Send_data data n)
  show ?thesis
  proof (cases "data = None \<or> n = 0")
    case True
    with Send_data assms show ?thesis by (cases data) (auto simp: send_data_def call_effect_def)
  next
    case False
    then obtain d where d: "data = Some d" "n \<noteq> 0" by auto
    with send_data_buffer [of n d] Send_data assms(2) obtain b where
      b: "write_data (mk_buffer n) (Some d) n = Inr b" "buffer_inv b" "contents b = take (unat n) d" by auto
    have ne: "contents b \<noteq> []" using b(3) d assms(2) Send_data by (auto simp: unat_eq_0)
    with b contents_empty_iff [of b] send_loop_spec [OF assms(1) b(2)] Send_data d assms(1) show ?thesis
      by (auto simp: send_data_def send_buff_def call_effect_def conn_ok_def)
  qed
next
  case (Send_buffer bp)
  show ?thesis
  proof (cases bp)
    case None
    with Send_buffer assms show ?thesis by (simp add: send_buff_def call_effect_def)
  next
    case (Some b)
    with Send_buffer assms(2) have b: "buffer_inv b" by simp
    with contents_empty_iff [OF b] send_loop_spec [OF assms(1) b] Send_buffer Some assms(1) show ?thesis
      by (cases "contents b = []") (auto simp: send_buff_def call_effect_def conn_ok_def)
  qed
next
  case Close
  with assms show ?thesis by (simp add: close_loop_def call_effect_def conn_ok_def)
next
  case (Consume n)
  let ?b = "recv_buffer c"
  from assms have "buffer_inv ?b" by (simp add: conn_ok_def)
  with Consume assms has_readed_inv [of ?b n] contents_has_readed [of ?b n] write_index_has_readed [of ?b n]
  show ?thesis by (auto simp: call_effect_def conn_ok_def suffix_drop word_le_nat_alt)
qed

lemma sent_by_Cons: "sent_by (x # xs) conn = sent_by [x] conn @ sent_by xs (conn \<and> x \<noteq> Close)"
  by (cases "(x # xs, conn)" rule: sent_by.cases) simp_all

lemma call_effect_Cons:
  assumes 1: "call_effect [x] c ops c1" and 2: "call_effect xs c1 ops' c2"
  shows "call_effect (x # xs) c (ops @ ops') c2"
proof -
  have conn: "connected c1 = (connected c \<and> x \<noteq> Close)" using 1 by (auto simp: call_effect_def)
  have sent: "sent_by (x # xs) (connected c) = sent_by [x] (connected c) @ sent_by xs (connected c1)"
    unfolding conn by (rule sent_by_Cons)
  have empty: "send_buffer c1 = [] \<longleftrightarrow> send_buffer c = [] \<and> sent_by [x] (connected c) = []"
    using 1 by (auto simp: call_effect_def)
  have "filter (\<lambda>oper. oper \<noteq> Shutdown_both) (ops @ ops') =
      map Async_write (if send_buffer c = [] then take 1 (sent_by (x # xs) (connected c)) else [])"
    using 1 2 empty unfolding sent by (cases "sent_by [x] (connected c)") (simp_all add: call_effect_def)
  moreover have "suffix (contents (recv_buffer c2)) (contents (recv_buffer c))"
    using 1 2 suffix_order.trans unfolding call_effect_def by blast
  moreover have "pending c2 = pending c @ sent_by (x # xs) (connected c)"
    using 1 2 unfolding sent by (simp add: call_effect_def)
  ultimately show ?thesis
    using 1 2 unfolding call_effect_def by (auto simp: conn)
qed

lemma do_calls_effect:
  assumes "conn_ok c" "list_all valid_call xs"
  shows "\<exists>ops c'. do_calls xs c = Inr (ops, c') \<and> call_effect xs c ops c'"
  using assms
proof (induction xs arbitrary: c)
  case Nil
  then show ?case by (simp add: call_effect_def)
next
  case (Cons x xs)
  from do_call_effect [of c x] Cons.prems obtain ops c1 where
    1: "do_call x c = Inr (ops, c1)" "call_effect [x] c ops c1" by auto
  then have "conn_ok c1" by (simp add: call_effect_def)
  with Cons.IH [of c1] Cons.prems obtain ops' c2 where
    2: "do_calls xs c1 = Inr (ops', c2)" "call_effect xs c1 ops' c2" by auto
  from call_effect_Cons [OF 1(2) 2(2)] 1(1) 2(1) show ?case by (simp add: and_then_def)
qed

section \<open>The connection and its socket\<close>

text \<open>
  The connection together with what is outstanding at its socket. \<open>receiving\<close> is the room of the
  receive that is under way, \<open>writing\<close> the bytes of the write that is; \<open>overlap\<close> records that a write
  was started while another one was under way, which asio forbids. The other fields record the history:
  whether the connection was established and whether a receive or a write has failed, the bytes of the
  messages that were accepted for sending, the bytes sent, the bytes received, and how often the close
  callback was called.
\<close>

record conn_system =
  sys_conn :: tcp_connection
  receiving :: "size_t option"
  writing :: "char list option"
  overlap :: bool
  established :: bool
  recv_failed :: bool
  write_failed :: bool
  queued :: "char list"
  wire :: "char list"
  received :: "char list"
  closes :: nat

definition init_system :: "tcp_connection \<Rightarrow> conn_system" where
  "init_system c =
     \<lparr>sys_conn = c, receiving = None, writing = None, overlap = False, established = False,
      recv_failed = False, write_failed = False, queued = [], wire = [], received = [], closes = 0\<rparr>"

fun perform :: "socket_op \<Rightarrow> conn_system \<Rightarrow> conn_system" where
  "perform (Async_receive n) s = s\<lparr>receiving := Some n\<rparr>"
| "perform (Async_write d) s =
     (if writing s = None then s\<lparr>writing := Some d\<rparr> else s\<lparr>overlap := True\<rparr>)"
| "perform Notify_close s = s\<lparr>closes := closes s + 1\<rparr>"
| "perform _ s = s"

datatype conn_event =
    Establish "app_call list"
  | Recv_ok "char list" "app_call list"
  | Recv_error "app_call list"
  | Send_ok "app_call list"
  | Send_error "app_call list"
  | Posted app_call

fun event_calls :: "conn_event \<Rightarrow> app_call list" where
  "event_calls (Establish xs) = xs"
| "event_calls (Recv_ok d xs) = xs"
| "event_calls (Recv_error xs) = xs"
| "event_calls (Send_ok xs) = xs"
| "event_calls (Send_error xs) = xs"
| "event_calls (Posted x) = [x]"

text \<open>The member that runs for an event.\<close>

fun conn_handler :: "conn_event \<Rightarrow> tcp_connection \<Rightarrow> conn_result" where
  "conn_handler (Establish xs) = handle_establish xs"
| "conn_handler (Recv_ok d xs) = handle_recv False d xs"
| "conn_handler (Recv_error xs) = handle_recv True [] xs"
| "conn_handler (Send_ok xs) = handle_send False xs"
| "conn_handler (Send_error xs) = handle_send True xs"
| "conn_handler (Posted x) = do_call x"

text \<open>
  When an event can happen. The socket completes what is outstanding, and nothing else: a receive with
  between one byte and as many as there was room for, or with an error; a write with all its bytes, or
  with an error. The rest are the rules for the user: valid calls, bytes are consumed in the receive
  callback only, and the callback for a completed write does not send. The bytes of one connection
  fit a vector.
\<close>

fun enabled :: "conn_event \<Rightarrow> conn_system \<Rightarrow> bool" where
  "enabled (Establish xs) s \<longleftrightarrow> \<not> established s \<and> list_all valid_call xs \<and> \<not> list_ex consumes xs"
| "enabled (Recv_ok d xs) s \<longleftrightarrow>
     (case receiving s of None \<Rightarrow> False | Some n \<Rightarrow> length d \<le> unat n) \<and> d \<noteq> [] \<and>
     length (received s) + length d + unat InitialSize \<le> vector_max_size \<and> list_all valid_call xs"
| "enabled (Recv_error xs) s \<longleftrightarrow>
     receiving s \<noteq> None \<and> list_all valid_call xs \<and> \<not> list_ex consumes xs"
| "enabled (Send_ok xs) s \<longleftrightarrow>
     writing s \<noteq> None \<and> list_all valid_call xs \<and> \<not> list_ex consumes xs \<and> sent_by xs True = []"
| "enabled (Send_error xs) s \<longleftrightarrow>
     writing s \<noteq> None \<and> list_all valid_call xs \<and> \<not> list_ex consumes xs"
| "enabled (Posted x) s \<longleftrightarrow> valid_call x \<and> \<not> consumes x"

fun completed :: "conn_event \<Rightarrow> conn_system \<Rightarrow> conn_system" where
  "completed (Establish xs) s = s\<lparr>established := True, queued := queued s @ concat (sent_by xs True)\<rparr>"
| "completed (Recv_ok d xs) s =
     s\<lparr>receiving := None, received := received s @ d,
       queued := queued s @ concat (sent_by xs (connected (sys_conn s)))\<rparr>"
| "completed (Recv_error xs) s = s\<lparr>receiving := None, recv_failed := True\<rparr>"
| "completed (Send_ok xs) s =
     s\<lparr>writing := None, wire := wire s @ (case writing s of None \<Rightarrow> [] | Some d \<Rightarrow> d),
       queued := queued s @ concat (sent_by xs (connected (sys_conn s)))\<rparr>"
| "completed (Send_error xs) s = s\<lparr>writing := None, write_failed := True\<rparr>"
| "completed (Posted x) s = s\<lparr>queued := queued s @ concat (sent_by [x] (connected (sys_conn s)))\<rparr>"

inductive conn_step :: "conn_event \<Rightarrow> conn_system \<Rightarrow> conn_system \<Rightarrow> bool" where
  "enabled e s \<Longrightarrow> conn_handler e (sys_conn s) = Inr (ops, c) \<Longrightarrow>
     conn_step e s (fold perform ops ((completed e s)\<lparr>sys_conn := c\<rparr>))"

inductive conn_reachable :: "conn_system \<Rightarrow> bool" where
  init: "conn_reachable (init_system (mk_connection loop name))"
| step: "conn_reachable s \<Longrightarrow> conn_step e s s' \<Longrightarrow> conn_reachable s'"

inductive_cases conn_stepE: "conn_step e s s'"

section \<open>Invariant\<close>

text \<open>The sending side: one write is under way exactly while there is something to send and no write has
  failed, it is the front of the queue, and no byte is lost or reordered.\<close>

definition send_inv :: "conn_system \<Rightarrow> bool" where
  "send_inv s \<longleftrightarrow>
     \<not> overlap s \<and> queued s = wire s @ concat (pending (sys_conn s)) \<and>
     (case writing s of
        None \<Rightarrow> send_buffer (sys_conn s) = [] \<or> write_failed s
      | Some d \<Rightarrow> \<not> write_failed s \<and> (\<exists>ds. pending (sys_conn s) = d # ds)) \<and>
     (write_failed s \<longrightarrow> \<not> connected (sys_conn s)) \<and>
     (\<not> established s \<longrightarrow> \<not> connected (sys_conn s) \<and> send_buffer (sys_conn s) = [] \<and> \<not> write_failed s)"

text \<open>The receiving side: a receive into all the free room of the buffer is under way until one fails,
  and the buffer holds the end of the stream of received bytes.\<close>

definition recv_inv :: "conn_system \<Rightarrow> bool" where
  "recv_inv s \<longleftrightarrow>
     (case receiving s of
        None \<Rightarrow> (established s \<longrightarrow> recv_failed s) \<and> \<not> connected (sys_conn s)
      | Some n \<Rightarrow> established s \<and> \<not> recv_failed s \<and> n = writable_bytes (recv_buffer (sys_conn s)) \<and>
          unat InitialSize \<le> unat n) \<and>
     (\<not> established s \<longrightarrow> \<not> recv_failed s) \<and>
     suffix (contents (recv_buffer (sys_conn s))) (received s) \<and>
     unat (write_index (recv_buffer (sys_conn s))) \<le> length (received s) \<and>
     length (received s) + unat InitialSize \<le> vector_max_size"

definition conn_inv :: "conn_system \<Rightarrow> bool" where
  "conn_inv s \<longleftrightarrow> conn_ok (sys_conn s) \<and> send_inv s \<and> recv_inv s \<and>
     closes s = of_bool (recv_failed s) + of_bool (write_failed s)"

lemmas conn_inv_defs = conn_inv_def send_inv_def recv_inv_def

lemma write_index_mk_buffer: "write_index (mk_buffer n) = 0"
  by (simp add: mk_buffer_def)

lemma init_system_inv: "conn_inv (init_system (mk_connection loop name))"
  by (simp add: conn_inv_defs init_system_def mk_connection_def conn_ok_def mk_buffer_inv InitialSize_def
      write_index_mk_buffer)

section \<open>Every event keeps the invariant\<close>

lemma fold_perform_filter: "fold perform ops s = fold perform (filter (\<lambda>oper. oper \<noteq> Shutdown_both) ops) s"
  by (induction ops arbitrary: s) auto

lemma calls_performed:
  assumes "call_effect xs c ops c'"
  shows "fold perform ops s =
    (if send_buffer c = [] \<and> sent_by xs (connected c) \<noteq> []
     then perform (Async_write (hd (sent_by xs (connected c)))) s else s)"
  using assms fold_perform_filter [of ops s]
  by (cases "sent_by xs (connected c)") (simp_all add: call_effect_def)

lemma sent_by_disconnected [simp]: "sent_by xs False = []"
  by (induction xs "False" rule: sent_by.induct) simp_all

lemma async_recv_spec:
  assumes "conn_ok c" "unat (write_index (recv_buffer c)) + unat InitialSize \<le> vector_max_size"
  shows "\<exists>b. async_recv c = Inr ([Async_receive (writable_bytes b)], c\<lparr>recv_buffer := b\<rparr>) \<and>
    made_room (recv_buffer c) (unat InitialSize) b"
  using assms ensure_writable_room [of "recv_buffer c" InitialSize]
  by (auto simp: async_recv_def conn_ok_def fits_def)

lemmas conn_defs = and_then_def request_def

text \<open>The calls of a callback: they keep the invariant of the sending side, and leave the rest alone.\<close>

abbreviation after_calls :: "app_call list \<Rightarrow> socket_op list \<Rightarrow> tcp_connection \<Rightarrow> conn_system \<Rightarrow> conn_system" where
  "after_calls xs ops c s \<equiv>
     fold perform ops (s\<lparr>queued := queued s @ concat (sent_by xs (connected (sys_conn s))), sys_conn := c\<rparr>)"

lemma calls_send_inv:
  assumes inv: "send_inv s" and eff: "call_effect xs (sys_conn s) ops c"
  shows "send_inv (after_calls xs ops c s)"
proof (cases "sent_by xs (connected (sys_conn s))")
  case Nil
  with eff have "pending c = pending (sys_conn s)" "send_buffer c = [] \<longleftrightarrow> send_buffer (sys_conn s) = []"
    by (auto simp: call_effect_def dest: map_eq_imp_length_eq)
  with Nil inv eff show ?thesis
    unfolding calls_performed [OF eff] by (simp add: send_inv_def call_effect_def split: option.splits)
next
  case (Cons m ms)
  then have "connected (sys_conn s)" by (cases "connected (sys_conn s)") simp_all
  with inv have s: "established s" "\<not> write_failed s" by (auto simp: send_inv_def)
  have p: "pending c = pending (sys_conn s) @ m # ms" using eff Cons by (simp add: call_effect_def)
  show ?thesis
  proof (cases "writing s")
    case None
    with inv s have "send_buffer (sys_conn s) = []" by (simp add: send_inv_def)
    with None inv s p Cons show ?thesis
      unfolding calls_performed [OF eff] by (simp add: send_inv_def)
  next
    case (Some d)
    with inv have "send_buffer (sys_conn s) \<noteq> []" by (auto simp: send_inv_def)
    with Some inv s p Cons show ?thesis
      unfolding calls_performed [OF eff] by (auto simp: send_inv_def)
  qed
qed

lemma calls_frame:
  assumes "call_effect xs c0 ops c"
  shows "sys_conn (fold perform ops s) = sys_conn s" "receiving (fold perform ops s) = receiving s"
    "established (fold perform ops s) = established s" "recv_failed (fold perform ops s) = recv_failed s"
    "write_failed (fold perform ops s) = write_failed s" "received (fold perform ops s) = received s"
    "closes (fold perform ops s) = closes s"
  unfolding calls_performed [OF assms] by simp_all

lemma calls_inv:
  assumes "conn_inv s" "list_all valid_call xs" "\<not> list_ex consumes xs"
  shows "\<exists>ops c. do_calls xs (sys_conn s) = Inr (ops, c) \<and> call_effect xs (sys_conn s) ops c \<and>
    conn_inv (after_calls xs ops c s)"
proof -
  from assms have "conn_ok (sys_conn s)" by (simp add: conn_inv_def)
  from do_calls_effect [OF this assms(2)] obtain ops c where
    run: "do_calls xs (sys_conn s) = Inr (ops, c)" and eff: "call_effect xs (sys_conn s) ops c" by blast
  have "recv_buffer c = recv_buffer (sys_conn s)" "connected c \<longrightarrow> connected (sys_conn s)" "conn_ok c"
    using eff assms(3) by (simp_all add: call_effect_def)
  with assms(1) have "recv_inv (after_calls xs ops c s)"
    by (auto simp: conn_inv_def recv_inv_def calls_frame [OF eff] split: option.splits)
  with \<open>conn_ok c\<close> calls_send_inv [OF _ eff] assms(1) have "conn_inv (after_calls xs ops c s)"
    by (simp add: conn_inv_def calls_frame [OF eff])
  with run eff show ?thesis by blast
qed

lemma perform_conn: "perform oper (s\<lparr>sys_conn := c\<rparr>) = (perform oper s)\<lparr>sys_conn := c\<rparr>"
  by (cases oper) simp_all

lemma fold_perform_conn: "fold perform ops (s\<lparr>sys_conn := c\<rparr>) = (fold perform ops s)\<lparr>sys_conn := c\<rparr>"
  by (induction ops arbitrary: s) (simp_all add: perform_conn)

lemma send_inv_frame:
  assumes "send_inv s" "overlap s' = overlap s" "queued s' = queued s" "wire s' = wire s" "writing s' = writing s"
    "write_failed s' = write_failed s" "established s' = established s"
    "send_buffer (sys_conn s') = send_buffer (sys_conn s)" "connected (sys_conn s') = connected (sys_conn s)"
  shows "send_inv s'"
  using assms(1) unfolding send_inv_def assms(2-9) .

text \<open>An event is handled: the member returns, and the state it leads to is fine again.\<close>

definition handled :: "conn_event \<Rightarrow> conn_system \<Rightarrow> bool" where
  "handled e s \<longleftrightarrow> (\<exists>ops c. conn_handler e (sys_conn s) = Inr (ops, c) \<and>
     conn_inv (fold perform ops ((completed e s)\<lparr>sys_conn := c\<rparr>)))"

lemma posted_handled:
  assumes "conn_inv s" "enabled (Posted x) s"
  shows "handled (Posted x) s"
proof -
  from calls_inv [OF assms(1), of "[x]"] assms(2) obtain ops c where
    "do_calls [x] (sys_conn s) = Inr (ops, c)" "conn_inv (after_calls [x] ops c s)" by auto
  then show ?thesis by (auto simp: handled_def and_then_def)
qed

lemma establish_handled:
  assumes "conn_inv s" "enabled (Establish xs) s"
  shows "handled (Establish xs) s"
proof -
  let ?c = "(sys_conn s)\<lparr>connected := True\<rparr>"
  from assms have s: "conn_ok ?c" "unat (write_index (recv_buffer ?c)) + unat InitialSize \<le> vector_max_size"
    "receiving s = None"
    by (auto simp: conn_inv_defs conn_ok_def split: option.splits)
  from async_recv_spec [OF s(1,2)] obtain b where
    b: "async_recv ?c = Inr ([Async_receive (writable_bytes b)], ?c\<lparr>recv_buffer := b\<rparr>)"
      "made_room (recv_buffer ?c) (unat InitialSize) b" by auto
  let ?s = "s\<lparr>sys_conn := ?c\<lparr>recv_buffer := b\<rparr>, receiving := Some (writable_bytes b), established := True\<rparr>"
  have "conn_inv ?s"
    using assms b(2) s by (auto simp: conn_inv_defs conn_ok_def made_room_def word_le_nat_alt split: option.splits)
  from calls_inv [OF this, of xs] assms(2) obtain ops c where
    run: "do_calls xs (?c\<lparr>recv_buffer := b\<rparr>) = Inr (ops, c)" and inv: "conn_inv (after_calls xs ops c ?s)" by auto
  have "perform (Async_receive (writable_bytes b)) ((completed (Establish xs) s)\<lparr>sys_conn := c\<rparr>) =
      ?s\<lparr>queued := queued ?s @ concat (sent_by xs (connected (sys_conn ?s))), sys_conn := c\<rparr>" by simp
  from inv [folded this] show ?thesis
    using b(1) run by (simp add: handled_def handle_establish_def and_then_def request_def)
qed

lemma recv_ok_handled:
  assumes "conn_inv s" "enabled (Recv_ok d xs) s"
  shows "handled (Recv_ok d xs) s"
proof -
  let ?c = "sys_conn s" and ?n = "of_nat (length d) :: size_t"
  let ?b = "recv_buffer ?c"
  from assms obtain n where n: "receiving s = Some n" "n = writable_bytes ?b" "length d \<le> unat n"
    by (auto simp: conn_inv_defs split: option.splits)
  have ok: "conn_ok ?c" "buffer_inv ?b" using assms(1) by (simp_all add: conn_inv_def conn_ok_def)
  have len: "unat ?n = length d" using n(3) unat_lt_size_t [of n] by (simp add: unat_of_nat_id)
  define b1 where "b1 = has_written (?b\<lparr>buff := splice_at (unat (write_index ?b)) d (buff ?b)\<rparr>) ?n"
  have store: "store_at_write ?b d = Inr (?b\<lparr>buff := splice_at (unat (write_index ?b)) d (buff ?b)\<rparr>)"
    using ok(2) n by (auto elim!: buffer_invE simp: store_at_write_def)
  have b1: "buffer_inv b1 \<and> contents b1 = contents ?b @ d \<and> write_index b1 = write_index ?b + ?n"
    unfolding b1_def by (rule splice_written [OF ok(2)]) (use n len in simp_all)
  let ?c1 = "?c\<lparr>recv_buffer := b1\<rparr>"
  let ?s1 = "s\<lparr>receiving := None, received := received s @ d, sys_conn := ?c1\<rparr>"
  have "conn_ok ?c1" using ok b1 by (simp add: conn_ok_def)
  with do_calls_effect [of ?c1 xs] assms(2) obtain ops c2 where
    run: "do_calls xs ?c1 = Inr (ops, c2)" and eff: "call_effect xs ?c1 ops c2" by auto
  have "unat (write_index b1) \<le> length (received s) + length d"
    using b1 assms(1) len by (simp add: conn_inv_defs unat_word_ariths) (meson add_le_mono1 mod_less_eq_dividend order_trans)
  moreover have "unat (write_index (recv_buffer c2)) \<le> unat (write_index b1)" "conn_ok c2"
    "suffix (contents (recv_buffer c2)) (contents ?b @ d)"
    using eff b1 by (simp_all add: call_effect_def)
  moreover have "suffix (contents ?b @ d) (received s @ d)"
    using assms(1) by (simp add: conn_inv_defs)
  moreover note suffix_order.trans [of "contents (recv_buffer c2)" "contents ?b @ d" "received s @ d"]
  moreover have "length (received s) + length d + unat InitialSize \<le> vector_max_size" using assms(2) by simp
  ultimately have c2: "conn_ok c2" "unat (write_index (recv_buffer c2)) + unat InitialSize \<le> vector_max_size"
    "suffix (contents (recv_buffer c2)) (received s @ d)"
    "unat (write_index (recv_buffer c2)) \<le> length (received s @ d)"
    by auto
  from async_recv_spec [OF c2(1,2)] obtain b3 where
    b3: "async_recv c2 = Inr ([Async_receive (writable_bytes b3)], c2\<lparr>recv_buffer := b3\<rparr>)"
      "made_room (recv_buffer c2) (unat InitialSize) b3" by auto
  let ?s2 = "after_calls xs ops c2 ?s1"
  have s1: "send_inv ?s1"
    by (rule send_inv_frame [of s]) (use assms(1) in \<open>simp_all add: conn_inv_def\<close>)
  have "send_inv ?s2" using calls_send_inv [OF s1, of xs ops c2] eff by simp
  then have send: "send_inv ((perform (Async_receive (writable_bytes b3)) ?s2)\<lparr>sys_conn := c2\<lparr>recv_buffer := b3\<rparr>\<rparr>)"
    by (rule send_inv_frame) (simp_all add: calls_frame [OF eff])
  have "conn_inv ((perform (Async_receive (writable_bytes b3)) ?s2)\<lparr>sys_conn := c2\<lparr>recv_buffer := b3\<rparr>\<rparr>)"
    using send c2 b3(2) assms n
    by (auto simp: conn_inv_def recv_inv_def calls_frame [OF eff] conn_ok_def made_room_def word_le_nat_alt
        split: option.splits)
  then show ?thesis
    using run b3(1) store
    by (simp add: handled_def handle_recv_def and_then_def request_def b1_def [symmetric] fold_perform_conn)
qed

lemma handle_close_spec:
  assumes "conn_ok c" "list_all valid_call xs" "\<not> list_ex consumes xs"
  shows "\<exists>ops c'. handle_close xs c = Inr (ops, c') \<and> conn_ok c' \<and> \<not> connected c' \<and>
    pending c' = pending c \<and> recv_buffer c' = recv_buffer c \<and>
    (\<forall>s. fold perform ops s = s\<lparr>closes := closes s + 1\<rparr>)"
proof -
  let ?c = "if connected c then c\<lparr>connected := False\<rparr> else c"
  have "conn_ok ?c" "\<not> connected ?c" using assms(1) by (simp_all add: conn_ok_def)
  moreover from do_calls_effect [OF this(1) assms(2)] obtain ops c' where
    run: "do_calls xs ?c = Inr (ops, c')" and eff: "call_effect xs ?c ops c'" by blast
  ultimately have c': "conn_ok c'" "\<not> connected c'" "pending c' = pending c" "recv_buffer c' = recv_buffer c"
    "fold perform ops s = s" for s
    using assms(3) calls_performed [OF eff, of s] by (auto simp: call_effect_def)
  have "handle_close xs c = Inr ((if connected c then [Shutdown_both] else []) @
      Notify_connection False # ops @ [Notify_close], c')"
    using run \<open>\<not> connected ?c\<close> by (auto simp: handle_close_def and_then_def request_def)
  moreover have "fold perform ((if connected c then [Shutdown_both] else []) @
      Notify_connection False # ops @ [Notify_close]) s = s\<lparr>closes := closes s + 1\<rparr>" for s
    using c'(5) by simp
  ultimately show ?thesis using c' by blast
qed

lemma recv_error_handled:
  assumes "conn_inv s" "enabled (Recv_error xs) s"
  shows "handled (Recv_error xs) s"
proof -
  from handle_close_spec [of "sys_conn s" xs] assms obtain ops c where
    "handle_close xs (sys_conn s) = Inr (ops, c)" "conn_ok c" "\<not> connected c" "pending c = pending (sys_conn s)"
    "recv_buffer c = recv_buffer (sys_conn s)" "\<And>s. fold perform ops s = s\<lparr>closes := closes s + 1\<rparr>"
    by (auto simp: conn_inv_def)
  moreover from this(4) have "send_buffer c = [] \<longleftrightarrow> send_buffer (sys_conn s) = []"
    by (auto dest: map_eq_imp_length_eq)
  ultimately show ?thesis
    using assms by (auto simp: handled_def handle_recv_def conn_inv_defs split: option.splits)
qed

lemma send_error_handled:
  assumes "conn_inv s" "enabled (Send_error xs) s"
  shows "handled (Send_error xs) s"
proof -
  from handle_close_spec [of "sys_conn s" xs] assms obtain ops c where
    "handle_close xs (sys_conn s) = Inr (ops, c)" "conn_ok c" "\<not> connected c" "pending c = pending (sys_conn s)"
    "recv_buffer c = recv_buffer (sys_conn s)" "\<And>s. fold perform ops s = s\<lparr>closes := closes s + 1\<rparr>"
    by (auto simp: conn_inv_def)
  moreover from this(4) have "send_buffer c = [] \<longleftrightarrow> send_buffer (sys_conn s) = []"
    by (auto dest: map_eq_imp_length_eq)
  ultimately show ?thesis
    using assms by (auto simp: handled_def handle_send_def conn_inv_defs split: option.splits)
qed

lemma send_ok_handled:
  assumes "conn_inv s" "enabled (Send_ok xs) s"
  shows "handled (Send_ok xs) s"
proof -
  let ?c = "sys_conn s"
  from assms obtain d where "writing s = Some d" by auto
  moreover from assms(1) this obtain ds where "pending ?c = d # ds" by (auto simp: conn_inv_defs)
  ultimately have w: "writing s = Some d" "pending ?c = d # ds" "queued s = wire s @ d @ concat ds"
    using assms(1) by (simp_all add: conn_inv_defs)
  then obtain b bs where bs: "send_buffer ?c = b # bs" "contents b = d" "map contents bs = ds"
    by (auto simp: map_eq_Cons_conv)
  let ?c1 = "?c\<lparr>send_buffer := bs\<rparr>"
  have "conn_ok ?c1" using assms(1) bs by (simp add: conn_inv_def conn_ok_def)
  from do_calls_effect [OF this, of xs] assms(2) obtain ops c2 where
    run: "do_calls xs ?c1 = Inr (ops, c2)" and eff: "call_effect xs ?c1 ops c2" by auto
  have none: "sent_by xs (connected ?c) = []" using assms(2) by (cases "connected ?c") simp_all
  have c2: "conn_ok c2" "pending c2 = ds" "recv_buffer c2 = recv_buffer ?c" "connected c2 \<longrightarrow> connected ?c"
    using eff none bs assms(2) by (auto simp: call_effect_def)
  have ops: "fold perform ops s' = s'" for s'
    using calls_performed [OF eff, of s'] none by simp
  define ops2 where "ops2 = (case ds of [] \<Rightarrow> [] | d2 # _ \<Rightarrow> [Async_write d2])"
  have "(if send_buffer c2 \<noteq> [] then async_send c2 else Inr ([], c2)) = Inr (ops2, c2)"
    using c2(1,2) by (cases "send_buffer c2") (auto simp: async_send_def ops2_def conn_ok_def read_at_contents)
  then have "conn_handler (Send_ok xs) ?c = Inr (Notify_sendcomplete # ops @ ops2, c2)"
    using run bs(1) by (simp add: handle_send_def and_then_def request_def)
  moreover have "conn_inv (fold perform (Notify_sendcomplete # ops @ ops2) ((completed (Send_ok xs) s)\<lparr>sys_conn := c2\<rparr>))"
  proof (cases ds)
    case Nil
    then show ?thesis using assms c2 w none
      by (auto simp: ops ops2_def conn_inv_defs split: option.splits)
  next
    case (Cons d2 ds2)
    then have "send_buffer c2 \<noteq> []" using c2(2) by auto
    with Cons show ?thesis using assms c2 w none bs
      by (auto simp: ops ops2_def conn_inv_defs split: option.splits)
  qed
  ultimately show ?thesis unfolding handled_def by blast
qed

lemma enabled_handled: "conn_inv s \<Longrightarrow> enabled e s \<Longrightarrow> handled e s"
  using posted_handled establish_handled recv_ok_handled recv_error_handled send_ok_handled send_error_handled
  by (cases e) blast+

lemma conn_step_inv: "conn_step e s s' \<Longrightarrow> conn_inv s \<Longrightarrow> conn_inv s'"
proof (erule conn_stepE)
  fix ops c assume "conn_inv s" "enabled e s" "conn_handler e (sys_conn s) = Inr (ops, c)"
    and s': "s' = fold perform ops (completed e s\<lparr>sys_conn := c\<rparr>)"
  with enabled_handled [of s e] show "conn_inv s'" by (simp add: handled_def)
qed

lemma conn_reachable_inv: "conn_reachable s \<Longrightarrow> conn_inv s"
  by (induction rule: conn_reachable.induct) (auto intro: init_system_inv conn_step_inv)

section \<open>Running a trace\<close>

definition run_event :: "conn_event \<Rightarrow> conn_system \<Rightarrow> conn_system option" where
  "run_event e s =
     (if enabled e s then
        (case conn_handler e (sys_conn s) of
           Inl _ \<Rightarrow> None
         | Inr (ops, c) \<Rightarrow> Some (fold perform ops ((completed e s)\<lparr>sys_conn := c\<rparr>)))
      else None)"

fun run_events :: "conn_event list \<Rightarrow> conn_system \<Rightarrow> conn_system option" where
  "run_events [] s = Some s"
| "run_events (e # es) s = (case run_event e s of None \<Rightarrow> None | Some s' \<Rightarrow> run_events es s')"

lemma run_event_step: "run_event e s = Some s' \<Longrightarrow> conn_step e s s'"
  by (auto simp: run_event_def intro!: conn_step.intros split: if_splits sum.splits)

lemma run_events_reachable: "run_events es s = Some s' \<Longrightarrow> conn_reachable s \<Longrightarrow> conn_reachable s'"
  by (induction es arbitrary: s) (auto split: option.splits intro: conn_reachable.step run_event_step)

definition new_system :: conn_system where
  "new_system = init_system (mk_connection 0 ''c'')"

lemma new_system_reachable: "conn_reachable new_system"
  unfolding new_system_def by (rule conn_reachable.init)

text \<open>A connection that has sent one message and sends a second one, and has received some bytes.\<close>

definition sample_trace :: "conn_event list" where
  "sample_trace = [Establish [Send_data (Some ''hello'') 5], Posted (Send_data (Some ''world'') 3), Send_ok [],
     Recv_ok ''abc'' [Consume 1]]"

lemmas trace_simps =
  run_event_def new_system_def init_system_def mk_connection_def handle_establish_def handle_recv_def
  handle_send_def handle_close_def close_loop_def async_recv_def async_send_def send_data_def send_buff_def
  send_loop_def and_then_def request_def mk_buffer_def write_data_def ensure_writable_def
  store_at_write_def has_written_def has_readed_def has_readall_def readable_bytes_def writable_bytes_def
  buff_size_def read_at_def splice_at_def contents_def InitialSize_def make_space_def resize_buff_def

lemma sample_system:
  "\<exists>s. run_events sample_trace new_system = Some s \<and> conn_reachable s \<and> connected (sys_conn s) \<and>
     queued s = ''hellowor'' \<and> wire s = ''hello'' \<and> writing s = Some ''wor'' \<and> received s = ''abc'' \<and>
     contents (recv_buffer (sys_conn s)) = ''bc''"
proof -
  have "case run_events sample_trace new_system of None \<Rightarrow> False | Some s \<Rightarrow> connected (sys_conn s) \<and>
     queued s = ''hellowor'' \<and> wire s = ''hello'' \<and> writing s = Some ''wor'' \<and> received s = ''abc'' \<and>
     contents (recv_buffer (sys_conn s)) = ''bc''"
    by (simp add: sample_trace_def trace_simps)
  then show ?thesis
    using run_events_reachable [of sample_trace new_system] new_system_reachable by (auto split: option.splits)
qed

section \<open>Properties\<close>






text \<open>C30: Sending from the callback for a completed write. When the queue has become empty and the callback
  sends a message, the message is written twice: \<^verbatim>\<open>send_loop\<close> starts a write since the queue was empty, and
  \<^verbatim>\<open>handle_send\<close> starts another one of the same buffer since the queue is not empty any more.\<close>

theorem send_in_callback_writes_twice:
  assumes "connected c" "send_buffer c = [sent]" "buffer_inv b" "contents b \<noteq> []"
  shows "handle_send False [Send_buffer (Some b)] c =
    Inr ([Notify_sendcomplete, Async_write (contents b), Async_write (contents b)], c\<lparr>send_buffer := [b]\<rparr>)"
  using assms contents_empty_iff [OF assms(3)]
  by (simp add: handle_send_def send_buff_def send_loop_def async_send_def read_at_contents and_then_def request_def)

theorem send_in_callback_writes_twice_witness:
  "let b = \<lparr>buff = ''x'', read_index = 0, write_index = 1\<rparr>;
       c = (mk_connection 0 ''c'')\<lparr>connected := True, send_buffer := [b]\<rparr>
   in handle_send False [Send_buffer (Some b)] c =
        Inr ([Notify_sendcomplete, Async_write ''x'', Async_write ''x''], c)"
proof -
  let ?b = "\<lparr>buff = ''x'', read_index = 0, write_index = 1\<rparr>"
  let ?c = "(mk_connection 0 ''c'')\<lparr>connected := True, send_buffer := [?b]\<rparr>"
  have b: "buffer_inv ?b" "contents ?b = ''x''"
    by (simp_all add: buffer_inv_def contents_def readable_bytes_def)
  from send_in_callback_writes_twice [of ?c ?b ?b] b show ?thesis
    unfolding Let_def b(2) by simp
qed

end
