(* ===== verification/RoundRobin.thy ===== *)
theory RoundRobin
  imports Prelude
begin

text \<open>
  The interface of a component that hands out the members of a list in turn, one per call. Two
  components of the source implement it, \<^verbatim>\<open>ThreadGroup::get_worker\<close> and \<^verbatim>\<open>EventLoopPool::get_nextloop\<close>; they
  interpret the locale in their own theories.
\<close>

text \<open>The results of a series of calls.\<close>

fun picks :: "('s \<Rightarrow> 'a \<times> 's) \<Rightarrow> nat \<Rightarrow> 's \<Rightarrow> 'a list" where
  "picks pick 0 s = []"
| "picks pick (Suc n) s = (let (x, s') = pick s in x # picks pick n s')"

text \<open>How often a residue occurs among the first \<open>k\<close> numbers.\<close>

lemma residue_count:
  assumes "j < n"
  shows "length (filter (\<lambda>i. i mod n = j) [0..<k]) = k div n + (if j < k mod n then 1 else 0)"
proof (induction k)
  case 0
  then show ?case by simp
next
  case (Suc k)
  have "k mod n < n" using assms by simp
  with Suc assms show ?case by (auto simp: div_Suc mod_Suc split: if_splits)
qed

lemma count_list_map: "count_list (map f xs) y = length (filter (\<lambda>x. f x = y) xs)"
  by (induction xs) auto

text \<open>The index the members keep: a \<^verbatim>\<open>size_t\<close> that is incremented and reduced.\<close>

lemma next_turn:
  fixes n :: size_t
  assumes "unat n < l" "l < 2 ^ 63"
  shows "unat ((n + 1) mod of_nat l) = (unat n + 1) mod l"
  using assms by (simp add: unat_mod unat_of_nat unat_word_ariths)

locale round_robin =
  fixes members :: "'s \<Rightarrow> 'a list"
    and turn :: "'s \<Rightarrow> nat"
    and pick :: "'s \<Rightarrow> 'a \<times> 's"
    and ok :: "'s \<Rightarrow> bool"
  assumes turn_bound: "ok s \<Longrightarrow> turn s < length (members s)"
    and pick_member: "ok s \<Longrightarrow> fst (pick s) = members s ! turn s"
    and pick_next: "ok s \<Longrightarrow> turn (snd (pick s)) = (turn s + 1) mod length (members s)"
    and pick_frame: "ok s \<Longrightarrow> members (snd (pick s)) = members s"
    and pick_ok: "ok s \<Longrightarrow> ok (snd (pick s))"
begin

lemma picks_cyclic:
  "ok s \<Longrightarrow> picks pick n s = map (\<lambda>k. members s ! ((turn s + k) mod length (members s))) [0..<n]"
proof (induction n arbitrary: s)
  case (Suc n)
  let ?m = "members s" and ?s = "snd (pick s)"
  from Suc.IH [OF pick_ok [OF Suc.prems]] have "picks pick n ?s =
      map (\<lambda>k. ?m ! (((turn s + 1) mod length ?m + k) mod length ?m)) [0..<n]"
    by (simp add: pick_frame [OF Suc.prems] pick_next [OF Suc.prems])
  also have "\<dots> = map (\<lambda>k. ?m ! ((turn s + k) mod length ?m)) [1..<Suc n]"
    by (simp add: mod_add_left_eq map_Suc_upt [symmetric] del: upt_Suc)
  finally have "picks pick (Suc n) s =
      ?m ! turn s # map (\<lambda>k. ?m ! ((turn s + k) mod length ?m)) [1..<Suc n]"
    using pick_member [OF Suc.prems] by (simp add: split_beta del: upt_Suc)
  then show ?case using turn_bound [OF Suc.prems] by (simp add: upt_conv_Cons del: upt_Suc)
qed simp

text \<open>Every member gets its share: of \<open>n\<close> calls the number that return a given member is the same for
  all members, up to one.\<close>

lemma picks_fair:
  assumes "ok s" "turn s = 0" "distinct (members s)" "j < length (members s)"
  shows "count_list (picks pick n s) (members s ! j) =
    n div length (members s) + (if j < n mod length (members s) then 1 else 0)"
proof -
  let ?l = "length (members s)"
  have "0 < ?l" using assms(4) by linarith
  then have "(members s ! (k mod ?l) = members s ! j) = (k mod ?l = j)" for k
    using assms(3,4) by (subst nth_eq_iff_index_eq) auto
  then show ?thesis
    using residue_count [OF assms(4), of n] assms(1,2) by (simp add: picks_cyclic count_list_map)
qed

end

end
