(* ===== verification/TimingWheel.thy ===== *)
theory TimingWheel
  imports Prelude
begin

text \<open>
  \<^verbatim>\<open>code/TimingWheel.h\<close>, \<^verbatim>\<open>code/TimingWheel.cpp\<close> and \<^verbatim>\<open>code/TimerId.h\<close>: timers with a resolution of one second
  in a wheel of 60 buckets.

  Timers are allocated with \<^verbatim>\<open>new\<close> and shared through raw pointers, so the model has a heap from
  addresses to timers; a freed address is absent. What \<^verbatim>\<open>new\<close> returns is an argument: any address not
  in use, also one that was freed before. Reading a freed timer is the error \<open>UseAfterFree\<close>. A bucket
  is the list of its elements in the order of iteration.

  The callbacks run while a bucket is traversed and may do anything to the wheel of their loop, so the
  traversal takes a function \<open>run\<close> that runs a task on the application's state and the wheel. An
  element a callback inserts into the bucket being traversed is not visited in that traversal.
\<close>

section \<open>State\<close>

record 'k timer =
  tm_interval :: size_t
  tm_task :: "'k option"
  tm_repeat :: bool
  tm_rotation :: size_t
  tm_slot :: size_t
  tm_seq :: uint64

record timer_id =
  tid_timer :: "nat option"
  tid_seq :: uint64

record 'k timing_wheel =
  heap :: "nat \<Rightarrow> 'k timer option"
  wheel :: "size_t \<Rightarrow> nat list"
  cur_slot :: size_t
  num_created :: uint64
  tick_pending :: bool

datatype wheel_error = UseAfterFree | InvalidIterator

definition Count_Ticks :: size_t where "Count_Ticks = 60"

definition Interval_Tick :: size_t where "Interval_Tick = 1"

definition null_timer_id :: timer_id where
  "null_timer_id = \<lparr>tid_timer = None, tid_seq = 0\<rparr>"

definition mk_timing_wheel :: "uint64 \<Rightarrow> 'k timing_wheel" where
  "mk_timing_wheel created =
     \<lparr>heap = (\<lambda>_. None), wheel = (\<lambda>_. []), cur_slot = 0, num_created = created,
      tick_pending = False\<rparr>"

section \<open>Operations\<close>

text \<open>\<^verbatim>\<open>start\<close> requests the next tick, \<open>Interval_Tick\<close> seconds from now; \<^verbatim>\<open>stop\<close> cancels it, and its handler
  then gets an error code.\<close>

definition start :: "'k timing_wheel \<Rightarrow> 'k timing_wheel" where
  "start w = w\<lparr>tick_pending := True\<rparr>"

definition stop :: "'k timing_wheel \<Rightarrow> 'k timing_wheel" where
  "stop w = w\<lparr>tick_pending := False\<rparr>"

text \<open>\<^verbatim>\<open>generate_timerid\<close>, from the values of \<^verbatim>\<open>rand()\<close> and \<^verbatim>\<open>time(nullptr)\<close>; \<^verbatim>\<open>int\<close> has 32 bits and is extended
  with its sign. Nothing calls it.\<close>

definition generate_timerid :: "32 word \<Rightarrow> 32 word \<Rightarrow> 'k timing_wheel \<Rightarrow> uint64 \<times> 'k timing_wheel" where
  "generate_timerid r now w =
     (scast ((r mod 0xffffffff) OR now) OR num_created w, w\<lparr>num_created := num_created w + 1\<rparr>)"

text \<open>\<^verbatim>\<open>unordered_set::insert\<close> and \<^verbatim>\<open>erase\<close> of one element.\<close>

definition bucket_insert :: "nat \<Rightarrow> size_t \<Rightarrow> 'k timing_wheel \<Rightarrow> 'k timing_wheel" where
  "bucket_insert p s w =
     (if p \<in> set (wheel w s) then w else w\<lparr>wheel := (wheel w)(s := p # wheel w s)\<rparr>)"

definition bucket_erase :: "nat \<Rightarrow> size_t \<Rightarrow> 'k timing_wheel \<Rightarrow> 'k timing_wheel" where
  "bucket_erase p s w = w\<lparr>wheel := (wheel w)(s := remove1 p (wheel w s))\<rparr>"

definition delete_timer :: "nat \<Rightarrow> 'k timing_wheel \<Rightarrow> 'k timing_wheel" where
  "delete_timer p w = w\<lparr>heap := (heap w)(p := None)\<rparr>"

definition set_timer :: "nat \<Rightarrow> 'k timer \<Rightarrow> 'k timing_wheel \<Rightarrow> 'k timing_wheel" where
  "set_timer p t w = w\<lparr>heap := (heap w)(p := Some t)\<rparr>"

text \<open>The constructor \<^verbatim>\<open>Timer::Timer\<close> at address \<open>p\<close>; it leaves \<^verbatim>\<open>rotation_\<close> and \<^verbatim>\<open>slot_\<close> uninitialised,
  which \<^verbatim>\<open>add_timer_loop\<close> sets before they are read.\<close>

definition new_timer ::
    "nat \<Rightarrow> size_t \<Rightarrow> 'k option \<Rightarrow> bool \<Rightarrow> 'k timing_wheel \<Rightarrow> 'k timing_wheel" where
  "new_timer p interval task rep w =
     (set_timer p \<lparr>tm_interval = interval, tm_task = task, tm_repeat = rep, tm_rotation = 0, tm_slot = 0,
                   tm_seq = num_created w\<rparr> w)\<lparr>num_created := num_created w + 1\<rparr>"

definition add_timer_loop :: "nat \<Rightarrow> 'k timing_wheel \<Rightarrow> wheel_error + 'k timing_wheel" where
  "add_timer_loop p w =
     (case heap w p of
        None \<Rightarrow> Inl UseAfterFree
      | Some t \<Rightarrow>
          (let s = (cur_slot w + tm_interval t) mod Count_Ticks;
               t' = t\<lparr>tm_rotation := tm_interval t div Count_Ticks, tm_slot := s\<rparr>
           in Inr (bucket_insert p s (set_timer p t' w))))"

text \<open>\<^verbatim>\<open>add_timer\<close>, called on the thread of the loop, where \<^verbatim>\<open>dispatch\<close> runs the function at once; the
  argument \<open>p\<close> is the address \<^verbatim>\<open>new\<close> returns. From another thread \<^verbatim>\<open>add_timer_loop\<close> runs later.\<close>

definition add_timer ::
    "nat \<Rightarrow> size_t \<Rightarrow> 'k option \<Rightarrow> bool \<Rightarrow> 'k timing_wheel \<Rightarrow>
     wheel_error + (timer_id \<times> 'k timing_wheel)" where
  "add_timer p interval task rep w =
     (if interval = 0 \<or> task = None then Inr (null_timer_id, w)
      else
        bindE (add_timer_loop p (new_timer p interval task rep w)) (\<lambda>w1.
          Inr (\<lparr>tid_timer = Some p, tid_seq = num_created w\<rparr>, w1)))"

definition del_timer_loop :: "nat \<Rightarrow> 'k timing_wheel \<Rightarrow> wheel_error + 'k timing_wheel" where
  "del_timer_loop p w =
     (case heap w p of
        None \<Rightarrow> Inl UseAfterFree
      | Some t \<Rightarrow>
          Inr (if p \<in> set (wheel w (tm_slot t)) then delete_timer p (bucket_erase p (tm_slot t) w)
               else w))"

definition del_timer :: "timer_id \<Rightarrow> 'k timing_wheel \<Rightarrow> wheel_error + 'k timing_wheel" where
  "del_timer tid w = (case tid_timer tid of None \<Rightarrow> Inr w | Some p \<Rightarrow> del_timer_loop p w)"

text \<open>The traversal of the current bucket in \<^verbatim>\<open>handle_timeout\<close>. An element that an earlier callback has
  removed is not visited any more.\<close>

fun expire ::
    "('k \<Rightarrow> 's \<times> 'k timing_wheel \<Rightarrow> 's \<times> 'k timing_wheel) \<Rightarrow> nat list \<Rightarrow> 's \<times> 'k timing_wheel \<Rightarrow>
     wheel_error + ('s \<times> 'k timing_wheel)" where
  "expire run [] (s, w) = Inr (s, w)"
| "expire run (p # ps) (s, w) =
     (if p \<notin> set (wheel w (cur_slot w)) then expire run ps (s, w)
      else case heap w p of
        None \<Rightarrow> Inl UseAfterFree
      | Some t \<Rightarrow>
          if tm_rotation t > 0
          then expire run ps (s, set_timer p (t\<lparr>tm_rotation := tm_rotation t - 1\<rparr>) w)
          else
            (let (s1, w1) = (case tm_task t of None \<Rightarrow> (s, w) | Some k \<Rightarrow> run k (s, w))
             in case heap w1 p of
                  None \<Rightarrow> Inl UseAfterFree
                | Some t1 \<Rightarrow>
                    bindE (if tm_repeat t1 then add_timer_loop p w1 else Inr (delete_timer p w1)) (\<lambda>w2.
                      if p \<notin> set (wheel w2 (cur_slot w2)) then Inl InvalidIterator
                      else expire run ps (s1, bucket_erase p (cur_slot w2) w2))))"

text \<open>\<^verbatim>\<open>handle_timeout\<close>: a timer that was cancelled (\<open>ec\<close>) does nothing; otherwise the next tick is
  requested and the wheel turns by one bucket.\<close>

definition handle_timeout ::
    "('k \<Rightarrow> 's \<times> 'k timing_wheel \<Rightarrow> 's \<times> 'k timing_wheel) \<Rightarrow> bool \<Rightarrow> 's \<times> 'k timing_wheel \<Rightarrow>
     wheel_error + ('s \<times> 'k timing_wheel)" where
  "handle_timeout run ec sw =
     (if ec then Inr sw
      else
        (let (s, w) = sw; w1 = (start w)\<lparr>cur_slot := (cur_slot w + 1) mod Count_Ticks\<rparr>
         in expire run (wheel w1 (cur_slot w1)) (s, w1)))"

text \<open>The destructor frees the timers still in the wheel.\<close>

definition destroy_wheel :: "'k timing_wheel \<Rightarrow> 'k timing_wheel" where
  "destroy_wheel w =
     w\<lparr>heap := (\<lambda>p. if \<exists>s \<in> set (map of_nat [0..<60]). p \<in> set (wheel w s) then None else heap w p),
       wheel := (\<lambda>_. [])\<rparr>"

section \<open>Invariant\<close>

definition wheel_inv :: "'k timing_wheel \<Rightarrow> bool" where
  "wheel_inv w \<longleftrightarrow>
     cur_slot w < 60 \<and> (\<forall>s. distinct (wheel w s)) \<and>
     (\<forall>s p. p \<in> set (wheel w s) \<longrightarrow> s < 60 \<and> (\<exists>t. heap w p = Some t \<and> tm_slot t = s))"

lemma wheel_simps [simp]:
  "cur_slot (bucket_insert p s w) = cur_slot w" "heap (bucket_insert p s w) = heap w"
  "cur_slot (bucket_erase p s w) = cur_slot w" "heap (bucket_erase p s w) = heap w"
  "cur_slot (delete_timer p w) = cur_slot w" "wheel (delete_timer p w) = wheel w"
  "heap (delete_timer p w) = (heap w)(p := None)"
  "cur_slot (set_timer p t w) = cur_slot w" "wheel (set_timer p t w) = wheel w"
  "heap (set_timer p t w) = (heap w)(p := Some t)"
  by (simp_all add: bucket_insert_def bucket_erase_def delete_timer_def set_timer_def)

lemma set_bucket_insert [simp]:
  "set (wheel (bucket_insert p s w) s') = (if s' = s then insert p (set (wheel w s)) else set (wheel w s'))"
  by (auto simp: bucket_insert_def)

lemma set_bucket_erase:
  "distinct (wheel w s) \<Longrightarrow> set (wheel (bucket_erase p s w) s') =
     (if s' = s then set (wheel w s) - {p} else set (wheel w s'))"
  by (simp add: bucket_erase_def)

lemma bucket_erase_other [simp]:
  "q \<noteq> p \<Longrightarrow> q \<in> set (wheel (bucket_erase p s w) s') \<longleftrightarrow> q \<in> set (wheel w s')"
  by (simp add: bucket_erase_def)

lemma distinct_bucket [simp]:
  "distinct (wheel w s') \<Longrightarrow> distinct (wheel (bucket_insert p s w) s')"
  "distinct (wheel w s') \<Longrightarrow> distinct (wheel (bucket_erase p s w) s')"
  by (auto simp: bucket_insert_def bucket_erase_def)

lemma mod_60_lt: "(s :: size_t) mod Count_Ticks < 60"
proof -
  have "unat (s mod 60) = unat s mod 60" by (simp add: unat_mod)
  then have "unat (s mod 60) < 60" by simp
  then show ?thesis by (simp add: Count_Ticks_def word_less_nat_alt)
qed

lemma wheel_inv_init: "wheel_inv (mk_timing_wheel n)"
  by (simp add: wheel_inv_def mk_timing_wheel_def)

text \<open>A timer that is in no bucket.\<close>

definition unlinked :: "nat \<Rightarrow> 'k timing_wheel \<Rightarrow> bool" where
  "unlinked p w \<longleftrightarrow> (\<forall>s. p \<notin> set (wheel w s))"

lemma wheel_invD:
  assumes "wheel_inv w"
  shows "cur_slot w < 60" "distinct (wheel w s)"
    "p \<in> set (wheel w s) \<Longrightarrow> s < 60" "p \<in> set (wheel w s) \<Longrightarrow> \<exists>t. heap w p = Some t \<and> tm_slot t = s"
  using assms by (simp_all add: wheel_inv_def)

lemma wheel_invI:
  assumes "cur_slot w < 60" "\<And>s. distinct (wheel w s)" "\<And>s p. p \<in> set (wheel w s) \<Longrightarrow> s < 60"
    "\<And>s p. p \<in> set (wheel w s) \<Longrightarrow> \<exists>t. heap w p = Some t \<and> tm_slot t = s"
  shows "wheel_inv w"
  using assms unfolding wheel_inv_def by blast

lemma wheel_inv_slot: "wheel_inv w \<Longrightarrow> heap w p = Some t \<Longrightarrow> p \<in> set (wheel w s) \<Longrightarrow> s = tm_slot t"
  by (auto dest: wheel_invD(4))

lemma fresh_unlinked: "wheel_inv w \<Longrightarrow> heap w p = None \<Longrightarrow> unlinked p w"
  by (fastforce simp: wheel_inv_def unlinked_def)

lemma wheel_inv_linked:
  "wheel_inv w \<Longrightarrow> p \<in> set (wheel w s) \<Longrightarrow> p \<in> set (wheel w s') \<Longrightarrow> s' = s"
  by (metis wheel_invD(4) option.inject)

text \<open>Linking an unlinked timer.\<close>

lemma add_timer_loop_inv:
  assumes "wheel_inv w" "unlinked p w" "add_timer_loop p w = Inr w'"
  shows "wheel_inv w'"
proof -
  from assms(3) obtain t where t: "heap w p = Some t"
    by (auto simp: add_timer_loop_def split: option.splits)
  let ?s = "(cur_slot w + tm_interval t) mod Count_Ticks"
  let ?t = "t\<lparr>tm_rotation := tm_interval t div Count_Ticks, tm_slot := ?s\<rparr>"
  from t assms(3) have w': "w' = bucket_insert p ?s (set_timer p ?t w)"
    by (simp add: add_timer_loop_def Let_def)
  show ?thesis unfolding w' wheel_inv_def using assms(1,2) mod_60_lt
    by (auto simp: wheel_inv_def unlinked_def)
qed

lemma add_timer_inv:
  assumes "wheel_inv w" "heap w p = None" "add_timer p interval task rep w = Inr (tid, w')"
  shows "wheel_inv w'"
proof (cases "interval = 0 \<or> task = None")
  case True
  with assms show ?thesis by (auto simp: add_timer_def)
next
  case False
  let ?w = "new_timer p interval task rep w"
  have "wheel_inv ?w" "unlinked p ?w"
    using assms(1) fresh_unlinked [OF assms(1,2)]
    by (auto simp: new_timer_def wheel_inv_def unlinked_def)
  with False assms(3) show ?thesis by (auto simp: add_timer_def intro: add_timer_loop_inv)
qed

lemma del_timer_inv:
  assumes "wheel_inv w" "del_timer tid w = Inr w'"
  shows "wheel_inv w'"
proof (cases "tid_timer tid")
  case None
  with assms show ?thesis by (simp add: del_timer_def)
next
  case (Some p)
  then obtain t where t: "heap w p = Some t"
    and w': "w' = (if p \<in> set (wheel w (tm_slot t)) then delete_timer p (bucket_erase p (tm_slot t) w) else w)"
    using assms(2) by (auto simp: del_timer_def del_timer_loop_def split: option.splits)
  have d: "distinct (wheel w (tm_slot t))" using assms(1) by (simp add: wheel_inv_def)
  show ?thesis
  proof (cases "p \<in> set (wheel w (tm_slot t))")
    case True
    let ?w = "delete_timer p (bucket_erase p (tm_slot t) w)"
    have only: "p \<in> set (wheel w s) \<longleftrightarrow> s = tm_slot t" for s
      using True wheel_inv_linked [OF assms(1) True] by blast
    have q: "q \<noteq> p \<and> q \<in> set (wheel w s)" if "q \<in> set (wheel ?w s)" for q s
      using that d by (cases "q = p") (simp_all add: set_bucket_erase only split: if_splits)
    have "wheel_inv ?w"
    proof (rule wheel_invI)
      show "cur_slot ?w < 60" "\<And>s. distinct (wheel ?w s)" using wheel_invD [OF assms(1)] by simp_all
      fix s p' assume "p' \<in> set (wheel ?w s)"
      from q [OF this] wheel_invD(3,4) [OF assms(1)]
      show "s < 60" "\<exists>t. heap ?w p' = Some t \<and> tm_slot t = s" by (blast, simp)
    qed
    with True w' show ?thesis by simp
  next
    case False
    with w' assms(1) show ?thesis by simp
  qed
qed

section \<open>One tick\<close>

text \<open>Callbacks that leave the wheel alone: the application logs the tasks that ran.\<close>

definition log_task :: "'k \<Rightarrow> 'k list \<times> 'k timing_wheel \<Rightarrow> 'k list \<times> 'k timing_wheel" where
  "log_task k sw = (fst sw @ [k], snd sw)"

text \<open>What the traversal does to one element.\<close>

definition expire_one :: "nat \<Rightarrow> 'k timing_wheel \<Rightarrow> 'k timing_wheel" where
  "expire_one p w =
     (case heap w p of
        None \<Rightarrow> w
      | Some t \<Rightarrow>
          if tm_rotation t > 0 then set_timer p (t\<lparr>tm_rotation := tm_rotation t - 1\<rparr>) w
          else if tm_repeat t then
            (let s = (cur_slot w + tm_interval t) mod Count_Ticks
             in bucket_erase p (cur_slot w) (bucket_insert p s
                  (set_timer p (t\<lparr>tm_rotation := tm_interval t div Count_Ticks, tm_slot := s\<rparr>) w)))
          else bucket_erase p (cur_slot w) (delete_timer p w))"

definition fired :: "'k timing_wheel \<Rightarrow> nat \<Rightarrow> 'k list" where
  "fired w p =
     (case heap w p of
        None \<Rightarrow> []
      | Some t \<Rightarrow> if tm_rotation t > 0 then [] else (case tm_task t of None \<Rightarrow> [] | Some k \<Rightarrow> [k]))"

lemma expire_step:
  assumes "p \<in> set (wheel w (cur_slot w))" "heap w p = Some t"
  shows "expire log_task (p # ps) (s, w) = expire log_task ps (s @ fired w p, expire_one p w)"
  using assms
  by (simp add: expire_one_def fired_def log_task_def add_timer_loop_def Let_def split: option.split)

text \<open>Two wheels that agree on one timer.\<close>

definition same_timer :: "nat \<Rightarrow> 'k timing_wheel \<Rightarrow> 'k timing_wheel \<Rightarrow> bool" where
  "same_timer q w w' \<longleftrightarrow>
     heap w' q = heap w q \<and> (\<forall>s. q \<in> set (wheel w' s) \<longleftrightarrow> q \<in> set (wheel w s))"

lemma same_timer_refl [simp]: "same_timer q w w"
  by (simp add: same_timer_def)

lemma same_timer_trans: "same_timer q w1 w2 \<Longrightarrow> same_timer q w2 w3 \<Longrightarrow> same_timer q w1 w3"
  by (simp add: same_timer_def)

lemma cur_slot_expire_one [simp]: "cur_slot (expire_one p w) = cur_slot w"
  by (simp add: expire_one_def Let_def split: option.split)

lemma expire_one_frame: "wheel_inv w \<Longrightarrow> q \<noteq> p \<Longrightarrow> same_timer q w (expire_one p w)"
  by (simp add: expire_one_def same_timer_def Let_def split: option.split)

lemma expire_one_cong:
  assumes "wheel_inv w" "wheel_inv w'" "same_timer q w w'" "cur_slot w' = cur_slot w"
  shows "same_timer q (expire_one q w) (expire_one q w')"
  using assms wheel_invD(2) [OF assms(1)] wheel_invD(2) [OF assms(2)]
  by (auto simp: expire_one_def same_timer_def set_bucket_erase Let_def split: option.split)

text \<open>Where an element of the current bucket goes.\<close>

lemma expire_one_self:
  assumes "wheel_inv w" "p \<in> set (wheel w (cur_slot w))" "heap w p = Some t"
  shows "p \<in> set (wheel (expire_one p w) s) \<longleftrightarrow>
    (if tm_rotation t > 0 then s = cur_slot w
     else tm_repeat t \<and> s \<noteq> cur_slot w \<and> s = (cur_slot w + tm_interval t) mod Count_Ticks)"
proof -
  have only: "p \<in> set (wheel w s) \<longleftrightarrow> s = cur_slot w" for s
    using assms(2) wheel_inv_linked [OF assms(1,2)] by blast
  have "distinct (wheel w s)" for s by (rule wheel_invD(2) [OF assms(1)])
  then show ?thesis using assms(3) by (auto simp: expire_one_def set_bucket_erase only Let_def)
qed

lemma expire_one_inv:
  assumes "wheel_inv w" "p \<in> set (wheel w (cur_slot w))"
  shows "wheel_inv (expire_one p w)"
proof (rule wheel_invI)
  from wheel_invD(4) [OF assms] obtain t where t: "heap w p = Some t" "tm_slot t = cur_slot w" by blast
  show "cur_slot (expire_one p w) < 60" using wheel_invD(1) [OF assms(1)] by simp
  show "distinct (wheel (expire_one p w) s)" for s
    using wheel_invD(2) [OF assms(1)] t by (simp add: expire_one_def Let_def)
  fix s q assume q: "q \<in> set (wheel (expire_one p w) s)"
  show "s < 60"
  proof (cases "q = p")
    case True
    with q expire_one_self [OF assms t(1)] wheel_invD(1) [OF assms(1)] mod_60_lt show ?thesis
      by (auto split: if_splits)
  next
    case False
    with q expire_one_frame [OF assms(1) False] wheel_invD(3) [OF assms(1)] show ?thesis
      by (simp add: same_timer_def)
  qed
  show "\<exists>t. heap (expire_one p w) q = Some t \<and> tm_slot t = s"
  proof (cases "q = p")
    case True
    with q expire_one_self [OF assms t(1)] t show ?thesis
      by (auto simp: expire_one_def Let_def split: if_splits)
  next
    case False
    with q expire_one_frame [OF assms(1) False] wheel_invD(4) [OF assms(1)] show ?thesis
      by (simp add: same_timer_def)
  qed
qed

lemma expire_spec:
  assumes "wheel_inv w" "distinct ps" "set ps \<subseteq> set (wheel w (cur_slot w))"
  shows "\<exists>w'. expire log_task ps (s, w) = Inr (s @ concat (map (fired w) ps), w') \<and> wheel_inv w' \<and>
    cur_slot w' = cur_slot w \<and>
    (\<forall>q. same_timer q (if q \<in> set ps then expire_one q w else w) w')"
  using assms
proof (induction ps arbitrary: w s)
  case (Cons p ps)
  let ?w = "expire_one p w"
  from Cons.prems(3) wheel_invD(4) [OF Cons.prems(1)] obtain t where t: "heap w p = Some t" by fastforce
  have p: "p \<in> set (wheel w (cur_slot w))" using Cons.prems(3) by simp
  have inv: "wheel_inv ?w" by (rule expire_one_inv [OF Cons.prems(1) p])
  have frame: "same_timer q w ?w" if "q \<noteq> p" for q by (rule expire_one_frame [OF Cons.prems(1) that])
  have "set ps \<subseteq> set (wheel ?w (cur_slot ?w))"
    using Cons.prems(2,3) frame unfolding same_timer_def by fastforce
  from Cons.IH [OF inv _ this, of "s @ fired w p"] Cons.prems(2) obtain w' where
    run: "expire log_task ps (s @ fired w p, ?w) = Inr ((s @ fired w p) @ concat (map (fired ?w) ps), w')"
    and w': "wheel_inv w'" "cur_slot w' = cur_slot w"
      "\<And>q. same_timer q (if q \<in> set ps then expire_one q ?w else ?w) w'" by auto
  have "fired ?w q = fired w q" if "q \<in> set ps" for q
  proof -
    from that Cons.prems(2) have "q \<noteq> p" by auto
    from frame [OF this] show ?thesis by (simp add: fired_def same_timer_def)
  qed
  then have fires: "map (fired ?w) ps = map (fired w) ps" by simp
  have "expire log_task (p # ps) (s, w) = Inr (s @ concat (map (fired w) (p # ps)), w')"
    using run unfolding fires expire_step [OF p t] by simp
  moreover have "same_timer q (if q \<in> set (p # ps) then expire_one q w else w) w'" for q
  proof (cases "q = p")
    case True
    with w'(3) [of q] Cons.prems(2) show ?thesis by simp
  next
    case False
    with w'(3) [of q] frame [OF False] expire_one_cong [OF Cons.prems(1) inv frame [OF False]] show ?thesis
      by (auto intro: same_timer_trans)
  qed
  ultimately show ?case using w'(1,2) by blast
qed simp

section \<open>Time to expiry\<close>

text \<open>The number of ticks until the wheel reaches slot \<open>s\<close>: between 1 and 60.\<close>

definition dist :: "'k timing_wheel \<Rightarrow> size_t \<Rightarrow> nat" where
  "dist w s = (unat s + 59 - unat (cur_slot w)) mod 60 + 1"

definition linked :: "nat \<Rightarrow> 'k timing_wheel \<Rightarrow> bool" where
  "linked p w \<longleftrightarrow> (\<exists>s. p \<in> set (wheel w s))"

text \<open>The number of ticks after which a timer in the wheel expires.\<close>

definition remaining :: "'k timing_wheel \<Rightarrow> 'k timer \<Rightarrow> nat" where
  "remaining w t = dist w (tm_slot t) + 60 * unat (tm_rotation t)"

definition due :: "nat \<Rightarrow> nat" where
  "due n = (if n mod 60 = 0 then n + 60 else n)"

lemma unat_Count_Ticks: "unat Count_Ticks = 60"
  by (simp add: Count_Ticks_def)

lemma lt_60: "(s :: size_t) < 60 \<longleftrightarrow> unat s < 60"
  by (simp add: word_less_nat_alt)

lemma unat_next_slot:
  assumes "cur_slot w < 60"
  shows "unat ((cur_slot w + 1) mod Count_Ticks) = (unat (cur_slot w) + 1) mod 60"
  using assms by (simp add: lt_60 unat_mod unat_Count_Ticks unat_add_no_wrap)

lemma dist_nat: "c < 60 \<Longrightarrow> s < 60 \<Longrightarrow> (s + 59 - c) mod 60 + 1 = (if c < s then s - c else s + 60 - c)" for s c :: nat
  by (auto simp: mod_if)

lemma dist_eq:
  assumes "cur_slot w < 60" "s < 60"
  shows "dist w s = (if unat (cur_slot w) < unat s then unat s - unat (cur_slot w)
    else unat s + 60 - unat (cur_slot w))"
  using assms dist_nat [of "unat (cur_slot w)" "unat s"] by (simp add: dist_def lt_60)

lemma dist_step:
  assumes "cur_slot w < 60" "s < 60" "cur_slot w' = (cur_slot w + 1) mod Count_Ticks"
  shows "dist w s = 1 \<longleftrightarrow> s = cur_slot w'" "dist w' s = (if dist w s = 1 then 60 else dist w s - 1)"
proof -
  have c: "unat (cur_slot w') = (if unat (cur_slot w) = 59 then 0 else unat (cur_slot w) + 1)"
    using assms(1,3) unat_next_slot [OF assms(1)] by (auto simp: lt_60 mod_if)
  have lt: "cur_slot w' < 60" using assms(3) mod_60_lt by simp
  show "dist w s = 1 \<longleftrightarrow> s = cur_slot w'"
    using assms(1,2) c by (auto simp: dist_eq [OF assms(1,2)] lt_60 word_unat_eq_iff)
  show "dist w' s = (if dist w s = 1 then 60 else dist w s - 1)"
    using assms(1,2) c by (auto simp: dist_eq [OF assms(1,2)] dist_eq [OF lt assms(2)] lt_60)
qed

lemma dist_range: "1 \<le> dist w s" "dist w s \<le> 60"
  by (simp_all add: dist_def)

lemma add_mod_60:
  assumes "c < (60 :: nat)"
  shows "(c + n) mod 60 = (if c + n mod 60 < 60 then c + n mod 60 else c + n mod 60 - 60)"
proof -
  have e: "(c + n) mod 60 = (c + n mod 60) mod 60" by (simp add: mod_add_right_eq)
  have "n mod 60 < 60" by simp
  with assms have "(c + n mod 60 - 60) mod 60 = c + n mod 60 - 60" by (intro mod_less) linarith
  with e show ?thesis using le_mod_geq [of 60 "c + n mod 60"] by simp
qed

text \<open>A timer that is put into the wheel expires when it is due.\<close>

lemma remaining_due:
  assumes "cur_slot w < 60" "unat (tm_interval t) + 60 \<le> 2 ^ 64" "tm_interval t \<noteq> 0"
    "tm_slot t = (cur_slot w + tm_interval t) mod Count_Ticks" "tm_rotation t = tm_interval t div Count_Ticks"
  shows "remaining w t = due (unat (tm_interval t))"
proof -
  let ?n = "unat (tm_interval t)" and ?c = "unat (cur_slot w)"
  have c: "?c < 60" using assms(1) by (simp add: lt_60)
  then have slot: "unat (tm_slot t) = (?c + ?n) mod 60"
    using assms(2,4) by (simp add: unat_mod unat_Count_Ticks unat_add_no_wrap)
  have rot: "unat (tm_rotation t) = ?n div 60" using assms(5) by (simp add: unat_div unat_Count_Ticks)
  have "tm_slot t < 60" using assms(4) mod_60_lt by simp
  moreover have "(?c + ?n) mod 60 = (if ?c + ?n mod 60 < 60 then ?c + ?n mod 60 else ?c + ?n mod 60 - 60)"
    using add_mod_60 [OF c, of ?n] .
  ultimately have "dist w (tm_slot t) = (if ?n mod 60 = 0 then 60 else ?n mod 60)"
    using c by (auto simp: dist_eq [OF assms(1)] slot)
  then show ?thesis using rot by (auto simp: remaining_def due_def)
qed

text \<open>What one tick does to a timer in the wheel: unless this is the tick it expires in, it is one tick
  closer and otherwise unchanged; in that tick its task runs, a timer that does not repeat is freed,
  and one that repeats is put back unless its interval is a multiple of a minute.\<close>

definition tick :: "'k timing_wheel \<Rightarrow> wheel_error + ('k list \<times> 'k timing_wheel)" where
  "tick w = handle_timeout log_task False ([], w)"

definition expiring :: "'k timing_wheel \<Rightarrow> nat list" where
  "expiring w =
     filter (\<lambda>p. \<exists>t. heap w p = Some t \<and> tm_rotation t = 0) (wheel w ((cur_slot w + 1) mod Count_Ticks))"

lemma tick_run:
  assumes "wheel_inv w"
  shows "\<exists>w'. tick w = Inr (concat (map (fired w) (expiring w)), w') \<and> wheel_inv w' \<and>
    cur_slot w' = (cur_slot w + 1) mod Count_Ticks \<and>
    (\<forall>q. same_timer q (if q \<in> set (wheel w (cur_slot w'))
       then expire_one q (w\<lparr>cur_slot := cur_slot w'\<rparr>) else w) w')"
proof -
  let ?c = "(cur_slot w + 1) mod Count_Ticks"
  let ?w = "(start w)\<lparr>cur_slot := ?c\<rparr>"
  have inv: "wheel_inv ?w" using assms mod_60_lt by (simp add: wheel_inv_def start_def)
  have fw: "fired ?w = fired w" by (rule ext) (simp add: fired_def start_def)
  have "concat (map (fired w) ps) = concat (map (fired w) (filter (\<lambda>p. \<exists>t. heap w p = Some t \<and> tm_rotation t = 0) ps))"
    for ps by (induction ps) (auto simp: fired_def word_gt_0 split: option.splits)
  then have f: "concat (map (fired ?w) (wheel w ?c)) = concat (map (fired w) (expiring w))"
    unfolding fw expiring_def .
  from expire_spec [OF inv, of "wheel w ?c" "[]"] wheel_invD(2) [OF assms] obtain w' where
    run: "expire log_task (wheel w ?c) ([], ?w) = Inr ([] @ concat (map (fired ?w) (wheel w ?c)), w')"
    and inv': "wheel_inv w'" and cur: "cur_slot w' = ?c"
    and same: "\<And>q. same_timer q (if q \<in> set (wheel w ?c) then expire_one q ?w else ?w) w'"
    by (auto simp: start_def)
  have one: "same_timer q (expire_one q (w\<lparr>cur_slot := ?c\<rparr>)) (expire_one q ?w)" for q
    by (rule expire_one_cong [OF _ inv])
      (use assms mod_60_lt in \<open>simp_all add: start_def same_timer_def wheel_inv_def\<close>)
  have keep: "same_timer q w ?w" for q by (simp add: same_timer_def start_def)
  have "same_timer q (if q \<in> set (wheel w ?c) then expire_one q (w\<lparr>cur_slot := ?c\<rparr>) else w) w'" for q
    using same [of q] same_timer_trans [OF one [of q]] same_timer_trans [OF keep [of q]]
    by (cases "q \<in> set (wheel w ?c)") simp_all
  moreover have "tick w = Inr (concat (map (fired w) (expiring w)), w')"
    using run f by (simp add: tick_def handle_timeout_def start_def)
  ultimately show ?thesis using inv' unfolding cur [symmetric] by blast
qed

lemma linked_slot:
  assumes "wheel_inv w" "linked p w" "heap w p = Some t"
  shows "p \<in> set (wheel w s) \<longleftrightarrow> s = tm_slot t" "tm_slot t < 60"
  using assms wheel_inv_slot [OF assms(1,3)] wheel_invD(3) [OF assms(1)]
  by (auto simp: linked_def)

lemma expiring_iff:
  assumes "wheel_inv w" "linked p w" "heap w p = Some t"
  shows "p \<in> set (expiring w) \<longleftrightarrow> remaining w t = 1"
proof -
  let ?w = "w\<lparr>cur_slot := (cur_slot w + 1) mod Count_Ticks\<rparr>"
  have "p \<in> set (expiring w) \<longleftrightarrow> tm_slot t = cur_slot ?w \<and> tm_rotation t = 0"
    using linked_slot(1) [OF assms, of "cur_slot ?w"] assms(3) by (auto simp: expiring_def)
  moreover have "dist w (tm_slot t) = 1 \<longleftrightarrow> tm_slot t = cur_slot ?w"
    by (rule dist_step(1) [OF wheel_invD(1) [OF assms(1)] linked_slot(2) [OF assms]]) simp
  moreover have "remaining w t = 1 \<longleftrightarrow> dist w (tm_slot t) = 1 \<and> unat (tm_rotation t) = 0"
    using dist_range(1) [of w "tm_slot t"] unfolding remaining_def by linarith
  moreover have "unat (tm_rotation t) = 0 \<longleftrightarrow> tm_rotation t = 0" by (rule unat_eq_0)
  ultimately show ?thesis by simp
qed

lemma tick_facts:
  assumes "wheel_inv w" "tick w = Inr (ks, w')"
  shows "ks = concat (map (fired w) (expiring w))" "wheel_inv w'"
    "cur_slot w' = (cur_slot w + 1) mod Count_Ticks"
    "same_timer q (if q \<in> set (wheel w (cur_slot w'))
       then expire_one q (w\<lparr>cur_slot := cur_slot w'\<rparr>) else w) w'"
proof -
  from tick_run [OF assms(1)] obtain w'' where t: "tick w = Inr (concat (map (fired w) (expiring w)), w'')"
    and w'': "wheel_inv w''" "cur_slot w'' = (cur_slot w + 1) mod Count_Ticks"
      "\<forall>q. same_timer q (if q \<in> set (wheel w (cur_slot w''))
         then expire_one q (w\<lparr>cur_slot := cur_slot w''\<rparr>) else w) w''" by blast
  from t assms(2) have "w'' = w'" and ks: "ks = concat (map (fired w) (expiring w))" by simp_all
  with w'' show "wheel_inv w'" "cur_slot w' = (cur_slot w + 1) mod Count_Ticks"
    "same_timer q (if q \<in> set (wheel w (cur_slot w'))
       then expire_one q (w\<lparr>cur_slot := cur_slot w'\<rparr>) else w) w'" by blast+
  show "ks = concat (map (fired w) (expiring w))" by (rule ks)
qed

lemma tick_waiting:
  assumes "wheel_inv w" "linked p w" "heap w p = Some t" "tick w = Inr (ks, w')" "remaining w t \<noteq> 1"
  shows "linked p w' \<and> (\<exists>r. heap w' p = Some (t\<lparr>tm_rotation := r\<rparr>) \<and>
      remaining w' (t\<lparr>tm_rotation := r\<rparr>) = remaining w t - 1)"
proof -
  note c = tick_facts(3) [OF assms(1,4)] and same = tick_facts(4) [OF assms(1,4), of p]
  note slot = linked_slot [OF assms(1-3)]
  note d = dist_step [OF wheel_invD(1) [OF assms(1)] slot(2) c]
  show ?thesis
  proof (cases "tm_slot t = cur_slot w'")
    case True
    with d(1) assms(5) have r: "tm_rotation t \<noteq> 0" by (auto simp: remaining_def)
    then have "unat (tm_rotation t - 1) = unat (tm_rotation t) - 1" "0 < unat (tm_rotation t)"
      by (simp_all add: unat_minus_one unat_gt_0)
    with True d r same slot(1) assms(3) show ?thesis
      by (auto simp: same_timer_def expire_one_def word_gt_0 linked_def remaining_def)
  next
    case False
    with d same slot(1) assms(3) dist_range(1) [of w "tm_slot t"] show ?thesis
      by (intro conjI exI [of _ "tm_rotation t"]) (auto simp: same_timer_def linked_def remaining_def)
  qed
qed

lemma tick_expired:
  assumes "wheel_inv w" "linked p w" "heap w p = Some t" "tick w = Inr (ks, w')" "remaining w t = 1"
  shows "\<not> tm_repeat t \<Longrightarrow> heap w' p = None \<and> \<not> linked p w'"
    and "tm_repeat t \<Longrightarrow> unat (tm_interval t) mod 60 = 0 \<Longrightarrow> unat (tm_interval t) + 60 \<le> 2 ^ 64 \<Longrightarrow>
      heap w' p \<noteq> None \<and> \<not> linked p w'"
    and "tm_repeat t \<Longrightarrow> unat (tm_interval t) mod 60 \<noteq> 0 \<Longrightarrow> unat (tm_interval t) + 60 \<le> 2 ^ 64 \<Longrightarrow>
      linked p w' \<and> (\<exists>t'. heap w' p = Some t' \<and> tm_interval t' = tm_interval t \<and>
        tm_task t' = tm_task t \<and> tm_repeat t' \<and> remaining w' t' = unat (tm_interval t))"
proof -
  note c = tick_facts(3) [OF assms(1,4)] and inv = tick_facts(2) [OF assms(1,4)]
  let ?w = "w\<lparr>cur_slot := cur_slot w'\<rparr>"
  from expiring_iff [OF assms(1-3)] assms(5) have e: "p \<in> set (wheel w (cur_slot w'))" "tm_rotation t = 0"
    using assms(3) by (auto simp: expiring_def c)
  with tick_facts(4) [OF assms(1,4), of p] have same: "same_timer p (expire_one p ?w) w'" by simp
  have w: "wheel_inv ?w" "p \<in> set (wheel ?w (cur_slot ?w))" "heap ?w p = Some t"
    using assms(1,3) e wheel_invD(1) [OF inv] by (simp_all add: wheel_inv_def)
  have l: "p \<in> set (wheel w' s) \<longleftrightarrow> tm_repeat t \<and> s \<noteq> cur_slot w' \<and>
      s = (cur_slot w' + tm_interval t) mod Count_Ticks" for s
    using expire_one_self [OF w, of s] same e(2) by (simp add: same_timer_def)
  have h: "heap w' p = heap (expire_one p ?w) p" using same by (simp add: same_timer_def)
  show "\<not> tm_repeat t \<Longrightarrow> heap w' p = None \<and> \<not> linked p w'"
    using l h e(2) assms(3) by (simp add: linked_def expire_one_def)
  let ?s = "(cur_slot w' + tm_interval t) mod Count_Ticks"
  have lt: "unat (cur_slot w') < 60" using wheel_invD(1) [OF inv] by (simp add: lt_60)
  have s: "?s = cur_slot w' \<longleftrightarrow> unat (tm_interval t) mod 60 = 0" if "unat (tm_interval t) + 60 \<le> 2 ^ 64"
  proof -
    from lt that have "unat ?s = (unat (cur_slot w') + unat (tm_interval t)) mod 60"
      by (simp add: unat_mod unat_Count_Ticks unat_add_no_wrap)
    then show ?thesis using add_mod_60 [OF lt, of "unat (tm_interval t)"] lt
      by (auto simp: word_unat_eq_iff split: if_splits)
  qed
  show "heap w' p \<noteq> None \<and> \<not> linked p w'"
    if "tm_repeat t" "unat (tm_interval t) mod 60 = 0" "unat (tm_interval t) + 60 \<le> 2 ^ 64"
    using l h s that e(2) assms(3) by (simp add: linked_def expire_one_def Let_def)
  show "linked p w' \<and> (\<exists>t'. heap w' p = Some t' \<and> tm_interval t' = tm_interval t \<and>
      tm_task t' = tm_task t \<and> tm_repeat t' \<and> remaining w' t' = unat (tm_interval t))"
    if "tm_repeat t" "unat (tm_interval t) mod 60 \<noteq> 0" "unat (tm_interval t) + 60 \<le> 2 ^ 64"
  proof -
    let ?t = "t\<lparr>tm_rotation := tm_interval t div Count_Ticks, tm_slot := ?s\<rparr>"
    have "heap w' p = Some ?t" using h that e(2) assms(3) by (simp add: expire_one_def Let_def)
    moreover have "tm_interval t \<noteq> 0" using that(2) by auto
    then have "remaining w' ?t = due (unat (tm_interval t))"
      using remaining_due [OF wheel_invD(1) [OF inv], of ?t] that(3) by simp
    moreover have "linked p w'" using l s [OF that(3)] that(1,2) by (auto simp: linked_def)
    ultimately show ?thesis using that by (simp add: due_def)
  qed
qed

section \<open>Sequences of ticks\<close>

text \<open>Several ticks in a row: the tasks that ran in each, and the wheel.\<close>

fun ticks :: "nat \<Rightarrow> 'k timing_wheel \<Rightarrow> wheel_error + ('k list list \<times> 'k timing_wheel)" where
  "ticks 0 w = Inr ([], w)"
| "ticks (Suc j) w =
     bindE (tick w) (\<lambda>(ks, w1). bindE (ticks j w1) (\<lambda>(kss, w2). Inr (ks # kss, w2)))"

lemma ticks_total: "wheel_inv w \<Longrightarrow> \<exists>kss w'. ticks j w = Inr (kss, w') \<and> length kss = j \<and> wheel_inv w'"
proof (induction j arbitrary: w)
  case (Suc j)
  from tick_run [OF Suc.prems] obtain ks w1 where "tick w = Inr (ks, w1)" "wheel_inv w1" by blast
  with Suc.IH [of w1] show ?case by fastforce
qed simp

lemma ticks_waiting:
  assumes "wheel_inv w" "linked p w" "heap w p = Some t" "j < remaining w t"
  shows "\<exists>kss w' r. ticks j w = Inr (kss, w') \<and> wheel_inv w' \<and> linked p w' \<and>
    heap w' p = Some (t\<lparr>tm_rotation := r\<rparr>) \<and> remaining w' (t\<lparr>tm_rotation := r\<rparr>) = remaining w t - j"
  using assms
proof (induction j arbitrary: w t)
  case 0
  then show ?case by (intro exI [of _ "[]"] exI [of _ w] exI [of _ "tm_rotation t"]) simp
next
  case (Suc j)
  from tick_run [OF Suc.prems(1)] obtain ks w1 where t1: "tick w = Inr (ks, w1)" "wheel_inv w1" by blast
  from tick_waiting [OF Suc.prems(1-3) t1(1)] Suc.prems(4) obtain r where
    r: "linked p w1" "heap w1 p = Some (t\<lparr>tm_rotation := r\<rparr>)" "remaining w1 (t\<lparr>tm_rotation := r\<rparr>) = remaining w t - 1"
    by auto
  from r(3) Suc.prems(4) have "j < remaining w1 (t\<lparr>tm_rotation := r\<rparr>)" by simp
  from Suc.IH [OF t1(2) r(1,2) this] r(3) obtain kss w2 r2 where
    "ticks j w1 = Inr (kss, w2)" "wheel_inv w2" "linked p w2" "heap w2 p = Some (t\<lparr>tm_rotation := r2\<rparr>)"
    "remaining w2 (t\<lparr>tm_rotation := r2\<rparr>) = remaining w t - Suc j" by auto
  with t1 show ?case by auto
qed

section \<open>Properties\<close>

lemma add_timer_linked:
  assumes "wheel_inv w" "heap w p = None" "add_timer p n (Some k) rep w = Inr (tid, w1)" "n \<noteq> 0"
    "unat n + 60 \<le> 2 ^ 64"
  shows "wheel_inv w1" "\<exists>t. linked p w1 \<and> heap w1 p = Some t \<and> tm_interval t = n \<and> tm_task t = Some k \<and>
    tm_repeat t = rep \<and> remaining w1 t = due (unat n)"
proof -
  show inv: "wheel_inv w1" by (rule add_timer_inv [OF assms(1-3)])
  let ?s = "(cur_slot w + n) mod Count_Ticks"
  let ?t = "\<lparr>tm_interval = n, tm_task = Some k, tm_repeat = rep, tm_rotation = n div Count_Ticks, tm_slot = ?s,
      tm_seq = num_created w\<rparr>"
  from assms(3,4) have w1: "heap w1 p = Some ?t" "p \<in> set (wheel w1 ?s)" "cur_slot w1 = cur_slot w"
    by (auto simp: add_timer_def add_timer_loop_def new_timer_def Let_def)
  moreover from remaining_due [OF wheel_invD(1) [OF inv], of ?t] w1(3) assms(4,5)
  have "remaining w1 ?t = due (unat n)" by simp
  ultimately show "\<exists>t. linked p w1 \<and> heap w1 p = Some t \<and> tm_interval t = n \<and> tm_task t = Some k \<and>
    tm_repeat t = rep \<and> remaining w1 t = due (unat n)"
    by (intro exI [of _ ?t]) (auto simp: linked_def)
qed


definition empty_wheel :: "nat timing_wheel" where "empty_wheel = mk_timing_wheel 0"

lemma empty_wheel_ok: "wheel_inv empty_wheel" "heap empty_wheel p = None"
  by (simp_all add: empty_wheel_def wheel_inv_init) (simp add: mk_timing_wheel_def)


text \<open>A repeating timer while its interval is no multiple of a minute.\<close>

lemma ticks_periodic:
  assumes "wheel_inv w" "linked p w" "heap w p = Some t" "tm_repeat t" "unat (tm_interval t) = n"
    "n mod 60 \<noteq> 0" "n + 60 \<le> 2 ^ 64" "remaining w t + a = n" "a < n"
  shows "\<exists>kss w' t'. ticks j w = Inr (kss, w') \<and> wheel_inv w' \<and> linked p w' \<and> heap w' p = Some t' \<and>
    remaining w' t' + (j + a) mod n = n"
  using assms
proof (induction j arbitrary: w t a)
  case (Suc j)
  from tick_run [OF Suc.prems(1)] obtain ks w1 where t1: "tick w = Inr (ks, w1)" "wheel_inv w1" by blast
  show ?case
  proof (cases "remaining w t = 1")
    case True
    from tick_expired(3) [OF Suc.prems(1-3) t1(1) True Suc.prems(4)] Suc.prems(5-7) obtain t' where
      t': "linked p w1" "heap w1 p = Some t'" "tm_repeat t'" "unat (tm_interval t') = n" "remaining w1 t' + 0 = n"
      by auto
    have "Suc j + a = j + n" using True Suc.prems(8) by simp
    then have "(Suc j + a) mod n = (j + 0) mod n" by (simp only: mod_add_self2 add_0_right)
    with Suc.IH [OF t1(2) t'(1-4) Suc.prems(6,7) t'(5)] Suc.prems(9) t1(1) show ?thesis by force
  next
    case False
    from tick_waiting [OF Suc.prems(1-3) t1(1) False] obtain r where
      r: "linked p w1" "heap w1 p = Some (t\<lparr>tm_rotation := r\<rparr>)"
        "remaining w1 (t\<lparr>tm_rotation := r\<rparr>) = remaining w t - 1" by blast
    have "1 \<le> remaining w t" using dist_range(1) [of w "tm_slot t"] by (simp add: remaining_def)
    with False Suc.prems(8) r(3) have a: "remaining w1 (t\<lparr>tm_rotation := r\<rparr>) + (a + 1) = n" "a + 1 < n" by auto
    have "(Suc j + a) mod n = (j + (a + 1)) mod n" by simp
    with Suc.IH [OF t1(2) r(1,2) _ _ Suc.prems(6,7) a] Suc.prems(4,5) t1(1) show ?thesis by force
  qed
qed simp

lemma ticks_unlinked:
  assumes "wheel_inv w" "\<not> linked p w"
  shows "\<exists>kss w'. ticks j w = Inr (kss, w') \<and> \<not> linked p w' \<and> heap w' p = heap w p"
  using assms
proof (induction j arbitrary: w)
  case (Suc j)
  from tick_run [OF Suc.prems(1)] obtain ks w1 where t1: "tick w = Inr (ks, w1)" "wheel_inv w1" by blast
  have "same_timer p w w1"
    using tick_facts(4) [OF Suc.prems(1) t1(1), of p] Suc.prems(2) by (auto simp: linked_def)
  then have "\<not> linked p w1" "heap w1 p = heap w p" using Suc.prems(2) by (auto simp: linked_def same_timer_def)
  with Suc.IH [OF t1(2)] t1(1) show ?case by fastforce
qed simp

lemma ticks_add: "ticks (i + j) w = bindE (ticks i w) (\<lambda>(kss, w1). bindE (ticks j w1) (\<lambda>(kss', w2). Inr (kss @ kss', w2)))"
  by (induction i arbitrary: w) (auto simp: bindE_def split: sum.splits)

text \<open>A repeating timer whose interval \<open>n\<close> is no multiple of 60 expires in the ticks \<open>n\<close>, \<open>2 * n\<close>,
  \<open>3 * n\<close> and so on for ever, and in no other tick.\<close>

theorem repeating_timer_period:
  assumes "wheel_inv w" "heap w p = None" "add_timer p n (Some k) True w = Inr (tid, w1)"
    and "unat n mod 60 \<noteq> 0" "unat n + 60 \<le> 2 ^ 64"
  shows "\<exists>kss w2. ticks j w1 = Inr (kss, w2) \<and> (p \<in> set (expiring w2) \<longleftrightarrow> unat n dvd (j + 1))"
proof -
  from assms(4) have n: "n \<noteq> 0" by auto
  from add_timer_linked [OF assms(1-3) n assms(5)] assms(4) obtain t where t: "wheel_inv w1" "linked p w1"
    "heap w1 p = Some t" "tm_repeat t" "unat (tm_interval t) = unat n" "remaining w1 t + 0 = unat n"
    by (auto simp: due_def)
  have pos: "0 < unat n" using n by (simp add: unat_gt_0)
  from ticks_periodic [OF t(1-5) assms(4,5) t(6) pos, of j] obtain kss w2 t' where
    w2: "ticks j w1 = Inr (kss, w2)" "wheel_inv w2" "linked p w2" "heap w2 p = Some t'"
      "remaining w2 t' + j mod unat n = unat n" by auto
  have "remaining w2 t' = 1 \<longleftrightarrow> j mod unat n = unat n - 1" using w2(5) pos by linarith
  also have "\<dots> \<longleftrightarrow> unat n dvd (j + 1)" using pos by (metis Suc_eq_plus1 Suc_diff_1 dvd_eq_mod_eq_0 mod_Suc nat.distinct(1) diff_Suc_1)
  finally show ?thesis using w2(1) expiring_iff [OF w2(2-4)] by blast
qed

theorem repeating_timer_period_witness:
  "\<exists>tid w1 kss w2. add_timer 1 3 (Some 7) True empty_wheel = Inr (tid, w1) \<and>
     ticks 8 w1 = Inr (kss, w2) \<and> 1 \<in> set (expiring w2)"
proof -
  obtain tid w1 where a: "add_timer 1 3 (Some 7) True empty_wheel = Inr (tid, w1)"
    by (simp add: add_timer_def add_timer_loop_def new_timer_def Let_def)
  with repeating_timer_period [of empty_wheel 1 3 7 tid w1 8] empty_wheel_ok show ?thesis by auto
qed

text \<open>A repeating timer whose interval is a whole number of minutes fires once, after one turn of the
  wheel too many, and is then lost: it is put back into the bucket being traversed, from which the
  traversal erases it, so it is in no bucket any more, never expires again, and is never freed.\<close>

theorem minute_timer_lost:
  assumes "wheel_inv w" "heap w p = None" "add_timer p n (Some k) True w = Inr (tid, w1)" "n \<noteq> 0"
    and "unat n mod 60 = 0" "unat n + 60 \<le> 2 ^ 64" "unat n + 60 \<le> j"
  shows "\<exists>kss w2. ticks j w1 = Inr (kss, w2) \<and> heap w2 p \<noteq> None \<and> (\<forall>s. p \<notin> set (wheel w2 s))"
proof -
  from add_timer_linked [OF assms(1-4,6)] assms(5) obtain t where t: "wheel_inv w1" "linked p w1"
    "heap w1 p = Some t" "tm_repeat t" "tm_interval t = n" "remaining w1 t = unat n + 60"
    by (auto simp: due_def)
  from ticks_waiting [OF t(1-3), of "unat n + 59"] t(6) obtain kss w2 r where
    w2: "ticks (unat n + 59) w1 = Inr (kss, w2)" "wheel_inv w2" "linked p w2" "heap w2 p = Some (t\<lparr>tm_rotation := r\<rparr>)"
      "remaining w2 (t\<lparr>tm_rotation := r\<rparr>) = 1" by auto
  from tick_run [OF w2(2)] obtain ks w3 where w3: "tick w2 = Inr (ks, w3)" "wheel_inv w3" by blast
  from tick_expired(2) [OF w2(2-4) w3(1) w2(5)] t(4,5) assms(5,6) have lost: "heap w3 p \<noteq> None" "\<not> linked p w3"
    by auto
  define i where "i = j - (unat n + 60)"
  have j: "j = (unat n + 59) + Suc i" using assms(7) by (simp add: i_def)
  from ticks_unlinked [OF w3(2) lost(2), of i] obtain kss' w4 where
    "ticks i w3 = Inr (kss', w4)" "\<not> linked p w4" "heap w4 p = heap w3 p" by blast
  with w2(1) w3(1) lost(1) show ?thesis unfolding j ticks_add by (auto simp: linked_def)
qed

theorem minute_timer_lost_witness:
  "\<exists>tid w1 kss w2. add_timer 1 60 (Some 7) True empty_wheel = Inr (tid, w1) \<and>
     ticks 120 w1 = Inr (kss, w2) \<and> heap w2 1 \<noteq> None \<and> (\<forall>s. 1 \<notin> set (wheel w2 s))"
proof -
  obtain tid w1 where a: "add_timer 1 60 (Some 7) True empty_wheel = Inr (tid, w1)"
    by (simp add: add_timer_def add_timer_loop_def new_timer_def Let_def)
  with minute_timer_lost [of empty_wheel 1 60 7 tid w1 120] empty_wheel_ok show ?thesis by auto
qed

text \<open>A timer that does not repeat runs its task in the tick it is due in, and is freed then.\<close>

lemma one_shot_expires:
  assumes "wheel_inv w" "heap w p = None" "add_timer p n (Some k) False w = Inr (tid, w1)" "n \<noteq> 0"
    and "unat n + 60 \<le> 2 ^ 64"
  shows "\<exists>kss w2 ks w3. ticks (due (unat n) - 1) w1 = Inr (kss, w2) \<and> tick w2 = Inr (ks, w3) \<and>
    ticks (due (unat n)) w1 = Inr (kss @ [ks], w3) \<and> k \<in> set ks \<and> heap w3 p = None \<and> wheel_inv w3 \<and>
    tid_timer tid = Some p"
proof -
  from add_timer_linked [OF assms] obtain t where t: "wheel_inv w1" "linked p w1"
    "heap w1 p = Some t" "tm_task t = Some k" "\<not> tm_repeat t" "remaining w1 t = due (unat n)" by blast
  have tid: "tid_timer tid = Some p" using assms(3,4) by (auto simp: add_timer_def)
  have "0 < unat n" using assms(4) by (simp add: unat_gt_0)
  then obtain m where m: "due (unat n) = Suc m" by (cases "due (unat n)") (auto simp: due_def split: if_splits)
  from ticks_waiting [OF t(1-3), of m] t(6) m obtain kss w2 r where
    w2: "ticks m w1 = Inr (kss, w2)" "wheel_inv w2" "linked p w2" "heap w2 p = Some (t\<lparr>tm_rotation := r\<rparr>)"
      "remaining w2 (t\<lparr>tm_rotation := r\<rparr>) = 1" by auto
  from tick_run [OF w2(2)] obtain w3 where
    w3: "tick w2 = Inr (concat (map (fired w2) (expiring w2)), w3)" "wheel_inv w3" by blast
  from tick_expired(1) [OF w2(2-4) w3(1) w2(5)] t(5) have "heap w3 p = None" by simp
  moreover have e: "p \<in> set (expiring w2)" using expiring_iff [OF w2(2-4)] w2(5) by simp
  then have "k \<in> set (fired w2 p)" using w2(4) t(4) by (auto simp: expiring_def fired_def)
  with e have "k \<in> set (concat (map (fired w2) (expiring w2)))" by auto
  moreover have "ticks (m + 1) w1 = Inr (kss @ [concat (map (fired w2) (expiring w2))], w3)"
    using w2(1) w3(1) unfolding ticks_add by simp
  ultimately show ?thesis using m w2(1) w3 tid by auto
qed

text \<open>Cancelling a timer that has fired reads freed memory: the identifier of a timer that does not
  repeat stays valid only until the tick it expires in.\<close>

theorem stale_timer_id:
  assumes "wheel_inv w" "heap w p = None" "add_timer p n (Some k) False w = Inr (tid, w1)" "n \<noteq> 0"
    and "unat n + 60 \<le> 2 ^ 64"
  shows "\<exists>kss w2. ticks (due (unat n)) w1 = Inr (kss, w2) \<and> del_timer tid w2 = Inl UseAfterFree"
proof -
  from one_shot_expires [OF assms] obtain kss w2 where
    "ticks (due (unat n)) w1 = Inr (kss, w2)" "heap w2 p = None" "tid_timer tid = Some p" by blast
  then show ?thesis by (simp add: del_timer_def del_timer_loop_def)
qed

theorem stale_timer_id_witness:
  "\<exists>tid w1 kss w2. add_timer 1 5 (Some 7) False empty_wheel = Inr (tid, w1) \<and>
     ticks 5 w1 = Inr (kss, w2) \<and> del_timer tid w2 = Inl UseAfterFree"
proof -
  obtain tid w1 where a: "add_timer 1 5 (Some 7) False empty_wheel = Inr (tid, w1)"
    by (simp add: add_timer_def add_timer_loop_def new_timer_def Let_def)
  with stale_timer_id [of empty_wheel 1 5 7 tid w1] empty_wheel_ok show ?thesis
    by (auto simp: due_def)
qed

text \<open>Cancelling a timer that is still in the wheel takes it out and frees it, so that it never
  fires.\<close>

theorem del_timer_cancels:
  assumes "wheel_inv w" "heap w p = None" "add_timer p n (Some k) rep w = Inr (tid, w1)" "n \<noteq> 0"
    and "unat n + 60 \<le> 2 ^ 64" "j < due (unat n)"
  shows "\<exists>kss w2 w3. ticks j w1 = Inr (kss, w2) \<and> del_timer tid w2 = Inr w3 \<and> wheel_inv w3 \<and> heap w3 p = None \<and>
    (\<forall>i kss' w4. ticks i w3 = Inr (kss', w4) \<longrightarrow> p \<notin> set (expiring w4))"
proof -
  from add_timer_linked [OF assms(1-5)] obtain t where t: "wheel_inv w1" "linked p w1"
    "heap w1 p = Some t" "remaining w1 t = due (unat n)" by blast
  have tid: "tid_timer tid = Some p" using assms(3,4) by (auto simp: add_timer_def)
  from ticks_waiting [OF t(1-3), of j] t(4) assms(6) obtain kss w2 r where
    w2: "ticks j w1 = Inr (kss, w2)" "wheel_inv w2" "linked p w2" "heap w2 p = Some (t\<lparr>tm_rotation := r\<rparr>)"
    by auto
  let ?w = "delete_timer p (bucket_erase p (tm_slot t) w2)"
  have slot: "p \<in> set (wheel w2 s) \<longleftrightarrow> s = tm_slot t" for s
    using linked_slot(1) [OF w2(2-4)] by simp
  have del: "del_timer tid w2 = Inr ?w" using tid w2(4) slot by (simp add: del_timer_def del_timer_loop_def)
  have inv: "wheel_inv ?w" by (rule del_timer_inv [OF w2(2) del])
  have "\<not> linked p ?w" using slot wheel_invD(2) [OF w2(2)] by (simp add: linked_def set_bucket_erase)
  then have "p \<notin> set (expiring w4)" if "ticks i ?w = Inr (kss', w4)" for i kss' w4
    using ticks_unlinked [OF inv, of p i] that by (auto simp: linked_def expiring_def)
  with w2(1) del inv show ?thesis by auto
qed

theorem del_timer_cancels_witness:
  "\<exists>tid w1 kss w2 w3. add_timer 1 5 (Some 7) True empty_wheel = Inr (tid, w1) \<and>
     ticks 3 w1 = Inr (kss, w2) \<and> del_timer tid w2 = Inr w3 \<and> heap w3 1 = None"
proof -
  obtain tid w1 where a: "add_timer 1 5 (Some 7) True empty_wheel = Inr (tid, w1)"
    by (simp add: add_timer_def add_timer_loop_def new_timer_def Let_def)
  with del_timer_cancels [of empty_wheel 1 5 7 True tid w1 3] empty_wheel_ok show ?thesis
    by (auto simp: due_def)
qed

end
