(* ===== verification/EventLoop.thy ===== *)
theory EventLoop
  imports RoundRobin TimingWheel
begin

text \<open>
  \<^verbatim>\<open>code/EventLoop.h\<close>, \<^verbatim>\<open>code/EventLoop.cpp\<close>, \<^verbatim>\<open>code/EventLoopPool.h\<close> and \<^verbatim>\<open>code/EventLoopPool.cpp\<close>: the event
  loop and the pool that hands loops out in turn.

  The loop is a thin layer over \<^verbatim>\<open>boost::asio::io_context\<close> and \<^verbatim>\<open>boost::asio::signal_set\<close>. What it asks of them
  is the output of its members, a list of \<open>loop_op\<close>; what they do in return are the events of the step
  relation below. \<^verbatim>\<open>dispatch\<close> runs the function at once when the caller is on the thread of the loop,
  and queues it otherwise; the argument \<open>here\<close> says which. The members bound to functions are a
  datatype, \<open>loop_task\<close>. A user's callback acts on the loop by the calls it makes, which are an
  argument of the member that invokes it. Signal numbers are \<^verbatim>\<open>int\<close>.
\<close>

section \<open>The event loop\<close>

datatype 'k loop_task =
    Quit_loop
  | Set_signal_handle_loop "'k option"
  | Add_signal_loop int
  | Remove_signal_loop int
  | Function 'k

datatype 'k loop_op =
    Io_run
  | Io_stop
  | Io_post "'k loop_task"
  | Sig_add int
  | Sig_remove int
  | Sig_cancel
  | Sig_async_wait
  | Call_function 'k
  | Call_signal 'k int

record 'k event_loop =
  loop_stopped :: bool
  loop_thread :: "nat option"
  loop_wheel :: "'k timing_wheel"
  cb_signal :: "'k option"

definition mk_event_loop :: "'k event_loop" where
  "mk_event_loop =
     \<lparr>loop_stopped = False, loop_thread = None, loop_wheel = mk_timing_wheel 0, cb_signal = None\<rparr>"

definition loop_run :: "nat \<Rightarrow> 'k event_loop \<Rightarrow> 'k loop_op list \<times> 'k event_loop" where
  "loop_run thread l = ([Io_run], l\<lparr>loop_thread := Some thread, loop_wheel := start (loop_wheel l)\<rparr>)"

definition quit_loop :: "'k event_loop \<Rightarrow> 'k loop_op list \<times> 'k event_loop" where
  "quit_loop l = (if \<not> loop_stopped l then ([Io_stop], l\<lparr>loop_stopped := True\<rparr>) else ([], l))"

definition set_signal_handle_loop :: "'k option \<Rightarrow> 'k event_loop \<Rightarrow> 'k loop_op list \<times> 'k event_loop" where
  "set_signal_handle_loop cb l = ([Sig_cancel, Sig_async_wait], l\<lparr>cb_signal := cb\<rparr>)"

definition add_signal_loop :: "int \<Rightarrow> 'k event_loop \<Rightarrow> 'k loop_op list \<times> 'k event_loop" where
  "add_signal_loop n l = ([Sig_add n], l)"

definition remove_signal_loop :: "int \<Rightarrow> 'k event_loop \<Rightarrow> 'k loop_op list \<times> 'k event_loop" where
  "remove_signal_loop n l = ([Sig_remove n], l)"

fun run_task :: "'k loop_task \<Rightarrow> 'k event_loop \<Rightarrow> 'k loop_op list \<times> 'k event_loop" where
  "run_task Quit_loop l = quit_loop l"
| "run_task (Set_signal_handle_loop cb) l = set_signal_handle_loop cb l"
| "run_task (Add_signal_loop n) l = add_signal_loop n l"
| "run_task (Remove_signal_loop n) l = remove_signal_loop n l"
| "run_task (Function f) l = ([Call_function f], l)"

definition post :: "'k loop_task \<Rightarrow> 'k event_loop \<Rightarrow> 'k loop_op list \<times> 'k event_loop" where
  "post t l = ([Io_post t], l)"

definition dispatch :: "bool \<Rightarrow> 'k loop_task \<Rightarrow> 'k event_loop \<Rightarrow> 'k loop_op list \<times> 'k event_loop" where
  "dispatch here t l = (if here then run_task t l else ([Io_post t], l))"

definition quit :: "bool \<Rightarrow> 'k event_loop \<Rightarrow> 'k loop_op list \<times> 'k event_loop" where
  "quit here = dispatch here Quit_loop"

definition set_signal_handle :: "bool \<Rightarrow> 'k option \<Rightarrow> 'k event_loop \<Rightarrow> 'k loop_op list \<times> 'k event_loop" where
  "set_signal_handle here cb = dispatch here (Set_signal_handle_loop cb)"

definition add_signal :: "bool \<Rightarrow> int \<Rightarrow> 'k event_loop \<Rightarrow> 'k loop_op list \<times> 'k event_loop" where
  "add_signal here n = dispatch here (Add_signal_loop n)"

definition remove_signal :: "bool \<Rightarrow> int \<Rightarrow> 'k event_loop \<Rightarrow> 'k loop_op list \<times> 'k event_loop" where
  "remove_signal here n = dispatch here (Remove_signal_loop n)"

definition loop_add_timer ::
    "nat \<Rightarrow> size_t \<Rightarrow> 'k option \<Rightarrow> bool \<Rightarrow> 'k event_loop \<Rightarrow> wheel_error + timer_id \<times> 'k event_loop" where
  "loop_add_timer p interval task rep l =
     bindE (add_timer p interval task rep (loop_wheel l)) (\<lambda>(tid, w). Inr (tid, l\<lparr>loop_wheel := w\<rparr>))"

definition loop_del_timer :: "timer_id \<Rightarrow> 'k event_loop \<Rightarrow> wheel_error + 'k event_loop" where
  "loop_del_timer tid l = bindE (del_timer tid (loop_wheel l)) (\<lambda>w. Inr (l\<lparr>loop_wheel := w\<rparr>))"

fun run_tasks :: "'k loop_task list \<Rightarrow> 'k event_loop \<Rightarrow> 'k loop_op list \<times> 'k event_loop" where
  "run_tasks [] l = ([], l)"
| "run_tasks (t # ts) l =
     (let (ops, l1) = run_task t l; (ops', l2) = run_tasks ts l1 in (ops @ ops', l2))"

text \<open>\<^verbatim>\<open>handle_signal\<close>; \<open>calls\<close> are the calls the signal callback makes.\<close>

definition handle_signal ::
    "bool \<Rightarrow> int \<Rightarrow> 'k loop_task list \<Rightarrow> 'k event_loop \<Rightarrow> 'k loop_op list \<times> 'k event_loop" where
  "handle_signal ec signal_number calls l =
     (if ec then ([], l)
      else
        (case cb_signal l of
           None \<Rightarrow> ([Sig_async_wait], l)
         | Some cb \<Rightarrow>
             (let (ops, l') = run_tasks calls l
              in (Sig_async_wait # Call_signal cb signal_number # ops, l'))))"

section \<open>The loop and its signal set\<close>

text \<open>The waits for a signal: \<open>live\<close> are under way, \<open>aborted\<close> were cancelled and will complete with an
  error. \<open>posted\<close> are the functions queued at the context, \<open>sigs\<close> the signals of the set. For the proofs,
  \<open>armed\<close> records that a signal handler was ever set, and \<open>calls_made\<close> counts calls of signal callbacks.\<close>

record 'k loop_system =
  sys_loop :: "'k event_loop"
  live :: nat
  aborted :: nat
  sigs :: "int set"
  posted :: "'k loop_task list"
  armed :: bool
  calls_made :: nat

definition init_loop :: "'k loop_system" where
  "init_loop = \<lparr>sys_loop = mk_event_loop, live = 0, aborted = 0, sigs = {}, posted = [], armed = False, calls_made = 0\<rparr>"

fun loop_perform :: "'k loop_op \<Rightarrow> 'k loop_system \<Rightarrow> 'k loop_system" where
  "loop_perform (Sig_add n) s = s\<lparr>sigs := insert n (sigs s)\<rparr>"
| "loop_perform (Sig_remove n) s = s\<lparr>sigs := sigs s - {n}\<rparr>"
| "loop_perform Sig_cancel s = s\<lparr>aborted := aborted s + live s, live := 0\<rparr>"
| "loop_perform Sig_async_wait s = s\<lparr>live := live s + 1, armed := True\<rparr>"
| "loop_perform (Io_post t) s = s\<lparr>posted := posted s @ [t]\<rparr>"
| "loop_perform (Call_signal k n) s = s\<lparr>calls_made := calls_made s + 1\<rparr>"
| "loop_perform _ s = s"

text \<open>The events: a call of the user's from some thread, the context runs a queued function, a wait
  completes with a signal of the set, and a cancelled wait completes with an error.\<close>

datatype 'k loop_event =
    User_call bool "'k loop_task"
  | Run_posted nat
  | Signal int "'k loop_task list"
  | Wait_aborted int

fun loop_handler :: "'k loop_event \<Rightarrow> 'k loop_system \<Rightarrow> 'k loop_op list \<times> 'k event_loop" where
  "loop_handler (User_call here t) s = dispatch here t (sys_loop s)"
| "loop_handler (Run_posted i) s = run_task (posted s ! i) (sys_loop s)"
| "loop_handler (Signal n ts) s = handle_signal False n ts (sys_loop s)"
| "loop_handler (Wait_aborted n) s = handle_signal True n [] (sys_loop s)"

fun loop_enabled :: "'k loop_event \<Rightarrow> 'k loop_system \<Rightarrow> bool" where
  "loop_enabled (User_call here t) s \<longleftrightarrow> True"
| "loop_enabled (Run_posted i) s \<longleftrightarrow> i < length (posted s) \<and> \<not> loop_stopped (sys_loop s)"
| "loop_enabled (Signal n ts) s \<longleftrightarrow> n \<in> sigs s \<and> live s > 0 \<and> \<not> loop_stopped (sys_loop s)"
| "loop_enabled (Wait_aborted n) s \<longleftrightarrow> aborted s > 0 \<and> \<not> loop_stopped (sys_loop s)"

fun loop_taken :: "'k loop_event \<Rightarrow> 'k loop_system \<Rightarrow> 'k loop_system" where
  "loop_taken (User_call here t) s = s"
| "loop_taken (Run_posted i) s = s\<lparr>posted := take i (posted s) @ drop (Suc i) (posted s)\<rparr>"
| "loop_taken (Signal n ts) s = s\<lparr>live := live s - 1\<rparr>"
| "loop_taken (Wait_aborted n) s = s\<lparr>aborted := aborted s - 1\<rparr>"

definition loop_after :: "'k loop_event \<Rightarrow> 'k loop_system \<Rightarrow> 'k loop_system" where
  "loop_after e s =
     (let (ops, l) = loop_handler e s in fold loop_perform ops ((loop_taken e s)\<lparr>sys_loop := l\<rparr>))"

inductive loop_step :: "'k loop_event \<Rightarrow> 'k loop_system \<Rightarrow> 'k loop_system \<Rightarrow> bool" where
  "loop_enabled e s \<Longrightarrow> loop_step e s (loop_after e s)"

inductive loop_reachable :: "'k loop_system \<Rightarrow> bool" where
  init: "loop_reachable init_loop"
| step: "loop_reachable s \<Longrightarrow> loop_step e s s' \<Longrightarrow> loop_reachable s'"

inductive_simps loop_step_simps: "loop_step e s s'"

text \<open>One wait is under way from the moment a handler is set: no signal is missed, and none is handled
  twice.\<close>

definition loop_inv :: "'k loop_system \<Rightarrow> bool" where
  "loop_inv s \<longleftrightarrow> live s = (if armed s then 1 else 0) \<and> (cb_signal (sys_loop s) \<noteq> None \<longrightarrow> armed s)"

lemma run_task_inv:
  assumes "loop_inv (s\<lparr>sys_loop := l\<rparr>)" "run_task t l = (ops, l')"
  shows "loop_inv ((fold loop_perform ops s)\<lparr>sys_loop := l'\<rparr>) \<and>
    calls_made (fold loop_perform ops s) = calls_made s"
  using assms
  by (cases t) (auto simp: loop_inv_def quit_loop_def set_signal_handle_loop_def add_signal_loop_def
      remove_signal_loop_def split: if_splits)

lemma loop_perform_loop: "loop_perform oper (s\<lparr>sys_loop := l\<rparr>) = (loop_perform oper s)\<lparr>sys_loop := l\<rparr>"
  by (cases oper) simp_all

lemma fold_loop_perform: "fold loop_perform ops (s\<lparr>sys_loop := l\<rparr>) = (fold loop_perform ops s)\<lparr>sys_loop := l\<rparr>"
  by (induction ops arbitrary: s) (simp_all add: loop_perform_loop)

lemma run_tasks_inv:
  assumes "loop_inv (s\<lparr>sys_loop := l\<rparr>)" "run_tasks ts l = (ops, l')"
  shows "loop_inv ((fold loop_perform ops s)\<lparr>sys_loop := l'\<rparr>) \<and>
    calls_made (fold loop_perform ops s) = calls_made s"
  using assms
proof (induction ts arbitrary: s l ops)
  case (Cons t ts)
  from Cons.prems(2) obtain ops1 l1 ops2 where
    "run_task t l = (ops1, l1)" "run_tasks ts l1 = (ops2, l')" "ops = ops1 @ ops2"
    by (auto split: prod.splits)
  with run_task_inv [OF Cons.prems(1)] Cons.IH [where s = "fold loop_perform ops1 s" and l = l1 and ops = ops2] show ?case by simp
qed simp

lemma signal_after:
  assumes "loop_inv s" "loop_enabled (Signal n ts) s"
  shows "loop_inv (loop_after (Signal n ts) s) \<and>
    calls_made (loop_after (Signal n ts) s) = calls_made s + (if cb_signal (sys_loop s) = None then 0 else 1)"
proof (cases "cb_signal (sys_loop s)")
  case None
  with assms show ?thesis
    by (auto simp: loop_after_def handle_signal_def loop_inv_def split: if_splits)
next
  case (Some k)
  obtain ops l' where run: "run_tasks ts (sys_loop s) = (ops, l')" by (cases "run_tasks ts (sys_loop s)")
  let ?s = "loop_perform (Call_signal k n) (loop_perform Sig_async_wait (loop_taken (Signal n ts) s))"
  have "loop_inv (?s\<lparr>sys_loop := sys_loop s\<rparr>)" using assms Some by (auto simp: loop_inv_def split: if_splits)
  from run_tasks_inv [OF this run] run Some show ?thesis
    by (simp add: loop_after_def handle_signal_def fold_loop_perform loop_perform_loop)
qed

lemma armed_after: "armed s \<Longrightarrow> armed (loop_after e s)"
proof -
  have perform: "armed s \<Longrightarrow> armed (loop_perform oper s)" for oper :: "'a loop_op" and s by (cases oper) simp_all
  have "armed s \<Longrightarrow> armed (fold loop_perform ops s)" for ops :: "'a loop_op list" and s
    by (induction ops arbitrary: s) (simp_all add: perform)
  moreover assume "armed s"
  ultimately show ?thesis by (cases e) (simp_all add: loop_after_def split_beta)
qed

lemma loop_step_inv: "loop_step e s s' \<Longrightarrow> loop_inv s \<Longrightarrow> loop_inv s'"
proof -
  assume inv: "loop_inv s" and "loop_step e s s'"
  then have e: "loop_enabled e s" and s': "s' = loop_after e s" by (auto simp: loop_step_simps)
  have task: "loop_inv (fold loop_perform (fst (run_task t (sys_loop s))) (s1\<lparr>sys_loop := snd (run_task t (sys_loop s))\<rparr>))"
    if "live s1 = live s" "armed s1 = armed s" for t s1
    using run_task_inv [where s = s1 and l = "sys_loop s" and t = t] inv that
    by (cases "run_task t (sys_loop s)") (simp add: loop_inv_def fold_loop_perform)
  show ?thesis
  proof (cases e)
    case (User_call here t)
    with task [of s t] inv show ?thesis
      by (auto simp: s' loop_after_def dispatch_def split_beta loop_inv_def)
  next
    case (Run_posted i)
    with task show ?thesis by (simp add: s' loop_after_def split_beta)
  next
    case (Signal n ts)
    with signal_after [OF inv] e show ?thesis by (simp add: s')
  next
    case (Wait_aborted n)
    with inv show ?thesis by (simp add: s' loop_after_def handle_signal_def loop_inv_def)
  qed
qed

lemma init_loop_inv: "loop_inv init_loop"
  by (simp add: init_loop_def loop_inv_def mk_event_loop_def)

lemma loop_reachable_inv: "loop_reachable s \<Longrightarrow> loop_inv s"
  by (induction rule: loop_reachable.induct) (auto intro: loop_step_inv init_loop_inv)

section \<open>The pool of loops\<close>

text \<open>A pool keeps the addresses of its loops. \<^verbatim>\<open>start\<close> takes the addresses that \<^verbatim>\<open>new\<close> returns, one per thread;
  \<^verbatim>\<open>stop\<close> asks every loop to quit, waits for the threads and frees the loops.\<close>

record loop_pool =
  pool_num :: size_t
  baseloop :: nat
  pool_next :: size_t
  loops :: "nat list"

definition mk_loop_pool :: "nat \<Rightarrow> loop_pool" where
  "mk_loop_pool base = \<lparr>pool_num = 0, baseloop = base, pool_next = 0, loops = []\<rparr>"

definition set_threads :: "size_t \<Rightarrow> loop_pool \<Rightarrow> loop_pool" where
  "set_threads n p = p\<lparr>pool_num := n\<rparr>"

definition loop_pool_start :: "(nat \<Rightarrow> nat) \<Rightarrow> loop_pool \<Rightarrow> loop_pool" where
  "loop_pool_start new_at p = p\<lparr>pool_next := 0, loops := loops p @ map new_at [0..<unat (pool_num p)]\<rparr>"

definition loop_pool_stop :: "loop_pool \<Rightarrow> nat list \<times> loop_pool" where
  "loop_pool_stop p = (loops p, p\<lparr>loops := []\<rparr>)"

definition get_nextloop :: "loop_pool \<Rightarrow> nat \<times> loop_pool" where
  "get_nextloop p =
     (if loops p \<noteq> []
      then (loops p ! unat (pool_next p), p\<lparr>pool_next := (pool_next p + 1) mod of_nat (length (loops p))\<rparr>)
      else (baseloop p, p))"

definition loop_pool_ok :: "loop_pool \<Rightarrow> bool" where
  "loop_pool_ok p \<longleftrightarrow> unat (pool_next p) < length (loops p) \<and> length (loops p) < 2 ^ 63"

interpretation io_pool: round_robin loops "\<lambda>p. unat (pool_next p)" get_nextloop loop_pool_ok
  by unfold_locales (auto simp: get_nextloop_def loop_pool_ok_def next_turn)

lemma picks_base: "loops p = [] \<Longrightarrow> picks get_nextloop k p = replicate k (baseloop p)"
  by (induction k) (simp_all add: get_nextloop_def)

section \<open>Properties\<close>



text \<open>A pool that was started with \<open>n\<close> threads hands its loops out evenly: loop \<open>j\<close> is returned
  \<open>k div n\<close> times in \<open>k\<close> calls, once more if \<open>j < k mod n\<close>. With no threads every call returns the loop of
  the server.\<close>

theorem get_nextloop_fair:
  assumes "inj_on new_at {0..<unat n}" "unat n < 2 ^ 63"
    and p_def: "p = loop_pool_start new_at (set_threads n (mk_loop_pool base))"
  shows "(n = 0 \<longrightarrow> picks get_nextloop k p = replicate k base) \<and>
    (\<forall>j < unat n. count_list (picks get_nextloop k p) (new_at j) =
       k div unat n + (if j < k mod unat n then 1 else 0))"
proof -
  have p: "loops p = map new_at [0..<unat n]" "pool_next p = 0" "baseloop p = base"
    by (simp_all add: p_def loop_pool_start_def set_threads_def mk_loop_pool_def)
  have "count_list (picks get_nextloop k p) (new_at j) = k div unat n + (if j < k mod unat n then 1 else 0)"
    if "j < unat n" for j
  proof -
    have "loop_pool_ok p" using p that assms(2) by (simp add: loop_pool_ok_def)
    from io_pool.picks_fair [OF this, of j k] p that assms(1) show ?thesis by (simp add: distinct_map)
  qed
  with p picks_base [of p k] show ?thesis by simp
qed

theorem get_nextloop_fair_witness:
  "picks get_nextloop 4 (loop_pool_start (\<lambda>i. i + 10) (set_threads 0 (mk_loop_pool 7))) = replicate 4 7 \<and>
   count_list (picks get_nextloop 5 (loop_pool_start (\<lambda>i. i + 10) (set_threads 3 (mk_loop_pool 7)))) (1 + 10) = 2"
proof -
  have inj: "inj_on (\<lambda>i. i + 10) A" for A :: "nat set" by (simp add: inj_on_def)
  have n: "unat (0 :: size_t) < 2 ^ 63" "unat (3 :: size_t) < 2 ^ 63" "1 < unat (3 :: size_t)" by simp_all
  note get_nextloop_fair [OF inj n(1) refl, of 4 7]
  moreover from get_nextloop_fair [OF inj n(2) refl, of 5 7] n(3)
  have "count_list (picks get_nextloop 5 (loop_pool_start (\<lambda>i. i + 10) (set_threads 3 (mk_loop_pool 7)))) (1 + 10) =
    5 div unat (3 :: size_t) + (if 1 < 5 mod unat (3 :: size_t) then 1 else 0)" by blast
  ultimately show ?thesis by simp
qed

end
