(* ===== verification/Fmt.thy ===== *)
theory Fmt
  imports Prelude
begin

text \<open>
  Decimal formatting of integers: \<^verbatim>\<open>count_digits\<close>, \<^verbatim>\<open>format_decimal\<close> and \<^verbatim>\<open>format_int\<close> of the bundled fmt library
  (\<^verbatim>\<open>code/spdlog/fmt/bundled/format.h\<close>, tables in \<^verbatim>\<open>format-inl.h\<close>), and the padding helpers of
  \<^verbatim>\<open>code/spdlog/details/fmt_helper.h\<close>. Names of connections, log lines and the headers of HTTP responses are
  made with them.

  The routines write backwards into a buffer. A pointer is an index into the list of the buffer's
  characters; moving it below the start, or starting it beyond the end, is \<open>None\<close>. \<^verbatim>\<open>__builtin_clzll\<close> is the
  compiler's count of leading zero bits.
\<close>

section \<open>Tables\<close>

definition DIGITS :: string where
  "DIGITS =
     ''0001020304050607080910111213141516171819'' @
     ''2021222324252627282930313233343536373839'' @
     ''4041424344454647484950515253545556575859'' @
     ''6061626364656667686970717273747576777879'' @
     ''8081828384858687888990919293949596979899''"

definition POWERS_OF_10_64 :: "uint64 list" where
  "POWERS_OF_10_64 =
     [0, 10, 100, 1000, 10000, 100000, 1000000, 10000000, 100000000, 1000000000,
      10000000000, 100000000000, 1000000000000, 10000000000000, 100000000000000, 1000000000000000,
      10000000000000000, 100000000000000000, 1000000000000000000, 10000000000000000000]"

section \<open>Counting digits\<close>

fun bit_len :: "nat \<Rightarrow> nat" where
  "bit_len n = (if n = 0 then 0 else Suc (bit_len (n div 2)))"

declare bit_len.simps [simp del]

definition clzll :: "uint64 \<Rightarrow> nat" where
  "clzll n = 64 - bit_len (unat n)"

definition count_digits :: "uint64 \<Rightarrow> nat" where
  "count_digits n =
     (let t = (64 - clzll (n OR 1)) * 1233 div 2 ^ 12
      in t - (if n < POWERS_OF_10_64 ! t then 1 else 0) + 1)"

text \<open>The version for compilers without \<^verbatim>\<open>__builtin_clz\<close>.\<close>

function count_digits_loop :: "uint64 \<Rightarrow> nat \<Rightarrow> nat" where
  "count_digits_loop n count =
     (if n < 10 then count
      else if n < 100 then count + 1
      else if n < 1000 then count + 2
      else if n < 10000 then count + 3
      else count_digits_loop (n div 10000) (count + 4))"
  by auto
termination
  by (relation "measure (\<lambda>(n, _). unat n)") (auto simp: unat_div word_less_nat_alt)

definition count_digits_fallback :: "uint64 \<Rightarrow> nat" where
  "count_digits_fallback n = count_digits_loop n 1"

section \<open>Writing digits\<close>

definition put_before :: "char \<Rightarrow> string \<times> nat \<Rightarrow> (string \<times> nat) option" where
  "put_before c bp =
     (case bp of (buf, p) \<Rightarrow> if p = 0 \<or> length buf < p then None else Some (buf[p - 1 := c], p - 1))"

definition digit_char :: "nat \<Rightarrow> char" where
  "digit_char d = char_of (48 + d)"

text \<open>The loop over pairs of digits, and the one or two digits that are left.\<close>

function decimal_loop :: "uint64 \<Rightarrow> string \<times> nat \<Rightarrow> (string \<times> nat) option" where
  "decimal_loop value bp =
     (if value \<ge> 100 then
        (let index = unat (value mod 100) * 2
         in Option.bind (put_before (DIGITS ! (index + 1)) bp) (\<lambda>bp.
            Option.bind (put_before (DIGITS ! index) bp) (decimal_loop (value div 100))))
      else if value < 10 then put_before (digit_char (unat value)) bp
      else
        (let index = unat value * 2
         in Option.bind (put_before (DIGITS ! (index + 1)) bp) (put_before (DIGITS ! index))))"
  by pat_completeness auto
termination
  by (relation "measure (\<lambda>(v, _). unat v)") (auto simp: unat_div word_le_nat_alt)

text \<open>\<^verbatim>\<open>format_decimal(buffer, value, num_digits)\<close>, without thousands separators: the buffer afterwards.\<close>

definition format_decimal :: "string \<Rightarrow> uint64 \<Rightarrow> nat \<Rightarrow> string option" where
  "format_decimal buf value num_digits = map_option fst (decimal_loop value (buf, num_digits))"

text \<open>The overload for an output iterator: a local buffer of \<open>digits10 + 2\<close> characters, of which the first
  \<open>num_digits\<close> are copied.\<close>

definition format_decimal_out :: "uint64 \<Rightarrow> nat \<Rightarrow> string option" where
  "format_decimal_out value num_digits =
     map_option (take num_digits) (format_decimal (replicate 21 (CHR 0x00)) value num_digits)"

text \<open>\<^verbatim>\<open>format_int\<close>: a buffer of \<open>digits10 + 3\<close> characters, written from its last but one.\<close>

definition format_int_unsigned :: "uint64 \<Rightarrow> string option" where
  "format_int_unsigned value =
     map_option (\<lambda>(buf, p). take (21 - p) (drop p buf)) (decimal_loop value (replicate 22 (CHR 0x00), 21))"

definition format_int_signed :: "64 word \<Rightarrow> string option" where
  "format_int_signed value =
     (let negative = value <s 0;
          abs_value = (if negative then 0 - value else value)
      in Option.bind (decimal_loop abs_value (replicate 22 (CHR 0x00), 21)) (\<lambda>bp.
         map_option (\<lambda>(buf, p). take (21 - p) (drop p buf))
           (if negative then put_before (CHR ''-'') bp else Some bp)))"

text \<open>How an unsigned integer is formatted for \<^verbatim>\<open>{}\<close>: the writer counts the digits and writes them.\<close>

definition fmt_uint :: "uint64 \<Rightarrow> string" where
  "fmt_uint n = (case format_decimal_out n (count_digits n) of None \<Rightarrow> [] | Some s \<Rightarrow> s)"

section \<open>Padding\<close>

text \<open>\<^verbatim>\<open>fmt_helper.h\<close>. The argument of \<^verbatim>\<open>pad2\<close> and \<^verbatim>\<open>pad3\<close> is an \<^verbatim>\<open>int\<close>. A negative one is left to the general
  formatter with a width; this is the parameter \<open>fmt_width\<close>, from the width and the number.\<close>

definition append_int :: "int \<Rightarrow> string \<Rightarrow> string option" where
  "append_int n dest = map_option ((@) dest) (format_int_signed (of_int n))"

definition append_size :: "size_t \<Rightarrow> string \<Rightarrow> string option" where
  "append_size n dest = map_option ((@) dest) (format_int_unsigned n)"

definition pad2 :: "(nat \<Rightarrow> int \<Rightarrow> string) \<Rightarrow> int \<Rightarrow> string \<Rightarrow> string option" where
  "pad2 fmt_width n dest =
     (if n > 99 then append_int n dest
      else if n > 9 then Some (dest @ [digit_char (nat (n div 10)), digit_char (nat (n mod 10))])
      else if n \<ge> 0 then Some (dest @ [CHR ''0'', digit_char (nat n)])
      else Some (dest @ fmt_width 2 n))"

definition pad3 :: "(nat \<Rightarrow> int \<Rightarrow> string) \<Rightarrow> int \<Rightarrow> string \<Rightarrow> string option" where
  "pad3 fmt_width n dest =
     (if n > 999 then append_int n dest
      else if n > 99 then Option.bind (append_int (n div 100) dest) (pad2 fmt_width (n mod 100))
      else if n > 9 then Some (dest @ [CHR ''0'', digit_char (nat (n div 10)), digit_char (nat (n mod 10))])
      else if n \<ge> 0 then Some (dest @ [CHR ''0'', CHR ''0'', digit_char (nat n)])
      else Some (dest @ fmt_width 3 n))"

definition pad6 :: "(nat \<Rightarrow> int \<Rightarrow> string) \<Rightarrow> size_t \<Rightarrow> string \<Rightarrow> string option" where
  "pad6 fmt_width n dest =
     (if n > 99999 then append_size n dest
      else Option.bind (pad3 fmt_width (uint (n div 1000)) dest) (pad3 fmt_width (uint (n mod 1000))))"

section \<open>Reference\<close>

text \<open>The decimal representation of a number.\<close>

fun decimal_string :: "nat \<Rightarrow> string" where
  "decimal_string n =
     (if n < 10 then [digit_char n] else decimal_string (n div 10) @ [digit_char (n mod 10)])"

declare decimal_string.simps [simp del] decimal_loop.simps [simp del] count_digits_loop.simps [simp del]

lemma decimal_string_small: "n < 10 \<Longrightarrow> decimal_string n = [digit_char n]"
  by (subst decimal_string.simps) simp

lemma decimal_string_step: "10 \<le> n \<Longrightarrow> decimal_string n = decimal_string (n div 10) @ [digit_char (n mod 10)]"
  by (subst decimal_string.simps) simp

lemma decimal_string_pair:
  assumes "100 \<le> n"
  shows "decimal_string n = decimal_string (n div 100) @ [digit_char (n mod 100 div 10), digit_char (n mod 100 mod 10)]"
proof -
  have m: "n mod 100 = 10 * (n div 10 mod 10) + n mod 10" using mod_mult2_eq [of n 10 10] by simp
  have "n mod 100 div 10 = n div 10 mod 10" "n mod 100 mod 10 = n mod 10" unfolding m by simp_all
  moreover have "n div 10 div 10 = n div 100" using div_mult2_eq [of n 10 10] by simp
  moreover have "10 \<le> n div 10" using assms by (simp add: less_eq_div_iff_mult_less_eq)
  ultimately show ?thesis
    using assms decimal_string_step [of n] decimal_string_step [of "n div 10"] by simp
qed

lemma length_decimal_string:
  "length (decimal_string n) = Suc k \<longleftrightarrow> (if k = 0 then n < 10 else 10 ^ k \<le> n \<and> n < 10 ^ Suc k)"
proof (induction k arbitrary: n)
  case 0
  have "0 < length (decimal_string (n div 10))" by (subst decimal_string.simps) simp
  then show ?case by (cases "n < 10") (simp_all add: decimal_string_small decimal_string_step)
next
  case (Suc k)
  show ?case
  proof (cases "n < 10")
    case True
    moreover have "n < 10 * 10 ^ k" using True by (rule less_le_trans) simp
    ultimately show ?thesis by (simp add: decimal_string_small)
  next
    case False
    have "(10 ^ k \<le> n div 10) = (10 ^ Suc k \<le> n)" "(n div 10 < 10 ^ Suc k) = (n < 10 ^ Suc (Suc k))"
      by (simp_all add: less_eq_div_iff_mult_less_eq div_less_iff_less_mult mult.commute)
    with Suc.IH [of "n div 10"] False show ?thesis
      by (cases "k = 0") (auto simp: decimal_string_step)
  qed
qed

section \<open>Counting is right\<close>

lemma bit_len_bounds: "0 < n \<Longrightarrow> 2 ^ (bit_len n - 1) \<le> n \<and> n < 2 ^ bit_len n \<and> 0 < bit_len n"
proof (induction n rule: bit_len.induct)
  case (1 n)
  show ?case
  proof (cases "n = 1")
    case True
    then show ?thesis by (simp add: bit_len.simps [of "Suc 0"] bit_len.simps [of 0])
  next
    case False
    with 1 have IH: "2 ^ (bit_len (n div 2) - 1) \<le> n div 2" "n div 2 < 2 ^ bit_len (n div 2)" "0 < bit_len (n div 2)"
      by auto
    then obtain k where "bit_len (n div 2) = Suc k" by (auto simp: gr0_conv_Suc)
    moreover have "2 * x \<le> n \<and> n < 4 * x" if "x \<le> n div 2" "n div 2 < 2 * x" for x using that by linarith
    ultimately show ?thesis using IH \<open>0 < n\<close> by (simp add: bit_len.simps [of n])
  qed
qed

lemma bit_len_le: "n < 2 ^ k \<Longrightarrow> bit_len n \<le> k"
proof (rule ccontr)
  assume n: "n < 2 ^ k" "\<not> bit_len n \<le> k"
  then have "0 < n" by (cases "n = 0") (auto simp: bit_len.simps [of 0])
  from bit_len_bounds [OF this] have "2 ^ (bit_len n - 1) \<le> n" by blast
  moreover have "(2 :: nat) ^ k \<le> 2 ^ (bit_len n - 1)" using n(2) by (intro power_increasing) auto
  ultimately show False using n(1) by linarith
qed

text \<open>The estimate of the number of digits from the number of bits, checked for each of the 64 cases.\<close>

definition estimate_ok :: "nat \<Rightarrow> bool" where
  "estimate_ok b \<longleftrightarrow>
     (let t = b * 1233 div 4096
      in t < 20 \<and> 2 ^ b \<le> (10 ^ Suc t :: nat) \<and> (t = 0 \<or> 10 ^ (t - 1) < (2 ^ (b - 1) :: nat)))"

lemma estimates: "b \<in> set [1..<65] \<Longrightarrow> estimate_ok b"
proof -
  have "list_all estimate_ok [1..<65]"
    by (simp add: estimate_ok_def upt_conv_Cons Let_def)
  then show "b \<in> set [1..<65] \<Longrightarrow> estimate_ok b" by (simp only: list_all_iff)
qed

lemma powers_table: "t < 20 \<Longrightarrow> unat (POWERS_OF_10_64 ! t) = (if t = 0 then 0 else 10 ^ t)"
proof -
  have "list_all (\<lambda>t. unat (POWERS_OF_10_64 ! t) = (if t = 0 then 0 else 10 ^ t)) [0..<20]"
    by (simp add: POWERS_OF_10_64_def upt_conv_Cons)
  then show "t < 20 \<Longrightarrow> unat (POWERS_OF_10_64 ! t) = (if t = 0 then 0 else 10 ^ t)" by (simp add: list_all_iff)
qed

lemma unat_or_1: "unat (n OR 1 :: uint64) = unat n + of_bool (even (unat n))"
proof -
  have "unat (n OR 1) = unat n OR unat (1 :: uint64)" by (rule unsigned_or_eq)
  then have "unat (n OR 1) = unat n OR 1" by (simp only: unsigned_1)
  then show ?thesis by (simp only: or_one_eq)
qed

lemma count_digits_correct: "count_digits n = length (decimal_string (unat n))"
proof -
  define m where "m = unat (n OR 1)"
  define b where "b = bit_len m"
  define t where "t = b * 1233 div 4096"
  have m: "unat n \<le> m" "m \<le> unat n + 1" "0 < m"
    unfolding m_def unat_or_1 by (cases "even (unat n)"; auto intro: Nat.gr0I)+
  have b: "2 ^ (b - 1) \<le> m" "m < 2 ^ b" "0 < b" using bit_len_bounds [OF m(3)] by (simp_all add: b_def)
  have "b \<le> 64" unfolding b_def by (rule bit_len_le) (use unsigned_less [of "n OR 1"] in \<open>simp add: m_def\<close>)
  with b(3) estimates [of b] have est: "t < 20" "2 ^ b \<le> (10 ^ Suc t :: nat)" "t = 0 \<or> 10 ^ (t - 1) < (2 ^ (b - 1) :: nat)"
    by (simp_all add: estimate_ok_def t_def Let_def)
  have "64 - clzll (n OR 1) = b" using \<open>b \<le> 64\<close> by (simp add: clzll_def b_def m_def)
  then have cd: "count_digits n = t - (if n < POWERS_OF_10_64 ! t then 1 else 0) + 1"
    by (simp add: count_digits_def t_def Let_def)
  have up: "unat n < 10 ^ Suc t" using m(1) b(2) est(2) by linarith
  have less: "n < POWERS_OF_10_64 ! t \<longleftrightarrow> t \<noteq> 0 \<and> unat n < 10 ^ t"
    using powers_table [OF est(1)] by (simp add: word_less_nat_alt)
  show ?thesis
  proof (cases "n < POWERS_OF_10_64 ! t")
    case True
    with less obtain k where k: "t = Suc k" "unat n < 10 ^ Suc k" by (cases t) auto
    with est(3) b(1) m(2) have "10 ^ k \<le> unat n" by simp
    with k length_decimal_string [of "unat n" k] have "length (decimal_string (unat n)) = Suc k"
      by (cases "k = 0") simp_all
    with True cd k(1) show ?thesis by simp
  next
    case False
    with less have "t = 0 \<or> 10 ^ t \<le> unat n" by auto
    with up length_decimal_string [of "unat n" t] have "length (decimal_string (unat n)) = Suc t" by auto
    with False cd show ?thesis by simp
  qed
qed

lemma count_digits_loop_correct:
  "count_digits_loop n (Suc count) = length (decimal_string (unat n)) + count"
proof (induction n "Suc count" arbitrary: count rule: count_digits_loop.induct)
  case (1 n)
  let ?len = "length (decimal_string (unat n))"
  note len = length_decimal_string [of "unat n"]
  show ?case
  proof (cases "unat n < 10000")
    case True
    then consider "unat n < 10" | "10 \<le> unat n" "unat n < 100" | "100 \<le> unat n" "unat n < 1000" | "1000 \<le> unat n" "unat n < 10000"
      by linarith
    then show ?thesis
      using len [of 0] len [of 1] len [of 2] len [of 3]
      by cases (simp_all add: count_digits_loop.simps [of n] word_less_nat_alt)
  next
    case False
    have four: "length (decimal_string k) = length (decimal_string (k div 10000)) + 4" if "10000 \<le> k" for k
    proof -
      have "100 \<le> k div 100" "100 \<le> k" using that by (simp_all add: less_eq_div_iff_mult_less_eq)
      moreover have "k div 100 div 100 = k div 10000" using div_mult2_eq [of k 100 100] by simp
      ultimately show ?thesis
        using decimal_string_pair [of k] decimal_string_pair [of "k div 100"] by simp
    qed
    from False have "\<not> n < 10" "\<not> n < 100" "\<not> n < 1000" "\<not> n < 10000" by (simp_all add: word_less_nat_alt)
    with 1 [of "count + 4"] four [of "unat n"] False show ?thesis
      by (simp add: count_digits_loop.simps [of n] unat_div)
  qed
qed

section \<open>Writing is right\<close>

text \<open>The table of digit pairs.\<close>

lemma DIGITS_pair:
  assumes "k < 100"
  shows "DIGITS ! (k * 2) = digit_char (k div 10)" "DIGITS ! (k * 2 + 1) = digit_char (k mod 10)"
proof -
  have "list_all (\<lambda>k. DIGITS ! (k * 2) = digit_char (k div 10) \<and> DIGITS ! (k * 2 + 1) = digit_char (k mod 10)) [0..<100]"
    by code_simp
  with assms show "DIGITS ! (k * 2) = digit_char (k div 10)" "DIGITS ! (k * 2 + 1) = digit_char (k mod 10)"
    by (simp_all add: list_all_iff)
qed

lemma put_before_splice:
  "0 < p \<Longrightarrow> p \<le> length buf \<Longrightarrow> put_before c (buf, p) = Some (splice_at (p - 1) [c] buf, p - 1)"
  by (cases p) (simp_all add: put_before_def splice_at_def upd_conv_take_nth_drop)

lemma splice_before:
  "length xs \<le> p \<Longrightarrow> p + length ys \<le> length buf \<Longrightarrow>
     splice_at (p - length xs) xs (splice_at p ys buf) = splice_at (p - length xs) (xs @ ys) buf"
  by (simp add: splice_at_def take_drop min_def)

lemma decimal_loop_correct:
  "length (decimal_string (unat val)) \<le> p \<Longrightarrow> p \<le> length buf \<Longrightarrow>
     decimal_loop val (buf, p) =
       Some (splice_at (p - length (decimal_string (unat val))) (decimal_string (unat val)) buf,
             p - length (decimal_string (unat val)))"
proof (induction "unat val" arbitrary: val p buf rule: less_induct)
  case less
  let ?v = "unat val"
  consider "?v < 10" | "10 \<le> ?v" "?v < 100" | "100 \<le> ?v" by linarith
  then show ?case
  proof cases
    case 1
    with less.prems show ?thesis
      by (simp add: decimal_loop.simps [of val] word_le_nat_alt word_less_nat_alt decimal_string_small
          put_before_splice)
  next
    case 2
    have ds: "decimal_string ?v = [digit_char (?v div 10), digit_char (?v mod 10)]"
      using 2 by (simp add: decimal_string_step decimal_string_small)
    with 2 less.prems DIGITS_pair [of ?v] splice_before [of "[digit_char (?v div 10)]" "p - 1" "[digit_char (?v mod 10)]" buf]
    show ?thesis
      by (simp add: decimal_loop.simps [of val] word_le_nat_alt word_less_nat_alt put_before_splice)
  next
    case 3
    let ?k = "?v mod 100" and ?w = "val div 100"
    let ?pair = "[digit_char (?k div 10), digit_char (?k mod 10)]"
    have w: "unat ?w = ?v div 100" "?v div 100 < ?v" using 3 by (simp_all add: unat_div)
    have ds: "decimal_string ?v = decimal_string (unat ?w) @ ?pair"
      using decimal_string_pair [OF 3] w by simp
    have k: "unat (val mod 100) = ?k" by (simp add: unat_mod)
    let ?buf = "splice_at (p - 2) ?pair buf"
    have p: "2 \<le> p" "p \<le> length buf" "length (decimal_string (unat ?w)) \<le> p - 2"
      using less.prems ds by simp_all
    obtain q where q: "p = 2 + q" using p(1) le_Suc_ex by blast
    have "100 \<le> val" using 3 by (simp add: word_le_nat_alt)
    then have "decimal_loop val (buf, p) = decimal_loop ?w (?buf, p - 2)"
      using p DIGITS_pair [of ?k] splice_before [of "[digit_char (?k div 10)]" "q + 1" "[digit_char (?k mod 10)]" buf]
      by (simp add: decimal_loop.simps [of val] k put_before_splice q)
    also have "\<dots> = Some (splice_at (p - 2 - length (decimal_string (unat ?w))) (decimal_string (unat ?w)) ?buf,
        p - 2 - length (decimal_string (unat ?w)))"
      by (rule less.hyps) (use w p in \<open>simp_all add: splice_at_def\<close>)
    finally show ?thesis
      using splice_before [of "decimal_string (unat ?w)" "p - 2" ?pair buf] p ds by simp
  qed
qed

lemma decimal_string_length: "n < 10 ^ k \<Longrightarrow> 0 < k \<Longrightarrow> length (decimal_string n) \<le> k"
proof (rule ccontr)
  assume n: "n < 10 ^ k" "0 < k" and "\<not> length (decimal_string n) \<le> k"
  then obtain j where j: "length (decimal_string n) = Suc j" "k \<le> j" by (cases "length (decimal_string n)") auto
  with n length_decimal_string [of n j] have "10 ^ j \<le> n" by (auto split: if_splits)
  moreover have "(10 :: nat) ^ k \<le> 10 ^ j" using j(2) by (rule power_increasing) simp
  ultimately show False using n(1) by simp
qed

lemma decimal_string_word: "length (decimal_string (unat (n :: uint64))) \<le> 20"
proof (rule decimal_string_length)
  have "unat n < 2 ^ 64" by (rule unat_lt_size_t)
  then show "unat n < 10 ^ 20" by simp
qed simp

text \<open>A number can be read back from its representation.\<close>

lemma digit_char_value: "d < 10 \<Longrightarrow> of_char (digit_char d) = 48 + d"
  by (simp add: digit_char_def)

fun read_decimal :: "nat \<Rightarrow> string \<Rightarrow> nat" where
  "read_decimal v [] = v"
| "read_decimal v (c # cs) = read_decimal (v * 10 + (of_char c - 48)) cs"

lemma read_decimal_append: "read_decimal v (xs @ ys) = read_decimal (read_decimal v xs) ys"
  by (induction xs arbitrary: v) simp_all

lemma read_decimal_string: "read_decimal 0 (decimal_string n) = n"
proof (induction n rule: decimal_string.induct)
  case (1 n)
  then show ?case
    by (cases "n < 10") (simp_all add: decimal_string_small decimal_string_step read_decimal_append digit_char_value)
qed

lemma decimal_string_inj: "decimal_string m = decimal_string n \<longleftrightarrow> m = n"
  by (metis read_decimal_string)

lemma decimal_string_digits: "c \<in> set (decimal_string n) \<Longrightarrow> \<exists>d < 10. c = digit_char d"
proof (induction n rule: decimal_string.induct)
  case (1 n)
  then show ?case
    by (cases "n < 10") (auto simp: decimal_string_small decimal_string_step intro: exI [of _ "n mod 10"])
qed

lemma format_int_signed_correct:
  assumes "- (2 ^ 63) \<le> n" "n < 2 ^ 63"
  shows "format_int_signed (of_int n) = Some ((if n < 0 then ''-'' else []) @ decimal_string (nat \<bar>n\<bar>))"
proof -
  let ?w = "of_int n :: 64 word"
  have s: "?w <s 0 \<longleftrightarrow> n < 0"
    using assms signed_take_bit_int_eq_self [of 63 n] by (simp add: word_sless_alt sint_sbintrunc')
  have a: "unat (if ?w <s 0 then 0 - ?w else ?w) = nat \<bar>n\<bar>"
  proof (cases "n < 0")
    case True
    have "0 - ?w = of_int (- n)" by simp
    with True assms s show ?thesis by (simp add: unat_eq_nat_uint uint_word_of_int del: of_int_minus)
  next
    case False
    with assms s show ?thesis by (simp add: unat_eq_nat_uint uint_word_of_int)
  qed
  let ?d = "decimal_string (nat \<bar>n\<bar>)"
  have len: "length ?d \<le> 19"
    by (rule decimal_string_length) (use assms in auto)
  have loop: "decimal_loop (if ?w <s 0 then 0 - ?w else ?w) (replicate 22 (CHR 0x00), 21) =
      Some (splice_at (21 - length ?d) ?d (replicate 22 (CHR 0x00)), 21 - length ?d)"
    using decimal_loop_correct [of "if ?w <s 0 then 0 - ?w else ?w" 21 "replicate 22 (CHR 0x00)"] len
    unfolding a by simp
  show ?thesis
  proof (cases "n < 0")
    case True
    with loop s len splice_before [of "''-''" "21 - length ?d" ?d "replicate 22 (CHR 0x00)"] show ?thesis
      by (simp add: format_int_signed_def put_before_splice splice_at_def)
  next
    case False
    with loop s len show ?thesis by (simp add: format_int_signed_def splice_at_def)
  qed
qed

text \<open>The padding helpers fill up with zeros.\<close>

definition zero_padded :: "nat \<Rightarrow> nat \<Rightarrow> string" where
  "zero_padded k n = replicate (k - length (decimal_string n)) (CHR ''0'') @ decimal_string n"

lemma zero_padded_simps:
  "n < 10 \<Longrightarrow> zero_padded 2 n = [CHR ''0'', digit_char n]"
  "n < 10 \<Longrightarrow> zero_padded 3 n = [CHR ''0'', CHR ''0'', digit_char n]"
  "10 \<le> n \<Longrightarrow> n < 100 \<Longrightarrow> zero_padded 2 n = [digit_char (n div 10), digit_char (n mod 10)]"
  "10 \<le> n \<Longrightarrow> n < 100 \<Longrightarrow> zero_padded 3 n = [CHR ''0'', digit_char (n div 10), digit_char (n mod 10)]"
  by (simp_all add: zero_padded_def decimal_string_small decimal_string_step numeral_2_eq_2 numeral_3_eq_3)

lemma pad2_correct:
  assumes "0 \<le> n" "n < 100" shows "pad2 fw n dest = Some (dest @ zero_padded 2 (nat n))"
  using assms by (auto simp: pad2_def zero_padded_simps nat_div_distrib nat_mod_distrib)

lemma pad3_correct:
  assumes "0 \<le> n" "n < 1000" shows "pad3 fw n dest = Some (dest @ zero_padded 3 (nat n))"
proof (cases "n > 99")
  case False
  with assms show ?thesis by (auto simp: pad3_def zero_padded_simps nat_div_distrib nat_mod_distrib)
next
  case True
  let ?q = "n div 100" and ?r = "n mod 100"
  have q: "0 \<le> ?q" "?q < 10" "0 \<le> ?r" "?r < 100" using assms True by simp_all
  have "append_int ?q dest = Some (dest @ [digit_char (nat ?q)])"
    using format_int_signed_correct [of ?q] q by (simp add: append_int_def decimal_string_small)
  moreover have "pad2 fw ?r d = Some (d @ zero_padded 2 (nat ?r))" for d by (rule pad2_correct) (use q in simp_all)
  moreover have "zero_padded 3 (nat n) = digit_char (nat ?q) # zero_padded 2 (nat ?r)"
  proof -
    have "decimal_string (nat n) = decimal_string (nat n div 100) @ [digit_char (nat n mod 100 div 10), digit_char (nat n mod 100 mod 10)]"
      by (rule decimal_string_pair) (use True in simp)
    moreover have zero: "digit_char 0 = CHR ''0''" by (simp add: digit_char_def char_of_def) code_simp
    moreover have "nat n div 100 < 10" using assms by (simp add: less_mult_imp_div_less nat_less_iff)
    moreover have "zero_padded 2 r = [digit_char (r div 10), digit_char (r mod 10)]" if "r < 100" for r
      using that zero by (cases "r < 10") (simp_all add: zero_padded_simps)
    ultimately show ?thesis
      using assms(1) by (simp add: zero_padded_def decimal_string_small nat_div_distrib nat_mod_distrib)
  qed
  ultimately show ?thesis using True assms(2) by (simp add: pad3_def)
qed

lemma format_decimal_out_correct: "format_decimal_out n (count_digits n) = Some (decimal_string (unat n))"
proof -
  let ?d = "decimal_string (unat n)"
  have "length ?d \<le> 20" by (rule decimal_string_word)
  then show ?thesis
    using decimal_loop_correct [of n "length ?d" "replicate 21 (CHR 0x00)"] count_digits_correct [of n]
    by (simp add: format_decimal_out_def format_decimal_def splice_at_def)
qed

lemma format_int_unsigned_correct: "format_int_unsigned n = Some (decimal_string (unat n))"
  using decimal_loop_correct [of n 21 "replicate 22 (CHR 0x00)"] decimal_string_word [of n]
  by (simp add: format_int_unsigned_def splice_at_def)

lemma fmt_uint_eq: "fmt_uint n = decimal_string (unat n)"
  by (simp add: fmt_uint_def format_decimal_out_correct)

section \<open>Properties\<close>


end
