(* ===== verification/TcpServer.thy ===== *)
theory TcpServer
  imports TcpConnection EventLoop Fmt
begin

text \<open>
  \<^verbatim>\<open>code/TcpServer.h\<close> and \<^verbatim>\<open>code/TcpServer.cpp\<close>: listening, accepting connections, and spreading them over the
  loops of a pool.

  Connections are shared objects; the server keeps their addresses, and \<open>conn_at\<close> is the memory they
  live in. The address that \<^verbatim>\<open>std::make_shared\<close> returns is an argument. The acceptor is asio's: whether
  each of its operations fails is an argument of \<^verbatim>\<open>start\<close>, and what is asked of it later is output, a
  list of \<open>server_op\<close>.
\<close>

section \<open>State\<close>

record tcp_server =
  srv_loop :: nat
  srv_name :: string
  acceptor_open :: bool
  ipport :: string
  connections :: "nat set"
  srv_pool :: loop_pool
  srv_count :: uint32
  conn_at :: "nat \<Rightarrow> tcp_connection option"

datatype acceptor_step = Make_address | Acceptor_open | Set_reuse | Set_abort | Acceptor_bind | Acceptor_listen

datatype accept_result = Accepted "string \<times> uint16" "string \<times> uint16" | Accept_aborted | Accept_failed

datatype server_op =
    Post_accept_loop
  | Async_accept nat
  | Init_socket nat
  | Dispatch_establish nat nat
  | Close_acceptor
  | Quit_loops "nat list"
  | Close_connection nat

definition mk_server :: "nat \<Rightarrow> string \<Rightarrow> tcp_server" where
  "mk_server loop name =
     \<lparr>srv_loop = loop, srv_name = name, acceptor_open = False, ipport = [], connections = {},
      srv_pool = mk_loop_pool loop, srv_count = 0, conn_at = (\<lambda>_. None)\<rparr>"

text \<open>The callback a server has before the user sets one: it drops what was received.\<close>

definition default_recv_callback :: "buffer \<Rightarrow> size_t \<Rightarrow> buffer" where
  "default_recv_callback buf len = has_readed buf len"

section \<open>Operations\<close>

definition set_io_threads :: "size_t \<Rightarrow> tcp_server \<Rightarrow> tcp_server" where
  "set_io_threads n s = s\<lparr>srv_pool := set_threads n (srv_pool s)\<rparr>"

text \<open>\<^verbatim>\<open>start\<close>; \<open>fails\<close> says which operations of the acceptor fail, \<open>new_at\<close> gives the addresses of new loops.\<close>

definition server_start ::
    "(acceptor_step \<Rightarrow> bool) \<Rightarrow> (nat \<Rightarrow> nat) \<Rightarrow> string option \<Rightarrow> uint16 \<Rightarrow> tcp_server \<Rightarrow>
     bool \<times> server_op list \<times> tcp_server" where
  "server_start fails new_at ip_str port s =
     (case ip_str of
        None \<Rightarrow> (False, [], s)
      | Some ip \<Rightarrow>
          if port = 0 then (False, [], s)
          else if fails Make_address then (False, [], s)
          else if fails Acceptor_open then (False, [], s)
          else
            (let s1 = s\<lparr>acceptor_open := True\<rparr>
             in if fails Set_reuse \<or> fails Set_abort \<or> fails Acceptor_bind \<or> fails Acceptor_listen
                then (False, [], s1)
                else (True, [Post_accept_loop],
                      s1\<lparr>srv_pool := loop_pool_start new_at (srv_pool s1),
                         ipport := ip @ '':'' @ fmt_uint (ucast port)\<rparr>)))"

definition server_start_any ::
    "(acceptor_step \<Rightarrow> bool) \<Rightarrow> (nat \<Rightarrow> nat) \<Rightarrow> uint16 \<Rightarrow> tcp_server \<Rightarrow> bool \<times> server_op list \<times> tcp_server" where
  "server_start_any fails new_at port = server_start fails new_at (Some ''0.0.0.0'') port"

definition server_stop :: "tcp_server \<Rightarrow> server_op list \<times> tcp_server" where
  "server_stop s =
     (let (ls, pool) = loop_pool_stop (srv_pool s)
      in (Quit_loops ls # (if acceptor_open s then [Close_acceptor] else []) @
            map Close_connection (sorted_list_of_set (connections s)),
          s\<lparr>srv_pool := pool, acceptor_open := False\<rparr>))"

definition conn_label :: "tcp_server \<Rightarrow> uint32 \<Rightarrow> string" where
  "conn_label s n = srv_name s @ ''-'' @ ipport s @ ''#'' @ fmt_uint (ucast n)"

definition accept_loop :: "nat \<Rightarrow> tcp_server \<Rightarrow> server_op list \<times> tcp_server" where
  "accept_loop p s =
     (let count = srv_count s + 1;
          name = conn_label s count;
          (ioloop, pool) = get_nextloop (srv_pool s)
      in ([Async_accept p],
          s\<lparr>srv_count := count, srv_pool := pool, conn_at := (conn_at s)(p := Some (mk_connection ioloop name))\<rparr>))"

text \<open>\<^verbatim>\<open>handle_accept\<close> for the connection at \<open>p\<close>; the next connection gets the address \<open>q\<close>.\<close>

definition handle_accept :: "nat \<Rightarrow> accept_result \<Rightarrow> nat \<Rightarrow> tcp_server \<Rightarrow> server_op list \<times> tcp_server" where
  "handle_accept p r q s =
     (case r of
        Accept_aborted \<Rightarrow> ([], s\<lparr>srv_count := srv_count s - 1\<rparr>)
      | Accept_failed \<Rightarrow> accept_loop q (s\<lparr>srv_count := srv_count s - 1\<rparr>)
      | Accepted remote local \<Rightarrow>
          (case conn_at s p of
             None \<Rightarrow> ([], s)
           | Some c \<Rightarrow>
               (let s1 = s\<lparr>connections := insert p (connections s),
                           conn_at := (conn_at s)(p := Some (snd (conn_init remote local c)))\<rparr>;
                    (ops, s2) = accept_loop q s1
                in (Init_socket p # Dispatch_establish (conn_loop c) p # ops, s2))))"

definition server_remove_conn_loop :: "nat \<Rightarrow> tcp_server \<Rightarrow> tcp_server" where
  "server_remove_conn_loop p s = s\<lparr>connections := connections s - {p}\<rparr>"

section \<open>A run of the acceptor\<close>

text \<open>The completions of the accepts, each with the address of the next connection; \<open>p\<close> is the address of
  the one being accepted. The result has the addresses of the accepted connections, in order.\<close>

fun accept_all :: "(accept_result \<times> nat) list \<Rightarrow> nat \<Rightarrow> tcp_server \<Rightarrow> nat list \<times> tcp_server" where
  "accept_all [] p s = ([], s)"
| "accept_all ((r, q) # rs) p s =
     (let s1 = snd (handle_accept p r q s);
          (ps, s2) = (if r = Accept_aborted then ([], s1) else accept_all rs q s1)
      in (case r of Accepted _ _ \<Rightarrow> (p # ps, s2) | _ \<Rightarrow> (ps, s2)))"

text \<open>The name of the connection at an address.\<close>

definition name_at :: "tcp_server \<Rightarrow> nat \<Rightarrow> string option" where
  "name_at s p = map_option conn_name (conn_at s p)"

lemma conn_label_inj:
  "conn_label s m = conn_label s n \<longleftrightarrow> m = n"
proof -
  have "unat (ucast m :: uint64) = unat m" for m :: uint32
  proof -
    have "unat m < 2 ^ 32" using unsigned_less [of m] by simp
    then show ?thesis by (simp add: unsigned_ucast_eq take_bit_nat_eq_self)
  qed
  then show ?thesis by (simp add: conn_label_def fmt_uint_eq decimal_string_inj word_unat_eq_iff)
qed

lemma accept_loop_facts:
  "name_at (snd (accept_loop q s)) q = Some (conn_label s (srv_count s + 1))"
  "p \<noteq> q \<Longrightarrow> name_at (snd (accept_loop q s)) p = name_at s p"
  "srv_count (snd (accept_loop q s)) = srv_count s + 1"
  "conn_label (snd (accept_loop q s)) n = conn_label s n"
  "connections (snd (accept_loop q s)) = connections s"
  by (simp_all add: accept_loop_def name_at_def mk_connection_def conn_label_def split_beta Let_def)

lemma handle_accept_facts:
  assumes "name_at s p = Some nm" "p \<noteq> q" "r \<noteq> Accept_aborted"
  shows "name_at (snd (handle_accept p r q s)) q =
      Some (conn_label s (srv_count s + (case r of Accepted _ _ \<Rightarrow> 1 | _ \<Rightarrow> 0)))"
    "a \<noteq> q \<Longrightarrow> name_at (snd (handle_accept p r q s)) a = name_at s a"
    "srv_count (snd (handle_accept p r q s)) = srv_count s + (case r of Accepted _ _ \<Rightarrow> 1 | _ \<Rightarrow> 0)"
    "conn_label (snd (handle_accept p r q s)) n = conn_label s n"
proof -
  have label: "conn_label (s\<lparr>srv_count := x\<rparr>) n = conn_label s n"
    "conn_label (s\<lparr>connections := y, conn_at := z\<rparr>) n = conn_label s n" for x y z n
    by (simp_all add: conn_label_def)
  from assms(1) obtain c where c: "conn_at s p = Some c" by (auto simp: name_at_def)
  show "name_at (snd (handle_accept p r q s)) q =
      Some (conn_label s (srv_count s + (case r of Accepted _ _ \<Rightarrow> 1 | _ \<Rightarrow> 0)))"
    "a \<noteq> q \<Longrightarrow> name_at (snd (handle_accept p r q s)) a = name_at s a"
    "srv_count (snd (handle_accept p r q s)) = srv_count s + (case r of Accepted _ _ \<Rightarrow> 1 | _ \<Rightarrow> 0)"
    "conn_label (snd (handle_accept p r q s)) n = conn_label s n"
    using assms c
    by (cases r; simp add: handle_accept_def accept_loop_facts label split_beta Let_def;
        simp add: name_at_def conn_init_def)+
qed

text \<open>The connections that are accepted are numbered one after the other.\<close>

lemma accept_all_names:
  assumes "name_at s p = Some (conn_label s (srv_count s))" "distinct (p # map snd rs)" "accept_all rs p s = (ps, s')"
  shows "map (name_at s') ps = map (\<lambda>i. Some (conn_label s (srv_count s + of_nat i))) [0..<length ps] \<and>
    set ps \<subseteq> set (p # map snd rs) \<and> distinct ps \<and> (\<forall>a. a \<notin> set (map snd rs) \<longrightarrow> name_at s' a = name_at s a)"
  using assms
proof (induction rs arbitrary: p s ps)
  case (Cons rq rs)
  obtain r q where rq: "rq = (r, q)" by (cases rq)
  let ?s = "snd (handle_accept p r q s)"
  show ?case
  proof (cases "r = Accept_aborted")
    case True
    with Cons.prems rq show ?thesis
      by (auto simp: handle_accept_def name_at_def)
  next
    case False
    have pq: "p \<noteq> q" using Cons.prems(2) rq by auto
    note f = handle_accept_facts [OF Cons.prems(1) pq False]
    have "name_at ?s q = Some (conn_label ?s (srv_count ?s))" using f(1,3,4) by simp
    moreover obtain ps1 where ps1: "accept_all rs q ?s = (ps1, s')"
        "ps = (case r of Accepted _ _ \<Rightarrow> p # ps1 | _ \<Rightarrow> ps1)"
      using Cons.prems(3) False by (cases "accept_all rs q ?s") (auto simp: rq Let_def split: accept_result.splits)
    ultimately have IH: "map (name_at s') ps1 = map (\<lambda>i. Some (conn_label ?s (srv_count ?s + of_nat i))) [0..<length ps1]"
      "set ps1 \<subseteq> set (q # map snd rs)" "distinct ps1" "\<forall>a. a \<notin> set (map snd rs) \<longrightarrow> name_at s' a = name_at ?s a"
      using Cons.IH [of ?s q ps1] Cons.prems(2) by (simp_all add: rq)
    have p: "p \<notin> set ps1" "name_at s' p = Some (conn_label s (srv_count s))"
      using IH(2,4) Cons.prems(1,2) f(2) [of p] pq rq by auto
    have keep: "\<forall>a. a \<notin> set (map snd (rq # rs)) \<longrightarrow> name_at s' a = name_at s a"
      using IH(4) f(2) by (simp add: rq)
    show ?thesis
    proof (cases r)
      case (Accepted remote local)
      with f(3,4) have "map (name_at s') ps1 = map (\<lambda>i. Some (conn_label s (srv_count s + of_nat i))) [1..<Suc (length ps1)]"
        unfolding IH(1) by (simp add: map_Suc_upt [symmetric] algebra_simps del: upt_Suc)
      with Accepted p IH(2,3) keep ps1(2) show ?thesis
        by (auto simp: rq upt_conv_Cons simp del: upt_Suc)
    next
      case Accept_failed
      with f(3,4) IH ps1(2) keep show ?thesis by (auto simp: rq)
    qed (use False in simp)
  qed
qed simp

section \<open>Property\<close>



end
