(* ===== verification/BlockingQueue.thy ===== *)
theory BlockingQueue
  imports Prelude
begin

text \<open>
  \<^verbatim>\<open>code/BlockingQueue.hpp\<close>: a bounded queue with a mutex and a condition variable.

  Every member function but \<^verbatim>\<open>init\<close> holds the mutex for its whole body, so each is one atomic operation
  on the state; \<^verbatim>\<open>pop\<close> is atomic from the moment its wait returns. \<open>bq_pop\<close> is that part: the result
  \<open>Pop_wait\<close> says that the predicate of \<^verbatim>\<open>cond_.wait\<close> is false, and the caller goes to sleep. The
  notifications of the condition variable act on the sleeping threads and are modelled with the
  threads, in the theory \<open>ThreadPool\<close>.
\<close>

section \<open>State and operations\<close>

record 'a blocking_queue =
  bq_queue :: "'a list"
  bq_max_count :: size_t
  bq_exit :: bool

definition mk_blocking_queue :: "'a blocking_queue" where
  "mk_blocking_queue = \<lparr>bq_queue = [], bq_max_count = 0, bq_exit = False\<rparr>"

definition bq_init :: "size_t \<Rightarrow> 'a blocking_queue \<Rightarrow> bool \<times> 'a blocking_queue" where
  "bq_init max_count q = (True, q\<lparr>bq_max_count := max_count, bq_exit := False, bq_queue := []\<rparr>)"

definition bq_full :: "'a blocking_queue \<Rightarrow> bool" where
  "bq_full q \<longleftrightarrow> bq_max_count q > 0 \<and> length (bq_queue q) \<ge> unat (bq_max_count q)"

definition bq_push :: "'a \<Rightarrow> 'a blocking_queue \<Rightarrow> bool \<times> 'a blocking_queue" where
  "bq_push item q =
     (if bq_max_count q > 0 \<and> length (bq_queue q) \<ge> unat (bq_max_count q) then (False, q)
      else (True, q\<lparr>bq_queue := bq_queue q @ [item]\<rparr>))"

datatype 'a pop_result = Pop_wait | Pop_exit | Pop_item 'a

definition bq_pop :: "'a blocking_queue \<Rightarrow> 'a pop_result \<times> 'a blocking_queue" where
  "bq_pop q =
     (if bq_queue q = [] \<and> \<not> bq_exit q then (Pop_wait, q)
      else if bq_exit q then (Pop_exit, q)
      else (Pop_item (hd (bq_queue q)), q\<lparr>bq_queue := tl (bq_queue q)\<rparr>))"

definition bq_front :: "'a blocking_queue \<Rightarrow> 'a option" where
  "bq_front q = (if bq_queue q = [] then None else Some (hd (bq_queue q)))"

definition bq_back :: "'a blocking_queue \<Rightarrow> 'a option" where
  "bq_back q = (if bq_queue q = [] then None else Some (last (bq_queue q)))"

definition bq_empty :: "'a blocking_queue \<Rightarrow> bool" where
  "bq_empty q \<longleftrightarrow> bq_queue q = []"

definition bq_size :: "'a blocking_queue \<Rightarrow> size_t" where
  "bq_size q = of_nat (length (bq_queue q))"

definition bq_notify_exit :: "'a blocking_queue \<Rightarrow> 'a blocking_queue" where
  "bq_notify_exit q = q\<lparr>bq_exit := True\<rparr>"

section \<open>Contract\<close>

text \<open>The bound of a queue that has one; a queue with \<^verbatim>\<open>max_count_\<close> 0 is unbounded.\<close>

definition bq_inv :: "'a blocking_queue \<Rightarrow> bool" where
  "bq_inv q \<longleftrightarrow> bq_max_count q = 0 \<or> length (bq_queue q) \<le> unat (bq_max_count q)"

text \<open>Calls in any order: \<open>Some x\<close> offers \<open>x\<close>, \<open>None\<close> polls. The results are the elements that were
  accepted, the elements that came out, and the queue.\<close>

fun queue_calls ::
    "('a \<Rightarrow> 'q \<Rightarrow> bool \<times> 'q) \<Rightarrow> ('q \<Rightarrow> ('a \<times> 'q) option) \<Rightarrow> 'a option list \<Rightarrow> 'q \<Rightarrow>
     'a list \<times> 'a list \<times> 'q" where
  "queue_calls offer poll [] q = ([], [], q)"
| "queue_calls offer poll (Some x # cs) q =
     (let (ok, q1) = offer x q; (ins, outs, q2) = queue_calls offer poll cs q1
      in (if ok then x # ins else ins, outs, q2))"
| "queue_calls offer poll (None # cs) q =
     (case poll q of
        None \<Rightarrow> queue_calls offer poll cs q
      | Some (x, q1) \<Rightarrow> (let (ins, outs, q2) = queue_calls offer poll cs q1 in (ins, x # outs, q2)))"

lemma queue_calls_preserves:
  assumes offer: "\<And>x q. P q \<Longrightarrow> P (snd (offer x q))"
    and poll: "\<And>q x q'. P q \<Longrightarrow> poll q = Some (x, q') \<Longrightarrow> P q'"
    and "P q"
  shows "P (snd (snd (queue_calls offer poll cs q)))"
  using \<open>P q\<close>
proof (induction cs arbitrary: q)
  case (Cons c cs)
  show ?case
  proof (cases c)
    case None
    then show ?thesis
      using Cons.IH [OF Cons.prems] Cons.IH [OF poll [OF Cons.prems]]
      by (simp add: split_beta split: option.split)
  next
    case (Some x)
    then show ?thesis using Cons.IH [OF offer [OF Cons.prems, of x]] by (simp add: split_beta)
  qed
qed simp

text \<open>
  The interface of a bounded first-in first-out queue that its users rely on: the elements as a list,
  an offer that either appends or leaves the queue alone, and a poll that takes the first element.
\<close>

locale bounded_fifo =
  fixes inv :: "'q \<Rightarrow> bool"
    and elems :: "'q \<Rightarrow> 'a list"
    and room :: "'q \<Rightarrow> bool"
    and offer :: "'a \<Rightarrow> 'q \<Rightarrow> bool \<times> 'q"
    and poll :: "'q \<Rightarrow> ('a \<times> 'q) option"
  assumes offer_room: "inv q \<Longrightarrow> room q \<Longrightarrow> offer x q = (True, q') \<Longrightarrow> elems q' = elems q @ [x]"
    and offer_accepts: "inv q \<Longrightarrow> fst (offer x q) = room q"
    and offer_refused: "inv q \<Longrightarrow> offer x q = (False, q') \<Longrightarrow> q' = q"
    and offer_inv: "inv q \<Longrightarrow> inv (snd (offer x q))"
    and poll_some: "inv q \<Longrightarrow> poll q = Some (x, q') \<Longrightarrow> elems q = x # elems q'"
    and poll_inv: "inv q \<Longrightarrow> poll q = Some (x, q') \<Longrightarrow> inv q'"
begin

lemma offer_cases:
  assumes "inv q"
  obtains q1 where "offer x q = (True, q1)" "elems q1 = elems q @ [x]" "inv q1"
  | "offer x q = (False, q)"
  using offer_room [OF assms] offer_accepts [OF assms, of x] offer_refused [OF assms]
    offer_inv [OF assms, of x]
  by (cases "offer x q") (metis (full_types) fst_conv snd_conv)

lemma calls_fifo:
  assumes "inv q" "queue_calls offer poll cs q = (ins, outs, q')"
  shows "inv q' \<and> elems q @ ins = outs @ elems q'"
  using assms
proof (induction cs arbitrary: q ins outs)
  case (Cons c cs)
  show ?case
  proof (cases c)
    case (Some x)
    from \<open>inv q\<close> show ?thesis
    proof (cases rule: offer_cases [where x = x])
      case (1 q1)
      with Cons.prems(2) Some obtain ins1 where
        "queue_calls offer poll cs q1 = (ins1, outs, q')" "ins = x # ins1"
        by (auto split: prod.splits)
      with Cons.IH [of q1 ins1 outs] 1 show ?thesis by simp
    next
      case 2
      with Cons.prems Some Cons.IH [of q] show ?thesis by (auto split: prod.splits)
    qed
  next
    case None
    show ?thesis
    proof (cases "poll q")
      case (Some xq)
      obtain x q1 where "poll q = Some (x, q1)" using Some by (cases xq) simp
      with Cons.prems None obtain outs1 where
        "queue_calls offer poll cs q1 = (ins, outs1, q')" "outs = x # outs1"
        by (auto split: prod.splits)
      with Cons.IH [of q1 ins outs1] \<open>poll q = Some (x, q1)\<close>
        poll_some [OF Cons.prems(1)] poll_inv [OF Cons.prems(1)]
      show ?thesis by simp
    qed (use Cons None in simp)
  qed
qed simp

end

text \<open>\<^verbatim>\<open>pop\<close> without waiting.\<close>

definition bq_poll :: "'a blocking_queue \<Rightarrow> ('a \<times> 'a blocking_queue) option" where
  "bq_poll q = (case bq_pop q of (Pop_item x, q') \<Rightarrow> Some (x, q') | _ \<Rightarrow> None)"

lemma bq_pop_item:
  "bq_pop q = (Pop_item x, q') \<longleftrightarrow>
     \<not> bq_exit q \<and> (\<exists>xs. bq_queue q = x # xs \<and> q' = q\<lparr>bq_queue := xs\<rparr>)"
  by (cases "bq_queue q") (auto simp: bq_pop_def)

lemma bq_poll_Some:
  "bq_poll q = Some (x, q') \<longleftrightarrow>
     \<not> bq_exit q \<and> (\<exists>xs. bq_queue q = x # xs \<and> q' = q\<lparr>bq_queue := xs\<rparr>)"
  by (auto simp: bq_poll_def bq_pop_item [symmetric] split: prod.splits pop_result.splits)

lemma bq_push_eq:
  "bq_push x q = (if bq_full q then (False, q) else (True, q\<lparr>bq_queue := bq_queue q @ [x]\<rparr>))"
  by (simp add: bq_push_def bq_full_def)

lemma bq_push_inv: "bq_inv q \<Longrightarrow> bq_inv (snd (bq_push x q))"
  by (auto simp: bq_push_eq bq_full_def bq_inv_def word_gt_0)

interpretation bq: bounded_fifo bq_inv bq_queue "\<lambda>q. \<not> bq_full q" bq_push bq_poll
  by unfold_locales (auto simp: bq_push_eq bq_poll_Some bq_inv_def bq_full_def word_gt_0 split: if_splits)

section \<open>Property\<close>

text \<open>C6: Whatever sequence of \<^verbatim>\<open>push\<close> and \<^verbatim>\<open>pop\<close> calls a new queue of bound \<open>n\<close> gets, the elements that come
  out, followed by those still in the queue, are exactly the elements that were accepted, in the same
  order, and a positive bound is never exceeded.\<close>

theorem blocking_queue_fifo:
  assumes "queue_calls bq_push bq_poll cs (snd (bq_init n q)) = (ins, outs, q')"
  shows "outs @ bq_queue q' = ins \<and> (n = 0 \<or> length (bq_queue q') \<le> unat n)"
proof -
  let ?q = "snd (bq_init n q)"
  have "bq_max_count (snd (snd (queue_calls bq_push bq_poll cs ?q))) = n"
    by (rule queue_calls_preserves) (auto simp: bq_push_eq bq_poll_Some bq_init_def)
  with assms have "bq_max_count q' = n" by simp
  with bq.calls_fifo [OF _ assms] show ?thesis
    by (auto simp: bq_init_def bq_inv_def)
qed

theorem blocking_queue_fifo_witness:
  "\<exists>q'. queue_calls bq_push bq_poll [Some 1, Some 2, Some 3, None, Some 4, None]
       (snd (bq_init 2 mk_blocking_queue)) = ([1, 2, 4 :: nat], [1, 2], q') \<and>
     [1, 2] @ bq_queue q' = [1, 2, 4] \<and> length (bq_queue q') \<le> 2"
proof -
  obtain q' where run: "queue_calls bq_push bq_poll [Some 1, Some 2, Some 3, None, Some 4, None]
       (snd (bq_init 2 mk_blocking_queue)) = ([1, 2, 4 :: nat], [1, 2], q')"
    by (simp add: bq_init_def mk_blocking_queue_def bq_push_def bq_poll_def bq_pop_def)
  from blocking_queue_fifo [OF run] run show ?thesis by auto
qed

end
