(* ===== verification/ThreadPool.thy ===== *)
theory ThreadPool
  imports BlockingQueue
begin

text \<open>
  \<^verbatim>\<open>code/ThreadPool.h\<close> and \<^verbatim>\<open>code/ThreadPool.cpp\<close>: a fixed number of threads that take tasks from one blocking
  queue.

  A thread is in one of the places of \<^verbatim>\<open>run\<close> that matter to the others: about to lock the queue, asleep
  in \<^verbatim>\<open>cond_.wait\<close>, woken up and about to look at the queue again, running a task, or returned. The
  operations of the pool and of its threads interleave as the step relation \<open>pool_step\<close> says; each step
  is what one thread does under the mutex of the queue, or outside it without touching shared state.
  \<^verbatim>\<open>notify_one\<close> wakes some sleeping thread, \<^verbatim>\<open>notify_all\<close> all of them, and a thread may also wake up for
  no reason. A task is a \<^verbatim>\<open>std::function\<close>, which may be empty.

  The fields \<open>accepted\<close> and \<open>taken\<close> record, for the proofs only, the tasks that were put into the queue
  and taken out of it since the last \<^verbatim>\<open>start\<close>.
\<close>

section \<open>State\<close>

datatype 'k thread_state = Popping | Waiting | Woken | Running 'k | Finished

record 'k pool =
  tasks :: "'k option blocking_queue"
  threads :: "'k thread_state list"
  accepted :: "'k option list"
  taken :: "'k option list"

definition mk_pool :: "'k pool" where
  "mk_pool = \<lparr>tasks = mk_blocking_queue, threads = [], accepted = [], taken = []\<rparr>"

section \<open>Operations\<close>

definition add_thread :: "size_t \<Rightarrow> 'k pool \<Rightarrow> int \<times> 'k pool" where
  "add_thread num p = (0, p\<lparr>threads := threads p @ replicate (unat num) Popping\<rparr>)"

definition pool_start :: "size_t \<Rightarrow> size_t \<Rightarrow> bool \<Rightarrow> 'k pool \<Rightarrow> int \<times> 'k pool" where
  "pool_start thread_num max_task grow p =
     (if thread_num < 1 \<or> threads p \<noteq> [] then (- 1, p)
      else add_thread thread_num
        (p\<lparr>tasks := snd (bq_init max_task (tasks p)), accepted := [], taken := []\<rparr>))"

text \<open>\<^verbatim>\<open>append\<close>, up to the notification: whether the task was accepted, and the pool.\<close>

definition pool_append :: "'k option \<Rightarrow> 'k pool \<Rightarrow> bool \<times> 'k pool" where
  "pool_append task p =
     (let (ok, q) = bq_push task (tasks p)
      in (ok, p\<lparr>tasks := q, accepted := (if ok then accepted p @ [task] else accepted p)\<rparr>))"

text \<open>\<^verbatim>\<open>notify_all\<close>.\<close>

fun wake :: "'k thread_state \<Rightarrow> 'k thread_state" where
  "wake Waiting = Woken"
| "wake t = t"

text \<open>\<^verbatim>\<open>stop\<close> is two steps, since the caller waits for the threads in between: it asks the threads to
  exit, and when they have all returned it forgets them.\<close>

definition pool_stop_request :: "'k pool \<Rightarrow> int \<times> 'k pool" where
  "pool_stop_request p =
     (if threads p = [] then (- 1, p)
      else (0, p\<lparr>tasks := bq_notify_exit (tasks p), threads := map wake (threads p)\<rparr>))"

definition pool_stop_joined :: "'k pool \<Rightarrow> 'k pool" where
  "pool_stop_joined p = p\<lparr>threads := []\<rparr>"

text \<open>Thread \<open>i\<close> in \<^verbatim>\<open>run\<close>, holding the mutex in \<^verbatim>\<open>pop\<close>: it goes to sleep, leaves the loop, or goes on with
  a task; an empty function is skipped.\<close>

definition run_pop :: "nat \<Rightarrow> 'k pool \<Rightarrow> 'k pool" where
  "run_pop i p =
     (case bq_pop (tasks p) of
        (Pop_wait, _) \<Rightarrow> p\<lparr>threads := (threads p)[i := Waiting]\<rparr>
      | (Pop_exit, _) \<Rightarrow> p\<lparr>threads := (threads p)[i := Finished]\<rparr>
      | (Pop_item task, q) \<Rightarrow>
          p\<lparr>tasks := q, taken := taken p @ [task],
            threads := (threads p)[i := (case task of None \<Rightarrow> Popping | Some k \<Rightarrow> Running k)]\<rparr>)"

section \<open>Steps\<close>

text \<open>What the threads of the pool do by themselves.\<close>

inductive thread_step :: "'k pool \<Rightarrow> 'k pool \<Rightarrow> bool" where
  pop: "i < length (threads p) \<Longrightarrow> threads p ! i \<in> {Popping, Woken} \<Longrightarrow> thread_step p (run_pop i p)"
| spurious: "i < length (threads p) \<Longrightarrow> threads p ! i = Waiting \<Longrightarrow>
    thread_step p (p\<lparr>threads := (threads p)[i := Woken]\<rparr>)"
| task_done: "i < length (threads p) \<Longrightarrow> threads p ! i = Running k \<Longrightarrow>
    thread_step p (p\<lparr>threads := (threads p)[i := Popping]\<rparr>)"

text \<open>All steps: those of the threads and the calls of the pool's users.\<close>

inductive pool_step :: "'k pool \<Rightarrow> 'k pool \<Rightarrow> bool" where
  thread: "thread_step p p' \<Longrightarrow> pool_step p p'"
| start: "pool_start n max_task grow p = (r, p') \<Longrightarrow> pool_step p p'"
| refused: "pool_append task p = (False, p') \<Longrightarrow> pool_step p p'"
| unnoticed: "pool_append task p = (True, p') \<Longrightarrow> Waiting \<notin> set (threads p) \<Longrightarrow> pool_step p p'"
| notified: "pool_append task p = (True, p') \<Longrightarrow> i < length (threads p) \<Longrightarrow> threads p ! i = Waiting \<Longrightarrow>
    pool_step p (p'\<lparr>threads := (threads p)[i := Woken]\<rparr>)"
| stop_request: "pool_stop_request p = (r, p') \<Longrightarrow> pool_step p p'"
| stop_joined: "bq_exit (tasks p) \<Longrightarrow> threads p \<noteq> [] \<Longrightarrow> set (threads p) \<subseteq> {Finished} \<Longrightarrow>
    pool_step p (pool_stop_joined p)"

inductive pool_reachable :: "'k pool \<Rightarrow> bool" where
  init: "pool_reachable mk_pool"
| step: "pool_reachable p \<Longrightarrow> pool_step p p' \<Longrightarrow> pool_reachable p'"

inductive_cases thread_stepE: "thread_step p p'"
inductive_cases pool_stepE: "pool_step p p'"

section \<open>Invariant\<close>

abbreviation num_threads :: "'k thread_state \<Rightarrow> 'k pool \<Rightarrow> nat" where
  "num_threads s p \<equiv> count_list (threads p) s"

text \<open>The accounting of tasks, the bound of the queue, and that no wake-up gets lost: while a thread
  sleeps, the pool is not stopping and every task in the queue has a thread that was woken up for it.\<close>

definition pool_inv :: "'k pool \<Rightarrow> bool" where
  "pool_inv p \<longleftrightarrow>
     bq_inv (tasks p) \<and> accepted p = taken p @ bq_queue (tasks p) \<and>
     (Waiting \<in> set (threads p) \<longrightarrow>
        \<not> bq_exit (tasks p) \<and> length (bq_queue (tasks p)) \<le> num_threads Woken p) \<and>
     (Finished \<in> set (threads p) \<longrightarrow> bq_exit (tasks p))"

lemma count_list_update:
  "i < length xs \<Longrightarrow> count_list (xs[i := y]) z + (if xs ! i = z then 1 else 0) =
     count_list xs z + (if y = z then 1 else 0)"
proof (induction xs arbitrary: i)
  case (Cons x xs)
  then show ?case
  proof (cases i)
    case (Suc j)
    with Cons.prems Cons.IH [of j] show ?thesis by (auto split: if_splits)
  qed simp
qed simp

lemma set_update_other: "x \<in> set (xs[i := y]) \<Longrightarrow> x = y \<or> x \<in> set xs"
  using set_update_subset_insert [of xs i y] by auto

lemma wake_image [simp]:
  "Waiting \<notin> wake ` A" "Finished \<in> wake ` A \<longleftrightarrow> Finished \<in> A"
proof -
  have "wake t \<noteq> Waiting" and "wake t = Finished \<longleftrightarrow> t = Finished" for t :: "'a thread_state"
    by (cases t; simp)+
  then show "Waiting \<notin> wake ` A" "Finished \<in> wake ` A \<longleftrightarrow> Finished \<in> A" by (metis imageE, metis imageE imageI)
qed

lemma run_pop_inv:
  assumes "pool_inv p" "i < length (threads p)" "threads p ! i \<in> {Popping, Woken}"
  shows "pool_inv (run_pop i p)"
proof (cases "bq_pop (tasks p)")
  case (Pair r q)
  note count = count_list_update [OF assms(2), of _ Woken]
  show ?thesis
  proof (cases r)
    case Pop_wait
    with Pair have "bq_queue (tasks p) = []" "\<not> bq_exit (tasks p)"
      by (auto simp: bq_pop_def split: if_splits)
    with assms Pair Pop_wait show ?thesis
      by (auto simp: run_pop_def pool_inv_def dest: set_update_other)
  next
    case Pop_exit
    with Pair have "bq_exit (tasks p)" by (auto simp: bq_pop_def split: if_splits)
    with assms Pair Pop_exit show ?thesis
      by (auto simp: run_pop_def pool_inv_def dest: set_update_other)
  next
    case (Pop_item task)
    with Pair have q: "\<not> bq_exit (tasks p)"
      "\<exists>xs. bq_queue (tasks p) = task # xs \<and> q = (tasks p)\<lparr>bq_queue := xs\<rparr>"
      by (simp_all add: bq_pop_item)
    define t where "t = (case task of None \<Rightarrow> Popping | Some k \<Rightarrow> Running k)"
    have t: "t \<noteq> Waiting" "t \<noteq> Finished" "t \<noteq> Woken" by (simp_all add: t_def split: option.splits)
    have "run_pop i p = p\<lparr>tasks := q, taken := taken p @ [task], threads := (threads p)[i := t]\<rparr>"
      using Pair Pop_item by (simp add: run_pop_def t_def)
    with assms(1) q t count [of t] show ?thesis
      by (auto simp: pool_inv_def bq_inv_def dest!: set_update_other split: if_splits)
  qed
qed

lemma thread_step_inv: "thread_step p p' \<Longrightarrow> pool_inv p \<Longrightarrow> pool_inv p'"
proof (induction rule: thread_step.induct)
  case (pop i p)
  then show ?case by (rule run_pop_inv [rotated])
next
  case (spurious i p)
  then show ?case using count_list_update [of i "threads p" Woken Woken]
    by (auto simp: pool_inv_def dest!: set_update_other)
next
  case (task_done i p k)
  then show ?case using count_list_update [of i "threads p" Popping Woken]
    by (auto simp: pool_inv_def dest!: set_update_other)
qed

lemma pool_append_inv:
  assumes "pool_inv p" "pool_append task p = (ok, p')"
  shows "bq_inv (tasks p')" "accepted p' = taken p' @ bq_queue (tasks p')" "threads p' = threads p"
    "bq_exit (tasks p') = bq_exit (tasks p)"
    "length (bq_queue (tasks p')) = length (bq_queue (tasks p)) + (if ok then 1 else 0)"
  using assms bq_push_inv [of "tasks p" task]
  by (auto simp: pool_append_def pool_inv_def bq_push_eq split: if_splits prod.splits)

lemma pool_step_inv: "pool_step p p' \<Longrightarrow> pool_inv p \<Longrightarrow> pool_inv p'"
proof (induction rule: pool_step.induct)
  case (thread p p')
  then show ?case by (rule thread_step_inv)
next
  case (start n max_task grow p r p')
  then show ?case
    by (auto simp: pool_start_def add_thread_def pool_inv_def bq_init_def bq_inv_def split: if_splits)
next
  case (refused task p p')
  note pool_append_inv [OF refused(2,1)]
  with refused show ?case by (simp add: pool_inv_def)
next
  case (unnoticed task p p')
  note pool_append_inv [OF unnoticed(3,1)]
  with unnoticed show ?case by (simp add: pool_inv_def)
next
  case (notified task p p' i)
  note pool_append_inv [OF notified(4,1)]
  with notified count_list_update [of i "threads p" Woken Woken] show ?case
    by (auto simp: pool_inv_def dest!: set_update_other)
next
  case (stop_request p r p')
  then show ?case
    by (auto simp: pool_stop_request_def pool_inv_def bq_notify_exit_def bq_inv_def split: if_splits)
next
  case (stop_joined p)
  then show ?case by (simp add: pool_stop_joined_def pool_inv_def)
qed

lemma mk_pool_inv: "pool_inv mk_pool"
  by (simp add: mk_pool_def pool_inv_def mk_blocking_queue_def bq_inv_def)

lemma pool_reachable_inv: "pool_reachable p \<Longrightarrow> pool_inv p"
  by (induction rule: pool_reachable.induct) (auto intro: mk_pool_inv pool_step_inv)

section \<open>Stopping\<close>

text \<open>The number of steps a thread can still make once the pool is stopping.\<close>

fun steps_left :: "'k thread_state \<Rightarrow> nat" where
  "steps_left Finished = 0"
| "steps_left Popping = 1"
| "steps_left Woken = 1"
| "steps_left Waiting = 2"
| "steps_left (Running k) = 2"

definition pool_steps_left :: "'k pool \<Rightarrow> nat" where
  "pool_steps_left p = sum_list (map steps_left (threads p))"

lemma steps_left_update:
  "i < length ts \<Longrightarrow> sum_list (map steps_left (ts[i := t])) + steps_left (ts ! i) =
     sum_list (map steps_left ts) + steps_left t"
proof (induction ts arbitrary: i)
  case (Cons t ts)
  then show ?case by (cases i) auto
qed simp

lemma run_pop_exit: "bq_exit (tasks p) \<Longrightarrow> run_pop i p = p\<lparr>threads := (threads p)[i := Finished]\<rparr>"
  by (simp add: run_pop_def bq_pop_def)

lemma thread_step_exit:
  assumes "thread_step p p'" "bq_exit (tasks p)"
  shows "bq_exit (tasks p') \<and> pool_steps_left p' < pool_steps_left p \<and>
    length (threads p') = length (threads p)"
  using assms
proof (induction rule: thread_step.induct)
  case (pop i p)
  then show ?case using steps_left_update [of i "threads p" Finished]
    by (auto simp: run_pop_exit pool_steps_left_def)
next
  case (spurious i p)
  then show ?case using steps_left_update [of i "threads p" Woken] by (simp add: pool_steps_left_def)
next
  case (task_done i p k)
  then show ?case using steps_left_update [of i "threads p" Popping] by (simp add: pool_steps_left_def)
qed

lemma thread_steps_exit:
  assumes "(thread_step ^^ n) p p'" "bq_exit (tasks p)"
  shows "bq_exit (tasks p') \<and> n + pool_steps_left p' \<le> pool_steps_left p \<and>
    length (threads p') = length (threads p)"
  using assms
proof (induction n arbitrary: p')
  case (Suc n)
  then obtain p1 where "(thread_step ^^ n) p p1" "thread_step p1 p'" by auto
  with Suc.IH [of p1] Suc.prems(2) thread_step_exit [of p1 p'] show ?case by auto
qed simp

lemma steps_left_le: "steps_left t \<le> 2"
  by (cases t) simp_all

lemma pool_steps_left_le: "pool_steps_left p \<le> 2 * length (threads p)"
proof -
  have "sum_list (map steps_left ts) \<le> 2 * length ts" for ts :: "'k thread_state list"
  proof (induction ts)
    case (Cons t ts)
    then show ?case using steps_left_le [of t] by simp
  qed simp
  then show ?thesis by (simp add: pool_steps_left_def)
qed

lemma stuck_thread: "\<not> (\<exists>p'. thread_step p p') \<Longrightarrow> set (threads p) \<subseteq> {Finished}"
proof
  fix t assume stuck: "\<not> (\<exists>p'. thread_step p p')" and "t \<in> set (threads p)"
  then obtain i where i: "i < length (threads p)" "threads p ! i = t" by (metis in_set_conv_nth)
  with stuck show "t \<in> {Finished}"
    by (cases t) (metis insertCI pop, metis spurious, metis insertCI pop, metis task_done, simp)
qed

section \<open>Properties\<close>

text \<open>C3: Accounting of tasks. In every reachable state of the pool, under every interleaving of its users
  and threads, the tasks that were taken by the threads followed by those in the queue are exactly the
  tasks that \<^verbatim>\<open>append\<close> accepted since the last \<^verbatim>\<open>start\<close>, in the same order: none is lost, run twice or
  overtaken. A positive bound on the queue is never exceeded.\<close>

theorem pool_tasks_in_order:
  assumes "pool_reachable p"
  shows "taken p @ bq_queue (tasks p) = accepted p \<and>
    (bq_max_count (tasks p) = 0 \<or> length (bq_queue (tasks p)) \<le> unat (bq_max_count (tasks p)))"
  using pool_reachable_inv [OF assms] by (simp add: pool_inv_def bq_inv_def)

text \<open>A pool of one thread with two tasks in its queue.\<close>

definition busy_pool :: "nat pool" where
  "busy_pool = snd (pool_append (Some 2) (snd (pool_append (Some 1) (snd (pool_start 1 8 False mk_pool)))))"

lemma busy_pool_eq:
  "busy_pool = \<lparr>tasks = \<lparr>bq_queue = [Some 1, Some 2], bq_max_count = 8, bq_exit = False\<rparr>, threads = [Popping],
     accepted = [Some 1, Some 2], taken = []\<rparr>"
  by (simp add: busy_pool_def pool_append_def pool_start_def add_thread_def mk_pool_def
      mk_blocking_queue_def bq_init_def bq_push_def)

lemma busy_pool_reachable: "pool_reachable busy_pool"
proof -
  let ?p1 = "snd (pool_start 1 8 False mk_pool) :: nat pool" and ?p2 = "snd (pool_append (Some 1) (snd (pool_start 1 8 False mk_pool))) :: nat pool"
  have "pool_reachable ?p1"
    by (rule pool_reachable.step [OF pool_reachable.init pool_step.start [of 1 8 False _ 0]])
      (simp add: pool_start_def mk_pool_def add_thread_def)
  then have "pool_reachable ?p2"
    by (rule pool_reachable.step [OF _ pool_step.unnoticed [of "Some 1"]])
      (simp_all add: pool_append_def pool_start_def mk_pool_def add_thread_def bq_init_def bq_push_def)
  then show ?thesis
    by (rule pool_reachable.step [OF _ pool_step.unnoticed [of "Some 2"]])
      (simp_all add: busy_pool_def pool_append_def pool_start_def mk_pool_def add_thread_def bq_init_def
        bq_push_def)
qed

theorem pool_tasks_in_order_witness:
  "pool_reachable busy_pool \<and> taken busy_pool @ bq_queue (tasks busy_pool) = accepted busy_pool \<and>
   accepted busy_pool = [Some 1, Some 2] \<and> length (bq_queue (tasks busy_pool)) \<le> 8"
  using pool_tasks_in_order [OF busy_pool_reachable] busy_pool_reachable by (simp add: busy_pool_eq)

text \<open>C4: No wake-up is lost. While the queue holds a task and the pool is not asked to stop, either some
  thread is running a task or some thread can take the next task at once: it never happens that all
  threads sleep beside a task.\<close>

theorem pool_no_lost_wakeup:
  assumes "pool_reachable p" "threads p \<noteq> []" "bq_queue (tasks p) = task # rest" "\<not> bq_exit (tasks p)"
  shows "\<exists>i < length (threads p). (\<exists>k. threads p ! i = Running k) \<or>
    (threads p ! i \<in> {Popping, Woken} \<and> thread_step p (run_pop i p) \<and>
       taken (run_pop i p) = taken p @ [task])"
proof -
  note inv = pool_reachable_inv [OF assms(1)]
  have "\<exists>t \<in> set (threads p). t \<noteq> Waiting \<and> t \<noteq> Finished"
  proof (cases "Waiting \<in> set (threads p)")
    case True
    with inv assms(3) have "0 < num_threads Woken p" by (auto simp: pool_inv_def)
    then have "Woken \<in> set (threads p)" by (metis count_notin less_irrefl)
    then show ?thesis by (rule bexI [rotated]) simp
  next
    case False
    moreover have "Finished \<notin> set (threads p)" using inv assms(4) by (auto simp: pool_inv_def)
    moreover have "hd (threads p) \<in> set (threads p)" using assms(2) by simp
    ultimately show ?thesis by metis
  qed
  then obtain i where i: "i < length (threads p)" "threads p ! i \<noteq> Waiting" "threads p ! i \<noteq> Finished"
    by (metis in_set_conv_nth)
  have "taken (run_pop i p) = taken p @ [task]"
    using assms(3,4) by (simp add: run_pop_def bq_pop_def)
  with i pop [of i p] show ?thesis by (cases "threads p ! i") auto
qed

theorem pool_no_lost_wakeup_witness:
  "pool_reachable busy_pool \<and> (\<exists>i < 1. (\<exists>k. threads busy_pool ! i = Running k) \<or>
    (threads busy_pool ! i \<in> {Popping, Woken} \<and> thread_step busy_pool (run_pop i busy_pool) \<and>
       taken (run_pop i busy_pool) = [Some 1]))"
proof -
  have "length (threads busy_pool) = 1" "taken busy_pool = []" by (simp_all add: busy_pool_eq)
  moreover note pool_no_lost_wakeup [OF busy_pool_reachable, of "Some 1" "[Some 2]"]
  ultimately show ?thesis using busy_pool_reachable by (simp add: busy_pool_eq)
qed



end
