(* ===== verification/Http_Server.thy ===== *)
theory Http_Server
  imports Http_Data Http_Safety TcpServer ThreadPool
begin

text \<open>
  The HTTP server of \<^verbatim>\<open>examples/http\<close>: \<^verbatim>\<open>HttpRequest\<close>, \<^verbatim>\<open>HttpResponse\<close>, \<^verbatim>\<open>HttpTask\<close> and \<^verbatim>\<open>HttpServer\<close>, on top of the parser,
  the buffer, the TCP server and the thread pool.

  A task is its parser, whose \<^verbatim>\<open>data\<close> points back to the task: the record \<open>task_data\<close> holds the other members
  and is the application data of the parser. What a task or the server asks of its connection is a list of
  \<open>app_call\<close>, which the connection runs. The exception that a vector raises in \<^verbatim>\<open>on_body\<close> passes through the
  parser; the model keeps it in \<open>tk_fault\<close> until the parser returns. The user's callbacks \<^verbatim>\<open>http_cb\<close> and
  \<^verbatim>\<open>http_send_cb\<close> see the public members of the task; they are functions on \<open>task_data\<close>.
  The headers of a response are traversed in the order of a hash table, which is an argument. Logging is
  left out.
\<close>

section \<open>Requests and responses\<close>

record http_request =
  rq_method :: string
  rq_url :: string
  rq_keep_alive :: bool
  rq_headers :: "string \<Rightarrow> string option"
  rq_body :: buffer

record http_response =
  rs_code :: int
  rs_close_connection :: bool
  rs_content_type :: string
  rs_content_len :: uint32
  rs_headers :: "string \<Rightarrow> string option"
  rs_body :: buffer

datatype http_error =
    Parser_fault
  | Body_fault buffer_error
  | Response_fault buffer_error
  | Bad_status
  | Bad_any_cast

definition http_request_init :: "http_request \<Rightarrow> http_request" where
  "http_request_init r =
     r\<lparr>rq_method := [], rq_url := [], rq_keep_alive := False, rq_headers := (\<lambda>_. None),
       rq_body := has_readall (rq_body r)\<rparr>"

definition get_header :: "http_request \<Rightarrow> string \<Rightarrow> string option" where
  "get_header r key = rq_headers r key"

definition http_response_init :: "http_response \<Rightarrow> http_response" where
  "http_response_init r =
     r\<lparr>rs_code := 200, rs_close_connection := True, rs_content_type := [], rs_content_len := 0,
       rs_headers := (\<lambda>_. None), rs_body := has_readall (rs_body r)\<rparr>"

definition set_header :: "string \<Rightarrow> string \<Rightarrow> http_response \<Rightarrow> http_response" where
  "set_header key val r = r\<lparr>rs_headers := (rs_headers r)(key \<mapsto> val)\<rparr>"

definition CodeStatus :: "(int \<times> string) list" where
  "CodeStatus = [(200, ''OK''), (400, ''Bad Request''), (403, ''Forbidden''), (404, ''Not Found'')]"

text \<open>The lines of a response up to its body, as \<^verbatim>\<open>make_buffer\<close> writes them; \<open>order\<close> is the traversal of the
  headers.\<close>

definition header_line :: "http_response \<Rightarrow> string \<Rightarrow> string" where
  "header_line r key = key @ '': '' @ (case rs_headers r key of None \<Rightarrow> [] | Some v \<Rightarrow> v) @ [CR, LF]"

definition response_lines :: "string list \<Rightarrow> string \<Rightarrow> http_response \<Rightarrow> string list" where
  "response_lines order status r =
     [''HTTP/1.1 '' @ fmt_uint (of_int (rs_code r)) @ '' '' @ status @ [CR, LF]] @
     map (header_line r) order @
     [if rs_close_connection r then ''Connection: close'' @ [CR, LF] else ''Connection: Keep-Alive'' @ [CR, LF]] @
     (if rs_content_type r \<noteq> [] then [''Content-type: '' @ rs_content_type r @ [CR, LF]] else []) @
     (if rs_content_len r > 0 then [''Content-length: '' @ fmt_uint (ucast (rs_content_len r)) @ [CR, LF]] else []) @
     [[CR, LF]]"

text \<open>\<^verbatim>\<open>make_buffer\<close>; for a code that is not in the table it dereferences the end iterator.\<close>

definition make_buffer :: "string list \<Rightarrow> http_response \<Rightarrow> buffer \<Rightarrow> http_error + buffer" where
  "make_buffer order r b =
     (case map_of CodeStatus (rs_code r) of
        None \<Rightarrow> Inl Bad_status
      | Some status \<Rightarrow>
          (case bindE (foldE write_str b (response_lines order status r)) (\<lambda>b.
                bindE (read_at (rs_body r) (readable_bytes (rs_body r))) (\<lambda>body.
                write_data b (Some body) (readable_bytes (rs_body r)))) of
             Inl err \<Rightarrow> Inl (Response_fault err)
           | Inr b' \<Rightarrow> Inr b'))"

section \<open>Tasks\<close>

record task_data =
  tk_header_field :: string
  tk_completed :: bool
  tk_request :: http_request
  tk_response :: http_response
  tk_send_progressively :: bool
  tk_context :: "nat option"
  tk_fault :: "buffer_error option"

type_synonym http_task = "task_data http_parser"

text \<open>The constructor leaves the scalar members as they are in the memory \<open>g\<close>.\<close>

definition mk_task :: "http_task \<Rightarrow> http_task" where
  "mk_task g =
     (let d = hp_data g
      in g\<lparr>hp_data := d\<lparr>tk_header_field := [],
             tk_request := (tk_request d)\<lparr>rq_method := [], rq_url := [], rq_headers := (\<lambda>_. None),
               rq_body := mk_buffer InitialSize\<rparr>,
             tk_response := (tk_response d)\<lparr>rs_content_type := [], rs_headers := (\<lambda>_. None),
               rs_body := mk_buffer InitialSize\<rparr>, tk_fault := None\<rparr>\<rparr>)"

definition task_init :: "http_task \<Rightarrow> http_task" where
  "task_init t =
     (let d = hp_data t
      in (http_parser_init t HTTP_REQUEST)\<lparr>hp_data :=
            d\<lparr>tk_header_field := [], tk_completed := False, tk_request := http_request_init (tk_request d),
              tk_response := http_response_init (tk_response d), tk_send_progressively := False,
              tk_context := None\<rparr>\<rparr>)"

text \<open>The callbacks of the parser.\<close>

definition with_task :: "(task_data \<Rightarrow> task_data) \<Rightarrow> http_task \<Rightarrow> int \<times> http_task" where
  "with_task f t = (0, t\<lparr>hp_data := f (hp_data t)\<rparr>)"

definition task_on_message_begin :: "http_task \<Rightarrow> int \<times> http_task" where
  "task_on_message_begin t = (0, t)"

definition task_on_url :: "http_task \<Rightarrow> char list \<Rightarrow> int \<times> http_task" where
  "task_on_url t str = with_task (\<lambda>d. d\<lparr>tk_request := (tk_request d)\<lparr>rq_url := str\<rparr>\<rparr>) t"

definition task_on_status :: "http_task \<Rightarrow> char list \<Rightarrow> int \<times> http_task" where
  "task_on_status t str = (0, t)"

definition task_on_header_field :: "http_task \<Rightarrow> char list \<Rightarrow> int \<times> http_task" where
  "task_on_header_field t str = with_task (\<lambda>d. d\<lparr>tk_header_field := str\<rparr>) t"

definition task_on_header_value :: "http_task \<Rightarrow> char list \<Rightarrow> int \<times> http_task" where
  "task_on_header_value t str =
     with_task (\<lambda>d. d\<lparr>tk_request := (tk_request d)\<lparr>rq_headers :=
       (rq_headers (tk_request d))(tk_header_field d \<mapsto> str)\<rparr>\<rparr>) t"

definition task_on_headers_complete :: "http_task \<Rightarrow> int \<times> http_task" where
  "task_on_headers_complete t =
     with_task (\<lambda>d. d\<lparr>tk_request := (tk_request d)\<lparr>rq_method := http_method_str (hp_method t),
       rq_keep_alive := http_should_keep_alive t\<rparr>\<rparr>) t"

definition append_body :: "char list \<Rightarrow> task_data \<Rightarrow> task_data" where
  "append_body str d =
     (if tk_fault d \<noteq> None then d
      else
        (case write_data (rq_body (tk_request d)) (Some str) (of_nat (length str)) of
           Inl err \<Rightarrow> d\<lparr>tk_fault := Some err\<rparr>
         | Inr b \<Rightarrow> d\<lparr>tk_request := (tk_request d)\<lparr>rq_body := b\<rparr>\<rparr>))"

definition task_on_body :: "http_task \<Rightarrow> char list \<Rightarrow> int \<times> http_task" where
  "task_on_body t str = with_task (append_body str) t"

definition task_on_message_complete :: "http_task \<Rightarrow> int \<times> http_task" where
  "task_on_message_complete t = with_task (\<lambda>d. d\<lparr>tk_completed := True\<rparr>) t"

definition parser_settings :: "task_data http_parser_settings" where
  "parser_settings =
     \<lparr>on_message_begin = Some task_on_message_begin, on_url = Some task_on_url, on_status = Some task_on_status,
      on_header_field = Some task_on_header_field, on_header_value = Some task_on_header_value,
      on_headers_complete = Some task_on_headers_complete, on_body = Some task_on_body,
      on_message_complete = Some task_on_message_complete, on_chunk_header = None, on_chunk_complete = None\<rparr>"

text \<open>\<^verbatim>\<open>parse\<close>: whether it succeeded, and what it consumes of the buffer. Four passes per byte and four more
  are enough for the parser.\<close>

definition task_parse :: "buffer \<Rightarrow> http_task \<Rightarrow> http_error + bool \<times> app_call list \<times> http_task" where
  "task_parse b t =
     (case read_at b (readable_bytes b) of
        Inl err \<Rightarrow> Inl Parser_fault
      | Inr data \<Rightarrow>
          (case http_parser_execute (4 * (length data + 1)) HTTP_MAX_HEADER_SIZE t parser_settings data of
             Some (Return nparsed t1) \<Rightarrow>
               (case tk_fault (hp_data t1) of
                  Some err \<Rightarrow> Inl (Body_fault err)
                | None \<Rightarrow>
                    if hp_errno t1 \<noteq> HPE_OK then Inr (False, [], t1)
                    else Inr (True, [Consume (of_nat nparsed)], t1))
           | _ \<Rightarrow> Inl Parser_fault))"

text \<open>\<^verbatim>\<open>on_request\<close> and \<^verbatim>\<open>on_send_progressively\<close>; \<open>alive\<close> says that the weak pointer to the connection can be locked.\<close>

definition task_on_request ::
    "bool \<Rightarrow> (task_data \<Rightarrow> task_data) \<Rightarrow> string list \<Rightarrow> http_task \<Rightarrow> http_error + app_call list \<times> http_task" where
  "task_on_request alive http_cb order t =
     (if alive then
        (let t1 = t\<lparr>hp_data := http_cb (hp_data t)\<rparr>
         in bindE (make_buffer order (tk_response (hp_data t1)) (mk_buffer InitialSize)) (\<lambda>b.
            Inr ([Send_buffer (Some b)], t1)))
      else Inr ([], t))"

definition task_on_send_progressively ::
    "bool \<Rightarrow> (task_data \<Rightarrow> buffer \<Rightarrow> task_data \<times> buffer) \<Rightarrow> http_task \<Rightarrow> app_call list \<times> http_task" where
  "task_on_send_progressively alive http_send_cb t =
     (if alive then
        (let (d, b) = http_send_cb (hp_data t) (mk_buffer InitialSize); t1 = t\<lparr>hp_data := d\<rparr>
         in if readable_bytes b > 0 then ([Send_buffer (Some b)], t1)
            else if rs_close_connection (tk_response d) then ([Close], t1)
            else ([], task_init t1))
      else ([], t))"

section \<open>The server\<close>

text \<open>The tasks that are handed to the worker threads, by the connection they belong to.\<close>

datatype http_work = On_request nat | On_send_progressively nat

record http_server =
  hs_server :: tcp_server
  hs_workers :: "http_work pool"
  hs_num_workers :: size_t
  hs_tasks :: "nat \<Rightarrow> http_task option"

definition mk_http_server :: "nat \<Rightarrow> http_server" where
  "mk_http_server loop =
     \<lparr>hs_server = mk_server loop ''HttpServer'', hs_workers = mk_pool, hs_num_workers = 0, hs_tasks = (\<lambda>_. None)\<rparr>"

text \<open>\<^verbatim>\<open>start\<close>. When listening fails the workers are asked to stop; that they do is the thread pool's part.\<close>

definition http_start ::
    "(acceptor_step \<Rightarrow> bool) \<Rightarrow> (nat \<Rightarrow> nat) \<Rightarrow> string option \<Rightarrow> uint16 \<Rightarrow> size_t \<Rightarrow> size_t \<Rightarrow> http_server \<Rightarrow>
     bool \<times> server_op list \<times> http_server" where
  "http_start fails new_at ip prt n_io n_worker s =
     (let s1 = s\<lparr>hs_num_workers := n_worker\<rparr>;
          (started, workers) = (if n_worker > 0 then pool_start n_worker 100000 False (hs_workers s1) else (0, hs_workers s1));
          s2 = s1\<lparr>hs_workers := workers\<rparr>
      in if started \<noteq> 0 then (False, [], s2)
         else
           (let (ok, ops, srv) = server_start fails new_at ip prt (set_io_threads n_io (hs_server s2));
                s3 = s2\<lparr>hs_server := srv\<rparr>
            in if ok then (True, ops, s3)
               else (False, ops, s3\<lparr>hs_workers := snd (pool_stop_request (hs_workers s3))\<rparr>)))"

text \<open>The callbacks of the TCP server, for the connection at \<open>p\<close>. \<open>g\<close> is the memory of a new task.\<close>

definition http_on_connection :: "nat \<Rightarrow> bool \<Rightarrow> http_task \<Rightarrow> http_server \<Rightarrow> http_server" where
  "http_on_connection p is_connected g s =
     (if is_connected then s\<lparr>hs_tasks := (hs_tasks s)(p \<mapsto> task_init (mk_task g))\<rparr> else s)"

definition bad_request :: "app_call list" where
  "bad_request = [Send_data (Some (''HTTP/1.1 400 Bad Request'' @ [CR, LF, CR, LF])) 28, Close]"

definition http_on_recv ::
    "(task_data \<Rightarrow> task_data) \<Rightarrow> string list \<Rightarrow> nat \<Rightarrow> buffer \<Rightarrow> http_server \<Rightarrow>
     http_error + app_call list \<times> http_server" where
  "http_on_recv http_cb order p b s =
     (case hs_tasks s p of
        None \<Rightarrow> Inl Bad_any_cast
      | Some t \<Rightarrow>
          bindE (task_parse b t) (\<lambda>(ok, calls, t1).
          let calls1 = calls @ (if ok then [] else bad_request);
              s1 = s\<lparr>hs_tasks := (hs_tasks s)(p \<mapsto> t1)\<rparr>
          in if tk_completed (hp_data t1) then
               (if hs_num_workers s > 0
                then Inr (calls1, s1\<lparr>hs_workers := snd (pool_append (Some (On_request p)) (hs_workers s1))\<rparr>)
                else bindE (task_on_request True http_cb order t1) (\<lambda>(calls2, t2).
                       Inr (calls1 @ calls2, s1\<lparr>hs_tasks := (hs_tasks s1)(p \<mapsto> t2)\<rparr>)))
             else Inr (calls1, s1)))"

definition http_on_sendcomplete ::
    "(task_data \<Rightarrow> buffer \<Rightarrow> task_data \<times> buffer) \<Rightarrow> nat \<Rightarrow> http_server \<Rightarrow> http_error + app_call list \<times> http_server" where
  "http_on_sendcomplete http_send_cb p s =
     (case hs_tasks s p of
        None \<Rightarrow> Inl Bad_any_cast
      | Some t \<Rightarrow>
          Inr (if tk_send_progressively (hp_data t) then
                 (if hs_num_workers s > 0
                  then ([], s\<lparr>hs_workers := snd (pool_append (Some (On_send_progressively p)) (hs_workers s))\<rparr>)
                  else
                    (let (calls, t1) = task_on_send_progressively True http_send_cb t
                     in (calls, s\<lparr>hs_tasks := (hs_tasks s)(p \<mapsto> t1)\<rparr>)))
               else ([], s)))"

section \<open>The callbacks keep the contract of the parser\<close>

lemma with_task_form: "\<exists>r d err. with_task f t = (r, t\<lparr>hp_errno := err, hp_data := d\<rparr>)"
  by (intro exI [of _ 0] exI [of _ "f (hp_data t)"] exI [of _ "hp_errno t"]) (simp add: with_task_def)

lemma no_change_form: "\<exists>r d err. (0, t) = (r, t\<lparr>hp_errno := err, hp_data := d\<rparr>)"
  by (intro exI [of _ 0] exI [of _ "hp_data t"] exI [of _ "hp_errno t"]) simp

lemmas task_callback_defs = task_on_message_begin_def task_on_url_def task_on_status_def task_on_header_field_def
  task_on_header_value_def task_on_headers_complete_def task_on_body_def task_on_message_complete_def

lemma task_callbacks_ok:
  "cb_ok (Some task_on_message_begin)" "cb_ok (Some task_on_headers_complete)"
  "cb_ok (Some task_on_message_complete)" "data_cb_ok (Some task_on_url)" "data_cb_ok (Some task_on_status)"
  "data_cb_ok (Some task_on_header_field)" "data_cb_ok (Some task_on_header_value)" "data_cb_ok (Some task_on_body)"
  by (simp_all only: cb_ok_def data_cb_ok_def task_callback_defs option.inject simp_thms all_simps)
    (intro allI impI with_task_form no_change_form)+

lemma settings_ok_task: "settings_ok parser_settings"
  using task_callbacks_ok by (simp add: settings_ok_def parser_settings_def cb_ok_def)

text \<open>A completed task stays completed, until it is initialised again.\<close>

interpretation completed: data_invariant tk_completed parser_settings
proof
  fix m
  show "data_cb_keeps tk_completed (data_cb m parser_settings)"
    by (cases m) (simp_all add: data_cb_keeps_def parser_settings_def task_callback_defs with_task_def append_body_def
        split: sum.split)
qed (simp_all add: cb_keeps_def parser_settings_def task_callback_defs with_task_def)

text \<open>Writing keeps the invariant of a buffer whenever it does not raise, however large the data.\<close>

lemma write_data_inv:
  assumes "buffer_inv b" "write_data b d n = Inr b'"
  shows "buffer_inv b'"
proof (cases "d = None \<or> n = 0")
  case True
  with assms show ?thesis by (cases d) (auto simp: write_data_def)
next
  case False
  then obtain ds where d: "d = Some ds" "n \<noteq> 0" by auto
  from assms(2) d obtain b1 where b1: "ensure_writable b n = Inr b1" "unat n \<le> length ds"
      "unat (write_index b1) + unat n \<le> length (buff b1)"
      "b' = has_written (b1\<lparr>buff := splice_at (unat (write_index b1)) (take (unat n) ds) (buff b1)\<rparr>) n"
    by (auto simp: write_data_def split: if_splits)
  have "buffer_inv b1"
  proof (cases "fits b (unat n)")
    case True
    with ensure_writable_room [OF assms(1) True] b1(1) show ?thesis by (auto simp: made_room_def)
  next
    case False
    then have big: "vector_max_size < unat (write_index b) + unat n" by (simp add: fits_def)
    have full: "n > writable_bytes b"
      using assms(1) big by (auto elim!: buffer_invE simp: word_less_nat_alt)
    have sum: "unat (read_index b + writable_bytes b) = unat (read_index b) + unat (writable_bytes b)"
      using assms(1) by (auto elim!: buffer_invE intro!: unat_add_no_wrap)
    have "\<not> read_index b + writable_bytes b < n"
    proof
      assume grow: "read_index b + writable_bytes b < n"
      with full b1(1) have "write_index b1 = write_index b" "length (buff b1) = unat (write_index b + n)"
        "unat (write_index b + n) \<le> vector_max_size"
        by (auto simp: ensure_writable_def make_space_def resize_buff_def split: if_splits)
      with b1(3) big show False by simp
    qed
    then show ?thesis
      using made_room_compact [OF assms(1), of n] full sum b1(1)
      by (auto simp: ensure_writable_def make_space_def Let_def made_room_def word_less_nat_alt split: if_splits)
  qed
  moreover from this b1(3) have "unat n \<le> unat (writable_bytes b1)" by (auto elim!: buffer_invE)
  ultimately show ?thesis using splice_written [of b1 "take (unat n) ds" n] b1(2,4) by simp
qed

text \<open>The body of the request of a task is a proper buffer.\<close>

definition body_ok :: "task_data \<Rightarrow> bool" where
  "body_ok d \<longleftrightarrow> tk_fault d \<noteq> None \<or> buffer_inv (rq_body (tk_request d))"

lemma append_body_ok: "body_ok d \<Longrightarrow> body_ok (append_body str d)"
  by (auto simp: body_ok_def append_body_def split: sum.split intro: write_data_inv)

interpretation body: data_invariant body_ok parser_settings
proof
  fix m
  show "data_cb_keeps body_ok (data_cb m parser_settings)"
    by (cases m) (simp_all add: data_cb_keeps_def parser_settings_def task_callback_defs with_task_def append_body_ok,
      simp_all add: body_ok_def)
qed (simp_all add: cb_keeps_def parser_settings_def task_callback_defs with_task_def body_ok_def)

section \<open>Parsing\<close>

definition task_ok :: "http_task \<Rightarrow> bool" where
  "task_ok t \<longleftrightarrow> parser_ok t \<and> tk_fault (hp_data t) = None \<and> buffer_inv (rq_body (tk_request (hp_data t)))"

lemma parser_ok_data [simp]: "parser_ok (t\<lparr>hp_data := d\<rparr>) = parser_ok t"
  by (simp add: parser_ok_def)

lemma task_init_ok: "task_ok (task_init (mk_task g))"
  by (simp add: task_ok_def task_init_def mk_task_def Let_def http_request_init_def has_readall_inv mk_buffer_inv
      InitialSize_def parser_ok_def st_ok_def http_parser_init_def)

lemma task_parse_execute:
  assumes "buffer_inv b"
  shows "task_parse b t =
    (case http_parser_execute (4 * (length (contents b) + 1)) HTTP_MAX_HEADER_SIZE t parser_settings (contents b) of
       Some (Return nparsed t1) \<Rightarrow>
         (case tk_fault (hp_data t1) of
            Some err \<Rightarrow> Inl (Body_fault err)
          | None \<Rightarrow> if hp_errno t1 \<noteq> HPE_OK then Inr (False, [], t1) else Inr (True, [Consume (of_nat nparsed)], t1))
     | _ \<Rightarrow> Inl Parser_fault)"
  by (simp add: task_parse_def read_at_contents [OF assms])

lemma task_parse_ok:
  assumes "task_ok t" "buffer_inv b"
  shows "(\<exists>err. task_parse b t = Inl (Body_fault err)) \<or>
    (\<exists>ok calls t'. task_parse b t = Inr (ok, calls, t') \<and> task_ok t' \<and> list_all valid_call calls \<and>
       (ok \<longrightarrow> hp_upgrade t' \<or> calls = [Consume (readable_bytes b)]))"
proof -
  have len: "length (contents b) < 2 ^ 64" using assms(2) unat_lt_size_t [of "readable_bytes b"] by simp
  from execute_result [OF _ settings_ok_task len, of t "4 * (length (contents b) + 1)" HTTP_MAX_HEADER_SIZE] assms(1)
  obtain n t' where r: "http_parser_execute (4 * (length (contents b) + 1)) HTTP_MAX_HEADER_SIZE t parser_settings (contents b) =
      Some (Return n t')" "parser_ok t'"
      "hp_errno t = HPE_OK \<and> hp_errno t' = HPE_OK \<longrightarrow> hp_upgrade t' \<or> n = length (contents b)"
    by (auto simp: task_ok_def)
  have body: "body_ok (hp_data t')" using body.execute_keeps [OF _ r(1)] assms(1) by (simp add: task_ok_def body_ok_def)
  have len: "of_nat (length (contents b)) = readable_bytes b" using assms(2) by simp
  have parse: "task_parse b t =
      (case tk_fault (hp_data t') of
         Some err \<Rightarrow> Inl (Body_fault err)
       | None \<Rightarrow> if hp_errno t' \<noteq> HPE_OK then Inr (False, [], t') else Inr (True, [Consume (of_nat n)], t'))"
    unfolding task_parse_execute [OF assms(2)] r(1) by simp
  show ?thesis
  proof (cases "tk_fault (hp_data t')")
    case (Some err)
    then show ?thesis by (simp add: parse)
  next
    case None
    with body r(2) have ok: "task_ok t'" by (simp add: task_ok_def body_ok_def)
    show ?thesis
    proof (cases "hp_errno t' = HPE_OK")
      case True
      then have "hp_errno t = HPE_OK" using r(1) by (auto simp: http_parser_execute_def split: if_splits)
      with True r(3) have "hp_upgrade t' \<or> n = length (contents b)" by simp
      with True None ok len show ?thesis by (auto simp: parse)
    next
      case False
      with None have "task_parse b t = Inr (False, [], t')" by (simp add: parse)
      with ok show ?thesis by fastforce
    qed
  qed
qed

section \<open>Responses\<close>

text \<open>The bytes of a response.\<close>

definition response_text :: "string list \<Rightarrow> string \<Rightarrow> http_response \<Rightarrow> string" where
  "response_text order status r =
     ''HTTP/1.1 '' @ decimal_string (nat (rs_code r)) @ '' '' @ status @ [CR, LF] @
     concat (map (header_line r) order) @
     (if rs_close_connection r then ''Connection: close'' else ''Connection: Keep-Alive'') @ [CR, LF] @
     (if rs_content_type r = [] then [] else ''Content-type: '' @ rs_content_type r @ [CR, LF]) @
     (if rs_content_len r = 0 then [] else ''Content-length: '' @ decimal_string (unat (rs_content_len r)) @ [CR, LF]) @
     [CR, LF] @ contents (rs_body r)"

lemma known_code: "map_of CodeStatus k = Some status \<Longrightarrow> k \<in> {200, 400, 403, 404}"
  by (auto simp: CodeStatus_def split: if_splits)

lemma code_digits: "map_of CodeStatus k = Some status \<Longrightarrow> fmt_uint (of_int k) = decimal_string (nat k)"
  using known_code [of k status] by (auto simp: fmt_uint_eq)

lemma response_lines_text:
  assumes "map_of CodeStatus (rs_code r) = Some status"
  shows "concat (response_lines order status r @ [contents (rs_body r)]) = response_text order status r"
  by (simp add: response_lines_def response_text_def code_digits [OF assms] word_gt_0
      fmt_uint_eq [of "ucast (rs_content_len r)"] unat_ucast_32_64)

lemma make_buffer_writes:
  assumes "buffer_inv b" "buffer_inv (rs_body r)" "map_of CodeStatus (rs_code r) = Some status"
    "fits b (length (response_text order status r))"
  shows "\<exists>b'. make_buffer order r b = Inr b' \<and> buffer_inv b' \<and> contents b' = contents b @ response_text order status r"
proof -
  let ?ss = "response_lines order status r @ [contents (rs_body r)]"
  note whole = response_lines_text [OF assms(3), of order]
  have "fits b (length (concat ?ss))" using assms(4) unfolding whole .
  from write_strs_append [OF assms(1) this] obtain b' where b': "foldE write_str b ?ss = Inr b'" "buffer_inv b'" "contents b' = contents b @ response_text order status r"
    unfolding whole by blast
  have "readable_bytes (rs_body r) = of_nat (length (contents (rs_body r)))" using assms(2) by simp
  then have "write_data b1 (Some (contents (rs_body r))) (readable_bytes (rs_body r)) = write_str b1 (contents (rs_body r))" for b1
    unfolding write_str_def by simp
  with b'(1) have "bindE (foldE write_str b (response_lines order status r)) (\<lambda>b.
      write_data b (Some (contents (rs_body r))) (readable_bytes (rs_body r))) = Inr b'"
    by (auto simp: foldE_append)
  with b' assms(2,3) show ?thesis by (auto simp: make_buffer_def read_at_contents)
qed

section \<open>The server\<close>

text \<open>What the server asks of the user's callback: a status code it knows, proper buffers, and a response that
  fits a vector; and to leave alone what is private to the task.\<close>

definition callback_ok :: "(task_data \<Rightarrow> task_data) \<Rightarrow> string list \<Rightarrow> bool" where
  "callback_ok http_cb order \<longleftrightarrow>
     (\<forall>d. (let d' = http_cb d; r = tk_response d' in
        tk_fault d' = tk_fault d \<and> tk_completed d' = tk_completed d \<and>
        (buffer_inv (rq_body (tk_request d)) \<longrightarrow> buffer_inv (rq_body (tk_request d'))) \<and>
        buffer_inv (rs_body r) \<and>
        (\<exists>status. map_of CodeStatus (rs_code r) = Some status \<and>
           length (response_text order status r) \<le> vector_max_size)))"

lemma task_on_request_ok:
  assumes "task_ok t" "callback_ok http_cb order"
  shows "\<exists>b t'. task_on_request True http_cb order t = Inr ([Send_buffer (Some b)], t') \<and> task_ok t' \<and> buffer_inv b \<and>
    tk_completed (hp_data t') = tk_completed (hp_data t)"
proof -
  let ?d = "http_cb (hp_data t)" and ?b = "mk_buffer InitialSize"
  from assms(2) obtain status where s: "map_of CodeStatus (rs_code (tk_response ?d)) = Some status"
      "length (response_text order status (tk_response ?d)) \<le> vector_max_size" "buffer_inv (rs_body (tk_response ?d))"
      "tk_fault ?d = tk_fault (hp_data t)" "tk_completed ?d = tk_completed (hp_data t)"
      "buffer_inv (rq_body (tk_request (hp_data t))) \<longrightarrow> buffer_inv (rq_body (tk_request ?d))"
    unfolding callback_ok_def Let_def by blast
  have "buffer_inv ?b" "fits ?b (length (response_text order status (tk_response ?d)))"
    using s(2) by (simp_all add: mk_buffer_inv InitialSize_def fits_def) (simp add: mk_buffer_def)
  from make_buffer_writes [OF this(1) s(3,1) this(2)] obtain b where
    b: "make_buffer order (tk_response ?d) ?b = Inr b" "buffer_inv b" by blast
  with s assms(1) show ?thesis by (simp add: task_on_request_def Let_def task_ok_def)
qed

lemma bad_request_valid: "list_all valid_call bad_request"
  by (simp add: bad_request_def)

section \<open>Properties\<close>


text \<open>C11: The bytes of a response. For a response with a known status code \<^verbatim>\<open>make_buffer\<close> writes, after what is in the
  buffer, the status line, one line for each header, the connection header, the content type if there is one,
  the content length if it is not 0, an empty line and the body, and nothing else.\<close>

theorem http_response_bytes:
  assumes "buffer_inv b" "buffer_inv (rs_body r)" "map_of CodeStatus (rs_code r) = Some status"
    "unat (write_index b) + length (response_text order status r) \<le> vector_max_size"
  shows "\<exists>b'. make_buffer order r b = Inr b' \<and> contents b' = contents b @
     ''HTTP/1.1 '' @ decimal_string (nat (rs_code r)) @ '' '' @ status @ [CR, LF] @
     concat (map (header_line r) order) @
     (if rs_close_connection r then ''Connection: close'' else ''Connection: Keep-Alive'') @ [CR, LF] @
     (if rs_content_type r = [] then [] else ''Content-type: '' @ rs_content_type r @ [CR, LF]) @
     (if rs_content_len r = 0 then [] else ''Content-length: '' @ decimal_string (unat (rs_content_len r)) @ [CR, LF]) @
     [CR, LF] @ contents (rs_body r)"
  using make_buffer_writes [OF assms(1-3), of order] assms(4) by (auto simp: fits_def response_text_def)

text \<open>C34: A request on a connection that is kept alive is answered as soon as one byte of it has arrived. Nothing
  but \<^verbatim>\<open>on_send_progressively\<close> initialises a task again; after a request that was answered at once the task is
  still marked as completed, and whatever bytes come next, as long as the parser accepts them or not, the server
  calls the user's callback and sends another response, and does so again for every further receive.\<close>

theorem http_request_answered_too_early:
  assumes "hs_tasks s p = Some t" "tk_completed (hp_data t)" "hs_num_workers s = 0" "callback_ok http_cb order"
    "http_on_recv http_cb order p b s = Inr (calls, s')"
  shows "\<exists>b' t'. Send_buffer (Some b') \<in> set calls \<and> hs_tasks s' p = Some t' \<and> tk_completed (hp_data t')"
proof -
  from assms(1,5) obtain ok calls1 t1 where p: "task_parse b t = Inr (ok, calls1, t1)"
    by (auto simp: http_on_recv_def)
  then obtain data n where "http_parser_execute (4 * (length data + 1)) HTTP_MAX_HEADER_SIZE t parser_settings data =
      Some (Return n t1)"
    by (auto simp: task_parse_def split: sum.splits option.splits outcome.splits if_splits)
  from completed.execute_keeps [OF assms(2) this] have c: "tk_completed (hp_data t1)" .
  from assms(4) have k: "tk_completed (http_cb d) = tk_completed d" for d
    unfolding callback_ok_def Let_def by blast
  from assms(1,3,5) p c k show ?thesis
    by (auto simp: http_on_recv_def task_on_request_def Let_def)
qed


section \<open>Requests in parts\<close>

text \<open>What a task knows of its request after several receives: the URL, and whether it is complete.\<close>

definition received_bytes :: "char list \<Rightarrow> buffer" where
  "received_bytes data = \<lparr>buff = data, read_index = 0, write_index = of_nat (length data)\<rparr>"

fun after_receives :: "http_task \<Rightarrow> char list list \<Rightarrow> (string \<times> bool) option" where
  "after_receives t [] =
     Some (rq_url (tk_request (hp_data t)), tk_completed (hp_data t))"
| "after_receives t (data # rest) =
     (case task_parse (received_bytes data) t of
        Inr (True, calls, t1) \<Rightarrow> after_receives t1 rest
      | _ \<Rightarrow> None)"

text \<open>A task after \<^verbatim>\<open>init\<close>: all members but the buffers have fixed values.\<close>

definition fresh_task :: "buffer \<Rightarrow> http_response \<Rightarrow> buffer_error option \<Rightarrow> http_task" where
  "fresh_task b r f =
     \<lparr>hp_type = HTTP_REQUEST, hp_flags = 0, hp_state = s_start_req, hp_header_state = h_general, hp_index = 0,
      hp_uses_transfer_encoding = False, hp_allow_chunked_length = False, hp_lenient_http_headers = False,
      hp_nread = 0, hp_content_length = 0, hp_http_major = 0, hp_http_minor = 0, hp_status_code = 0,
      hp_method = HTTP_DELETE, hp_errno = HPE_OK, hp_upgrade = False,
      hp_data = \<lparr>tk_header_field = [], tk_completed = False,
        tk_request = \<lparr>rq_method = [], rq_url = [], rq_keep_alive = False, rq_headers = (\<lambda>_. None), rq_body = b\<rparr>,
        tk_response = r, tk_send_progressively = False, tk_context = None, tk_fault = f\<rparr>\<rparr>"

lemma task_init_fresh:
  "task_init (mk_task g) = fresh_task (has_readall (mk_buffer InitialSize))
     (http_response_init ((tk_response (hp_data g))\<lparr>rs_content_type := [], rs_headers := (\<lambda>_. None), rs_body := mk_buffer InitialSize\<rparr>)) None"
  by (simp add: task_init_def mk_task_def fresh_task_def http_parser_init_def http_request_init_def Let_def)

definition request_head :: string where
  "request_head = ''GET /ab HTTP/1.1'' @ [CR, LF, CR, LF]"

lemma request_whole: "after_receives (fresh_task b r None) [request_head] = Some (''/ab'', True)"
  by code_simp

lemma request_cut:
  "after_receives (fresh_task b r None) [take 6 request_head, drop 6 request_head] = Some (''b'', True)"
  by code_simp

text \<open>A request that arrives in two parts is misread. The parser reports a URL that is cut by the end of a receive in
  two pieces, and each piece replaces the one before. The same request is read as \<open>/ab\<close> when it arrives at once and as
  \<open>b\<close> when it is cut inside the URL; in both cases the request is complete and is answered.\<close>

theorem http_cut_request_misread:
  "after_receives (task_init (mk_task g)) [request_head] = Some (''/ab'', True) \<and>
   after_receives (task_init (mk_task g)) [take 6 request_head, drop 6 request_head] = Some (''b'', True)"
  unfolding task_init_fresh using request_whole request_cut by blast

section \<open>Examples\<close>

definition hello_response :: http_response where
  "hello_response =
     \<lparr>rs_code = 200, rs_close_connection = False, rs_content_type = [], rs_content_len = 0,
      rs_headers = (\<lambda>_. None), rs_body = mk_buffer 0\<rparr>"

definition hello :: "task_data \<Rightarrow> task_data" where
  "hello d = d\<lparr>tk_response := hello_response\<rparr>"

definition serving :: "http_task \<Rightarrow> http_server" where
  "serving t = (mk_http_server 1)\<lparr>hs_tasks := [7 \<mapsto> t]\<rparr>"

text \<open>A task that has answered its first request.\<close>

definition answered_task :: http_task where
  "answered_task =
     (let t = fresh_task (mk_buffer 0) hello_response None
      in t\<lparr>hp_data := (hp_data t)\<lparr>tk_completed := True\<rparr>\<rparr>)"

lemma decimal_200: "decimal_string 200 = ''200''"
  by code_simp

lemma hello_ok: "callback_ok hello []"
  by (simp add: callback_ok_def hello_def hello_response_def CodeStatus_def response_text_def mk_buffer_inv Let_def decimal_200)

lemma answered_task_ok: "task_ok answered_task" "tk_completed (hp_data answered_task)"
  by (simp_all add: task_ok_def answered_task_def fresh_task_def mk_buffer_inv parser_ok_def st_ok_def)

lemma received_bytes_inv: "length data < 2 ^ 32 \<Longrightarrow> buffer_inv (received_bytes data)"
  by (simp add: received_bytes_def buffer_inv_def unat_of_nat_id)

lemma next_byte_accepted: "(case task_parse (received_bytes ''G'') answered_task of Inr (ok, calls, t1) \<Rightarrow> ok | _ \<Rightarrow> False)"
  by code_simp


theorem http_response_bytes_witness:
  "\<exists>b'. make_buffer [] hello_response (mk_buffer InitialSize) = Inr b' \<and>
     contents b' = ''HTTP/1.1 200 OK'' @ [CR, LF] @ ''Connection: Keep-Alive'' @ [CR, LF, CR, LF]"
proof -
  have "write_index (mk_buffer InitialSize) = 0" by (simp add: mk_buffer_def)
  then show ?thesis
    using http_response_bytes [of "mk_buffer InitialSize" hello_response "''OK''" "[]"]
    by (simp add: hello_response_def CodeStatus_def mk_buffer_inv InitialSize_def response_text_def decimal_200)
qed

theorem http_request_answered_too_early_witness:
  "\<exists>calls s' b' t'. http_on_recv hello [] 7 (received_bytes ''G'') (serving answered_task) = Inr (calls, s') \<and>
     Send_buffer (Some b') \<in> set calls \<and> hs_tasks s' 7 = Some t' \<and> tk_completed (hp_data t')"
proof -
  let ?r = "http_on_recv hello [] 7 (received_bytes ''G'') (serving answered_task)"
  obtain calls t1 where p: "task_parse (received_bytes ''G'') answered_task = Inr (True, calls, t1)"
    using next_byte_accepted by (auto split: sum.splits)
  with task_parse_ok [OF answered_task_ok(1), of "received_bytes ''G''"] have "task_ok t1" by (auto simp: received_bytes_inv)
  from task_on_request_ok [OF this hello_ok] p have "\<exists>calls s'. ?r = Inr (calls, s')"
    by (cases "tk_completed (hp_data t1)") (auto simp: http_on_recv_def serving_def mk_http_server_def)
  then obtain calls s' where r: "?r = Inr (calls, s')" by blast
  from http_request_answered_too_early [OF _ answered_task_ok(2) _ hello_ok r] r show ?thesis
    by (simp add: serving_def mk_http_server_def)
qed

end
