(* ===== verification/Fmt_Writer.thy ===== *)
theory Fmt_Writer
  imports Fmt
begin

text \<open>
  How the bundled fmt library writes one argument (\<^verbatim>\<open>code/spdlog/fmt/bundled/format.h\<close>, types of arguments in \<^verbatim>\<open>core.h\<close>):
  format specifications, padding, integers in every base, characters, strings, pointers and the frame around
  floating-point numbers. The output is a contiguous buffer: \<^verbatim>\<open>reserve\<close> makes room for a number of characters at
  its end and the writers fill that room. Writing less or more than was reserved is the error \<open>Bad_reserve\<close>; leaving
  a local buffer is \<open>Buffer_overflow\<close>; a value read outside the arguments or as another type is \<open>Bad_read\<close>; a failed assertion is \<open>Assert_failed\<close>.

  Floating-point numbers are a parameter: their classification and the digits that \<^verbatim>\<open>snprintf\<close> makes of them.
\<close>

section \<open>Format specifications\<close>

datatype fmt_error = Format_error string | Bad_reserve | Buffer_overflow | Bad_read | Assert_failed

datatype alignment = ALIGN_DEFAULT | ALIGN_LEFT | ALIGN_RIGHT | ALIGN_CENTER | ALIGN_NUMERIC

definition SIGN_FLAG :: uint32 where "SIGN_FLAG = 1"
definition PLUS_FLAG :: uint32 where "PLUS_FLAG = 2"
definition MINUS_FLAG :: uint32 where "MINUS_FLAG = 4"
definition HASH_FLAG :: uint32 where "HASH_FLAG = 8"

record format_specs =
  fs_width :: uint32
  fs_fill :: char
  fs_align :: alignment
  fs_flags :: uint32
  fs_precision :: int
  fs_type :: char

definition NUL :: char where "NUL = CHR 0x00"

definition basic_format_specs :: format_specs where
  "basic_format_specs =
     \<lparr>fs_width = 0, fs_fill = CHR '' '', fs_align = ALIGN_DEFAULT, fs_flags = 0, fs_precision = -1, fs_type = NUL\<rparr>"

text \<open>\<^verbatim>\<open>internal::type\<close>, in the order of the enumeration.\<close>

datatype fmt_type =
    none_type | named_arg_type | int_type | uint_type | long_long_type | ulong_long_type | bool_type | char_type
  | double_type | long_double_type | cstring_type | string_type | pointer_type | custom_type

fun type_code :: "fmt_type \<Rightarrow> nat" where
  "type_code none_type = 0" | "type_code named_arg_type = 1" | "type_code int_type = 2" | "type_code uint_type = 3"
| "type_code long_long_type = 4" | "type_code ulong_long_type = 5" | "type_code bool_type = 6" | "type_code char_type = 7"
| "type_code double_type = 8" | "type_code long_double_type = 9" | "type_code cstring_type = 10"
| "type_code string_type = 11" | "type_code pointer_type = 12" | "type_code custom_type = 13"

definition last_integer_type :: fmt_type where "last_integer_type = char_type"
definition last_numeric_type :: fmt_type where "last_numeric_type = long_double_type"

definition is_integral :: "fmt_type \<Rightarrow> bool" where
  "is_integral t \<longleftrightarrow> type_code none_type < type_code t \<and> type_code t \<le> type_code last_integer_type"

definition is_arithmetic :: "fmt_type \<Rightarrow> bool" where
  "is_arithmetic t \<longleftrightarrow> type_code none_type < type_code t \<and> type_code t \<le> type_code last_numeric_type"

text \<open>A value with its type. A character pointer is its address and the characters up to the terminating
  zero; \<open>'d\<close> are the floating-point numbers, \<open>'c\<close> the values of user-defined types.\<close>

datatype ('d, 'c) fmt_arg =
    None_arg
  | Named_arg string "('d, 'c) fmt_arg"
  | Int_arg "32 word"
  | Uint_arg "32 word"
  | Long_long_arg "64 word"
  | Ulong_long_arg "64 word"
  | Bool_arg bool
  | Char_arg char
  | Double_arg 'd
  | Long_double_arg 'd
  | Cstring_arg "64 word" string
  | String_arg string
  | Pointer_arg "64 word"
  | Custom_arg 'c

fun arg_type :: "('d, 'c) fmt_arg \<Rightarrow> fmt_type" where
  "arg_type None_arg = none_type"
| "arg_type (Named_arg name a) = named_arg_type"
| "arg_type (Int_arg v) = int_type"
| "arg_type (Uint_arg v) = uint_type"
| "arg_type (Long_long_arg v) = long_long_type"
| "arg_type (Ulong_long_arg v) = ulong_long_type"
| "arg_type (Bool_arg b) = bool_type"
| "arg_type (Char_arg c) = char_type"
| "arg_type (Double_arg d) = double_type"
| "arg_type (Long_double_arg d) = long_double_type"
| "arg_type (Cstring_arg p s) = cstring_type"
| "arg_type (String_arg s) = string_type"
| "arg_type (Pointer_arg p) = pointer_type"
| "arg_type (Custom_arg c) = custom_type"

section \<open>Checks of the type character\<close>

datatype int_presentation = On_dec | On_hex | On_bin | On_oct | On_num

definition handle_int_type_spec :: "char \<Rightarrow> int_presentation option" where
  "handle_int_type_spec spec =
     (if spec = NUL \<or> spec = CHR ''d'' then Some On_dec
      else if spec = CHR ''x'' \<or> spec = CHR ''X'' then Some On_hex
      else if spec = CHR ''b'' \<or> spec = CHR ''B'' then Some On_bin
      else if spec = CHR ''o'' then Some On_oct
      else if spec = CHR ''n'' then Some On_num
      else None)"

datatype float_presentation = On_general | On_exp | On_fixed | On_hexfloat

definition handle_float_type_spec :: "char \<Rightarrow> float_presentation option" where
  "handle_float_type_spec spec =
     (if spec \<in> {NUL, CHR ''g'', CHR ''G''} then Some On_general
      else if spec \<in> {CHR ''e'', CHR ''E''} then Some On_exp
      else if spec \<in> {CHR ''f'', CHR ''F''} then Some On_fixed
      else if spec \<in> {CHR ''a'', CHR ''A''} then Some On_hexfloat
      else None)"

datatype char_presentation = As_int | As_char

definition handle_char_specs :: "format_specs \<Rightarrow> fmt_error + char_presentation" where
  "handle_char_specs specs =
     (if fs_type specs \<noteq> NUL \<and> fs_type specs \<noteq> CHR ''c'' then Inr As_int
      else if fs_align specs = ALIGN_NUMERIC \<or> fs_flags specs \<noteq> 0
      then Inl (Format_error ''invalid format specifier for char'')
      else Inr As_char)"

datatype cstring_presentation = As_string | As_pointer

definition handle_cstring_type_spec :: "char \<Rightarrow> fmt_error + cstring_presentation" where
  "handle_cstring_type_spec spec =
     (if spec = NUL \<or> spec = CHR ''s'' then Inr As_string
      else if spec = CHR ''p'' then Inr As_pointer
      else Inl (Format_error ''invalid type specifier''))"

definition check_string_type_spec :: "char \<Rightarrow> fmt_error + unit" where
  "check_string_type_spec spec =
     (if spec \<noteq> NUL \<and> spec \<noteq> CHR ''s'' then Inl (Format_error ''invalid type specifier'') else Inr ())"

definition check_pointer_type_spec :: "char \<Rightarrow> fmt_error + unit" where
  "check_pointer_type_spec spec =
     (if spec \<noteq> NUL \<and> spec \<noteq> CHR ''p'' then Inl (Format_error ''invalid type specifier'') else Inr ())"

section \<open>Padding\<close>

text \<open>\<^verbatim>\<open>reserve(n)\<close> and the characters that the writer puts there.\<close>

definition reserve :: "nat \<Rightarrow> string \<Rightarrow> fmt_error + string" where
  "reserve n s = (if length s = n then Inr s else Inl Bad_reserve)"

definition write_padded :: "nat \<Rightarrow> format_specs \<Rightarrow> string \<Rightarrow> fmt_error + string" where
  "write_padded sz spec s =
     (let width = unat (fs_width spec) in
      if width \<le> sz then reserve sz s
      else
        (let padding = width - sz; fill = fs_fill spec in
         reserve width
           (if fs_align spec = ALIGN_RIGHT then replicate padding fill @ s
            else if fs_align spec = ALIGN_CENTER
            then replicate (padding div 2) fill @ s @ replicate (padding - padding div 2) fill
            else s @ replicate padding fill)))"

text \<open>\<^verbatim>\<open>padded_int_writer\<close> and \<^verbatim>\<open>write_int\<close> for a number of digits: padding goes between the prefix and the digits
  when the alignment is numeric or the precision asks for it.\<close>

definition write_digits :: "nat \<Rightarrow> string \<Rightarrow> format_specs \<Rightarrow> string \<Rightarrow> fmt_error + string" where
  "write_digits num_digits prefix spec digits =
     (let size0 = length prefix + num_digits;
          (sz, padding, fill) =
            (if fs_align spec = ALIGN_NUMERIC
             then if unat (fs_width spec) > size0
                  then (unat (fs_width spec), unat (fs_width spec) - size0, fs_fill spec)
                  else (size0, 0, fs_fill spec)
             else if fs_precision spec > int num_digits
             then (length prefix + nat (fs_precision spec), nat (fs_precision spec) - num_digits, CHR ''0'')
             else (size0, 0, fs_fill spec));
          as = (if fs_align spec = ALIGN_DEFAULT then spec\<lparr>fs_align := ALIGN_RIGHT\<rparr> else spec)
      in write_padded sz as (prefix @ replicate padding fill @ digits))"

section \<open>Digits\<close>

text \<open>The bases of \<^verbatim>\<open>format_uint<BASE_BITS>\<close> and \<^verbatim>\<open>count_digits<BITS>\<close> that are used.\<close>

datatype base = Bin | Oct | Hex

fun base_bits :: "base \<Rightarrow> nat" where
  "base_bits Bin = 1" | "base_bits Oct = 3" | "base_bits Hex = 4"

lemma drop_bit_decreases: "v \<noteq> 0 \<Longrightarrow> unat (drop_bit (base_bits b) (v :: uint64)) < unat v"
  by (cases b) (auto simp: drop_bit_eq_div unat_div unat_gt_0)

definition base_digit :: "base \<Rightarrow> bool \<Rightarrow> nat \<Rightarrow> char" where
  "base_digit b upper d =
     (if b = Hex then (if upper then ''0123456789ABCDEF'' else ''0123456789abcdef'') ! d else digit_char d)"

function uint_loop :: "base \<Rightarrow> bool \<Rightarrow> uint64 \<Rightarrow> string \<times> nat \<Rightarrow> (string \<times> nat) option" where
  "uint_loop b upper value bp =
     Option.bind (put_before (base_digit b upper (unat (value AND mask (base_bits b)))) bp) (\<lambda>bp.
       let value1 = drop_bit (base_bits b) value
       in if value1 = 0 then Some bp else uint_loop b upper value1 bp)"
  by pat_completeness auto
termination
proof (relation "measure (\<lambda>(_, _, v, _). unat v)", goal_cases)
  case (2 b upper v bp bp' v1)
  then have "v \<noteq> 0" by auto
  with 2 show ?case using drop_bit_decreases by simp
qed simp

declare uint_loop.simps [simp del]

definition format_uint :: "base \<Rightarrow> bool \<Rightarrow> string \<Rightarrow> uint64 \<Rightarrow> nat \<Rightarrow> string option" where
  "format_uint b upper buf value num_digits = map_option fst (uint_loop b upper value (buf, num_digits))"

function count_base_loop :: "base \<Rightarrow> uint64 \<Rightarrow> nat \<Rightarrow> nat" where
  "count_base_loop b n num_digits =
     (let n1 = drop_bit (base_bits b) n
      in if n1 = 0 then num_digits + 1 else count_base_loop b n1 (num_digits + 1))"
  by pat_completeness auto
termination
proof (relation "measure (\<lambda>(_, v, _). unat v)", goal_cases)
  case (2 b v k v1)
  then have "v \<noteq> 0" by auto
  with 2 show ?case using drop_bit_decreases by simp
qed simp

declare count_base_loop.simps [simp del]

definition count_base_digits :: "base \<Rightarrow> uint64 \<Rightarrow> nat" where
  "count_base_digits b n = count_base_loop b n 0"

text \<open>\<^verbatim>\<open>count_digits(uint32_t)\<close>, which compilers with \<^verbatim>\<open>__builtin_clz\<close> use for the small integers.\<close>

definition POWERS_OF_10_32 :: "uint32 list" where
  "POWERS_OF_10_32 = [0, 10, 100, 1000, 10000, 100000, 1000000, 10000000, 100000000, 1000000000]"

definition clz :: "uint32 \<Rightarrow> nat" where
  "clz n = 32 - bit_len (unat n)"

definition count_digits32 :: "uint32 \<Rightarrow> nat" where
  "count_digits32 n =
     (let t = (32 - clz (n OR 1)) * 1233 div 2 ^ 12
      in t - (if n < POWERS_OF_10_32 ! t then 1 else 0) + 1)"

text \<open>\<^verbatim>\<open>add_thousands_sep\<close>: called after each digit; \<open>di\<close> is \<^verbatim>\<open>digit_index_\<close>.\<close>

definition add_thousands_sep :: "char \<Rightarrow> nat \<Rightarrow> string \<times> nat \<Rightarrow> (nat \<times> string \<times> nat) option" where
  "add_thousands_sep sep di bp =
     (if (di + 1) mod 3 \<noteq> 0 then Some (di + 1, bp) else map_option (Pair (di + 1)) (put_before sep bp))"

text \<open>\<^verbatim>\<open>format_decimal\<close> with a separator. \<open>decimal_loop\<close> of the theory \<^verbatim>\<open>Fmt\<close> is the same code with \<^verbatim>\<open>no_thousands_sep\<close>.\<close>

function decimal_sep_loop :: "char \<Rightarrow> uint64 \<Rightarrow> nat \<Rightarrow> string \<times> nat \<Rightarrow> (string \<times> nat) option" where
  "decimal_sep_loop sep value di bp =
     (if value \<ge> 100 then
        (let index = unat (value mod 100) * 2
         in Option.bind (put_before (DIGITS ! (index + 1)) bp) (\<lambda>bp.
            Option.bind (add_thousands_sep sep di bp) (\<lambda>(di, bp).
            Option.bind (put_before (DIGITS ! index) bp) (\<lambda>bp.
            Option.bind (add_thousands_sep sep di bp) (\<lambda>(di, bp). decimal_sep_loop sep (value div 100) di bp)))))
      else if value < 10 then put_before (digit_char (unat value)) bp
      else
        (let index = unat value * 2
         in Option.bind (put_before (DIGITS ! (index + 1)) bp) (\<lambda>bp.
            Option.bind (add_thousands_sep sep di bp) (\<lambda>(di, bp). put_before (DIGITS ! index) bp))))"
  by pat_completeness auto
termination
  by (relation "measure (\<lambda>(_, v, _, _). unat v)") (auto simp: unat_div word_le_nat_alt)

declare decimal_sep_loop.simps [simp del]

definition format_decimal_sep :: "char \<Rightarrow> string \<Rightarrow> uint64 \<Rightarrow> nat \<Rightarrow> string option" where
  "format_decimal_sep sep buf value num_digits = map_option fst (decimal_sep_loop sep value 0 (buf, num_digits))"

text \<open>The overload for an output iterator that is not a pointer has a local buffer of \<open>digits10 + 2\<close> characters.\<close>

definition format_decimal_sep_out :: "nat \<Rightarrow> char \<Rightarrow> uint64 \<Rightarrow> nat \<Rightarrow> string option" where
  "format_decimal_sep_out digits10 sep value num_digits =
     map_option (take num_digits) (format_decimal_sep sep (replicate (digits10 + 2) NUL) value num_digits)"

section \<open>Integers\<close>

text \<open>\<^verbatim>\<open>int_writer\<close>: the absolute value in the unsigned type of 32 or 64 bits, and the prefix.\<close>

record int_writer =
  iw_small :: bool
  iw_abs :: uint64
  iw_prefix :: string

definition has_fs_flag :: "format_specs \<Rightarrow> uint32 \<Rightarrow> bool" where
  "has_fs_flag spec f \<longleftrightarrow> has_flag (fs_flags spec) f"

definition sign_prefix :: "bool \<Rightarrow> format_specs \<Rightarrow> string" where
  "sign_prefix negative spec =
     (if negative then ''-''
      else if has_fs_flag spec SIGN_FLAG then [if has_fs_flag spec PLUS_FLAG then CHR ''+'' else CHR '' '']
      else [])"

definition int_writer32 :: "bool \<Rightarrow> 32 word \<Rightarrow> format_specs \<Rightarrow> int_writer" where
  "int_writer32 signed_type v spec =
     (let negative = signed_type \<and> v <s 0; abs_value = (if negative then 0 - v else v)
      in \<lparr>iw_small = True, iw_abs = ucast abs_value, iw_prefix = sign_prefix negative spec\<rparr>)"

definition int_writer64 :: "bool \<Rightarrow> 64 word \<Rightarrow> format_specs \<Rightarrow> int_writer" where
  "int_writer64 signed_type v spec =
     (let negative = signed_type \<and> v <s 0; abs_value = (if negative then 0 - v else v)
      in \<lparr>iw_small = False, iw_abs = abs_value, iw_prefix = sign_prefix negative spec\<rparr>)"

definition count_abs_digits :: "int_writer \<Rightarrow> nat" where
  "count_abs_digits iw = (if iw_small iw then count_digits32 (ucast (iw_abs iw)) else count_digits (iw_abs iw))"

text \<open>The digits are written into the room reserved for them, here of \<open>n\<close> characters.\<close>

definition digits_in :: "nat \<Rightarrow> (string \<Rightarrow> string option) \<Rightarrow> fmt_error + string" where
  "digits_in n f = (case f (replicate n NUL) of None \<Rightarrow> Inl Buffer_overflow | Some s \<Rightarrow> Inr s)"

definition on_dec :: "int_writer \<Rightarrow> format_specs \<Rightarrow> fmt_error + string" where
  "on_dec iw spec =
     (let num_digits = count_abs_digits iw
      in bindE (digits_in num_digits (\<lambda>buf. format_decimal buf (iw_abs iw) num_digits))
           (write_digits num_digits (iw_prefix iw) spec))"

definition hash_prefix :: "int_writer \<Rightarrow> format_specs \<Rightarrow> string" where
  "hash_prefix iw spec = iw_prefix iw @ (if has_fs_flag spec HASH_FLAG then [CHR ''0'', fs_type spec] else [])"

definition on_hex :: "int_writer \<Rightarrow> format_specs \<Rightarrow> fmt_error + string" where
  "on_hex iw spec =
     (let num_digits = count_base_digits Hex (iw_abs iw)
      in bindE (digits_in num_digits (\<lambda>buf. format_uint Hex (fs_type spec \<noteq> CHR ''x'') buf (iw_abs iw) num_digits))
           (write_digits num_digits (hash_prefix iw spec) spec))"

definition on_bin :: "int_writer \<Rightarrow> format_specs \<Rightarrow> fmt_error + string" where
  "on_bin iw spec =
     (let num_digits = count_base_digits Bin (iw_abs iw)
      in bindE (digits_in num_digits (\<lambda>buf. format_uint Bin False buf (iw_abs iw) num_digits))
           (write_digits num_digits (hash_prefix iw spec) spec))"

definition on_oct :: "int_writer \<Rightarrow> format_specs \<Rightarrow> fmt_error + string" where
  "on_oct iw spec =
     (let num_digits = count_base_digits Oct (iw_abs iw);
          prefix = iw_prefix iw @
            (if has_fs_flag spec HASH_FLAG \<and> fs_precision spec \<le> int num_digits then ''0'' else [])
      in bindE (digits_in num_digits (\<lambda>buf. format_uint Oct False buf (iw_abs iw) num_digits))
           (write_digits num_digits prefix spec))"

definition on_num :: "char \<Rightarrow> int_writer \<Rightarrow> format_specs \<Rightarrow> fmt_error + string" where
  "on_num sep iw spec =
     (let num_digits = count_abs_digits iw;
          sz = num_digits + (num_digits - 1) div 3
      in bindE (digits_in sz (\<lambda>buf. format_decimal_sep sep buf (iw_abs iw) sz))
           (write_digits sz (iw_prefix iw) spec))"

definition write_int :: "char \<Rightarrow> int_writer \<Rightarrow> format_specs \<Rightarrow> fmt_error + string" where
  "write_int sep iw spec =
     (case handle_int_type_spec (fs_type spec) of
        None \<Rightarrow> Inl (Format_error ''invalid type specifier'')
      | Some On_dec \<Rightarrow> on_dec iw spec
      | Some On_hex \<Rightarrow> on_hex iw spec
      | Some On_bin \<Rightarrow> on_bin iw spec
      | Some On_oct \<Rightarrow> on_oct iw spec
      | Some On_num \<Rightarrow> on_num sep iw spec)"

section \<open>Strings, characters, pointers\<close>

definition write_str_spec :: "string \<Rightarrow> format_specs \<Rightarrow> fmt_error + string" where
  "write_str_spec s spec =
     (let sz = (if fs_precision spec \<ge> 0 \<and> nat (fs_precision spec) < length s
                then nat (fs_precision spec) else length s)
      in write_padded sz spec (take sz s))"

definition write_char :: "char \<Rightarrow> format_specs \<Rightarrow> fmt_error + string" where
  "write_char c spec = write_padded 1 spec [c]"

definition write_bool :: "bool \<Rightarrow> format_specs \<Rightarrow> fmt_error + string" where
  "write_bool b spec = write_str_spec (if b then ''true'' else ''false'') spec"

definition write_cstring :: "64 word \<Rightarrow> string \<Rightarrow> format_specs \<Rightarrow> fmt_error + string" where
  "write_cstring p s spec = (if p = 0 then Inl (Format_error ''string pointer is null'') else write_str_spec s spec)"

definition write_pointer :: "char \<Rightarrow> 64 word \<Rightarrow> format_specs \<Rightarrow> fmt_error + string" where
  "write_pointer sep p spec =
     (let spec1 = spec\<lparr>fs_flags := HASH_FLAG, fs_type := CHR ''x''\<rparr> in write_int sep (int_writer64 False p spec1) spec1)"

section \<open>Floating-point numbers\<close>

record 'd float_ops =
  f_isnegative :: "'d \<Rightarrow> bool"
  f_negate :: "'d \<Rightarrow> 'd"
  f_isnan :: "'d \<Rightarrow> bool"
  f_isinf :: "'d \<Rightarrow> bool"
  f_snprintf :: "'d \<Rightarrow> format_specs \<Rightarrow> string"

text \<open>\<^verbatim>\<open>float_spec_handler\<close>: the type for \<^verbatim>\<open>snprintf\<close> and whether letters are upper case.\<close>

definition float_spec_handler :: "char \<Rightarrow> float_presentation \<Rightarrow> char \<times> bool" where
  "float_spec_handler t p =
     (case p of
        On_general \<Rightarrow> if t = CHR ''G'' then (t, True) else (CHR ''g'', False)
      | On_exp \<Rightarrow> (t, t = CHR ''E'')
      | On_fixed \<Rightarrow> (t, t = CHR ''F'')
      | On_hexfloat \<Rightarrow> (t, t = CHR ''A''))"

definition write_double :: "'d float_ops \<Rightarrow> 'd \<Rightarrow> format_specs \<Rightarrow> fmt_error + string" where
  "write_double fo v spec =
     (case handle_float_type_spec (fs_type spec) of
        None \<Rightarrow> Inl (Format_error ''invalid type specifier'')
      | Some pres \<Rightarrow>
          (let (ftype, upper) = float_spec_handler (fs_type spec) pres;
               negative = f_isnegative fo v;
               v = (if negative then f_negate fo v else v);
               sgn = sign_prefix negative spec
           in if f_isnan fo v then write_padded (3 + length sgn) spec (sgn @ (if upper then ''NAN'' else ''nan''))
              else if f_isinf fo v then write_padded (3 + length sgn) spec (sgn @ (if upper then ''INF'' else ''inf''))
              else
                (let buffer = f_snprintf fo v (spec\<lparr>fs_type := ftype\<rparr>) in
                 if fs_align spec = ALIGN_NUMERIC
                 then
                   (let as = spec\<lparr>fs_align := ALIGN_RIGHT,
                               fs_width := (if sgn \<noteq> [] \<and> fs_width spec \<noteq> 0 then fs_width spec - 1 else fs_width spec)\<rparr>
                    in bindE (write_padded (length buffer) as buffer) (\<lambda>out. Inr (sgn @ out)))
                 else
                   (let as = (if fs_align spec = ALIGN_DEFAULT then spec\<lparr>fs_align := ALIGN_RIGHT\<rparr> else spec)
                    in write_padded (length sgn + length buffer) as (sgn @ buffer)))))"

section \<open>One argument\<close>

text \<open>A character as a number: \<^verbatim>\<open>char\<close> is signed.\<close>

definition char_value :: "char \<Rightarrow> 32 word" where
  "char_value c = scast (of_char c :: 8 word)"

text \<open>\<^verbatim>\<open>visit(arg_formatter(...), arg)\<close>. Values of user-defined types are formatted by their own formatter before.\<close>

fun write_arg :: "'d float_ops \<Rightarrow> char \<Rightarrow> format_specs \<Rightarrow> ('d, 'c) fmt_arg \<Rightarrow> fmt_error + string" where
  "write_arg fo sep spec None_arg = Inl Assert_failed"
| "write_arg fo sep spec (Named_arg name a) = Inl Assert_failed"
| "write_arg fo sep spec (Int_arg v) = write_int sep (int_writer32 True v spec) spec"
| "write_arg fo sep spec (Uint_arg v) = write_int sep (int_writer32 False v spec) spec"
| "write_arg fo sep spec (Long_long_arg v) = write_int sep (int_writer64 True v spec) spec"
| "write_arg fo sep spec (Ulong_long_arg v) = write_int sep (int_writer64 False v spec) spec"
| "write_arg fo sep spec (Bool_arg b) =
     (if fs_type spec \<noteq> NUL then write_int sep (int_writer32 True (if b then 1 else 0) spec) spec else write_bool b spec)"
| "write_arg fo sep spec (Char_arg c) =
     bindE (handle_char_specs spec) (\<lambda>pres.
       case pres of
         As_int \<Rightarrow> write_int sep (int_writer32 True (char_value c) spec) spec
       | As_char \<Rightarrow> write_char c spec)"
| "write_arg fo sep spec (Double_arg d) = write_double fo d spec"
| "write_arg fo sep spec (Long_double_arg d) = write_double fo d spec"
| "write_arg fo sep spec (Cstring_arg p s) =
     bindE (handle_cstring_type_spec (fs_type spec)) (\<lambda>pres.
       case pres of As_string \<Rightarrow> write_cstring p s spec | As_pointer \<Rightarrow> write_pointer sep p spec)"
| "write_arg fo sep spec (String_arg s) =
     bindE (check_string_type_spec (fs_type spec)) (\<lambda>_. write_str_spec s spec)"
| "write_arg fo sep spec (Pointer_arg p) =
     bindE (check_pointer_type_spec (fs_type spec)) (\<lambda>_. write_pointer sep p spec)"
| "write_arg fo sep spec (Custom_arg c) = Inl Assert_failed"

section \<open>Writing backwards\<close>

text \<open>The loops put one character after the other in front of the last. What they write is a sequence that
  does not depend on the buffer.\<close>

fun put_seq :: "string \<Rightarrow> string \<times> nat \<Rightarrow> (string \<times> nat) option" where
  "put_seq [] bp = Some bp"
| "put_seq (c # cs) bp = Option.bind (put_before c bp) (put_seq cs)"

lemma put_seq_Nil [simp]: "put_seq [] = Some"
  by (rule ext) simp

lemma put_seq_fun: "put_seq (c # cs) = (\<lambda>bp. Option.bind (put_before c bp) (put_seq cs))"
  by (rule ext) simp

lemma put_seq_append: "put_seq (xs @ ys) bp = Option.bind (put_seq xs bp) (put_seq ys)"
  by (induction xs arbitrary: bp) (auto simp: bind_eq_None_conv split: Option.bind_splits)

lemma put_seq_correct:
  "p \<le> length buf \<Longrightarrow> put_seq cs (buf, p) =
     (if length cs \<le> p then Some (splice_at (p - length cs) (rev cs) buf, p - length cs) else None)"
proof (induction cs arbitrary: buf p)
  case (Cons c cs)
  show ?case
  proof (cases "p = 0")
    case True
    then show ?thesis by (simp add: put_before_def)
  next
    case False
    let ?buf = "splice_at (p - 1) [c] buf"
    have "put_seq (c # cs) (buf, p) = put_seq cs (?buf, p - 1)"
      using False Cons.prems by (simp add: put_before_splice)
    also have "\<dots> = (if length cs \<le> p - 1
        then Some (splice_at (p - 1 - length cs) (rev cs) ?buf, p - 1 - length cs) else None)"
      using False Cons.prems by (intro Cons.IH) simp
    finally show ?thesis
      using False Cons.prems splice_before [of "rev cs" "p - 1" "[c]" buf] by auto
  qed
qed simp

lemma put_seq_outside: "length buf < p \<Longrightarrow> cs \<noteq> [] \<Longrightarrow> put_seq cs (buf, p) = None"
  by (cases cs) (simp_all add: put_before_def)

lemma put_seq_exact: "put_seq cs (replicate (length cs) c, length cs) = Some (rev cs, 0)"
  by (simp add: put_seq_correct splice_at_def)

section \<open>Reference\<close>

text \<open>The representation of a number in a base.\<close>

function base_string :: "base \<Rightarrow> bool \<Rightarrow> nat \<Rightarrow> string" where
  "base_string b upper n =
     (if n < 2 ^ base_bits b then [base_digit b upper n]
      else base_string b upper (n div 2 ^ base_bits b) @ [base_digit b upper (n mod 2 ^ base_bits b)])"
  by auto
termination
proof (relation "measure (\<lambda>(_, _, n). n)", goal_cases)
  case (2 b upper n)
  moreover have "1 < (2 :: nat) ^ base_bits b" by (cases b) simp_all
  ultimately show ?case by simp
qed simp

declare base_string.simps [simp del]

text \<open>Digits, the least significant first, with a separator after every third.\<close>

fun separated :: "char \<Rightarrow> nat \<Rightarrow> string \<Rightarrow> string" where
  "separated sep di [] = []"
| "separated sep di [d] = [d]"
| "separated sep di (d # e # ds) = d # (if (di + 1) mod 3 = 0 then [sep] else []) @ separated sep (di + 1) (e # ds)"

definition grouped :: "char \<Rightarrow> string \<Rightarrow> string" where
  "grouped sep s = rev (separated sep 0 (rev s))"

lemma unat_base_parts:
  "unat (drop_bit k (v :: uint64)) = unat v div 2 ^ k" "unat (v AND mask k) = unat v mod 2 ^ k"
  unfolding unat_drop_bit_eq take_bit_eq_mask [symmetric] unsigned_take_bit_eq
  by (simp_all add: drop_bit_eq_div take_bit_eq_mod)

lemma drop_bit_zero_iff: "drop_bit k (v :: uint64) = 0 \<longleftrightarrow> unat v < 2 ^ k"
proof -
  have "drop_bit k v = 0 \<longleftrightarrow> unat (drop_bit k v) = 0" by (simp only: unat_eq_0)
  then show ?thesis by (simp add: unat_base_parts div_eq_0_iff)
qed

lemma uint_loop_seq: "uint_loop b upper v bp = put_seq (rev (base_string b upper (unat v))) bp"
proof (induction b upper v bp rule: uint_loop.induct)
  case (1 b upper v bp)
  show ?case
    using 1 by (auto simp: uint_loop.simps [of b upper v bp] base_string.simps [of b upper "unat v"]
      unat_base_parts drop_bit_zero_iff Let_def split: Option.bind_splits)
qed

lemma count_base_loop_length: "count_base_loop b v k = k + length (base_string b upper (unat v))"
proof (induction b v k rule: count_base_loop.induct)
  case (1 b v k)
  then show ?case
    by (simp add: count_base_loop.simps [of b v k] base_string.simps [of b upper "unat v"]
      unat_base_parts drop_bit_zero_iff Let_def)
qed

lemma count_base_digits_length: "count_base_digits b v = length (base_string b upper (unat v))"
  by (simp add: count_base_digits_def count_base_loop_length [of b v 0 upper])

lemma separated_Cons: "ds \<noteq> [] \<Longrightarrow> separated sep di (d # ds) =
    d # (if (di + 1) mod 3 = 0 then [sep] else []) @ separated sep (di + 1) ds"
  by (cases ds) simp_all

lemma add_thousands_sep_seq:
  "Option.bind (add_thousands_sep sep di bp) (\<lambda>(di, bp). f di bp) =
     Option.bind (put_seq (if (di + 1) mod 3 = 0 then [sep] else []) bp) (f (di + 1))"
  by (auto simp: add_thousands_sep_def split: option.splits Option.bind_splits)

lemma decimal_sep_loop_seq:
  "decimal_sep_loop sep v di = put_seq (separated sep di (rev (decimal_string (unat v))))"
proof (induction "unat v" arbitrary: v di rule: less_induct)
  case less
  let ?v = "unat v"
  consider "?v < 10" | "10 \<le> ?v" "?v < 100" | "100 \<le> ?v" by linarith
  then show ?case
  proof cases
    case 1
    then show ?thesis
      by (simp add: decimal_sep_loop.simps [of sep v] word_le_nat_alt word_less_nat_alt decimal_string_small fun_eq_iff)
  next
    case 2
    have "decimal_string ?v = [digit_char (?v div 10), digit_char (?v mod 10)]"
      using 2 by (simp add: decimal_string_step decimal_string_small)
    with 2 DIGITS_pair [of ?v] show ?thesis
      by (simp add: decimal_sep_loop.simps [of sep v] word_le_nat_alt word_less_nat_alt add_thousands_sep_seq put_seq_fun fun_eq_iff)
  next
    case 3
    have "decimal_string ?v = decimal_string (unat (v div 100)) @ [digit_char (?v mod 100 div 10), digit_char (?v mod 100 mod 10)]"
      using decimal_string_pair [OF 3] by (simp add: unat_div)
    moreover have "rev (decimal_string n) \<noteq> []" for n by (subst decimal_string.simps) simp
    moreover have "unat (v mod 100) = ?v mod 100" by (simp add: unat_mod)
    moreover have "decimal_sep_loop sep (v div 100) d = put_seq (separated sep d (rev (decimal_string (unat (v div 100)))))" for d
      by (rule less) (use 3 in \<open>simp add: unat_div\<close>)
    ultimately show ?thesis
      using 3 DIGITS_pair [of "?v mod 100"]
      by (intro ext)
        (simp add: decimal_sep_loop.simps [of sep v] word_le_nat_alt add_thousands_sep_seq separated_Cons put_seq_append put_seq_fun)
  qed
qed

lemma length_separated: "length (separated sep di ds) = length ds + (if ds = [] then 0 else (di + length ds - 1) div 3 - di div 3)"
proof (induction sep di ds rule: separated.induct)
  case (3 sep di d e ds)
  have "(di + 1) div 3 = di div 3 + (if (di + 1) mod 3 = 0 then 1 else 0)" by (simp add: div_Suc)
  moreover have "(di + 1) div 3 \<le> (di + 1 + length ds) div 3" by (rule div_le_mono) simp
  ultimately show ?case using 3 by auto
qed simp_all

lemma length_grouped: "s \<noteq> [] \<Longrightarrow> length (grouped sep s) = length s + (length s - 1) div 3"
  by (simp add: grouped_def length_separated)

lemma decimal_string_nonempty: "decimal_string n \<noteq> []"
  by (subst decimal_string.simps) simp

lemma powers_tables: "t < 10 \<Longrightarrow> unat (POWERS_OF_10_32 ! t) = unat (POWERS_OF_10_64 ! t)"
  by (simp add: POWERS_OF_10_32_def POWERS_OF_10_64_def eval_nat_numeral less_Suc_eq) (elim disjE; simp)

lemma count_digits32_eq: "count_digits32 n = count_digits (ucast n)"
proof -
  have or: "unat (n OR 1) = unat (ucast n OR 1 :: uint64)"
    using unat_ucast_32_64 [of "n OR 1"] by (simp add: unsigned_or_eq)
  have "unat (n OR 1) < 2 ^ 32" using unsigned_less [of "n OR 1"] by simp
  then have b: "bit_len (unat (n OR 1)) \<le> 32" by (rule bit_len_le)
  then have t: "bit_len (unat (n OR 1)) * 1233 div 4096 < 10" by (simp add: div_less_iff_less_mult)
  have "n < POWERS_OF_10_32 ! k \<longleftrightarrow> ucast n < POWERS_OF_10_64 ! k" if "k < 10" for k
    using powers_tables [OF that] by (simp add: word_less_nat_alt unat_ucast_32_64)
  with b t show ?thesis by (simp add: count_digits32_def count_digits_def clz_def clzll_def or [symmetric])
qed

lemma count_abs_digits_eq:
  "(iw_small iw \<Longrightarrow> unat (iw_abs iw) < 2 ^ 32) \<Longrightarrow> count_abs_digits iw = length (decimal_string (unat (iw_abs iw)))"
proof -
  assume small: "iw_small iw \<Longrightarrow> unat (iw_abs iw) < 2 ^ 32"
  have "ucast (ucast v :: uint32) = v" if "unat v < 2 ^ 32" for v :: uint64
  proof -
    have "unat (ucast (ucast v :: uint32) :: uint64) = unat v"
      unfolding unat_ucast_32_64 using that by (simp add: unsigned_ucast_eq take_bit_nat_eq_self)
    then show ?thesis by (simp only: word_unat_eq_iff)
  qed
  with small show ?thesis by (simp add: count_abs_digits_def count_digits32_eq count_digits_correct)
qed

text \<open>The digits that each presentation writes.\<close>

lemma digits_in_dec:
  "digits_in (length (decimal_string (unat v))) (\<lambda>buf. format_decimal buf v (length (decimal_string (unat v)))) =
     Inr (decimal_string (unat v))"
  by (simp add: digits_in_def format_decimal_def decimal_loop_correct splice_at_def)

lemma digits_in_base:
  "digits_in (count_base_digits b v) (\<lambda>buf. format_uint b upper buf v (count_base_digits b v)) =
     Inr (base_string b upper (unat v))"
  using put_seq_exact [of "rev (base_string b upper (unat v))" NUL]
  by (simp add: digits_in_def format_uint_def uint_loop_seq count_base_digits_length [of b v upper])

lemma digits_in_sep:
  "n = length (grouped sep (decimal_string (unat v))) \<Longrightarrow>
   digits_in n (\<lambda>buf. format_decimal_sep sep buf v n) = Inr (grouped sep (decimal_string (unat v)))"
  using put_seq_exact [of "separated sep 0 (rev (decimal_string (unat v)))" NUL]
  by (simp add: digits_in_def format_decimal_sep_def decimal_sep_loop_seq grouped_def)

section \<open>Fields\<close>

text \<open>What a field should look like: the text with fill characters up to the width; for integers zeros or fill
  characters after the prefix when the alignment is numeric or the precision is larger than the number of
  digits.\<close>

definition padded :: "format_specs \<Rightarrow> string \<Rightarrow> string" where
  "padded spec s =
     (let k = unat (fs_width spec) - length s; fill = fs_fill spec in
      case fs_align spec of
        ALIGN_RIGHT \<Rightarrow> replicate k fill @ s
      | ALIGN_CENTER \<Rightarrow> replicate (k div 2) fill @ s @ replicate (k - k div 2) fill
      | _ \<Rightarrow> s @ replicate k fill)"

definition int_field :: "format_specs \<Rightarrow> string \<Rightarrow> string \<Rightarrow> string" where
  "int_field spec prefix digits =
     (if fs_align spec = ALIGN_NUMERIC
      then prefix @ replicate (unat (fs_width spec) - (length prefix + length digits)) (fs_fill spec) @ digits
      else padded (if fs_align spec = ALIGN_DEFAULT then spec\<lparr>fs_align := ALIGN_RIGHT\<rparr> else spec)
             (prefix @ replicate (nat (fs_precision spec) - length digits) (CHR ''0'') @ digits))"

lemma length_padded [simp]: "length (padded spec s) = max (unat (fs_width spec)) (length s)"
  by (cases "fs_align spec") (auto simp: padded_def Let_def max_def)

lemma padded_full: "unat (fs_width spec) \<le> length s \<Longrightarrow> padded spec s = s"
  by (cases "fs_align spec") (simp_all add: padded_def)

lemma write_padded_eq [simp]: "length s = sz \<Longrightarrow> write_padded sz spec s = Inr (padded spec s)"
  by (cases "fs_align spec") (auto simp: write_padded_def reserve_def padded_def Let_def)

lemma write_digits_eq: "length digits = n \<Longrightarrow> write_digits n prefix spec digits = Inr (int_field spec prefix digits)"
  by (auto simp: write_digits_def int_field_def padded_full Let_def)

lemma length_int_field: "unat (fs_width spec) \<le> length (int_field spec prefix digits)"
  by (auto simp: int_field_def)

text \<open>How the number \<open>x\<close> should be written.\<close>

definition int_digits :: "char \<Rightarrow> format_specs \<Rightarrow> int_presentation \<Rightarrow> nat \<Rightarrow> string" where
  "int_digits sep spec p n =
     (case p of
        On_dec \<Rightarrow> decimal_string n
      | On_hex \<Rightarrow> base_string Hex (fs_type spec = CHR ''X'') n
      | On_bin \<Rightarrow> base_string Bin False n
      | On_oct \<Rightarrow> base_string Oct False n
      | On_num \<Rightarrow> grouped sep (decimal_string n))"

definition int_prefix :: "format_specs \<Rightarrow> int_presentation \<Rightarrow> nat \<Rightarrow> string" where
  "int_prefix spec p n =
     (if \<not> has_fs_flag spec HASH_FLAG then []
      else case p of
          On_hex \<Rightarrow> [CHR ''0'', fs_type spec]
        | On_bin \<Rightarrow> [CHR ''0'', fs_type spec]
        | On_oct \<Rightarrow> if fs_precision spec \<le> int (length (base_string Oct False n)) then ''0'' else []
        | _ \<Rightarrow> [])"

definition int_text :: "char \<Rightarrow> format_specs \<Rightarrow> int \<Rightarrow> fmt_error + string" where
  "int_text sep spec x =
     (case handle_int_type_spec (fs_type spec) of
        None \<Rightarrow> Inl (Format_error ''invalid type specifier'')
      | Some p \<Rightarrow> Inr (int_field spec (sign_prefix (x < 0) spec @ int_prefix spec p (nat \<bar>x\<bar>)) (int_digits sep spec p (nat \<bar>x\<bar>))))"

lemma hex_types: "handle_int_type_spec t = Some On_hex \<Longrightarrow> (t \<noteq> CHR ''x'') = (t = CHR ''X'')"
  by (auto simp: handle_int_type_spec_def split: if_splits)

lemma write_int_text:
  assumes "unat (iw_abs iw) = nat \<bar>x\<bar>" "iw_prefix iw = sign_prefix (x < 0) spec" "iw_small iw \<Longrightarrow> unat (iw_abs iw) < 2 ^ 32"
  shows "write_int sep iw spec = int_text sep spec x"
proof (cases "handle_int_type_spec (fs_type spec)")
  case None
  then show ?thesis by (simp add: write_int_def int_text_def)
next
  case (Some p)
  have c: "count_abs_digits iw = length (decimal_string (nat \<bar>x\<bar>))"
    using count_abs_digits_eq [of iw] assms by simp
  note dec = digits_in_dec [of "iw_abs iw", unfolded assms(1)]
    and base = digits_in_base [of _ "iw_abs iw", unfolded assms(1)]
    and sep = digits_in_sep [of _ sep "iw_abs iw", unfolded assms(1)]
    and len = count_base_digits_length [of _ "iw_abs iw", unfolded assms(1)]
  show ?thesis
  proof (cases p)
    case On_dec
    with Some c show ?thesis
      by (simp add: write_int_def on_dec_def int_text_def int_digits_def int_prefix_def dec write_digits_eq assms(2))
  next
    case On_hex
    with Some hex_types [of "fs_type spec"] base [of Hex "fs_type spec \<noteq> CHR ''x''"] len [of Hex "fs_type spec = CHR ''X''"] show ?thesis
      by (simp add: write_int_def on_hex_def int_text_def int_digits_def int_prefix_def hash_prefix_def write_digits_eq assms(2))
  next
    case On_bin
    with Some base [of Bin False] len [of Bin False] show ?thesis
      by (simp add: write_int_def on_bin_def int_text_def int_digits_def int_prefix_def hash_prefix_def write_digits_eq assms(2))
  next
    case On_oct
    with Some base [of Oct False] len [of Oct False] show ?thesis
      by (simp add: write_int_def on_oct_def int_text_def int_digits_def int_prefix_def write_digits_eq assms(2))
  next
    case On_num
    let ?d = "decimal_string (nat \<bar>x\<bar>)"
    have "length ?d + (length ?d - 1) div 3 = length (grouped sep ?d)"
      using length_grouped [of ?d sep] decimal_string_nonempty by simp
    with On_num Some c sep show ?thesis
      by (simp add: write_int_def on_num_def int_text_def int_digits_def int_prefix_def write_digits_eq assms(2))
  qed
qed

lemma unat_magnitude:
  fixes v :: "'a::len word"
  shows "unat (if v <s 0 then 0 - v else v) = nat \<bar>sint v\<bar>"
proof -
  let ?n = "sint v" and ?m = "(2 :: int) ^ (LENGTH('a) - 1)"
  have r: "- ?m \<le> ?n" "?n < ?m" using sint_ge [of v] sint_lt [of v] by simp_all
  have m: "?m < 2 ^ LENGTH('a)" by simp
  have neg: "v <s 0 \<longleftrightarrow> ?n < 0" by (simp add: word_sless_alt)
  show ?thesis
  proof (cases "?n < 0")
    case True
    have "0 - v = of_int (- ?n)" by simp
    then have "unat (0 - v) = nat ((- ?n) mod 2 ^ LENGTH('a))"
      by (simp only: unat_eq_nat_uint uint_word_of_int)
    moreover have "(- ?n) mod 2 ^ LENGTH('a) = - ?n" by (rule mod_pos_pos_trivial) (use True r m in linarith)+
    ultimately show ?thesis using True neg by simp
  next
    case False
    have "unat v = nat (?n mod 2 ^ LENGTH('a))" by (simp add: unat_eq_nat_uint uint_sint take_bit_eq_mod)
    moreover have "?n mod 2 ^ LENGTH('a) = ?n" by (rule mod_pos_pos_trivial) (use False r m in linarith)+
    ultimately show ?thesis using False neg by simp
  qed
qed

lemma unat_magnitude_any:
  "unat (if sg \<and> v <s 0 then 0 - v else v) = nat \<bar>if sg then sint v else uint v\<bar>"
proof (cases sg)
  case True
  then show ?thesis using unat_magnitude [of v] by (simp only: simp_thms if_True)
next
  case False
  then show ?thesis by (simp only: simp_thms if_False unat_eq_nat_uint abs_of_nonneg [OF uint_ge_0])
qed

lemma sign_any: "sg \<and> v <s 0 \<longleftrightarrow> (if sg then sint v else uint v) < 0"
  by (simp add: word_sless_alt)

lemma int_writer32_text: "write_int sep (int_writer32 sg v spec) spec = int_text sep spec (if sg then sint v else uint v)"
proof (rule write_int_text)
  let ?u = "if sg \<and> v <s 0 then 0 - v else v"
  have iw: "iw_abs (int_writer32 sg v spec) = ucast ?u" by (simp only: int_writer32_def Let_def int_writer.simps)
  show "unat (iw_abs (int_writer32 sg v spec)) = nat \<bar>if sg then sint v else uint v\<bar>"
    unfolding iw unat_ucast_32_64 by (rule unat_magnitude_any)
  show "iw_prefix (int_writer32 sg v spec) = sign_prefix ((if sg then sint v else uint v) < 0) spec"
    by (simp only: int_writer32_def Let_def int_writer.simps sign_any)
  show "unat (iw_abs (int_writer32 sg v spec)) < 2 ^ 32"
    unfolding iw unat_ucast_32_64 using unsigned_less [of ?u] by simp
qed

lemma int_writer64_text: "write_int sep (int_writer64 sg v spec) spec = int_text sep spec (if sg then sint v else uint v)"
proof (rule write_int_text)
  show "unat (iw_abs (int_writer64 sg v spec)) = nat \<bar>if sg then sint v else uint v\<bar>"
    using unat_magnitude_any [of sg v] by (simp only: int_writer64_def Let_def int_writer.simps)
  show "iw_prefix (int_writer64 sg v spec) = sign_prefix ((if sg then sint v else uint v) < 0) spec"
    by (simp only: int_writer64_def Let_def int_writer.simps sign_any)
qed (simp add: int_writer64_def Let_def)

section \<open>Properties\<close>

text \<open>C19: Every integer argument, of each of the four types, is written as its value: optional sign, prefix of the base,
  zeros or fill characters as the specification asks, and the digits of the magnitude in base ten, sixteen, two or eight or
  in groups of three. This holds for the smallest negative numbers too, and nothing else than what was reserved is
  written.\<close>

theorem integer_arguments_correct:
  "write_arg fo sep spec (Int_arg i) = int_text sep spec (sint i) \<and>
   write_arg fo sep spec (Uint_arg u) = int_text sep spec (uint u) \<and>
   write_arg fo sep spec (Long_long_arg l) = int_text sep spec (sint l) \<and>
   write_arg fo sep spec (Ulong_long_arg m) = int_text sep spec (uint m)"
  by (simp add: int_writer32_text int_writer64_text)

text \<open>What a value of a type other than the user-defined ones can end with: a text at least as wide as
  asked for, or an exception of type \<^verbatim>\<open>format_error\<close>.\<close>

definition field_result :: "format_specs \<Rightarrow> fmt_error + string \<Rightarrow> bool" where
  "field_result spec r \<longleftrightarrow> (case r of Inl e \<Rightarrow> (\<exists>msg. e = Format_error msg) | Inr s \<Rightarrow> unat (fs_width spec) \<le> length s)"

lemma field_result_simps [simp]:
  "field_result spec (Inl (Format_error msg))" "field_result spec (Inr (padded spec s))"
  "field_result spec (Inr (int_field spec pre digits))"
  by (simp_all add: field_result_def length_int_field)

lemma field_result_int [simp]: "field_result spec (int_text sep spec x)"
  by (simp add: int_text_def split: option.splits)

lemma field_result_pointer [simp]: "field_result spec (write_pointer sep p spec)"
  using field_result_int [of "spec\<lparr>fs_flags := HASH_FLAG, fs_type := CHR ''x''\<rparr>" sep "uint p"]
  by (cases "int_text sep (spec\<lparr>fs_flags := HASH_FLAG, fs_type := CHR ''x''\<rparr>) (uint p)")
    (simp_all add: write_pointer_def int_writer64_text Let_def field_result_def)

lemma field_result_str [simp]: "field_result spec (write_str_spec s spec)"
  by (simp add: write_str_spec_def Let_def)

lemma field_result_double [simp]: "field_result spec (write_double fo d spec)"
proof (cases "handle_float_type_spec (fs_type spec)")
  case None
  then show ?thesis by (simp add: write_double_def)
next
  case (Some p)
  let ?sgn = "sign_prefix (f_isnegative fo d) spec"
  have w: "unat (if ?sgn \<noteq> [] \<and> fs_width spec \<noteq> 0 then fs_width spec - 1 else fs_width spec) + length ?sgn \<ge> unat (fs_width spec)"
  proof (cases "?sgn \<noteq> [] \<and> fs_width spec \<noteq> 0")
    case True
    then have "unat (fs_width spec - 1) = unat (fs_width spec) - 1" by (simp add: unat_minus_one)
    moreover have "length ?sgn = 1" using True by (auto simp: sign_prefix_def split: if_splits)
    ultimately show ?thesis using True by simp
  qed auto
  show ?thesis
    using w unfolding write_double_def Some by (auto simp: Let_def field_result_def split: prod.splits)
qed

lemma write_arg_field:
  assumes "arg_type a \<notin> {none_type, named_arg_type, custom_type}"
  shows "field_result spec (write_arg fo sep spec a)"
proof (cases a)
  case (Char_arg c)
  then show ?thesis
    by (cases "handle_char_specs spec")
      (auto simp: handle_char_specs_def write_char_def int_writer32_text split: char_presentation.splits if_splits)
next
  case (Cstring_arg p s)
  then show ?thesis
    by (cases "handle_cstring_type_spec (fs_type spec)")
      (auto simp: handle_cstring_type_spec_def write_cstring_def split: cstring_presentation.splits if_splits)
qed (use assms in \<open>auto simp: int_writer32_text int_writer64_text write_bool_def check_string_type_spec_def check_pointer_type_spec_def\<close>)

text \<open>Whatever the specification, writing an argument of a built-in type never leaves the reserved room or a buffer
  and fails no assertion: the result is a text of at least the requested width, or the exception \<^verbatim>\<open>format_error\<close>.\<close>

theorem built_in_arguments_safe:
  assumes "arg_type a \<notin> {none_type, named_arg_type, custom_type}"
  shows "field_result spec (write_arg fo sep spec a)"
  using assms by (rule write_arg_field)

definition no_floats :: "unit float_ops" where
  "no_floats = \<lparr>f_isnegative = (\<lambda>_. False), f_negate = id, f_isnan = (\<lambda>_. False), f_isinf = (\<lambda>_. True), f_snprintf = (\<lambda>_ _. [])\<rparr>"

theorem built_in_arguments_safe_witness:
  "field_result (basic_format_specs\<lparr>fs_width := 7\<rparr>)
     (write_arg no_floats (CHR '','') (basic_format_specs\<lparr>fs_width := 7\<rparr>) (String_arg ''abc'' :: (unit, unit) fmt_arg))"
  by (rule built_in_arguments_safe) simp

lemma decimal_string_length_iff: "0 < k \<Longrightarrow> length (decimal_string n) \<le> k \<longleftrightarrow> n < 10 ^ k"
proof
  assume k: "0 < k" and l: "length (decimal_string n) \<le> k"
  obtain j where j: "length (decimal_string n) = Suc j" using decimal_string_nonempty [of n] by (cases "decimal_string n") auto
  with length_decimal_string [of n j] have "n < 10 ^ Suc j" by (auto split: if_splits)
  moreover have "(10 :: nat) ^ Suc j \<le> 10 ^ k" using l j by (intro power_increasing) simp_all
  ultimately show "n < 10 ^ k" by simp
qed (rule decimal_string_length)

lemma format_decimal_sep_out_eq:
  assumes "n = length (grouped sep (decimal_string (unat v)))"
  shows "format_decimal_sep_out digits10 sep v n =
    (if n \<le> digits10 + 2 then Some (grouped sep (decimal_string (unat v))) else None)"
proof -
  let ?g = "grouped sep (decimal_string (unat v))" and ?s = "separated sep 0 (rev (decimal_string (unat v)))"
  have g: "?g = rev ?s" by (simp add: grouped_def)
  have "length ?s \<noteq> 0" using decimal_string_nonempty [of "unat v"] by (simp add: length_separated)
  then have ne: "?s \<noteq> []" by simp
  show ?thesis
  proof (cases "n \<le> digits10 + 2")
    case True
    then show ?thesis
      unfolding format_decimal_sep_out_def format_decimal_sep_def decimal_sep_loop_seq
      using put_seq_correct [of n "replicate (digits10 + 2) NUL" ?s] g assms by (simp add: splice_at_def)
  next
    case False
    then show ?thesis
      unfolding format_decimal_sep_out_def format_decimal_sep_def decimal_sep_loop_seq
      using put_seq_outside [of "replicate (digits10 + 2) NUL" n ?s] ne by simp
  qed
qed

text \<open>Grouping by thousands for an output iterator that is not a pointer overflows a local buffer. The buffer has room for
  the digits of the largest number (9 and 19 plus two) but not for the separators: 32-bit numbers from \<open>10 ^ 9\<close> on and 64-bit
  numbers from \<open>10 ^ 16\<close> on are written outside of it. Below these bounds the result is right.\<close>

theorem thousands_overflow:
  "format_decimal_sep_out 9 sep v (count_digits v + (count_digits v - 1) div 3) =
     (if unat v < 10 ^ 9 then Some (grouped sep (decimal_string (unat v))) else None) \<and>
   format_decimal_sep_out 19 sep v (count_digits v + (count_digits v - 1) div 3) =
     (if unat v < 10 ^ 16 then Some (grouped sep (decimal_string (unat v))) else None)"
proof -
  let ?d = "decimal_string (unat v)"
  have n: "count_digits v + (count_digits v - 1) div 3 = length (grouped sep ?d)"
    using length_grouped [of ?d sep] decimal_string_nonempty count_digits_correct [of v] by simp
  have "length (grouped sep ?d) \<le> 11 \<longleftrightarrow> length ?d \<le> 9" "length (grouped sep ?d) \<le> 21 \<longleftrightarrow> length ?d \<le> 16"
    using length_grouped [of ?d sep] decimal_string_nonempty by (auto; presburger)+
  then show ?thesis
    unfolding n using decimal_string_length_iff [of 9 "unat v"] decimal_string_length_iff [of 16 "unat v"]
    by (simp add: format_decimal_sep_out_eq)
qed

text \<open>Infinity with a zero flag: the zeros are written behind it.\<close>

lemma infinity_zero_flag:
  "write_arg no_floats sep (basic_format_specs\<lparr>fs_fill := CHR ''0'', fs_align := ALIGN_NUMERIC, fs_width := 6\<rparr>) (Double_arg ()) =
     Inr ''inf000''"
  by (simp add: write_double_def no_floats_def basic_format_specs_def handle_float_type_spec_def float_spec_handler_def
    sign_prefix_def has_fs_flag_def padded_def numeral_3_eq_3 NUL_def)

end
