(* ===== verification/Fmt_Format.thy ===== *)
theory Fmt_Format
  imports Fmt_Writer
begin

text \<open>
  Format strings of the bundled fmt library: the arguments of a call (\<^verbatim>\<open>format_arg_store\<close>, \<^verbatim>\<open>basic_format_args\<close>, \<^verbatim>\<open>arg_map\<close> in
  \<^verbatim>\<open>core.h\<close>), the parsers of argument ids, of format specifications and of whole format strings, and their handlers
  (\<^verbatim>\<open>format.h\<close>): the one that formats and the one that checks a format string at compile time.

  An iterator is the rest of the text; reading at the end gives zero (\<^verbatim>\<open>null_terminating_iterator\<close>), and it is only advanced
  over a character that has been read. A handler is a record of functions on its state. The handler's \<^verbatim>\<open>on_error\<close> throws, so an
  error ends the run. The loop over the format string is a partial function: a user-defined formatter decides
  where it goes on. The formatters of user-defined types are the parameter \<open>fc\<close>.
\<close>

section \<open>Arguments\<close>

text \<open>The type codes of up to fourteen arguments are packed into one word, four bits each; for more arguments the
  word is minus their number.\<close>

record ('d, 'c) format_args =
  fa_types :: uint64
  fa_values :: "('d, 'c) fmt_arg list"

definition max_packed_args :: nat where
  "max_packed_args = 15"

fun get_types :: "('d, 'c) fmt_arg list \<Rightarrow> uint64" where
  "get_types [] = 0"
| "get_types (a # as) = of_nat (type_code (arg_type a)) OR push_bit 4 (get_types as)"

definition make_format_args :: "('d, 'c) fmt_arg list \<Rightarrow> ('d, 'c) format_args" where
  "make_format_args as =
     (if length as < max_packed_args
      then \<lparr>fa_types = get_types as, fa_values = as @ (if as = [] then [None_arg] else [])\<rparr>
      else \<lparr>fa_types = - of_nat (length as), fa_values = as @ [None_arg]\<rparr>)"

definition args_type_code :: "('d, 'c) format_args \<Rightarrow> nat \<Rightarrow> nat" where
  "args_type_code fa i = unat (drop_bit (i * 4) (fa_types fa AND push_bit (i * 4) 0xF))"

definition value_at :: "nat \<Rightarrow> ('d, 'c) fmt_arg list \<Rightarrow> fmt_error + ('d, 'c) fmt_arg" where
  "value_at i vs = (if i < length vs then Inr (vs ! i) else Inl Bad_read)"

definition args_do_get :: "('d, 'c) format_args \<Rightarrow> nat \<Rightarrow> fmt_error + ('d, 'c) fmt_arg" where
  "args_do_get fa i =
     (if fa_types fa <s 0
      then if i < unat (- fa_types fa) then value_at i (fa_values fa) else Inr None_arg
      else if i > max_packed_args then Inr None_arg
      else
        (let t = args_type_code fa i in
         if t = 0 then Inr None_arg
         else bindE (value_at i (fa_values fa)) (\<lambda>v. if type_code (arg_type v) = t then Inr v else Inl Bad_read)))"

definition args_get :: "('d, 'c) format_args \<Rightarrow> nat \<Rightarrow> fmt_error + ('d, 'c) fmt_arg" where
  "args_get fa i = bindE (args_do_get fa i) (\<lambda>a. Inr (case a of Named_arg name v \<Rightarrow> v | _ \<Rightarrow> a))"

text \<open>\<^verbatim>\<open>arg_map\<close>: the named arguments in the order of the call; the first with a name is found.\<close>

definition named_entry :: "('d, 'c) fmt_arg \<Rightarrow> (string \<times> ('d, 'c) fmt_arg) list" where
  "named_entry a = (case a of Named_arg name v \<Rightarrow> [(name, v)] | _ \<Rightarrow> [])"

definition arg_map_init :: "('d, 'c) format_args \<Rightarrow> (string \<times> ('d, 'c) fmt_arg) list" where
  "arg_map_init fa =
     (if args_type_code fa (max_packed_args - 1) = 0
      then concat (map (\<lambda>i. if args_type_code fa i = 1 then named_entry (fa_values fa ! i) else [])
             (takeWhile (\<lambda>i. args_type_code fa i \<noteq> 0) [0..<16]))
      else concat (map named_entry (takeWhile (\<lambda>a. arg_type a \<noteq> none_type) (fa_values fa))))"

definition arg_map_find :: "(string \<times> ('d, 'c) fmt_arg) list \<Rightarrow> string \<Rightarrow> ('d, 'c) fmt_arg" where
  "arg_map_find m name = (case map_of m name of None \<Rightarrow> None_arg | Some a \<Rightarrow> a)"

section \<open>Contexts\<close>

record parse_ctx =
  pc_rest :: string
  pc_next_arg_id :: int

definition next_arg_id :: "'x parse_ctx_scheme \<Rightarrow> fmt_error + nat \<times> 'x parse_ctx_scheme" where
  "next_arg_id ctx =
     (if pc_next_arg_id ctx \<ge> 0
      then Inr (nat (pc_next_arg_id ctx), ctx\<lparr>pc_next_arg_id := pc_next_arg_id ctx + 1\<rparr>)
      else Inl (Format_error ''cannot switch from manual to automatic argument indexing''))"

definition check_arg_id :: "'x parse_ctx_scheme \<Rightarrow> fmt_error + 'x parse_ctx_scheme" where
  "check_arg_id ctx =
     (if pc_next_arg_id ctx > 0
      then Inl (Format_error ''cannot switch from automatic to manual argument indexing'')
      else Inr (ctx\<lparr>pc_next_arg_id := -1\<rparr>))"

record ('d, 'c) fmt_ctx = parse_ctx +
  fx_out :: string
  fx_args :: "('d, 'c) format_args"

definition do_get_arg :: "nat \<Rightarrow> ('d, 'c) fmt_ctx \<Rightarrow> fmt_error + ('d, 'c) fmt_arg" where
  "do_get_arg i ctx =
     bindE (args_get (fx_args ctx) i) (\<lambda>a.
       if arg_type a = none_type then Inl (Format_error ''argument index out of range'') else Inr a)"

definition next_arg :: "('d, 'c) fmt_ctx \<Rightarrow> fmt_error + ('d, 'c) fmt_arg \<times> ('d, 'c) fmt_ctx" where
  "next_arg ctx = bindE (next_arg_id ctx) (\<lambda>(i, ctx). bindE (do_get_arg i ctx) (\<lambda>a. Inr (a, ctx)))"

definition get_arg_name :: "string \<Rightarrow> ('d, 'c) fmt_ctx \<Rightarrow> fmt_error + ('d, 'c) fmt_arg" where
  "get_arg_name name ctx =
     (let a = arg_map_find (arg_map_init (fx_args ctx)) name
      in if arg_type a = none_type then Inl (Format_error ''argument not found'') else Inr a)"

section \<open>Numbers and argument ids\<close>

definition peek :: "string \<Rightarrow> char" where
  "peek it = (case it of [] \<Rightarrow> NUL | c # _ \<Rightarrow> c)"

definition is_digit :: "char \<Rightarrow> bool" where
  "is_digit c \<longleftrightarrow> (48 :: nat) \<le> of_char c \<and> of_char c \<le> (57 :: nat)"

definition is_name_start :: "char \<Rightarrow> bool" where
  "is_name_start c \<longleftrightarrow>
     ((97 :: nat) \<le> of_char c \<and> of_char c \<le> (122 :: nat)) \<or> ((65 :: nat) \<le> of_char c \<and> of_char c \<le> (90 :: nat)) \<or> c = CHR ''_''"

definition MAX_INT :: uint32 where
  "MAX_INT = 2147483647"

fun nonnegative_loop :: "uint32 \<Rightarrow> string \<Rightarrow> uint32 \<times> string" where
  "nonnegative_loop v [] = (v, [])"
| "nonnegative_loop v (c # it) =
     (if v > MAX_INT div 10 then (MAX_INT + 1, c # it)
      else
        (let v = v * 10 + (of_char c - 48) in if is_digit (peek it) then nonnegative_loop v it else (v, it)))"

definition parse_nonnegative_int :: "string \<Rightarrow> fmt_error + uint32 \<times> string" where
  "parse_nonnegative_int it =
     (if \<not> is_digit (peek it) then Inl Assert_failed
      else case nonnegative_loop 0 it of
        (v, it) \<Rightarrow> if v > MAX_INT then Inl (Format_error ''number is too big'') else Inr (v, it))"

text \<open>What \<^verbatim>\<open>parse_arg_id\<close> tells its handler at the end.\<close>

datatype arg_id = Auto_id | Index_id uint32 | Name_id string

definition is_name_char :: "char \<Rightarrow> bool" where
  "is_name_char c \<longleftrightarrow> is_name_start c \<or> is_digit c"

definition parse_arg_id :: "string \<Rightarrow> fmt_error + arg_id \<times> string" where
  "parse_arg_id it =
     (let c = peek it in
      if c = CHR ''}'' \<or> c = CHR '':'' then Inr (Auto_id, it)
      else if is_digit c then
        bindE (parse_nonnegative_int it) (\<lambda>(index, it).
          if peek it \<noteq> CHR ''}'' \<and> peek it \<noteq> CHR '':'' then Inl (Format_error ''invalid format string'')
          else Inr (Index_id index, it))
      else if \<not> is_name_start c then Inl (Format_error ''invalid format string'')
      else Inr (Name_id (c # takeWhile is_name_char (tl it)), dropWhile is_name_char (tl it)))"

section \<open>Format specifications\<close>

definition quoted :: "char \<Rightarrow> string" where
  "quoted c = [CHR 0x27, c, CHR 0x27]"

text \<open>The operations of a handler of \<^verbatim>\<open>parse_format_specs\<close>.\<close>

record 's spec_handler =
  sh_fill :: "char \<Rightarrow> 's \<Rightarrow> fmt_error + 's"
  sh_align :: "alignment \<Rightarrow> 's \<Rightarrow> fmt_error + 's"
  sh_plus :: "'s \<Rightarrow> fmt_error + 's"
  sh_minus :: "'s \<Rightarrow> fmt_error + 's"
  sh_space :: "'s \<Rightarrow> fmt_error + 's"
  sh_hash :: "'s \<Rightarrow> fmt_error + 's"
  sh_zero :: "'s \<Rightarrow> fmt_error + 's"
  sh_width :: "uint32 \<Rightarrow> 's \<Rightarrow> fmt_error + 's"
  sh_dynamic_width :: "arg_id \<Rightarrow> 's \<Rightarrow> fmt_error + 's"
  sh_precision :: "uint32 \<Rightarrow> 's \<Rightarrow> fmt_error + 's"
  sh_dynamic_precision :: "arg_id \<Rightarrow> 's \<Rightarrow> fmt_error + 's"
  sh_end_precision :: "'s \<Rightarrow> fmt_error + 's"
  sh_type :: "char \<Rightarrow> 's \<Rightarrow> fmt_error + 's"

definition align_of :: "char \<Rightarrow> alignment" where
  "align_of c =
     (if c = CHR ''<'' then ALIGN_LEFT else if c = CHR ''>'' then ALIGN_RIGHT
      else if c = CHR ''='' then ALIGN_NUMERIC else if c = CHR ''^'' then ALIGN_CENTER
      else ALIGN_DEFAULT)"

definition parse_align :: "'s spec_handler \<Rightarrow> string \<times> 's \<Rightarrow> fmt_error + string \<times> 's" where
  "parse_align h = (\<lambda>(it, s).
     let c = peek it; align1 = align_of (peek (tl it)); align0 = align_of c in
     if align1 \<noteq> ALIGN_DEFAULT
     then if c = CHR ''{'' then Inl (Format_error (''invalid fill character '' @ quoted (CHR ''{'')))
          else bindE (sh_fill h c s) (\<lambda>s. bindE (sh_align h align1 s) (\<lambda>s. Inr (drop 2 it, s)))
     else if align0 \<noteq> ALIGN_DEFAULT
     then bindE (sh_align h align0 s) (\<lambda>s. Inr (tl it, s))
     else Inr (it, s))"

definition parse_sign :: "'s spec_handler \<Rightarrow> string \<times> 's \<Rightarrow> fmt_error + string \<times> 's" where
  "parse_sign h = (\<lambda>(it, s).
     if peek it = CHR ''+'' then bindE (sh_plus h s) (\<lambda>s. Inr (tl it, s))
     else if peek it = CHR ''-'' then bindE (sh_minus h s) (\<lambda>s. Inr (tl it, s))
     else if peek it = CHR '' '' then bindE (sh_space h s) (\<lambda>s. Inr (tl it, s))
     else Inr (it, s))"

definition parse_hash :: "'s spec_handler \<Rightarrow> string \<times> 's \<Rightarrow> fmt_error + string \<times> 's" where
  "parse_hash h = (\<lambda>(it, s). if peek it = CHR ''#'' then bindE (sh_hash h s) (\<lambda>s. Inr (tl it, s)) else Inr (it, s))"

definition parse_zero :: "'s spec_handler \<Rightarrow> string \<times> 's \<Rightarrow> fmt_error + string \<times> 's" where
  "parse_zero h = (\<lambda>(it, s). if peek it = CHR ''0'' then bindE (sh_zero h s) (\<lambda>s. Inr (tl it, s)) else Inr (it, s))"

text \<open>A number in the text, or the id of an argument in braces.\<close>

definition parse_dynamic :: "(arg_id \<Rightarrow> 's \<Rightarrow> fmt_error + 's) \<Rightarrow> string \<times> 's \<Rightarrow> fmt_error + string \<times> 's" where
  "parse_dynamic f = (\<lambda>(it, s).
     bindE (parse_arg_id (tl it)) (\<lambda>(aid, it).
     bindE (f aid s) (\<lambda>s.
     if peek it \<noteq> CHR ''}'' then Inl (Format_error ''invalid format string'') else Inr (tl it, s))))"

definition parse_width :: "'s spec_handler \<Rightarrow> string \<times> 's \<Rightarrow> fmt_error + string \<times> 's" where
  "parse_width h = (\<lambda>(it, s).
     if is_digit (peek it)
     then bindE (parse_nonnegative_int it) (\<lambda>(v, it). bindE (sh_width h v s) (\<lambda>s. Inr (it, s)))
     else if peek it = CHR ''{'' then parse_dynamic (sh_dynamic_width h) (it, s)
     else Inr (it, s))"

definition parse_precision :: "'s spec_handler \<Rightarrow> string \<times> 's \<Rightarrow> fmt_error + string \<times> 's" where
  "parse_precision h = (\<lambda>(it, s).
     if peek it = CHR ''.'' then
       (let it = tl it in
        bindE
          (if is_digit (peek it)
           then bindE (parse_nonnegative_int it) (\<lambda>(v, it). bindE (sh_precision h v s) (\<lambda>s. Inr (it, s)))
           else if peek it = CHR ''{'' then parse_dynamic (sh_dynamic_precision h) (it, s)
           else Inl (Format_error ''missing precision specifier''))
          (\<lambda>(it, s). bindE (sh_end_precision h s) (\<lambda>s. Inr (it, s))))
     else Inr (it, s))"

definition parse_type :: "'s spec_handler \<Rightarrow> string \<times> 's \<Rightarrow> fmt_error + string \<times> 's" where
  "parse_type h = (\<lambda>(it, s).
     if peek it \<noteq> CHR ''}'' \<and> peek it \<noteq> NUL then bindE (sh_type h (peek it) s) (\<lambda>s. Inr (tl it, s)) else Inr (it, s))"

definition parse_format_specs :: "'s spec_handler \<Rightarrow> string \<times> 's \<Rightarrow> fmt_error + string \<times> 's" where
  "parse_format_specs h = (\<lambda>(it, s).
     if peek it = CHR ''}'' \<or> peek it = NUL then Inr (it, s)
     else
       bindE (parse_align h (it, s)) (\<lambda>x.
       bindE (parse_sign h x) (\<lambda>x.
       bindE (parse_hash h x) (\<lambda>x.
       bindE (parse_zero h x) (\<lambda>x.
       bindE (parse_width h x) (\<lambda>x.
       bindE (parse_precision h x) (\<lambda>x.
       parse_type h x)))))))"

section \<open>Handlers of specifications\<close>

text \<open>\<^verbatim>\<open>specs_setter\<close>: sets the fields; the state is a specification and something more.\<close>

type_synonym 'x specs_state = "format_specs \<times> 'x"

definition specs_setter ::
  "(arg_id \<Rightarrow> 'x specs_state \<Rightarrow> fmt_error + 'x specs_state) \<Rightarrow> (arg_id \<Rightarrow> 'x specs_state \<Rightarrow> fmt_error + 'x specs_state) \<Rightarrow>
   'x specs_state spec_handler" where
  "specs_setter dyn_width dyn_precision =
     \<lparr>sh_fill = (\<lambda>c (sp, x). Inr (sp\<lparr>fs_fill := c\<rparr>, x)),
      sh_align = (\<lambda>al (sp, x). Inr (sp\<lparr>fs_align := al\<rparr>, x)),
      sh_plus = (\<lambda>(sp, x). Inr (sp\<lparr>fs_flags := fs_flags sp OR (SIGN_FLAG OR PLUS_FLAG)\<rparr>, x)),
      sh_minus = (\<lambda>(sp, x). Inr (sp\<lparr>fs_flags := fs_flags sp OR MINUS_FLAG\<rparr>, x)),
      sh_space = (\<lambda>(sp, x). Inr (sp\<lparr>fs_flags := fs_flags sp OR SIGN_FLAG\<rparr>, x)),
      sh_hash = (\<lambda>(sp, x). Inr (sp\<lparr>fs_flags := fs_flags sp OR HASH_FLAG\<rparr>, x)),
      sh_zero = (\<lambda>(sp, x). Inr (sp\<lparr>fs_align := ALIGN_NUMERIC, fs_fill := CHR ''0''\<rparr>, x)),
      sh_width = (\<lambda>w (sp, x). Inr (sp\<lparr>fs_width := w\<rparr>, x)),
      sh_dynamic_width = dyn_width,
      sh_precision = (\<lambda>p (sp, x). Inr (sp\<lparr>fs_precision := sint p\<rparr>, x)),
      sh_dynamic_precision = dyn_precision,
      sh_end_precision = Inr,
      sh_type = (\<lambda>c (sp, x). Inr (sp\<lparr>fs_type := c\<rparr>, x))\<rparr>"

text \<open>\<^verbatim>\<open>specs_checker\<close>: checks that the specifiers fit the type of the argument.\<close>

definition require_numeric_argument :: "fmt_type \<Rightarrow> fmt_error + unit" where
  "require_numeric_argument t =
     (if \<not> is_arithmetic t then Inl (Format_error ''format specifier requires numeric argument'') else Inr ())"

definition check_sign :: "fmt_type \<Rightarrow> fmt_error + unit" where
  "check_sign t =
     bindE (require_numeric_argument t) (\<lambda>_.
       if is_integral t \<and> t \<noteq> int_type \<and> t \<noteq> long_long_type \<and> t \<noteq> char_type
       then Inl (Format_error ''format specifier requires signed argument'') else Inr ())"

definition specs_checker :: "fmt_type \<Rightarrow> 's spec_handler \<Rightarrow> 's spec_handler" where
  "specs_checker t h =
     h\<lparr>sh_align := (\<lambda>al s. bindE (if al = ALIGN_NUMERIC then require_numeric_argument t else Inr ()) (\<lambda>_. sh_align h al s)),
       sh_plus := (\<lambda>s. bindE (check_sign t) (\<lambda>_. sh_plus h s)),
       sh_minus := (\<lambda>s. bindE (check_sign t) (\<lambda>_. sh_minus h s)),
       sh_space := (\<lambda>s. bindE (check_sign t) (\<lambda>_. sh_space h s)),
       sh_hash := (\<lambda>s. bindE (require_numeric_argument t) (\<lambda>_. sh_hash h s)),
       sh_zero := (\<lambda>s. bindE (require_numeric_argument t) (\<lambda>_. sh_zero h s)),
       sh_end_precision := (\<lambda>s. if is_integral t \<or> t = pointer_type
          then Inl (Format_error ''precision not allowed for this argument type'') else Inr s)\<rparr>"

text \<open>\<^verbatim>\<open>width_checker\<close>, \<^verbatim>\<open>precision_checker\<close> and \<^verbatim>\<open>set_dynamic_spec\<close>: the value of an argument as a width or precision.\<close>

definition visit_dynamic :: "string \<Rightarrow> ('d, 'c) fmt_arg \<Rightarrow> fmt_error + int" where
  "visit_dynamic what a =
     (let checked = (\<lambda>v. if v < 0 then Inl (Format_error (''negative '' @ what)) else Inr v) in
      case a of
        Int_arg v \<Rightarrow> checked (sint v)
      | Uint_arg v \<Rightarrow> checked (uint v)
      | Long_long_arg v \<Rightarrow> checked (sint v)
      | Ulong_long_arg v \<Rightarrow> checked (uint v)
      | _ \<Rightarrow> Inl (Format_error (what @ '' is not integer'')))"

definition set_dynamic_spec :: "string \<Rightarrow> ('d, 'c) fmt_arg \<Rightarrow> fmt_error + int" where
  "set_dynamic_spec what a =
     bindE (visit_dynamic what a) (\<lambda>v. if v > uint MAX_INT then Inl (Format_error ''number is too big'') else Inr v)"

text \<open>\<^verbatim>\<open>specs_handler\<close>: widths and precisions from the arguments of the context.\<close>

definition get_arg :: "arg_id \<Rightarrow> ('d, 'c) fmt_ctx \<Rightarrow> fmt_error + ('d, 'c) fmt_arg \<times> ('d, 'c) fmt_ctx" where
  "get_arg aid ctx =
     (case aid of
        Auto_id \<Rightarrow> next_arg ctx
      | Index_id i \<Rightarrow> bindE (check_arg_id ctx) (\<lambda>ctx. bindE (do_get_arg (unat i) ctx) (\<lambda>a. Inr (a, ctx)))
      | Name_id name \<Rightarrow> bindE (get_arg_name name ctx) (\<lambda>a. Inr (a, ctx)))"

definition specs_handler :: "('d, 'c) fmt_ctx specs_state spec_handler" where
  "specs_handler = specs_setter
     (\<lambda>aid (sp, ctx). bindE (get_arg aid ctx) (\<lambda>(a, ctx).
        bindE (set_dynamic_spec ''width'' a) (\<lambda>v. Inr (sp\<lparr>fs_width := of_int v\<rparr>, ctx))))
     (\<lambda>aid (sp, ctx). bindE (get_arg aid ctx) (\<lambda>(a, ctx).
        bindE (set_dynamic_spec ''precision'' a) (\<lambda>v. Inr (sp\<lparr>fs_precision := v\<rparr>, ctx))))"

text \<open>\<^verbatim>\<open>dynamic_specs_handler\<close>: remembers which arguments they are; \<^verbatim>\<open>width_ref\<close> and \<^verbatim>\<open>precision_ref\<close>.\<close>

datatype arg_ref = Ref_none | Ref_index nat | Ref_name string

record dynamic_state = parse_ctx +
  dy_width_ref :: arg_ref
  dy_precision_ref :: arg_ref

definition make_arg_ref :: "arg_id \<Rightarrow> dynamic_state \<Rightarrow> fmt_error + arg_ref \<times> dynamic_state" where
  "make_arg_ref aid st =
     (case aid of
        Auto_id \<Rightarrow> bindE (next_arg_id st) (\<lambda>(i, st). Inr (Ref_index i, st))
      | Index_id i \<Rightarrow> bindE (check_arg_id st) (\<lambda>st. Inr (Ref_index (unat i), st))
      | Name_id name \<Rightarrow> Inr (Ref_name name, st))"

definition dynamic_specs_handler :: "dynamic_state specs_state spec_handler" where
  "dynamic_specs_handler = specs_setter
     (\<lambda>aid (sp, st). bindE (make_arg_ref aid st) (\<lambda>(r, st). Inr (sp, st\<lparr>dy_width_ref := r\<rparr>)))
     (\<lambda>aid (sp, st). bindE (make_arg_ref aid st) (\<lambda>(r, st). Inr (sp, st\<lparr>dy_precision_ref := r\<rparr>)))"

section \<open>Format strings\<close>

record 's fmt_handler =
  h_text :: "string \<Rightarrow> 's \<Rightarrow> 's"
  h_arg_id :: "arg_id \<Rightarrow> 's \<Rightarrow> fmt_error + 's"
  h_field :: "string \<Rightarrow> 's \<Rightarrow> fmt_error + 's"
  h_specs :: "string \<Rightarrow> 's \<Rightarrow> fmt_error + string \<times> 's"

text \<open>The text from one iterator to a later one.\<close>

definition text_to :: "string \<Rightarrow> string \<Rightarrow> string" where
  "text_to start it = take (length start - length it) start"

text \<open>A replacement field, from behind its opening brace to its closing brace.\<close>

definition parse_field :: "'s fmt_handler \<Rightarrow> string \<Rightarrow> 's \<Rightarrow> fmt_error + string \<times> 's" where
  "parse_field h it s =
     bindE (parse_arg_id it) (\<lambda>(aid, it).
     bindE (h_arg_id h aid s) (\<lambda>s.
     if peek it = CHR ''}'' then bindE (h_field h it s) (\<lambda>s. Inr (it, s))
     else if peek it = CHR '':'' then
       bindE (h_specs h (tl it) s) (\<lambda>(it, s).
         if peek it \<noteq> CHR ''}'' then Inl (Format_error ''unknown format specifier'') else Inr (it, s))
     else Inl (Format_error (''missing '' @ quoted (CHR ''}'') @ '' in format string''))))"

partial_function (option) format_loop :: "'s fmt_handler \<Rightarrow> string \<Rightarrow> string \<Rightarrow> 's \<Rightarrow> (fmt_error + 's) option" where
  "format_loop h start it s =
     (if peek it = NUL then Some (Inr (h_text h (text_to start it) s))
      else if peek it \<noteq> CHR ''{'' \<and> peek it \<noteq> CHR ''}'' then format_loop h start (tl it) s
      else if peek (tl it) = peek it then format_loop h (drop 2 it) (drop 2 it) (h_text h (text_to start (tl it)) s)
      else if peek it = CHR ''}''
      then Some (Inl (Format_error (''unmatched '' @ quoted (CHR ''}'') @ '' in format string'')))
      else
        (case parse_field h (tl it) (h_text h (text_to start it) s) of
           Inl err \<Rightarrow> Some (Inl err)
         | Inr (it, s) \<Rightarrow> format_loop h (tl it) (tl it) s))"

declare format_loop.simps [code]

definition parse_format_string :: "'s fmt_handler \<Rightarrow> string \<Rightarrow> 's \<Rightarrow> (fmt_error + 's) option" where
  "parse_format_string h fmt s = format_loop h fmt fmt s"

section \<open>Formatting\<close>

text \<open>\<^verbatim>\<open>format_handler\<close>: the context and the current argument.\<close>

type_synonym ('d, 'c) fh_state = "('d, 'c) fmt_ctx \<times> ('d, 'c) fmt_arg"

definition append_out :: "string \<Rightarrow> ('d, 'c) fmt_ctx \<Rightarrow> ('d, 'c) fmt_ctx" where
  "append_out t ctx = ctx\<lparr>fx_out := fx_out ctx @ t\<rparr>"

text \<open>\<^verbatim>\<open>format_custom_arg\<close>: the formatter of a user-defined type gets the value, the rest of the format string, the argument counter and the
  arguments. It throws, or it returns how many characters of the format string its \<^verbatim>\<open>parse\<close> has used, the new counter and the text of its
  \<^verbatim>\<open>format\<close>.\<close>

type_synonym ('d, 'c) custom_formatter =
  "'c \<Rightarrow> string \<Rightarrow> int \<Rightarrow> ('d, 'c) format_args \<Rightarrow> string + nat \<times> int \<times> string"

definition format_custom ::
  "('d, 'c) custom_formatter \<Rightarrow> 'c \<Rightarrow> ('d, 'c) fmt_ctx \<Rightarrow> fmt_error + ('d, 'c) fmt_ctx" where
  "format_custom fc c ctx =
     (case fc c (pc_rest ctx) (pc_next_arg_id ctx) (fx_args ctx) of
        Inl msg \<Rightarrow> Inl (Format_error msg)
      | Inr (n, next_id, t) \<Rightarrow>
          Inr (append_out t (ctx\<lparr>pc_rest := drop n (pc_rest ctx), pc_next_arg_id := next_id\<rparr>)))"

definition on_arg_id :: "arg_id \<Rightarrow> ('d, 'c) fh_state \<Rightarrow> fmt_error + ('d, 'c) fh_state" where
  "on_arg_id aid = (\<lambda>(ctx, _). bindE (get_arg aid ctx) (\<lambda>(a, ctx). Inr (ctx, a)))"

definition on_replacement_field ::
  "'d float_ops \<Rightarrow> char \<Rightarrow> ('d, 'c) custom_formatter \<Rightarrow>
   string \<Rightarrow> ('d, 'c) fh_state \<Rightarrow> fmt_error + ('d, 'c) fh_state" where
  "on_replacement_field fo sep fc it = (\<lambda>(ctx, a).
     let ctx = ctx\<lparr>pc_rest := it\<rparr> in
     case a of
       Custom_arg c \<Rightarrow> bindE (format_custom fc c ctx) (\<lambda>ctx. Inr (ctx, a))
     | _ \<Rightarrow> bindE (write_arg fo sep basic_format_specs a) (\<lambda>t. Inr (append_out t ctx, a)))"

definition on_format_specs ::
  "'d float_ops \<Rightarrow> char \<Rightarrow> ('d, 'c) custom_formatter \<Rightarrow>
   string \<Rightarrow> ('d, 'c) fh_state \<Rightarrow> fmt_error + string \<times> ('d, 'c) fh_state" where
  "on_format_specs fo sep fc it = (\<lambda>(ctx, a).
     let ctx = ctx\<lparr>pc_rest := it\<rparr> in
     case a of
       Custom_arg c \<Rightarrow> bindE (format_custom fc c ctx) (\<lambda>ctx. Inr (pc_rest ctx, ctx, a))
     | _ \<Rightarrow>
         bindE (parse_format_specs (specs_checker (arg_type a) specs_handler) (it, basic_format_specs, ctx)) (\<lambda>(it, specs, ctx).
         if peek it \<noteq> CHR ''}'' then Inl (Format_error (''missing '' @ quoted (CHR ''}'') @ '' in format string''))
         else
           (let ctx = ctx\<lparr>pc_rest := it\<rparr> in
            bindE (write_arg fo sep specs a) (\<lambda>t. Inr (it, append_out t ctx, a)))))"

definition format_handler ::
  "'d float_ops \<Rightarrow> char \<Rightarrow> ('d, 'c) custom_formatter \<Rightarrow> ('d, 'c) fh_state fmt_handler" where
  "format_handler fo sep fc =
     \<lparr>h_text = (\<lambda>t (ctx, a). (append_out t ctx, a)),
      h_arg_id = on_arg_id,
      h_field = on_replacement_field fo sep fc,
      h_specs = on_format_specs fo sep fc\<rparr>"

text \<open>\<^verbatim>\<open>vformat_to\<close>: what is appended to the output.\<close>

definition vformat_to ::
  "'d float_ops \<Rightarrow> char \<Rightarrow> ('d, 'c) custom_formatter \<Rightarrow>
   string \<Rightarrow> ('d, 'c) fmt_arg list \<Rightarrow> (fmt_error + string) option" where
  "vformat_to fo sep fc fmt as =
     map_option (\<lambda>r. bindE r (\<lambda>(ctx, _). Inr (fx_out ctx)))
       (parse_format_string (format_handler fo sep fc) fmt
          (\<lparr>pc_rest = fmt, pc_next_arg_id = 0, fx_out = [], fx_args = make_format_args as\<rparr>, None_arg))"

section \<open>Checking\<close>

text \<open>\<^verbatim>\<open>formatter<T>::parse\<close> for the built-in types.\<close>

definition check_int_type :: "char \<Rightarrow> fmt_error + unit" where
  "check_int_type spec =
     (case handle_int_type_spec spec of None \<Rightarrow> Inl (Format_error ''invalid type specifier'') | Some _ \<Rightarrow> Inr ())"

definition check_type_spec :: "fmt_type \<Rightarrow> format_specs \<Rightarrow> fmt_error + unit" where
  "check_type_spec t sp =
     (case t of
        none_type \<Rightarrow> Inl Assert_failed
      | named_arg_type \<Rightarrow> Inl Assert_failed
      | int_type \<Rightarrow> check_int_type (fs_type sp)
      | uint_type \<Rightarrow> check_int_type (fs_type sp)
      | long_long_type \<Rightarrow> check_int_type (fs_type sp)
      | ulong_long_type \<Rightarrow> check_int_type (fs_type sp)
      | bool_type \<Rightarrow> check_int_type (fs_type sp)
      | char_type \<Rightarrow>
          bindE (handle_char_specs sp) (\<lambda>p. case p of As_int \<Rightarrow> check_int_type (fs_type sp) | As_char \<Rightarrow> Inr ())
      | double_type \<Rightarrow>
          (case handle_float_type_spec (fs_type sp) of None \<Rightarrow> Inl (Format_error ''invalid type specifier'') | Some _ \<Rightarrow> Inr ())
      | long_double_type \<Rightarrow>
          (case handle_float_type_spec (fs_type sp) of None \<Rightarrow> Inl (Format_error ''invalid type specifier'') | Some _ \<Rightarrow> Inr ())
      | cstring_type \<Rightarrow> bindE (handle_cstring_type_spec (fs_type sp)) (\<lambda>_. Inr ())
      | string_type \<Rightarrow> check_string_type_spec (fs_type sp)
      | pointer_type \<Rightarrow> check_pointer_type_spec (fs_type sp)
      | custom_type \<Rightarrow> Inr ())"

definition formatter_parse :: "fmt_type \<Rightarrow> parse_ctx \<Rightarrow> fmt_error + string \<times> parse_ctx" where
  "formatter_parse t ctx =
     bindE (parse_format_specs (specs_checker t dynamic_specs_handler)
         (pc_rest ctx, basic_format_specs,
          \<lparr>pc_rest = pc_rest ctx, pc_next_arg_id = pc_next_arg_id ctx, dy_width_ref = Ref_none, dy_precision_ref = Ref_none\<rparr>))
       (\<lambda>(it, sp, st).
          bindE (check_type_spec t sp) (\<lambda>_. Inr (it, ctx\<lparr>pc_next_arg_id := pc_next_arg_id st\<rparr>)))"

text \<open>\<^verbatim>\<open>format_string_checker\<close>: the id of the current argument and the context; \<open>ts\<close> are the types of the arguments.\<close>

record checker = parse_ctx +
  ck_arg_id :: int

definition checker_check_arg_id :: "fmt_type list \<Rightarrow> checker \<Rightarrow> fmt_error + checker" where
  "checker_check_arg_id ts ck =
     (if ck_arg_id ck < 0 then Inl Assert_failed
      else if nat (ck_arg_id ck) \<ge> length ts then Inl (Format_error ''argument index out of range'')
      else Inr ck)"

definition checker_on_arg_id :: "fmt_type list \<Rightarrow> arg_id \<Rightarrow> checker \<Rightarrow> fmt_error + checker" where
  "checker_on_arg_id ts aid ck =
     (case aid of
        Auto_id \<Rightarrow> bindE (next_arg_id ck) (\<lambda>(i, ck). checker_check_arg_id ts (ck\<lparr>ck_arg_id := int i\<rparr>))
      | Index_id i \<Rightarrow> bindE (check_arg_id (ck\<lparr>ck_arg_id := sint i\<rparr>)) (checker_check_arg_id ts)
      | Name_id _ \<Rightarrow> Inr ck)"

definition checker_on_format_specs :: "fmt_type list \<Rightarrow> string \<Rightarrow> checker \<Rightarrow> fmt_error + string \<times> checker" where
  "checker_on_format_specs ts it ck =
     (let ck = ck\<lparr>pc_rest := it\<rparr> in
      if ck_arg_id ck < 0 then Inl Assert_failed
      else if nat (ck_arg_id ck) < length ts
      then bindE (formatter_parse (ts ! nat (ck_arg_id ck)) \<lparr>pc_rest = it, pc_next_arg_id = pc_next_arg_id ck\<rparr>)
             (\<lambda>(it, ctx). Inr (it, ck\<lparr>pc_next_arg_id := pc_next_arg_id ctx\<rparr>))
      else Inr (it, ck))"

definition format_string_checker :: "fmt_type list \<Rightarrow> checker fmt_handler" where
  "format_string_checker ts =
     \<lparr>h_text = (\<lambda>_ ck. ck), h_arg_id = checker_on_arg_id ts, h_field = (\<lambda>_ ck. Inr ck), h_specs = checker_on_format_specs ts\<rparr>"

definition check_format_string :: "fmt_type list \<Rightarrow> string \<Rightarrow> (fmt_error + unit) option" where
  "check_format_string ts fmt =
     map_option (\<lambda>r. bindE r (\<lambda>_. Inr ()))
       (parse_format_string (format_string_checker ts) fmt \<lparr>pc_rest = fmt, pc_next_arg_id = 0, ck_arg_id = -1\<rparr>)"

end
