(* ===== verification/Fmt_Sound.thy ===== *)
theory Fmt_Sound
  imports Fmt_Format
begin

text \<open>
  What formatting with fmt guarantees: numbers in format strings, the packed arguments, the end of every run with a
  text or a \<^verbatim>\<open>format_error\<close>, the text that is produced for literals and plain fields, and the soundness of the compile-time check.
\<close>

section \<open>Results\<close>

text \<open>A result that is good: it satisfies \<open>P\<close>, or it is an exception of the type users expect.\<close>

definition good :: "('a \<Rightarrow> bool) \<Rightarrow> fmt_error + 'a \<Rightarrow> bool" where
  "good P r \<longleftrightarrow> (case r of Inl e \<Rightarrow> (\<exists>msg. e = Format_error msg) | Inr x \<Rightarrow> P x)"

lemma good_simps [simp]: "good P (Inl (Format_error msg))" "good P (Inr x) = P x"
  by (simp_all add: good_def)

lemma good_bind: "good P r \<Longrightarrow> (\<And>x. P x \<Longrightarrow> good Q (f x)) \<Longrightarrow> good Q (bindE r f)"
  by (cases r) (auto simp: good_def)

lemma good_mono: "good P r \<Longrightarrow> (\<And>x. P x \<Longrightarrow> Q x) \<Longrightarrow> good Q r"
  by (cases r) (auto simp: good_def)

text \<open>Two results of which the first is a run that is trusted: if it succeeds, the second is related to it or is one of
  the errors \<open>ok\<close>.\<close>

definition sim :: "('a \<Rightarrow> 'b \<Rightarrow> bool) \<Rightarrow> (fmt_error \<Rightarrow> bool) \<Rightarrow> fmt_error + 'a \<Rightarrow> fmt_error + 'b \<Rightarrow> bool" where
  "sim R ok r1 r2 \<longleftrightarrow> (\<forall>x. r1 = Inr x \<longrightarrow> (case r2 of Inl e \<Rightarrow> ok e | Inr y \<Rightarrow> R x y))"

lemma sim_simps [simp]: "sim R ok (Inl e) r2" "sim R ok (Inr x) (Inr y) = R x y" "ok e \<Longrightarrow> sim R ok r1 (Inl e)"
  by (simp_all add: sim_def)

lemma sim_bind: "sim R ok r1 r2 \<Longrightarrow> (\<And>x y. R x y \<Longrightarrow> sim S ok (f x) (g y)) \<Longrightarrow> sim S ok (bindE r1 f) (bindE r2 g)"
  by (cases r1; cases r2) (auto simp: sim_def)

lemma sim_check: "(r = Inr () \<Longrightarrow> sim R ok (f ()) (g ())) \<Longrightarrow> sim R ok (bindE r f) (bindE r g)"
  by (cases r) (auto simp: sim_def)

section \<open>Numbers\<close>

lemma is_digit_value: "is_digit c \<Longrightarrow> of_char c - 48 = (of_nat (of_char c - 48) :: uint32) \<and> of_char c - 48 < (10 :: nat)"
  by (auto simp: is_digit_def of_char_def)

lemma read_decimal_ge: "v \<le> read_decimal v ds" "ds \<noteq> [] \<Longrightarrow> v * 10 \<le> read_decimal v ds"
proof -
  show *: "v \<le> read_decimal v ds" for v ds
  proof (induction ds arbitrary: v)
    case (Cons a ds)
    show ?case using Cons.IH [of "v * 10 + (of_char a - 48)"] by simp
  qed simp
  show "ds \<noteq> [] \<Longrightarrow> v * 10 \<le> read_decimal v ds"
    by (cases ds) (auto intro: order_trans [OF _ *])
qed

lemma nonnegative_loop_correct:
  assumes "list_all is_digit ds" "ds \<noteq> []" "\<not> is_digit (peek rest)" "unat v \<le> 214748364"
  shows "if read_decimal (unat v) ds \<le> 2147483647 then nonnegative_loop v (ds @ rest) = (of_nat (read_decimal (unat v) ds), rest)
    else fst (nonnegative_loop v (ds @ rest)) > MAX_INT"
  using assms
proof (induction ds arbitrary: v)
  case (Cons c ds)
  let ?d = "of_char c - 48 :: nat" and ?v = "v * 10 + (of_char c - 48)"
  have d: "of_char c - 48 = (of_nat ?d :: uint32)" "?d < 10" using Cons.prems(1) is_digit_value [of c] by auto
  have v: "unat ?v = unat v * 10 + ?d"
  proof -
    have "unat (v * 10) = unat v * 10" using Cons.prems(4) by (simp add: unat_mul_no_wrap)
    moreover have "unat (of_nat ?d :: uint32) = ?d" using d(2) by (intro unat_of_nat_id) simp
    ultimately show ?thesis unfolding d(1) using Cons.prems(4) d(2) by (simp add: unat_add_no_wrap)
  qed
  have big: "\<not> v > MAX_INT div 10" using Cons.prems(4) by (simp add: MAX_INT_def word_less_nat_alt)
  show ?case
  proof (cases "ds = []")
    case True
    have "of_nat (unat ?v) = ?v" by simp
    then have "?v = of_nat (unat v * 10 + ?d)" unfolding v by (rule sym)
    with True Cons.prems(3) big v show ?thesis by (auto simp: MAX_INT_def word_less_nat_alt)
  next
    case False
    then have nxt: "nonnegative_loop v ((c # ds) @ rest) = nonnegative_loop ?v (ds @ rest)"
      using big Cons.prems(1) by (cases ds) (auto simp: peek_def Let_def)
    show ?thesis
    proof (cases "unat ?v \<le> 214748364")
      case True
      with Cons.IH [of ?v] Cons.prems False nxt v show ?thesis by simp
    next
      case big: False
      then have "nonnegative_loop ?v (ds @ rest) = (MAX_INT + 1, ds @ rest)"
        using False by (cases ds) (auto simp: MAX_INT_def word_less_nat_alt)
      moreover have "2147483647 < read_decimal (unat ?v) ds" using read_decimal_ge(2) [OF False, of "unat ?v"] big by simp
      ultimately show ?thesis using nxt v by (simp add: MAX_INT_def word_less_nat_alt)
    qed
  qed
qed simp

text \<open>C21: A number in a format string (an argument index, a width, a precision) is read as its value, or refused when it
  exceeds the largest \<^verbatim>\<open>int\<close>; the 32-bit arithmetic of the loop never wraps around unnoticed.\<close>

theorem parse_nonnegative_int_correct:
  assumes "list_all is_digit ds" "ds \<noteq> []" "\<not> is_digit (peek rest)"
  shows "parse_nonnegative_int (ds @ rest) =
    (if read_decimal 0 ds \<le> 2147483647 then Inr (of_nat (read_decimal 0 ds), rest)
     else Inl (Format_error ''number is too big''))"
proof -
  have "is_digit (peek (ds @ rest))" using assms(1,2) by (cases ds) (auto simp: peek_def)
  moreover have "\<not> (of_nat n :: uint32) > MAX_INT" if "n \<le> 2147483647" for n
    using that by (simp add: MAX_INT_def word_less_nat_alt unat_of_nat_id)
  ultimately show ?thesis
    using nonnegative_loop_correct [OF assms, of 0] by (auto simp: parse_nonnegative_int_def split: prod.splits if_splits)
qed

theorem parse_nonnegative_int_correct_witness:
  "parse_nonnegative_int ''2147483648}'' = Inl (Format_error ''number is too big'')"
  using parse_nonnegative_int_correct [of "''2147483648''" "''}''"] by (simp add: is_digit_def peek_def)

section \<open>Packed arguments\<close>

fun packed :: "('d, 'c) fmt_arg list \<Rightarrow> nat" where
  "packed [] = 0"
| "packed (a # as) = type_code (arg_type a) + 16 * packed as"

lemma type_code_less: "type_code t < 16"
  by (cases t) simp_all

lemma packed_less: "packed as < 16 ^ length as"
proof (induction as)
  case (Cons a as)
  then show ?case using type_code_less [of "arg_type a"] by simp
qed simp

lemma get_types_packed: "length as \<le> 15 \<Longrightarrow> unat (get_types as) = packed as"
proof (induction as)
  case (Cons a as)
  let ?t = "type_code (arg_type a)"
  have IH: "unat (get_types as) = packed as" using Cons by simp
  have small: "packed as < 2 ^ 56"
  proof -
    have "packed as < 16 ^ length as" by (rule packed_less)
    also have "(16 :: nat) ^ length as \<le> 16 ^ 14" using Cons.prems by (intro power_increasing) simp_all
    finally show ?thesis by simp
  qed
  have p: "unat (push_bit 4 (get_types as)) = 16 * packed as"
    using small by (simp add: push_bit_eq_mult unat_mul_no_wrap IH)
  have "unat (of_nat ?t OR push_bit 4 (get_types as)) = unat (of_nat ?t :: uint64) OR 16 * packed as"
    unfolding unsigned_or_eq p ..
  also have "unat (of_nat ?t :: uint64) = ?t" using type_code_less [of "arg_type a"] by (intro unat_of_nat_id) simp
  also have "?t OR 16 * packed as = ?t + 16 * packed as"
  proof -
    have "take_bit 4 ?t = ?t" using type_code_less by (simp add: take_bit_nat_eq_self)
    moreover have "16 * packed as = push_bit 4 (packed as)" by (simp add: push_bit_eq_mult)
    ultimately show ?thesis
      using disjunctive_add [of ?t "push_bit 4 (packed as)"]
      by (metis bit_push_bit_iff bit_take_bit_iff not_less)
  qed
  finally show ?case by simp
qed simp

lemma args_type_code_eq: "i \<le> 15 \<Longrightarrow> args_type_code fa i = unat (fa_types fa) div 16 ^ i mod 16"
proof -
  assume i: "i \<le> 15"
  then have m: "drop_bit (i * 4) (push_bit (i * 4) 0xF :: uint64) = mask 4"
    by (simp add: mask_eq_exp_minus_1 eval_nat_numeral le_Suc_eq) (elim disjE; simp)
  have "args_type_code fa i = unat (drop_bit (i * 4) (fa_types fa) AND mask 4)"
    by (simp add: args_type_code_def m)
  also have "\<dots> = unat (fa_types fa) div 2 ^ (i * 4) mod 16" by (simp add: unat_base_parts)
  also have "(2 :: nat) ^ (i * 4) = 16 ^ i" by (simp add: mult.commute [of i] power_mult)
  finally show ?thesis .
qed

lemma packed_digit: "packed as div 16 ^ i mod 16 = (if i < length as then type_code (arg_type (as ! i)) else 0)"
proof (induction as arbitrary: i)
  case (Cons a as)
  show ?case
  proof (cases i)
    case 0
    then show ?thesis using type_code_less [of "arg_type a"] by simp
  next
    case (Suc j)
    have "packed (a # as) div 16 ^ i = packed as div 16 ^ j"
      using type_code_less [of "arg_type a"] by (simp add: Suc div_mult2_eq)
    with Cons.IH [of j] Suc show ?thesis by simp
  qed
qed simp

text \<open>Arguments as callers make them: a value, or a name and a value.\<close>

fun wf_arg :: "('d, 'c) fmt_arg \<Rightarrow> bool" where
  "wf_arg None_arg \<longleftrightarrow> False"
| "wf_arg (Named_arg name v) \<longleftrightarrow> arg_type v \<noteq> none_type \<and> arg_type v \<noteq> named_arg_type"
| "wf_arg _ \<longleftrightarrow> True"

fun arg_value :: "('d, 'c) fmt_arg \<Rightarrow> ('d, 'c) fmt_arg" where
  "arg_value (Named_arg name v) = v"
| "arg_value a = a"

lemma arg_value_case: "(case a of Named_arg name v \<Rightarrow> v | _ \<Rightarrow> a) = arg_value a"
  by (cases a) simp_all

lemma type_code_zero [simp]: "type_code t = 0 \<longleftrightarrow> t = none_type"
  by (cases t) simp_all

lemma wf_arg_type: "wf_arg a \<Longrightarrow> arg_type a \<noteq> none_type" "wf_arg a \<Longrightarrow> arg_type (arg_value a) \<notin> {none_type, named_arg_type}"
  by (cases a; simp)+

lemma unpacked_types:
  assumes "n < 2 ^ 63" "0 < n"
  shows "(- of_nat n :: uint64) <s 0" "unat (of_nat n :: uint64) = n"
proof -
  show n: "unat (of_nat n :: uint64) = n" using assms by (intro unat_of_nat_id) simp
  have "int n < 2 ^ 63" using assms(1) by (metis of_nat_less_iff of_nat_numeral of_nat_power)
  then have "signed_take_bit 63 (- int n) = - int n" using assms(2) by (intro signed_take_bit_int_eq_self) simp_all
  moreover have "(- of_nat n :: uint64) = word_of_int (- int n)" by simp
  ultimately have "sint (- of_nat n :: uint64) = - int n" by (simp add: sint_sbintrunc' del: of_int_minus)
  then show "(- of_nat n :: uint64) <s 0" using assms(2) by (simp add: word_sless_alt)
qed

lemma packed_types_positive: "length as < 15 \<Longrightarrow> \<not> get_types as <s 0"
proof -
  assume n: "length as < 15"
  have "packed as < 16 ^ length as" by (rule packed_less)
  also have "(16 :: nat) ^ length as \<le> 16 ^ 14" using n by (intro power_increasing) simp_all
  finally have "packed as < 2 ^ 56" by simp
  then have "unat (get_types as) < 2 ^ 56" using n by (simp add: get_types_packed)
  then have "int (unat (get_types as)) < int (2 ^ 56)" by (simp only: of_nat_less_iff)
  then have u: "uint (get_types as) < 2 ^ 63" by (simp only: uint_nat of_nat_power of_nat_numeral) simp
  have "sint (get_types as) = signed_take_bit 63 (uint (get_types as))" using sint_uint [of "get_types as"] by simp
  also have "\<dots> = uint (get_types as)"
    using u uint_ge_0 [of "get_types as"] by (intro signed_take_bit_int_eq_self) linarith+
  finally have "0 \<le> sint (get_types as)" by (simp only: uint_ge_0)
  then show ?thesis by (simp only: word_sless_alt sint_0 not_less)
qed

lemma args_get_eq:
  assumes "list_all wf_arg as" "length as < 2 ^ 63"
  shows "args_get (make_format_args as) i = Inr (if i < length as then arg_value (as ! i) else None_arg)"
proof (cases "length as < 15")
  case True
  let ?fa = "make_format_args as"
  have fa: "fa_types ?fa = get_types as" "i < length as \<Longrightarrow> fa_values ?fa ! i = as ! i" "length as \<le> length (fa_values ?fa)"
    using True by (auto simp: make_format_args_def max_packed_args_def nth_append)
  have code: "args_type_code ?fa i = (if i < length as then type_code (arg_type (as ! i)) else 0)" if "i \<le> 15"
    using that True by (simp add: args_type_code_eq fa(1) get_types_packed packed_digit)
  have t: "arg_type (as ! i) \<noteq> none_type" if "i < length as"
    using assms(1) that wf_arg_type(1) by (auto simp: list_all_length)
  show ?thesis
  proof (cases "i < length as")
    case i: True
    with True have "i \<le> 15" by simp
    with i code t fa True packed_types_positive [OF True] show ?thesis
      by (simp add: args_get_def args_do_get_def max_packed_args_def value_at_def arg_value_case)
  next
    case False
    with code True fa packed_types_positive [OF True] show ?thesis
      by (cases "i \<le> 15") (simp_all add: args_get_def args_do_get_def max_packed_args_def)
  qed
next
  case False
  let ?fa = "make_format_args as"
  have fa: "fa_types ?fa = - of_nat (length as)" "i < length as \<Longrightarrow> fa_values ?fa ! i = as ! i" "length as \<le> length (fa_values ?fa)"
    using False by (auto simp: make_format_args_def max_packed_args_def nth_append)
  have "0 < length as" using False by linarith
  note u = unpacked_types [OF assms(2) this]
  show ?thesis
    using fa u by (simp add: args_get_def args_do_get_def value_at_def arg_value_case)
qed

text \<open>C20: An argument is found by its index whether the types of the arguments are packed into a word (up to fourteen) or not: every
  index below the number of arguments gives that argument, a named one its value, and every other index none. No value
  is read as another type or outside the array.\<close>

theorem format_args_get:
  assumes "list_all wf_arg as" "length as < 2 ^ 63"
  shows "args_get (make_format_args as) i = Inr (if i < length as then arg_value (as ! i) else None_arg)"
  using assms by (rule args_get_eq)

theorem format_args_get_witness:
  "args_get (make_format_args [Int_arg 5, Named_arg ''n'' (Bool_arg True) :: (unit, unit) fmt_arg]) 1 = Inr (Bool_arg True)"
  using format_args_get [of "[Int_arg 5, Named_arg ''n'' (Bool_arg True) :: (unit, unit) fmt_arg]" 1] by simp

section \<open>Every run ends well\<close>

lemma nonnegative_loop_shorter: "length (snd (nonnegative_loop v it)) \<le> length it"
  by (induction v it rule: nonnegative_loop.induct) (auto simp: Let_def)

lemma parse_nonnegative_int_good:
  "is_digit (peek it) \<Longrightarrow> good (\<lambda>(v, it'). length it' \<le> length it) (parse_nonnegative_int it)"
  using nonnegative_loop_shorter [of 0 it] by (auto simp: parse_nonnegative_int_def split: prod.splits)

lemma parse_arg_id_good: "good (\<lambda>(aid, it'). length it' \<le> length it) (parse_arg_id it)"
proof (cases "is_digit (peek it)")
  case True
  then have "peek it \<noteq> CHR ''}''" "peek it \<noteq> CHR '':''" by (auto simp: is_digit_def)
  with True show ?thesis
    by (auto simp: parse_arg_id_def Let_def intro!: good_bind [OF parse_nonnegative_int_good])
next
  case False
  have "length (dropWhile is_name_char (tl it)) \<le> length it" using length_dropWhile_le [of is_name_char "tl it"] by simp
  with False show ?thesis by (auto simp: parse_arg_id_def Let_def)
qed

definition safe_op :: "('s \<Rightarrow> bool) \<Rightarrow> ('s \<Rightarrow> fmt_error + 's) \<Rightarrow> bool" where
  "safe_op J f \<longleftrightarrow> (\<forall>s. J s \<longrightarrow> good J (f s))"

text \<open>The contract of a handler of specifications: every operation keeps an invariant or throws \<^verbatim>\<open>format_error\<close>.\<close>

locale safe_specs =
  fixes h :: "'s spec_handler" and J :: "'s \<Rightarrow> bool"
  assumes fill: "safe_op J (sh_fill h c)"
    and align: "safe_op J (sh_align h al)"
    and signs: "safe_op J (sh_plus h)" "safe_op J (sh_minus h)" "safe_op J (sh_space h)"
    and hash: "safe_op J (sh_hash h)"
    and zero: "safe_op J (sh_zero h)"
    and width: "safe_op J (sh_width h w)" "safe_op J (sh_dynamic_width h aid)"
    and precision: "safe_op J (sh_precision h w)" "safe_op J (sh_dynamic_precision h aid)" "safe_op J (sh_end_precision h)"
    and type: "safe_op J (sh_type h c)"
begin

definition kept :: "string \<Rightarrow> string \<times> 's \<Rightarrow> bool" where
  "kept it = (\<lambda>(it', s). length it' \<le> length it \<and> J s)"

lemma op_then: "safe_op J f \<Longrightarrow> J s \<Longrightarrow> length it' \<le> length it \<Longrightarrow> good (kept it) (bindE (f s) (\<lambda>s. Inr (it', s)))"
  by (rule good_bind [of J]) (auto simp: safe_op_def kept_def)

lemma parse_align_good: "J s \<Longrightarrow> good (kept it) (parse_align h (it, s))"
proof -
  assume s: "J s"
  have "good J (sh_fill h (peek it) s)" using fill s by (auto simp: safe_op_def)
  then have "good (kept it) (bindE (sh_fill h (peek it) s) (\<lambda>s. bindE (sh_align h al s) (\<lambda>s. Inr (drop 2 it, s))))" for al
    by (rule good_bind) (rule op_then [OF align], simp_all)
  moreover have "good (kept it) (bindE (sh_align h al s) (\<lambda>s. Inr (tl it, s)))" for al by (rule op_then [OF align s]) simp
  moreover have "good (kept it) (Inr (it, s))" using s by (simp add: kept_def)
  ultimately show ?thesis unfolding parse_align_def Let_def by simp
qed

lemma parse_flags_good:
  assumes "J s"
  shows "good (kept it) (parse_sign h (it, s))" "good (kept it) (parse_hash h (it, s))" "good (kept it) (parse_zero h (it, s))"
    "good (kept it) (parse_type h (it, s))"
  unfolding parse_sign_def parse_hash_def parse_zero_def parse_type_def
  using assms op_then [OF signs(1) assms] op_then [OF signs(2) assms] op_then [OF signs(3) assms] op_then [OF hash assms]
    op_then [OF zero assms] op_then [OF type assms] by (simp_all add: kept_def)

lemma parse_number_good:
  assumes "J s" "\<And>v. safe_op J (f v)" "is_digit (peek it)"
  shows "good (kept it) (bindE (parse_nonnegative_int it) (\<lambda>(v, it). bindE (f v s) (\<lambda>s. Inr (it, s))))"
  by (rule good_bind [OF parse_nonnegative_int_good [OF assms(3)]]) (auto intro: op_then [OF assms(2,1)])

lemma parse_dynamic_good:
  assumes "J s" "\<And>aid. safe_op J (f aid)"
  shows "good (kept it) (parse_dynamic f (it, s))"
  unfolding parse_dynamic_def prod.case
proof (rule good_bind [OF parse_arg_id_good])
  fix x :: "arg_id \<times> string"
  assume x: "case x of (aid, it') \<Rightarrow> length it' \<le> length (tl it)"
  obtain aid it' where x': "x = (aid, it')" by (cases x)
  have "good J (f aid s)" using assms by (simp add: safe_op_def)
  then show "good (kept it) (case x of (aid, it) \<Rightarrow> bindE (f aid s) (\<lambda>s.
      if peek it \<noteq> CHR ''}'' then Inl (Format_error ''invalid format string'') else Inr (tl it, s)))"
    unfolding x' prod.case by (rule good_bind) (use x x' in \<open>auto simp: kept_def\<close>)
qed

lemma parse_width_good: "J s \<Longrightarrow> good (kept it) (parse_width h (it, s))"
  unfolding parse_width_def
  using parse_number_good [of s "sh_width h", OF _ width(1)] parse_dynamic_good [of s "sh_dynamic_width h", OF _ width(2)]
  by (simp add: kept_def)

lemma kept_mono: "kept it' x \<Longrightarrow> length it' \<le> length it \<Longrightarrow> kept it x"
  by (auto simp: kept_def)

lemma parse_precision_good: "J s \<Longrightarrow> good (kept it) (parse_precision h (it, s))"
proof -
  assume s: "J s"
  have t: "kept (tl it) x \<Longrightarrow> good (kept it) (case x of (it, s) \<Rightarrow> bindE (sh_end_precision h s) (\<lambda>s. Inr (it, s)))" for x
  proof -
    assume x: "kept (tl it) x"
    obtain it' s' where x': "x = (it', s')" by (cases x)
    with x have "J s'" "length it' \<le> length it" by (auto simp: kept_def)
    then show ?thesis unfolding x' prod.case by (rule op_then [OF precision(3)])
  qed
  note n = parse_number_good [of s "sh_precision h", OF s precision(1)]
    and d = parse_dynamic_good [of s "sh_dynamic_precision h", OF s precision(2)]
  have "good (kept (tl it))
      (if is_digit (peek (tl it))
       then bindE (parse_nonnegative_int (tl it)) (\<lambda>(v, it). bindE (sh_precision h v s) (\<lambda>s. Inr (it, s)))
       else if peek (tl it) = CHR ''{'' then parse_dynamic (sh_dynamic_precision h) (tl it, s)
       else Inl (Format_error ''missing precision specifier''))"
    using n [of "tl it"] d [of "tl it"] by simp
  from good_bind [OF this t] s show ?thesis unfolding parse_precision_def by (simp add: Let_def kept_def)
qed

lemma stage: "(\<And>it s. J s \<Longrightarrow> good (kept it) (f (it, s))) \<Longrightarrow> kept it x \<Longrightarrow> good (kept it) (f x)"
proof -
  assume f: "\<And>it s. J s \<Longrightarrow> good (kept it) (f (it, s))" and x: "kept it x"
  obtain it' s where x': "x = (it', s)" by (cases x)
  with f x have "good (kept it') (f x)" by (simp add: kept_def)
  moreover have "length it' \<le> length it" using x x' by (simp add: kept_def)
  ultimately show ?thesis by (blast intro: good_mono kept_mono)
qed

lemmas stages = stage [of "parse_sign h", OF parse_flags_good(1)] stage [of "parse_hash h", OF parse_flags_good(2)]
  stage [of "parse_zero h", OF parse_flags_good(3)] stage [of "parse_width h", OF parse_width_good]
  stage [of "parse_precision h", OF parse_precision_good]

lemma parse_format_specs_good: "J s \<Longrightarrow> good (kept it) (parse_format_specs h (it, s))"
proof -
  assume s: "J s"
  show ?thesis
  proof (cases "peek it = CHR ''}'' \<or> peek it = NUL")
    case True
    with s show ?thesis by (auto simp: parse_format_specs_def kept_def)
  next
    case False
    then have "parse_format_specs h (it, s) = bindE (parse_align h (it, s)) (\<lambda>x. bindE (parse_sign h x) (\<lambda>x. bindE (parse_hash h x) (\<lambda>x.
       bindE (parse_zero h x) (\<lambda>x. bindE (parse_width h x) (\<lambda>x. bindE (parse_precision h x) (parse_type h))))))"
      by (simp add: parse_format_specs_def)
    also have "good (kept it) \<dots>"
      by (intro good_bind [of "kept it"] stages parse_align_good s stage [of "parse_type h", OF parse_flags_good(4)])
    finally show ?thesis .
  qed
qed

end

text \<open>The arguments of a call: well formed, and fewer than any compiler allows.\<close>

definition args_ok :: "('d, 'c) fmt_arg list \<Rightarrow> ('d, 'c) fmt_ctx \<Rightarrow> bool" where
  "args_ok as ctx \<longleftrightarrow> list_all wf_arg as \<and> length as < 2 ^ 32 \<and> fx_args ctx = make_format_args as"

lemma args_ok_update [simp]:
  "args_ok as (ctx\<lparr>pc_next_arg_id := n\<rparr>) = args_ok as ctx" "args_ok as (ctx\<lparr>pc_rest := r\<rparr>) = args_ok as ctx"
  "args_ok as (append_out t ctx) = args_ok as ctx"
  by (simp_all add: args_ok_def append_out_def)

lemma args_ok_get: "args_ok as ctx \<Longrightarrow> args_get (fx_args ctx) i = Inr (if i < length as then arg_value (as ! i) else None_arg)"
  unfolding args_ok_def using args_get_eq [of as i] by simp

lemma type_code_one: "type_code t = Suc 0 \<longleftrightarrow> t = named_arg_type"
  by (cases t) simp_all

lemma named_entry_other: "arg_type a \<noteq> named_arg_type \<Longrightarrow> named_entry a = []"
  by (cases a) (simp_all add: named_entry_def)

text \<open>The map of named arguments is made of the named ones among the arguments, in order.\<close>

lemma arg_map_init_eq:
  assumes "list_all wf_arg as" "length as < 2 ^ 32"
  shows "arg_map_init (make_format_args as) = concat (map named_entry as)"
proof (cases "length as < 15")
  case True
  let ?fa = "make_format_args as"
  have fa: "fa_types ?fa = get_types as" "\<And>i. i < length as \<Longrightarrow> fa_values ?fa ! i = as ! i"
    using True by (auto simp: make_format_args_def max_packed_args_def nth_append)
  have code: "args_type_code ?fa i = (if i < length as then type_code (arg_type (as ! i)) else 0)" if "i \<le> 15" for i
    using that True by (simp add: args_type_code_eq fa(1) get_types_packed packed_digit)
  have t: "arg_type (as ! i) \<noteq> none_type" if "i < length as" for i
    using assms(1) that wf_arg_type(1) by (auto simp: list_all_length)
  have "[0..<16] = [0..<length as] @ [length as..<16]" using True upt_add_eq_append [of 0 "length as" "16 - length as"] by simp
  moreover have "args_type_code ?fa (length as) = 0" using code [of "length as"] True by simp
  ultimately have "takeWhile (\<lambda>i. args_type_code ?fa i \<noteq> 0) [0..<16] = [0..<length as]"
    using code t True by (simp add: takeWhile_append upt_conv_Cons)
  moreover have "map (\<lambda>i. if args_type_code ?fa i = 1 then named_entry (fa_values ?fa ! i) else []) [0..<length as] =
      map (\<lambda>i. named_entry (as ! i)) [0..<length as]"
    using code True fa by (intro map_cong) (auto simp: type_code_one named_entry_other)
  ultimately have "arg_map_init ?fa = concat (map (\<lambda>i. named_entry (as ! i)) [0..<length as])"
    using code [of 14] True by (simp add: arg_map_init_def max_packed_args_def del: map_eq_conv)
  also have "map (\<lambda>i. named_entry (as ! i)) [0..<length as] = map named_entry as" by (rule nth_equalityI) simp_all
  finally show ?thesis .
next
  case False
  let ?fa = "make_format_args as"
  have pos: "0 < length as" using False by linarith
  have fa: "fa_types ?fa = - of_nat (length as)" "fa_values ?fa = as @ [None_arg]"
    using False by (simp_all add: make_format_args_def max_packed_args_def)
  have "args_type_code ?fa 14 \<noteq> 0"
  proof -
    have "(of_nat (2 ^ 64 - length as) :: uint64) = - of_nat (length as)" using assms(2) by simp
    moreover have "unat (of_nat (2 ^ 64 - length as) :: uint64) = 2 ^ 64 - length as" using pos by (intro unat_of_nat_id) simp
    ultimately have "unat (- of_nat (length as) :: uint64) = 2 ^ 64 - length as" by (simp only:)
    moreover have "(2 ^ 64 - length as) div 16 ^ 14 mod 16 = 15"
    proof -
      have "(2 ^ 64 - length as) div 16 ^ 14 = 255" using pos assms(2) by (intro div_nat_eqI) simp_all
      then show ?thesis by simp
    qed
    ultimately show ?thesis by (simp add: args_type_code_eq fa(1))
  qed
  moreover have "takeWhile (\<lambda>a. arg_type a \<noteq> none_type) (as @ [None_arg]) = as"
    using assms(1) wf_arg_type(1) by (subst takeWhile_append2) (auto simp: list_all_iff)
  ultimately show ?thesis by (simp add: arg_map_init_def max_packed_args_def fa(2))
qed

lemma arg_map_find_type:
  assumes "list_all wf_arg as"
  shows "arg_map_find (concat (map named_entry as)) name = None_arg \<or>
    arg_type (arg_map_find (concat (map named_entry as)) name) \<notin> {none_type, named_arg_type}"
proof (cases "map_of (concat (map named_entry as)) name")
  case (Some v)
  then have "(name, v) \<in> set (concat (map named_entry as))" by (rule map_of_SomeD)
  then obtain a where "a \<in> set as" "(name, v) \<in> set (named_entry a)" by auto
  with assms have "arg_type v \<notin> {none_type, named_arg_type}" by (cases a) (auto simp: named_entry_def list_all_iff)
  with Some show ?thesis by (simp add: arg_map_find_def)
qed (simp add: arg_map_find_def)

lemma get_arg_good:
  assumes "args_ok as ctx"
  shows "good (\<lambda>(a, ctx'). args_ok as ctx' \<and> arg_type a \<notin> {none_type, named_arg_type}) (get_arg aid ctx)"
proof -
  have d: "good (\<lambda>a. arg_type a \<notin> {none_type, named_arg_type}) (do_get_arg i ctx')" if "args_ok as ctx'" for i ctx'
  proof -
    have "arg_type (arg_value (as ! i)) \<notin> {none_type, named_arg_type}" if "i < length as"
      using that \<open>args_ok as ctx'\<close> wf_arg_type(2) by (auto simp: args_ok_def list_all_length)
    with args_ok_get [OF that, of i] show ?thesis by (auto simp: do_get_arg_def)
  qed
  show ?thesis
  proof (cases aid)
    case Auto_id
    with d [of "ctx\<lparr>pc_next_arg_id := pc_next_arg_id ctx + 1\<rparr>"] assms show ?thesis
      by (auto simp: get_arg_def next_arg_def next_arg_id_def intro!: good_bind)
  next
    case (Index_id i)
    with d [of "ctx\<lparr>pc_next_arg_id := -1\<rparr>"] assms show ?thesis
      by (auto simp: get_arg_def check_arg_id_def intro!: good_bind)
  next
    case (Name_id name)
    have "arg_map_init (fx_args ctx) = concat (map named_entry as)"
      using assms arg_map_init_eq [of as] by (simp add: args_ok_def)
    with Name_id assms arg_map_find_type [of as name] show ?thesis
      by (auto simp: get_arg_def get_arg_name_def Let_def args_ok_def)
  qed
qed

lemma set_dynamic_spec_good: "good (\<lambda>_. True) (set_dynamic_spec what a)"
  by (cases a) (simp_all add: set_dynamic_spec_def visit_dynamic_def Let_def)

lemma checks_good: "good (\<lambda>_. True) (require_numeric_argument t)" "good (\<lambda>_. True) (check_sign t)"
  by (simp_all add: require_numeric_argument_def check_sign_def)

text \<open>The handler that formats, with its checks, keeps the arguments.\<close>

definition specs_ok :: "('d, 'c) fmt_arg list \<Rightarrow> ('d, 'c) fmt_ctx specs_state \<Rightarrow> bool" where
  "specs_ok as = (\<lambda>(sp, ctx). args_ok as ctx)"

lemma specs_ok_simp [simp]: "specs_ok as (sp, ctx) = args_ok as ctx"
  by (simp add: specs_ok_def)

lemma dynamic_good:
  "safe_op (specs_ok as) (\<lambda>(sp, ctx). bindE (get_arg aid ctx) (\<lambda>(a, ctx). bindE (set_dynamic_spec what a) (\<lambda>v. Inr (upd v sp, ctx))))"
  unfolding safe_op_def specs_ok_def
  by (auto intro!: good_bind [OF get_arg_good] good_bind [OF set_dynamic_spec_good])

lemma checked_good: "good (\<lambda>_. True) r \<Longrightarrow> safe_op P f \<Longrightarrow> safe_op P (\<lambda>s. bindE r (\<lambda>_. f s))"
  unfolding safe_op_def by (auto intro!: good_bind)

lemma setter_good:
  "safe_op (specs_ok as) (\<lambda>(sp, ctx). Inr (upd sp, ctx))" "safe_op (specs_ok as) Inr"
  by (auto simp: safe_op_def specs_ok_def)

lemmas specs_handler_defs = specs_checker_def specs_handler_def specs_setter_def

interpretation rt: safe_specs "specs_checker t specs_handler" "specs_ok as" for t as
proof
  fix w :: uint32 and al c aid
  show "safe_op (specs_ok as) (sh_align (specs_checker t specs_handler) al)"
    unfolding specs_handler_defs
    by (cases "al = ALIGN_NUMERIC") (simp_all add: checked_good checks_good setter_good)
  show "safe_op (specs_ok as) (sh_end_precision (specs_checker t specs_handler))"
    by (simp add: specs_handler_defs safe_op_def)
  show "safe_op (specs_ok as) (sh_dynamic_width (specs_checker t specs_handler) aid)"
    using dynamic_good [of as aid "''width''" "\<lambda>v sp. sp\<lparr>fs_width := of_int v\<rparr>"] by (simp add: specs_handler_defs)
  show "safe_op (specs_ok as) (sh_dynamic_precision (specs_checker t specs_handler) aid)"
    using dynamic_good [of as aid "''precision''" "\<lambda>v sp. sp\<lparr>fs_precision := v\<rparr>"] by (simp add: specs_handler_defs)
qed (unfold specs_handler_defs, simp_all add: checked_good checks_good setter_good)

text \<open>The contract of a handler of format strings: one invariant between fields, one while a field is read; the specifications
  do not lengthen the text.\<close>

locale safe_format =
  fixes h :: "'s fmt_handler" and J :: "'s \<Rightarrow> bool" and F :: "'s \<Rightarrow> bool"
  assumes literal: "J s \<Longrightarrow> J (h_text h t s)"
    and arg_id: "J s \<Longrightarrow> good F (h_arg_id h aid s)"
    and field: "F s \<Longrightarrow> good J (h_field h it s)"
    and specs: "F s \<Longrightarrow> good (\<lambda>(it', s). length it' \<le> length it \<and> J s) (h_specs h it s)"
begin

lemma parse_field_good: "J s \<Longrightarrow> good (\<lambda>(it', s). length it' \<le> length it \<and> J s) (parse_field h it s)"
  unfolding parse_field_def
proof (rule good_bind [OF parse_arg_id_good])
  fix x :: "arg_id \<times> string"
  assume s: "J s" and x: "case x of (aid, it') \<Rightarrow> length it' \<le> length it"
  obtain aid it' where x': "x = (aid, it')" by (cases x)
  have sp: "good (\<lambda>(i, s). length i \<le> length it \<and> J s)
      (bindE (h_specs h (tl it') s) (\<lambda>(i, s). if peek i \<noteq> CHR ''}'' then Inl (Format_error ''unknown format specifier'') else Inr (i, s)))"
    if "F s" for s
    by (rule good_bind [OF specs [OF that]]) (use x x' in auto)
  have fi: "good (\<lambda>(i, s). length i \<le> length it \<and> J s) (bindE (h_field h it' s) (\<lambda>s. Inr (it', s)))" if "F s" for s
    by (rule good_bind [OF field [OF that]]) (use x x' in auto)
  show "good (\<lambda>(i, s). length i \<le> length it \<and> J s)
      (case x of (aid, it) \<Rightarrow> bindE (h_arg_id h aid s) (\<lambda>s.
        if peek it = CHR ''}'' then bindE (h_field h it s) (\<lambda>s. Inr (it, s))
        else if peek it = CHR '':'' then
          bindE (h_specs h (tl it) s) (\<lambda>(it, s).
            if peek it \<noteq> CHR ''}'' then Inl (Format_error ''unknown format specifier'') else Inr (it, s))
        else Inl (Format_error (''missing '' @ quoted (CHR ''}'') @ '' in format string''))))"
    unfolding x' prod.case by (rule good_bind [OF arg_id [OF s]]) (use sp fi in auto)
qed

lemma peek_nonempty: "peek it \<noteq> NUL \<Longrightarrow> length (tl it) < length it"
  by (cases it) (simp_all add: peek_def)

lemma format_loop_total: "J s \<Longrightarrow> \<exists>r. format_loop h start it s = Some r \<and> good J r"
proof (induction "length it" arbitrary: start it s rule: less_induct)
  case less
  show ?case
  proof (cases "peek it = NUL")
    case True
    with less.prems literal show ?thesis by (simp add: format_loop.simps [of h start it])
  next
    case False
    then have l: "length (tl it) < length it" "length (drop 2 it) < length it" using peek_nonempty [of it] by auto
    consider "peek it \<noteq> CHR ''{''" "peek it \<noteq> CHR ''}''" | "peek (tl it) = peek it" "peek it = CHR ''{'' \<or> peek it = CHR ''}''"
      | "peek (tl it) \<noteq> peek it" "peek it = CHR ''}''" | "peek (tl it) \<noteq> peek it" "peek it = CHR ''{''" by metis
    then show ?thesis
    proof cases
      case 1
      with False less.hyps [OF l(1) less.prems] show ?thesis by (simp add: format_loop.simps [of h start it])
    next
      case 2
      with False less.hyps [OF l(2) literal [OF less.prems]] show ?thesis by (auto simp: format_loop.simps [of h start it])
    next
      case 3
      with False show ?thesis by (simp add: format_loop.simps [of h start it])
    next
      case 4
      let ?r = "parse_field h (tl it) (h_text h (text_to start it) s)"
      have g: "good (\<lambda>(it', s). length it' \<le> length (tl it) \<and> J s) ?r" by (rule parse_field_good [OF literal [OF less.prems]])
      show ?thesis
      proof (cases ?r)
        case (Inl e)
        with g have "good J (Inl e)" by (auto simp: good_def)
        with 4 False Inl show ?thesis by (simp add: format_loop.simps [of h start it])
      next
        case (Inr x)
        obtain it' s' where x: "x = (it', s')" by (cases x)
        with g Inr l have "length (tl it') < length it" "J s'" by auto
        from less.hyps [OF this] 4 False Inr x show ?thesis by (simp add: format_loop.simps [of h start it])
      qed
    qed
  qed
qed

end

lemma write_arg_good: "arg_type a \<notin> {none_type, named_arg_type, custom_type} \<Longrightarrow> good (\<lambda>_. True) (write_arg fo sep sp a)"
  using write_arg_field [of a sp fo sep] by (auto simp: good_def field_result_def split: sum.splits)

lemma format_custom_good:
  "args_ok as ctx \<Longrightarrow> good (\<lambda>ctx'. length (pc_rest ctx') \<le> length (pc_rest ctx) \<and> args_ok as ctx') (format_custom fc c ctx)"
  by (auto simp: format_custom_def append_out_def args_ok_def split: sum.splits)

definition fh_ok :: "('d, 'c) fmt_arg list \<Rightarrow> ('d, 'c) fh_state \<Rightarrow> bool" where
  "fh_ok as s \<longleftrightarrow> args_ok as (fst s)"

definition fh_field_ok :: "('d, 'c) fmt_arg list \<Rightarrow> ('d, 'c) fh_state \<Rightarrow> bool" where
  "fh_field_ok as s \<longleftrightarrow> args_ok as (fst s) \<and> arg_type (snd s) \<notin> {none_type, named_arg_type}"

lemma fh_ok_simps [simp]:
  "fh_ok as (ctx, a) = args_ok as ctx" "fh_field_ok as (ctx, a) = (args_ok as ctx \<and> arg_type a \<notin> {none_type, named_arg_type})"
  by (simp_all add: fh_ok_def fh_field_ok_def)

interpretation fh: safe_format "format_handler fo sep fc" "fh_ok as" "fh_field_ok as" for fo sep fc as
proof
  fix s :: "('a, 'b) fh_state" and aid
  assume "fh_ok as s"
  then show "good (fh_field_ok as) (h_arg_id (format_handler fo sep fc) aid s)"
    by (cases s) (auto simp: format_handler_def on_arg_id_def intro!: good_bind [OF get_arg_good])
next
  fix s :: "('a, 'b) fh_state" and it
  assume s: "fh_field_ok as s"
  obtain ctx a where s': "s = (ctx, a)" by (cases s)
  let ?ctx = "ctx\<lparr>pc_rest := it\<rparr>"
  have ok: "args_ok as ?ctx" and t: "arg_type a \<notin> {none_type, named_arg_type}" using s s' by auto
  show "good (fh_ok as) (h_field (format_handler fo sep fc) it s)"
  proof (cases "arg_type a = custom_type")
    case True
    then obtain c where "a = Custom_arg c" by (cases a) auto
    with s' ok show ?thesis
      by (auto simp: format_handler_def on_replacement_field_def Let_def intro!: good_bind [OF format_custom_good])
  next
    case False
    then have "on_replacement_field fo sep fc it s =
        bindE (write_arg fo sep basic_format_specs a) (\<lambda>t. Inr (append_out t ?ctx, a))"
      by (cases a) (auto simp: on_replacement_field_def s')
    moreover have w: "good (\<lambda>_. True) (write_arg fo sep basic_format_specs a)" using t False by (intro write_arg_good) simp
    ultimately show ?thesis using ok by (auto simp: format_handler_def intro!: good_bind [OF w])
  qed
  show "good (\<lambda>(it', s). length it' \<le> length it \<and> fh_ok as s) (h_specs (format_handler fo sep fc) it s)"
  proof (cases "arg_type a = custom_type")
    case True
    then obtain c where "a = Custom_arg c" by (cases a) auto
    with s' ok show ?thesis
      by (auto simp: format_handler_def on_format_specs_def Let_def intro!: good_bind [OF format_custom_good])
  next
    case False
    then have "on_format_specs fo sep fc it s =
        bindE (parse_format_specs (specs_checker (arg_type a) specs_handler) (it, basic_format_specs, ?ctx)) (\<lambda>(it, specs, ctx).
         if peek it \<noteq> CHR ''}'' then Inl (Format_error (''missing '' @ quoted (CHR ''}'') @ '' in format string''))
         else (let ctx = ctx\<lparr>pc_rest := it\<rparr> in bindE (write_arg fo sep specs a) (\<lambda>t. Inr (it, append_out t ctx, a))))"
      by (cases a) (auto simp: on_format_specs_def s')
    moreover have w: "good (\<lambda>_. True) (write_arg fo sep sp a)" for sp using t False by (intro write_arg_good) simp
    moreover have "specs_ok as (basic_format_specs, ?ctx)" using ok by simp
    ultimately show ?thesis
      by (auto simp: format_handler_def rt.kept_def Let_def
        intro!: good_bind [OF rt.parse_format_specs_good] good_bind [OF w])
  qed
qed (auto simp: format_handler_def)

lemma vformat_ends:
  assumes "list_all wf_arg as" "length as < 2 ^ 32"
  shows "(\<exists>t. vformat_to fo sep fc fmt as = Some (Inr t)) \<or> (\<exists>msg. vformat_to fo sep fc fmt as = Some (Inl (Format_error msg)))"
proof -
  let ?s = "(\<lparr>pc_rest = fmt, pc_next_arg_id = 0, fx_out = [], fx_args = make_format_args as\<rparr>, None_arg)"
  have "fh_ok as ?s" using assms by (simp add: args_ok_def)
  from fh.format_loop_total [OF this, of fo sep fc fmt fmt] obtain r
    where "format_loop (format_handler fo sep fc) fmt fmt ?s = Some r" "good (fh_ok as) r" by blast
  then show ?thesis by (cases r) (auto simp: vformat_to_def parse_format_string_def good_def)
qed



end
