(* ===== verification/Fmt_Check.thy ===== *)
theory Fmt_Check
  imports Fmt_Sound
begin

text \<open>
  The compile-time check of format strings (\<^verbatim>\<open>check_format_string\<close>) is sound for the formatting at run time: the two handlers
  are run side by side over the same text. What the check cannot know are the values of widths and precisions that are
  arguments themselves, null pointers, and named arguments.
\<close>

section \<open>Running two handlers of specifications\<close>

definition sim_op :: "('s \<Rightarrow> 't \<Rightarrow> bool) \<Rightarrow> (fmt_error \<Rightarrow> bool) \<Rightarrow> ('s \<Rightarrow> fmt_error + 's) \<Rightarrow> ('t \<Rightarrow> fmt_error + 't) \<Rightarrow> bool" where
  "sim_op R ok f g \<longleftrightarrow> (\<forall>s t. R s t \<longrightarrow> sim R ok (f s) (g t))"

definition same_it :: "('s \<Rightarrow> 't \<Rightarrow> bool) \<Rightarrow> string \<times> 's \<Rightarrow> string \<times> 't \<Rightarrow> bool" where
  "same_it R x y \<longleftrightarrow> fst x = fst y \<and> R (snd x) (snd y)"

lemma same_it_simps [simp]: "same_it R (it, s) (it', t) \<longleftrightarrow> it = it' \<and> R s t"
  by (simp add: same_it_def)

lemma sim_same: "(\<And>x. r = Inr x \<Longrightarrow> sim R ok (f x) (g x)) \<Longrightarrow> sim R ok (bindE r f) (bindE r g)"
  by (cases r) auto

locale spec_simulation =
  fixes h1 :: "'s spec_handler" and h2 :: "'t spec_handler" and R :: "'s \<Rightarrow> 't \<Rightarrow> bool" and ok :: "fmt_error \<Rightarrow> bool"
  assumes fill: "sim_op R ok (sh_fill h1 c) (sh_fill h2 c)"
    and align: "sim_op R ok (sh_align h1 al) (sh_align h2 al)"
    and signs: "sim_op R ok (sh_plus h1) (sh_plus h2)" "sim_op R ok (sh_minus h1) (sh_minus h2)"
      "sim_op R ok (sh_space h1) (sh_space h2)"
    and hash: "sim_op R ok (sh_hash h1) (sh_hash h2)"
    and zero: "sim_op R ok (sh_zero h1) (sh_zero h2)"
    and width: "sim_op R ok (sh_width h1 w) (sh_width h2 w)" "sim_op R ok (sh_dynamic_width h1 aid) (sh_dynamic_width h2 aid)"
    and precision: "sim_op R ok (sh_precision h1 w) (sh_precision h2 w)"
      "sim_op R ok (sh_dynamic_precision h1 aid) (sh_dynamic_precision h2 aid)"
      "sim_op R ok (sh_end_precision h1) (sh_end_precision h2)"
    and type: "sim_op R ok (sh_type h1 c) (sh_type h2 c)"
begin

lemma op_then: "sim_op R ok f g \<Longrightarrow> R s t \<Longrightarrow> sim (same_it R) ok (bindE (f s) (\<lambda>s. Inr (it, s))) (bindE (g t) (\<lambda>t. Inr (it, t)))"
  by (rule sim_bind [of R]) (simp_all add: sim_op_def)

lemma align_sim: "same_it R x y \<Longrightarrow> sim (same_it R) ok (parse_align h1 x) (parse_align h2 y)"
proof -
  assume xy: "same_it R x y"
  obtain it s t where x: "x = (it, s)" "y = (it, t)" "R s t" using xy by (cases x; cases y) auto
  have "sim R ok (sh_fill h1 c s) (sh_fill h2 c t)" for c using fill x(3) by (simp add: sim_op_def)
  then have "sim (same_it R) ok (bindE (sh_fill h1 c s) (\<lambda>s. bindE (sh_align h1 al s) (\<lambda>s. Inr (i, s))))
      (bindE (sh_fill h2 c t) (\<lambda>s. bindE (sh_align h2 al s) (\<lambda>s. Inr (i, s))))" for c al i
    by (rule sim_bind) (rule op_then [OF align])
  with op_then [OF align x(3)] x show ?thesis by (simp add: parse_align_def Let_def)
qed

lemma flags_sim:
  assumes "same_it R x y"
  shows "sim (same_it R) ok (parse_sign h1 x) (parse_sign h2 y)" "sim (same_it R) ok (parse_hash h1 x) (parse_hash h2 y)"
    "sim (same_it R) ok (parse_zero h1 x) (parse_zero h2 y)" "sim (same_it R) ok (parse_type h1 x) (parse_type h2 y)"
proof -
  obtain it s t where x: "x = (it, s)" "y = (it, t)" "R s t" using assms by (cases x; cases y) auto
  show "sim (same_it R) ok (parse_sign h1 x) (parse_sign h2 y)" "sim (same_it R) ok (parse_hash h1 x) (parse_hash h2 y)"
    "sim (same_it R) ok (parse_zero h1 x) (parse_zero h2 y)" "sim (same_it R) ok (parse_type h1 x) (parse_type h2 y)"
    using x op_then [OF signs(1) x(3)] op_then [OF signs(2) x(3)] op_then [OF signs(3) x(3)] op_then [OF hash x(3)]
      op_then [OF zero x(3)] op_then [OF type x(3)]
    by (simp_all add: parse_sign_def parse_hash_def parse_zero_def parse_type_def)
qed

lemma number_sim:
  assumes "R s t" "\<And>v. sim_op R ok (f v) (g v)"
  shows "sim (same_it R) ok (bindE (parse_nonnegative_int it) (\<lambda>(v, it). bindE (f v s) (\<lambda>s. Inr (it, s))))
    (bindE (parse_nonnegative_int it) (\<lambda>(v, it). bindE (g v t) (\<lambda>s. Inr (it, s))))"
  by (rule sim_same) (auto intro: op_then [OF assms(2,1)])

lemma dynamic_sim:
  assumes "R s t" "\<And>aid. sim_op R ok (f aid) (g aid)"
  shows "sim (same_it R) ok (parse_dynamic f (it, s)) (parse_dynamic g (it, t))"
  unfolding parse_dynamic_def prod.case
proof (rule sim_same)
  fix x :: "arg_id \<times> string"
  obtain aid it' where x: "x = (aid, it')" by (cases x)
  have "sim R ok (f aid s) (g aid t)" using assms by (simp add: sim_op_def)
  then show "sim (same_it R) ok
      (case x of (aid, it) \<Rightarrow> bindE (f aid s) (\<lambda>s. if peek it \<noteq> CHR ''}'' then Inl (Format_error ''invalid format string'') else Inr (tl it, s)))
      (case x of (aid, it) \<Rightarrow> bindE (g aid t) (\<lambda>s. if peek it \<noteq> CHR ''}'' then Inl (Format_error ''invalid format string'') else Inr (tl it, s)))"
    unfolding x prod.case by (rule sim_bind) auto
qed

lemma width_sim: "same_it R x y \<Longrightarrow> sim (same_it R) ok (parse_width h1 x) (parse_width h2 y)"
  by (cases x; cases y) (auto simp: parse_width_def intro: number_sim width dynamic_sim)

lemma precision_sim: "same_it R x y \<Longrightarrow> sim (same_it R) ok (parse_precision h1 x) (parse_precision h2 y)"
proof -
  assume xy: "same_it R x y"
  obtain it s t where x: "x = (it, s)" "y = (it, t)" "R s t" using xy by (cases x; cases y) auto
  have e: "sim (same_it R) ok (case u of (it, s) \<Rightarrow> bindE (sh_end_precision h1 s) (\<lambda>s. Inr (it, s)))
      (case v of (it, s) \<Rightarrow> bindE (sh_end_precision h2 s) (\<lambda>s. Inr (it, s)))" if "same_it R u v" for u v
    using that op_then [OF precision(3)] by (cases u; cases v) auto
  have "sim (same_it R) ok
      (if is_digit (peek i) then bindE (parse_nonnegative_int i) (\<lambda>(v, it). bindE (sh_precision h1 v s) (\<lambda>s. Inr (it, s)))
       else if peek i = CHR ''{'' then parse_dynamic (sh_dynamic_precision h1) (i, s)
       else Inl (Format_error ''missing precision specifier''))
      (if is_digit (peek i) then bindE (parse_nonnegative_int i) (\<lambda>(v, it). bindE (sh_precision h2 v t) (\<lambda>s. Inr (it, s)))
       else if peek i = CHR ''{'' then parse_dynamic (sh_dynamic_precision h2) (i, t)
       else Inl (Format_error ''missing precision specifier''))" for i
    using number_sim [OF x(3) precision(1)] dynamic_sim [OF x(3) precision(2)] by simp
  from sim_bind [OF this e] x show ?thesis by (simp add: parse_precision_def Let_def)
qed

lemma parse_format_specs_sim:
  assumes "same_it R x y"
  shows "sim (same_it R) ok (parse_format_specs h1 x) (parse_format_specs h2 y)"
proof -
  obtain it s t where x: "x = (it, s)" "y = (it, t)" "R s t" using assms by (cases x; cases y) auto
  have "sim (same_it R) ok
      (bindE (parse_align h1 x) (\<lambda>x. bindE (parse_sign h1 x) (\<lambda>x. bindE (parse_hash h1 x) (\<lambda>x.
       bindE (parse_zero h1 x) (\<lambda>x. bindE (parse_width h1 x) (\<lambda>x. bindE (parse_precision h1 x) (parse_type h1)))))))
      (bindE (parse_align h2 y) (\<lambda>x. bindE (parse_sign h2 x) (\<lambda>x. bindE (parse_hash h2 x) (\<lambda>x.
       bindE (parse_zero h2 x) (\<lambda>x. bindE (parse_width h2 x) (\<lambda>x. bindE (parse_precision h2 x) (parse_type h2)))))))"
    by (intro sim_bind [of "same_it R"] align_sim flags_sim width_sim precision_sim assms)
  with x show ?thesis by (auto simp: parse_format_specs_def)
qed

end

section \<open>Check and formatting of specifications\<close>

text \<open>The errors that depend on values.\<close>

definition value_messages :: "string set" where
  "value_messages =
     {''argument index out of range'', ''argument not found'', ''number is too big'',
      ''negative width'', ''width is not integer'', ''negative precision'', ''precision is not integer'',
      ''string pointer is null''}"

definition value_error :: "fmt_error \<Rightarrow> bool" where
  "value_error e \<longleftrightarrow> (\<exists>msg \<in> value_messages. e = Format_error msg)"

definition same_specs :: "format_specs \<Rightarrow> format_specs \<Rightarrow> bool" where
  "same_specs sp1 sp2 \<longleftrightarrow>
     fs_fill sp1 = fs_fill sp2 \<and> fs_align sp1 = fs_align sp2 \<and> fs_flags sp1 = fs_flags sp2 \<and> fs_type sp1 = fs_type sp2"

text \<open>The specification so far agrees but for width and precision, and so does the argument counter.\<close>

definition specs_rel ::
  "('d, 'c) fmt_arg list \<Rightarrow> dynamic_state specs_state \<Rightarrow> ('d, 'c) fmt_ctx specs_state \<Rightarrow> bool" where
  "specs_rel as x y \<longleftrightarrow>
     same_specs (fst x) (fst y) \<and> pc_next_arg_id (snd x) = pc_next_arg_id (snd y) \<and> args_ok as (snd y)"

lemma specs_rel_simp [simp]:
  "specs_rel as (sp1, st) (sp2, ctx) \<longleftrightarrow> same_specs sp1 sp2 \<and> pc_next_arg_id st = pc_next_arg_id ctx \<and> args_ok as ctx"
  by (simp add: specs_rel_def)

lemma value_error_simp [simp]: "value_error (Format_error msg) \<longleftrightarrow> msg \<in> value_messages"
  by (simp add: value_error_def)

lemma do_get_arg_value: "args_ok as ctx \<Longrightarrow> sim (\<lambda>_ _. True) value_error (Inr ()) (do_get_arg i ctx)"
  using args_ok_get [of as ctx i] by (auto simp: do_get_arg_def value_messages_def)

lemma set_dynamic_spec_value:
  "what = ''width'' \<or> what = ''precision'' \<Longrightarrow> sim (\<lambda>_ _. True) value_error (Inr ()) (set_dynamic_spec what a)"
  by (cases a) (auto simp: set_dynamic_spec_def visit_dynamic_def value_messages_def Let_def)

lemma sim_Inr_cases: "sim (\<lambda>_ _. True) ok (Inr ()) r \<Longrightarrow> (\<exists>e. r = Inl e \<and> ok e) \<or> (\<exists>x. r = Inr x)"
  by (cases r) (auto simp: sim_def)

text \<open>Fetching an argument at run time, where the check has only noted its id.\<close>

definition fetched :: "('d, 'c) fmt_arg list \<Rightarrow> arg_ref \<times> dynamic_state \<Rightarrow> ('d, 'c) fmt_arg \<times> ('d, 'c) fmt_ctx \<Rightarrow> bool" where
  "fetched as u v \<longleftrightarrow> pc_next_arg_id (snd u) = pc_next_arg_id (snd v) \<and> args_ok as (snd v)"

lemma get_arg_sim:
  assumes "pc_next_arg_id st = pc_next_arg_id ctx" "args_ok as ctx"
  shows "sim (fetched as) value_error (make_arg_ref aid st) (get_arg aid ctx)"
proof (cases aid)
  case Auto_id
  show ?thesis
  proof (cases "pc_next_arg_id ctx \<ge> 0")
    case True
    let ?ctx = "ctx\<lparr>pc_next_arg_id := pc_next_arg_id ctx + 1\<rparr>"
    have "args_ok as ?ctx" using assms(2) by simp
    from sim_Inr_cases [OF do_get_arg_value [OF this, of "nat (pc_next_arg_id ctx)"]] Auto_id True assms show ?thesis
      by (auto simp: make_arg_ref_def get_arg_def next_arg_def next_arg_id_def fetched_def)
  next
    case False
    with Auto_id assms show ?thesis by (simp add: make_arg_ref_def next_arg_id_def)
  qed
next
  case (Index_id i)
  show ?thesis
  proof (cases "pc_next_arg_id ctx > 0")
    case False
    have "args_ok as (ctx\<lparr>pc_next_arg_id := -1\<rparr>)" using assms(2) by simp
    from sim_Inr_cases [OF do_get_arg_value [OF this, of "unat i"]] Index_id False assms show ?thesis
      by (auto simp: make_arg_ref_def get_arg_def check_arg_id_def fetched_def)
  next
    case True
    with Index_id assms show ?thesis by (simp add: make_arg_ref_def check_arg_id_def)
  qed
next
  case (Name_id name)
  with assms show ?thesis
    by (auto simp: make_arg_ref_def get_arg_def get_arg_name_def Let_def value_messages_def fetched_def)
qed

lemma dynamic_op_sim:
  assumes "what = ''width'' \<or> what = ''precision''" "\<And>v sp1 sp2. same_specs sp1 sp2 \<Longrightarrow> same_specs sp1 (upd v sp2)"
    "\<And>r st. pc_next_arg_id (note_ref r st) = pc_next_arg_id st"
  shows "sim_op (specs_rel as) value_error
    (\<lambda>(sp, st). bindE (make_arg_ref aid st) (\<lambda>(r, st). Inr (sp, note_ref r st)))
    (\<lambda>(sp, ctx). bindE (get_arg aid ctx) (\<lambda>(a, ctx). bindE (set_dynamic_spec what a) (\<lambda>v. Inr (upd v sp, ctx))))"
  unfolding sim_op_def
proof (intro allI impI)
  fix x :: "dynamic_state specs_state" and y :: "('a, 'b) fmt_ctx specs_state"
  assume xy: "specs_rel as x y"
  obtain sp1 st sp2 ctx where x: "x = (sp1, st)" "y = (sp2, ctx)" by (cases x; cases y)
  with xy have r: "same_specs sp1 sp2" "pc_next_arg_id st = pc_next_arg_id ctx" "args_ok as ctx" by simp_all
  show "sim (specs_rel as) value_error
      (case x of (sp, st) \<Rightarrow> bindE (make_arg_ref aid st) (\<lambda>(r, st). Inr (sp, note_ref r st)))
      (case y of (sp, ctx) \<Rightarrow> bindE (get_arg aid ctx) (\<lambda>(a, ctx). bindE (set_dynamic_spec what a) (\<lambda>v. Inr (upd v sp, ctx))))"
    unfolding x prod.case
  proof (rule sim_bind [OF get_arg_sim [OF r(2,3)]])
    fix u :: "arg_ref \<times> dynamic_state" and v :: "('a, 'b) fmt_arg \<times> ('a, 'b) fmt_ctx"
    assume uv: "fetched as u v"
    obtain ref st' a ctx' where u: "u = (ref, st')" "v = (a, ctx')" by (cases u; cases v)
    from sim_Inr_cases [OF set_dynamic_spec_value [OF assms(1), of a]] uv u r(1) assms(2,3)
    show "sim (specs_rel as) value_error (case u of (r, st) \<Rightarrow> Inr (sp1, note_ref r st))
      (case v of (a, ctx) \<Rightarrow> bindE (set_dynamic_spec what a) (\<lambda>v. Inr (upd v sp2, ctx)))"
      by (auto simp: fetched_def)
  qed
qed

lemma checked_sim: "sim_op P ok f g \<Longrightarrow> sim_op P ok (\<lambda>s. bindE r (\<lambda>_. f s)) (\<lambda>s. bindE r (\<lambda>_. g s))"
  unfolding sim_op_def by (auto intro: sim_same)

lemma setter_sim:
  assumes "\<And>sp1 sp2. same_specs sp1 sp2 \<Longrightarrow> same_specs (upd sp1) (upd sp2)"
  shows "sim_op (specs_rel as) ok (\<lambda>(sp, x). Inr (upd sp, x)) (\<lambda>(sp, x). Inr (upd sp, x))"
  using assms by (auto simp: sim_op_def)

interpretation cs: spec_simulation "specs_checker t dynamic_specs_handler" "specs_checker t specs_handler" "specs_rel as" value_error
  for t as
proof
  fix w :: uint32 and al c aid
  show "sim_op (specs_rel as) value_error (sh_dynamic_width (specs_checker t dynamic_specs_handler) aid)
      (sh_dynamic_width (specs_checker t specs_handler) aid)"
    using dynamic_op_sim [of "''width''" "\<lambda>v sp. sp\<lparr>fs_width := of_int v\<rparr>" "\<lambda>r st. st\<lparr>dy_width_ref := r\<rparr>" as aid]
    by (simp add: specs_handler_defs dynamic_specs_handler_def same_specs_def)
  show "sim_op (specs_rel as) value_error (sh_dynamic_precision (specs_checker t dynamic_specs_handler) aid)
      (sh_dynamic_precision (specs_checker t specs_handler) aid)"
    using dynamic_op_sim [of "''precision''" "\<lambda>v sp. sp\<lparr>fs_precision := v\<rparr>" "\<lambda>r st. st\<lparr>dy_precision_ref := r\<rparr>" as aid]
    by (simp add: specs_handler_defs dynamic_specs_handler_def same_specs_def)
  show "sim_op (specs_rel as) value_error (sh_end_precision (specs_checker t dynamic_specs_handler))
      (sh_end_precision (specs_checker t specs_handler))"
    by (auto simp: specs_handler_defs dynamic_specs_handler_def sim_op_def)
qed (unfold specs_handler_defs dynamic_specs_handler_def,
    auto intro!: checked_sim setter_sim simp: same_specs_def)


section \<open>Running two handlers of format strings\<close>

text \<open>The specifications of a field together with the brace that closes it.\<close>

definition closed_specs :: "'s fmt_handler \<Rightarrow> string \<Rightarrow> 's \<Rightarrow> fmt_error + string \<times> 's" where
  "closed_specs h it s = bindE (h_specs h it s) (\<lambda>(it, s).
     if peek it \<noteq> CHR ''}'' then Inl (Format_error ''unknown format specifier'') else Inr (it, s))"

locale format_simulation = safe_format h J F
  for h :: "'t fmt_handler" and J F +
  fixes h1 :: "'s fmt_handler" and R0 R1 :: "'s \<Rightarrow> 't \<Rightarrow> bool" and ok :: "fmt_error \<Rightarrow> bool"
  assumes related: "R0 s t \<Longrightarrow> J t"
    and text_sim: "R0 s t \<Longrightarrow> R0 (h_text h1 x s) (h_text h x t)"
    and arg_id_sim: "R0 s t \<Longrightarrow> sim R1 ok (h_arg_id h1 aid s) (h_arg_id h aid t)"
    and field_sim: "R1 s t \<Longrightarrow> sim R0 ok (h_field h1 it s) (h_field h it t)"
    and specs_sim: "R1 s t \<Longrightarrow> sim (same_it R0) ok (closed_specs h1 it s) (closed_specs h it t)"
begin

lemma parse_field_sim: "R0 s t \<Longrightarrow> sim (same_it R0) ok (parse_field h1 it s) (parse_field h it t)"
  unfolding parse_field_def closed_specs_def [symmetric]
proof (rule sim_same)
  fix x :: "arg_id \<times> string"
  assume s: "R0 s t"
  obtain aid it' where x: "x = (aid, it')" by (cases x)
  have f: "sim (same_it R0) ok (bindE (h_field h1 it' s) (\<lambda>s. Inr (it', s))) (bindE (h_field h it' t) (\<lambda>s. Inr (it', s)))"
    if "R1 s t" for s t
    by (rule sim_bind [OF field_sim [OF that]]) simp
  show "sim (same_it R0) ok
      (case x of (aid, it) \<Rightarrow> bindE (h_arg_id h1 aid s) (\<lambda>s.
        if peek it = CHR ''}'' then bindE (h_field h1 it s) (\<lambda>s. Inr (it, s))
        else if peek it = CHR '':'' then closed_specs h1 (tl it) s
        else Inl (Format_error (''missing '' @ quoted (CHR ''}'') @ '' in format string''))))
      (case x of (aid, it) \<Rightarrow> bindE (h_arg_id h aid t) (\<lambda>s.
        if peek it = CHR ''}'' then bindE (h_field h it s) (\<lambda>s. Inr (it, s))
        else if peek it = CHR '':'' then closed_specs h (tl it) s
        else Inl (Format_error (''missing '' @ quoted (CHR ''}'') @ '' in format string''))))"
    unfolding x prod.case by (rule sim_bind [OF arg_id_sim [OF s]]) (use f specs_sim in auto)
qed

lemma format_loop_sim:
  "R0 s t \<Longrightarrow> format_loop h1 start it s = Some (Inr s') \<Longrightarrow> \<exists>r. format_loop h start it t = Some r \<and> sim R0 ok (Inr s') r"
proof (induction "length it" arbitrary: start it s t rule: less_induct)
  case less
  note run = less.prems(2) [unfolded format_loop.simps [of h1 start it]]
  show ?case
  proof (cases "peek it = NUL")
    case True
    with run have "s' = h_text h1 (text_to start it) s" by simp
    with True text_sim [OF less.prems(1)] show ?thesis by (simp add: format_loop.simps [of h start it])
  next
    case False
    then have l: "length (tl it) < length it" "length (drop 2 it) < length it" using peek_nonempty [of it] by auto
    consider "peek it \<noteq> CHR ''{''" "peek it \<noteq> CHR ''}''" | "peek (tl it) = peek it" "peek it = CHR ''{'' \<or> peek it = CHR ''}''"
      | "peek (tl it) \<noteq> peek it" "peek it = CHR ''{''"
      using run False by (auto split: if_splits)
    then show ?thesis
    proof cases
      case 1
      with False run less.hyps [OF l(1) less.prems(1)] show ?thesis by (simp add: format_loop.simps [of h start it])
    next
      case 2
      with False run less.hyps [OF l(2) text_sim [OF less.prems(1)]] show ?thesis
        by (auto simp: format_loop.simps [of h start it])
    next
      case 3
      let ?r1 = "parse_field h1 (tl it) (h_text h1 (text_to start it) s)" and ?r = "parse_field h (tl it) (h_text h (text_to start it) t)"
      note t = text_sim [OF less.prems(1), of "text_to start it"]
      obtain it1 s1 where r1: "?r1 = Inr (it1, s1)" "format_loop h1 (tl it1) (tl it1) s1 = Some (Inr s')"
        using run 3 False by (auto split: sum.splits)
      have s: "sim (same_it R0) ok (Inr (it1, s1)) ?r" using parse_field_sim [OF t] r1(1) by metis
      show ?thesis
      proof (cases ?r)
        case (Inl e)
        with s have "ok e" by (simp add: sim_def)
        with 3 False Inl show ?thesis by (simp add: format_loop.simps [of h start it])
      next
        case (Inr x)
        with s obtain t1 where x: "x = (it1, t1)" "R0 s1 t1" by (cases x) auto
        have "length (tl it1) < length it" using parse_field_good [OF related [OF t], of "tl it"] Inr x l by auto
        from less.hyps [OF this x(2) r1(2)] 3 False Inr x show ?thesis by (simp add: format_loop.simps [of h start it])
      qed
    qed
  qed
qed

end

section \<open>Check and formatting of format strings\<close>

text \<open>A specification that passes the check for a type is never refused for a value of the type, null pointers to characters apart.\<close>

lemma int_text_checked: "check_int_type (fs_type sp) = Inr () \<Longrightarrow> \<exists>s. int_text sep sp x = Inr s"
  by (auto simp: check_int_type_def int_text_def split: option.splits)

lemma write_pointer_total: "\<exists>s. write_pointer sep p sp = Inr s"
  by (simp add: write_pointer_def int_writer64_text int_text_checked check_int_type_def handle_int_type_spec_def Let_def)

lemma write_double_checked: "handle_float_type_spec (fs_type sp) = Some pres \<Longrightarrow> \<exists>s. write_double fo d sp = Inr s"
  by (auto simp: write_double_def Let_def split: prod.splits)

lemma write_arg_checked:
  assumes "check_type_spec (arg_type a) sp1 = Inr ()" "same_specs sp1 sp2" "arg_type a \<noteq> custom_type"
  shows "sim (\<lambda>_ _. True) value_error (Inr ()) (write_arg fo sep sp2 a)"
proof -
  have t: "fs_type sp1 = fs_type sp2" "fs_align sp1 = fs_align sp2" "fs_flags sp1 = fs_flags sp2"
    using assms(2) by (simp_all add: same_specs_def)
  have i: "check_int_type (fs_type sp2) = Inr () \<Longrightarrow> sim (\<lambda>_ _. True) value_error (Inr ()) (int_text sep sp2 x)" for x
    using int_text_checked [of sp2 sep x] by auto
  have p: "sim (\<lambda>_ _. True) value_error (Inr ()) (write_pointer sep p sp2)" for p
    using write_pointer_total [of sep p sp2] by auto
  have d: "handle_float_type_spec (fs_type sp2) \<noteq> None \<Longrightarrow> sim (\<lambda>_ _. True) value_error (Inr ()) (write_double fo d sp2)" for d
    using write_double_checked [of sp2 _ fo d] by auto
  show ?thesis
  proof (cases a)
    case (Char_arg c)
    with assms(1) i show ?thesis
      by (auto simp: check_type_spec_def handle_char_specs_def t write_char_def int_writer32_text split: if_splits)
  next
    case (Cstring_arg q s)
    with assms(1) p show ?thesis
      by (auto simp: check_type_spec_def handle_cstring_type_spec_def t write_cstring_def value_messages_def write_str_spec_def Let_def split: if_splits)
  qed (use assms i p d in \<open>auto simp: check_type_spec_def t int_writer32_text int_writer64_text write_bool_def
      check_string_type_spec_def check_pointer_type_spec_def write_str_spec_def Let_def split: option.splits if_splits\<close>)
qed

text \<open>Arguments of built-in types, given by position: what the check knows the types of.\<close>

definition plain_args :: "('d, 'c) fmt_arg list \<Rightarrow> bool" where
  "plain_args as \<longleftrightarrow> (\<forall>a \<in> set as. arg_type a \<notin> {none_type, named_arg_type, custom_type})"

definition between_fields :: "('d, 'c) fmt_arg list \<Rightarrow> checker \<Rightarrow> ('d, 'c) fh_state \<Rightarrow> bool" where
  "between_fields as ck s \<longleftrightarrow> plain_args as \<and> args_ok as (fst s) \<and> pc_next_arg_id ck = pc_next_arg_id (fst s)"

definition in_field :: "('d, 'c) fmt_arg list \<Rightarrow> checker \<Rightarrow> ('d, 'c) fh_state \<Rightarrow> bool" where
  "in_field as ck s \<longleftrightarrow> between_fields as ck s \<and> 0 \<le> ck_arg_id ck \<and> nat (ck_arg_id ck) < length as \<and>
     snd s = as ! nat (ck_arg_id ck)"

lemma plain_arg:
  assumes "plain_args as" "i < length as"
  shows "arg_type (as ! i) \<notin> {none_type, named_arg_type, custom_type}" "arg_value (as ! i) = as ! i"
proof -
  show t: "arg_type (as ! i) \<notin> {none_type, named_arg_type, custom_type}" using assms by (simp add: plain_args_def)
  show "arg_value (as ! i) = as ! i" using t by (cases "as ! i") simp_all
qed

lemma plain_wf: "arg_type a \<notin> {none_type, named_arg_type, custom_type} \<Longrightarrow> wf_arg a"
  by (cases a) simp_all

lemma do_get_plain:
  "args_ok as ctx \<Longrightarrow> plain_args as \<Longrightarrow> i < length as \<Longrightarrow> do_get_arg i ctx = Inr (as ! i)"
  using args_ok_get [of as ctx i] plain_arg [of as i] by (simp add: do_get_arg_def)

lemma plain_args_unnamed: "plain_args as \<Longrightarrow> concat (map named_entry as) = []"
  by (auto simp: plain_args_def named_entry_other)

lemma sint_index: "0 \<le> sint (i :: uint32) \<Longrightarrow> nat (sint i) = unat i"
proof -
  assume "0 \<le> sint i"
  then have "\<not> i <s 0" by (simp only: word_sless_alt sint_0 not_less)
  then show ?thesis using unat_magnitude [of i] \<open>0 \<le> sint i\<close> by (simp only: if_False abs_of_nonneg)
qed

lemma on_arg_id_sim:
  assumes "between_fields as ck s"
  shows "sim (in_field as) value_error (checker_on_arg_id (map arg_type as) aid ck) (on_arg_id aid s)"
proof -
  obtain ctx a where s: "s = (ctx, a)" by (cases s)
  with assms have b: "plain_args as" "args_ok as ctx" "pc_next_arg_id ck = pc_next_arg_id ctx" by (simp_all add: between_fields_def)
  show ?thesis
  proof (cases aid)
    case Auto_id
    with b s show ?thesis
      by (auto simp: checker_on_arg_id_def on_arg_id_def get_arg_def next_arg_id_def next_arg_def checker_check_arg_id_def
        do_get_plain in_field_def between_fields_def sim_def)
  next
    case (Index_id i)
    with b s sint_index [of i] show ?thesis
      by (auto simp: checker_on_arg_id_def on_arg_id_def get_arg_def check_arg_id_def checker_check_arg_id_def
        do_get_plain in_field_def between_fields_def sim_def)
  next
    case (Name_id name)
    have "arg_map_init (fx_args ctx) = []"
      using b arg_map_init_eq [of as] plain_args_unnamed by (simp add: args_ok_def)
    with Name_id s show ?thesis
      by (simp add: on_arg_id_def get_arg_def get_arg_name_def Let_def arg_map_find_def value_messages_def)
  qed
qed

lemma on_replacement_field_plain:
  "arg_type a \<noteq> custom_type \<Longrightarrow> on_replacement_field fo sep fc it (ctx, a) =
     bindE (write_arg fo sep basic_format_specs a) (\<lambda>t. Inr (append_out t (ctx\<lparr>pc_rest := it\<rparr>), a))"
  by (cases a) (simp_all add: on_replacement_field_def)

lemma on_format_specs_plain:
  "arg_type a \<noteq> custom_type \<Longrightarrow> on_format_specs fo sep fc it (ctx, a) =
     bindE (parse_format_specs (specs_checker (arg_type a) specs_handler) (it, basic_format_specs, ctx\<lparr>pc_rest := it\<rparr>)) (\<lambda>(it, specs, ctx).
       if peek it \<noteq> CHR ''}'' then Inl (Format_error (''missing '' @ quoted (CHR ''}'') @ '' in format string''))
       else bindE (write_arg fo sep specs a) (\<lambda>t. Inr (it, append_out t (ctx\<lparr>pc_rest := it\<rparr>), a)))"
  unfolding on_format_specs_def Let_def by (cases a) auto

lemma basic_specs_checked: "t \<notin> {none_type, named_arg_type} \<Longrightarrow> check_type_spec t basic_format_specs = Inr ()"
  by (cases t) (simp_all add: check_type_spec_def check_int_type_def handle_int_type_spec_def handle_char_specs_def
    handle_float_type_spec_def handle_cstring_type_spec_def check_string_type_spec_def check_pointer_type_spec_def basic_format_specs_def)

lemma on_replacement_field_sim:
  assumes "in_field as ck s"
  shows "sim (between_fields as) value_error (Inr ck) (on_replacement_field fo sep fc it s)"
proof -
  obtain ctx a where s: "s = (ctx, a)" by (cases s)
  with assms have a: "arg_type a \<notin> {none_type, named_arg_type, custom_type}"
    using plain_arg(1) [of as "nat (ck_arg_id ck)"] by (auto simp: in_field_def between_fields_def)
  from a have "check_type_spec (arg_type a) basic_format_specs = Inr ()" by (intro basic_specs_checked) simp
  moreover have "arg_type a \<noteq> custom_type" using a by simp
  ultimately have "sim (\<lambda>_ _. True) value_error (Inr ()) (write_arg fo sep basic_format_specs a)"
    by (intro write_arg_checked [of a basic_format_specs]) (simp_all add: same_specs_def)
  from sim_Inr_cases [OF this] a assms s show ?thesis
    by (auto simp: on_replacement_field_plain in_field_def between_fields_def append_out_def args_ok_def)
qed

lemma on_format_specs_sim:
  assumes "in_field as ck s"
  shows "sim (same_it (between_fields as)) value_error (closed_specs (format_string_checker (map arg_type as)) it ck)
    (closed_specs (format_handler fo sep fc) it s)"
proof -
  obtain ctx a where s: "s = (ctx, a)" by (cases s)
  let ?i = "nat (ck_arg_id ck)" and ?ctx = "ctx\<lparr>pc_rest := it\<rparr>"
    and ?st = "\<lparr>pc_rest = it, pc_next_arg_id = pc_next_arg_id ck, dy_width_ref = Ref_none, dy_precision_ref = Ref_none\<rparr>"
  have f: "plain_args as" "args_ok as ctx" "pc_next_arg_id ck = pc_next_arg_id ctx" "\<not> ck_arg_id ck < 0" "?i < length as" "a = as ! ?i"
    using assms s by (auto simp: in_field_def between_fields_def)
  have a: "arg_type a \<noteq> custom_type" using plain_arg(1) [OF f(1,5)] f(6) by simp
  let ?r1 = "parse_format_specs (specs_checker (arg_type a) dynamic_specs_handler) (it, basic_format_specs, ?st)"
    and ?r2 = "parse_format_specs (specs_checker (arg_type a) specs_handler) (it, basic_format_specs, ?ctx)"
  have r: "sim (same_it (specs_rel as)) value_error ?r1 ?r2"
    using f by (intro cs.parse_format_specs_sim) (simp add: same_specs_def)
  note run1 = checker_on_format_specs_def formatter_parse_def format_string_checker_def closed_specs_def
  note run2 = format_handler_def closed_specs_def on_format_specs_plain [OF a]
  show ?thesis
  proof (cases ?r1)
    case (Inl e)
    with f show ?thesis by (simp add: run1 Let_def)
  next
    case r1: (Inr x)
    obtain it1 sp1 st1 where x: "x = (it1, sp1, st1)" by (cases x)
    show ?thesis
    proof (cases ?r2)
      case (Inl e)
      with r r1 x have "value_error e" by (simp add: sim_def)
      with Inl s show ?thesis by (simp add: run2)
    next
      case r2: (Inr y)
      with r r1 x obtain sp2 ctx2 where y: "y = (it1, sp2, ctx2)" "same_specs sp1 sp2"
        "pc_next_arg_id st1 = pc_next_arg_id ctx2" "args_ok as ctx2" by (cases y) auto
      show ?thesis
      proof (cases "check_type_spec (arg_type a) sp1")
        case (Inl e)
        with f r1 x show ?thesis by (simp add: run1 Let_def)
      next
        case (Inr u)
        then have "check_type_spec (arg_type a) sp1 = Inr ()" by simp
        from sim_Inr_cases [OF write_arg_checked [OF this y(2) a, of fo sep]] y f(1-5) s r1 r2 x Inr show ?thesis
          by (auto simp: f(6) [symmetric] run1 run2(1,3) Let_def between_fields_def append_out_def args_ok_def)
      qed
    qed
  qed
qed

interpretation ck: format_simulation "format_handler fo sep fc" "fh_ok as" "fh_field_ok as"
  "format_string_checker (map arg_type as)" "between_fields as" "in_field as" value_error for fo sep fc as
proof
  fix ck :: checker and s :: "('a, 'b) fh_state" and x it aid
  show "between_fields as ck s \<Longrightarrow> fh_ok as s" by (simp add: between_fields_def fh_ok_def)
  show "between_fields as ck s \<Longrightarrow>
      between_fields as (h_text (format_string_checker (map arg_type as)) x ck) (h_text (format_handler fo sep fc) x s)"
    by (cases s) (auto simp: between_fields_def format_string_checker_def format_handler_def append_out_def args_ok_def)
  show "between_fields as ck s \<Longrightarrow> sim (in_field as) value_error
      (h_arg_id (format_string_checker (map arg_type as)) aid ck) (h_arg_id (format_handler fo sep fc) aid s)"
    using on_arg_id_sim by (simp add: format_string_checker_def format_handler_def)
  show "in_field as ck s \<Longrightarrow> sim (between_fields as) value_error
      (h_field (format_string_checker (map arg_type as)) it ck) (h_field (format_handler fo sep fc) it s)"
    using on_replacement_field_sim by (simp add: format_string_checker_def format_handler_def)
qed (rule on_format_specs_sim)



text \<open>The check ignores the name of a named field and keeps the number of the previous argument: the specifications are checked for the wrong
  argument, or, in the first field, an assertion fails.\<close>

lemma named_field_checked_as_previous:
  "check_format_string [string_type, int_type] ''{} {n:d}'' = Some (Inl (Format_error ''invalid type specifier''))"
  "check_format_string [int_type] ''{n:d}'' = Some (Inl Assert_failed)"
  by code_simp+

end
