(* ===== verification/Fmt_Fields.thy ===== *)
theory Fmt_Fields
  imports Fmt_Check
begin

text \<open>
  The text that formatting produces: literal text with its braces doubled comes out as it is, and the plain fields
  \<^verbatim>\<open>{}\<close> take the arguments one after the other.
\<close>

section \<open>Format strings made of literals and plain fields\<close>

datatype piece = Lit string | Hole

definition escape :: "string \<Rightarrow> string" where
  "escape t = concat (map (\<lambda>c. if c = CHR ''{'' \<or> c = CHR ''}'' then [c, c] else [c]) t)"

fun template :: "piece list \<Rightarrow> string" where
  "template [] = []"
| "template (Lit t # ps) = escape t @ template ps"
| "template (Hole # ps) = ''{}'' @ template ps"

fun holes :: "piece list \<Rightarrow> nat" where
  "holes [] = 0"
| "holes (Lit t # ps) = holes ps"
| "holes (Hole # ps) = Suc (holes ps)"

fun rendered :: "piece list \<Rightarrow> string list \<Rightarrow> string" where
  "rendered [] ts = []"
| "rendered (Lit t # ps) ts = t @ rendered ps ts"
| "rendered (Hole # ps) [] = []"
| "rendered (Hole # ps) (t # ts) = t @ rendered ps ts"

fun literals :: "piece list \<Rightarrow> string" where
  "literals [] = []"
| "literals (Lit t # ps) = t @ literals ps"
| "literals (Hole # ps) = literals ps"

lemma escape_simps [simp]:
  "escape [] = []" "c \<noteq> CHR ''{'' \<Longrightarrow> c \<noteq> CHR ''}'' \<Longrightarrow> escape (c # t) = c # escape t"
  "c = CHR ''{'' \<or> c = CHR ''}'' \<Longrightarrow> escape (c # t) = c # c # escape t"
  by (auto simp: escape_def)

lemma append_out_append [simp]: "append_out t (append_out u ctx) = append_out (u @ t) ctx" "append_out [] ctx = ctx"
  by (simp_all add: append_out_def)

lemma text_to_append [simp]: "text_to (p @ it) it = p" "text_to (p @ c # it) it = p @ [c]"
  by (simp_all add: text_to_def)

text \<open>The loop over an escaped literal: \<open>p\<close> is the text that has been passed and not been written.\<close>

lemma format_loop_literal:
  assumes "NUL \<notin> set t"
  shows "\<exists>q u. format_loop (format_handler fo sep fc) (p @ escape t @ rest) (escape t @ rest) (ctx, a) =
      format_loop (format_handler fo sep fc) (q @ rest) rest (append_out u ctx, a) \<and> u @ q = p @ t"
  using assms
proof (induction t arbitrary: p ctx)
  case Nil
  show ?case by (rule exI [of _ p], rule exI [of _ "[]"]) simp
next
  case (Cons c t)
  let ?h = "format_handler fo sep fc"
  have n: "c \<noteq> NUL" "NUL \<notin> set t" using Cons.prems by auto
  show ?case
  proof (cases "c = CHR ''{'' \<or> c = CHR ''}''")
    case True
    then have "format_loop ?h (p @ escape (c # t) @ rest) (escape (c # t) @ rest) (ctx, a) =
        format_loop ?h ([] @ escape t @ rest) (escape t @ rest) (append_out (p @ [c]) ctx, a)"
      using n(1) by (subst format_loop.simps) (auto simp: peek_def format_handler_def text_to_def)
    with Cons.IH [OF n(2), of "[]" "append_out (p @ [c]) ctx"] show ?thesis by fastforce
  next
    case False
    then have "format_loop ?h (p @ escape (c # t) @ rest) (escape (c # t) @ rest) (ctx, a) =
        format_loop ?h ((p @ [c]) @ escape t @ rest) (escape t @ rest) (ctx, a)"
      using n(1) by (subst format_loop.simps) (simp add: peek_def)
    with Cons.IH [OF n(2), of "p @ [c]" ctx] show ?thesis by fastforce
  qed
qed

lemma parse_field_plain: "parse_field h (CHR ''}'' # rest) s =
    bindE (h_arg_id h Auto_id s) (\<lambda>s. bindE (h_field h (CHR ''}'' # rest) s) (\<lambda>s. Inr (CHR ''}'' # rest, s)))"
  by (simp add: parse_field_def parse_arg_id_def peek_def Let_def)

lemma format_loop_field:
  "format_loop h (q @ ''{}'' @ rest) (''{}'' @ rest) s =
     (case bindE (h_arg_id h Auto_id (h_text h q s)) (h_field h (CHR ''}'' # rest)) of
        Inl e \<Rightarrow> Some (Inl e) | Inr s \<Rightarrow> format_loop h ([] @ rest) rest s)"
  by (subst format_loop.simps) (auto simp: peek_def NUL_def parse_field_plain text_to_def bindE_def split: sum.splits)

lemma next_field:
  assumes "args_ok as ctx" "plain_args as" "0 \<le> pc_next_arg_id ctx"
  shows "bindE (on_arg_id Auto_id (ctx, a)) (on_replacement_field fo sep fc it) =
    (let i = nat (pc_next_arg_id ctx) in
     if i < length as
     then bindE (write_arg fo sep basic_format_specs (as ! i)) (\<lambda>t.
       Inr (append_out t (ctx\<lparr>pc_next_arg_id := pc_next_arg_id ctx + 1, pc_rest := it\<rparr>), as ! i))
     else Inl (Format_error ''argument index out of range''))"
proof -
  let ?i = "nat (pc_next_arg_id ctx)" and ?ctx = "ctx\<lparr>pc_next_arg_id := pc_next_arg_id ctx + 1\<rparr>"
  have ok: "args_ok as ?ctx" using assms(1) by simp
  show ?thesis
  proof (cases "?i < length as")
    case True
    have "arg_type (as ! ?i) \<noteq> custom_type" using plain_arg(1) [OF assms(2) True] by simp
    with True do_get_plain [OF ok assms(2) True] assms(3) show ?thesis
      by (simp add: on_arg_id_def get_arg_def next_arg_def next_arg_id_def on_replacement_field_plain Let_def)
  next
    case False
    with args_ok_get [OF ok, of ?i] assms(3) show ?thesis
      by (simp add: on_arg_id_def get_arg_def next_arg_def next_arg_id_def do_get_arg_def)
  qed
qed

definition outcome :: "(fmt_error + ('d, 'c) fh_state) option \<Rightarrow> (fmt_error + string) option" where
  "outcome = map_option (\<lambda>r. bindE r (\<lambda>(ctx, _). Inr (fx_out ctx)))"

lemma format_loop_template:
  assumes "args_ok as ctx" "plain_args as" "pc_next_arg_id ctx = int k" "k \<le> length as" "NUL \<notin> set (literals ps)"
    "list_all2 (\<lambda>a t. write_arg fo sep basic_format_specs a = Inr t) (drop k as) ts"
  shows "outcome (format_loop (format_handler fo sep fc) (p @ template ps) (template ps) (ctx, a)) =
    Some (if k + holes ps \<le> length as then Inr (fx_out ctx @ p @ rendered ps ts)
          else Inl (Format_error ''argument index out of range''))"
  using assms
proof (induction ps arbitrary: p ctx a k ts rule: holes.induct)
  case 1
  then show ?case by (subst format_loop.simps) (simp add: peek_def outcome_def format_handler_def text_to_def append_out_def)
next
  case (2 t ps)
  obtain q u where l: "format_loop (format_handler fo sep fc) (p @ escape t @ template ps) (escape t @ template ps) (ctx, a) =
      format_loop (format_handler fo sep fc) (q @ template ps) (template ps) (append_out u ctx, a)" "u @ q = p @ t"
    using format_loop_literal [of t fo sep fc p "template ps" ctx a] "2.prems"(5) by auto
  have "p @ t @ r = u @ q @ r" for r using l(2) by (metis append_assoc)
  with l(1) "2.IH" [of "append_out u ctx" k ts q a] "2.prems" show ?case by (simp add: append_out_def args_ok_def)
next
  case (3 ps)
  let ?h = "format_handler fo sep fc" and ?ctx = "append_out p ctx" and ?it = "CHR ''}'' # template ps"
  have ok: "args_ok as ?ctx" "0 \<le> pc_next_arg_id ?ctx" "pc_next_arg_id ?ctx = int k"
    using "3.prems"(1,3) by (simp_all add: append_out_def args_ok_def)
  note run = format_loop_field [of ?h p "template ps" "(ctx, a)"] next_field [OF ok(1) "3.prems"(2) ok(2), of a fo sep fc ?it]
  show ?case
  proof (cases "k < length as")
    case True
    then obtain t ts' where ts: "ts = t # ts'" "write_arg fo sep basic_format_specs (as ! k) = Inr t"
      "list_all2 (\<lambda>a t. write_arg fo sep basic_format_specs a = Inr t) (drop (Suc k) as) ts'"
      using "3.prems"(6) by (auto simp: list_all2_Cons1 simp flip: Cons_nth_drop_Suc)
    let ?ctx' = "append_out t (?ctx\<lparr>pc_next_arg_id := 1 + int k, pc_rest := ?it\<rparr>)"
    have "format_loop ?h (p @ template (Hole # ps)) (template (Hole # ps)) (ctx, a) =
        format_loop ?h ([] @ template ps) (template ps) (?ctx', as ! k)"
      using run True ts(2) ok(3) by (simp add: format_handler_def add.commute)
    moreover have "outcome (format_loop ?h ([] @ template ps) (template ps) (?ctx', as ! k)) =
        Some (if Suc k + holes ps \<le> length as then Inr (fx_out ?ctx' @ [] @ rendered ps ts')
          else Inl (Format_error ''argument index out of range''))"
      using "3.IH" [of ?ctx' "Suc k" ts' "[]" "as ! k"] "3.prems" True ts(3) ok(1) by (simp add: append_out_def args_ok_def)
    ultimately show ?thesis using ts(1) by (simp add: append_out_def)
  next
    case False
    then have "format_loop ?h (p @ template (Hole # ps)) (template (Hole # ps)) (ctx, a) =
        Some (Inl (Format_error ''argument index out of range''))"
      using run ok(3) by (simp add: format_handler_def)
    then show ?thesis using False by (simp add: outcome_def)
  qed
qed

lemma vformat_outcome: "vformat_to fo sep fc fmt as = outcome (format_loop (format_handler fo sep fc) fmt fmt
    (\<lparr>pc_rest = fmt, pc_next_arg_id = 0, fx_out = [], fx_args = make_format_args as\<rparr>, None_arg))"
  by (simp add: vformat_to_def parse_format_string_def outcome_def)

lemma vformat_template:
  assumes "list_all2 (\<lambda>a t. write_arg fo sep basic_format_specs a = Inr t) as ts"
    "\<forall>a \<in> set as. arg_type a \<notin> {none_type, named_arg_type, custom_type}" "length as < 2 ^ 32" "NUL \<notin> set (literals ps)"
  shows "vformat_to fo sep fc (template ps) as =
    Some (if holes ps \<le> length as then Inr (rendered ps ts) else Inl (Format_error ''argument index out of range''))"
proof -
  let ?ctx = "\<lparr>pc_rest = template ps, pc_next_arg_id = 0, fx_out = [], fx_args = make_format_args as\<rparr>"
  have ok: "args_ok as ?ctx" "plain_args as" using assms(2,3) by (auto intro!: plain_wf simp: args_ok_def plain_args_def list_all_iff)
  from format_loop_template [OF ok _ _ assms(4), of 0 fo sep ts fc "[]" None_arg] assms(1) show ?thesis
    by (simp add: vformat_outcome)
qed

text \<open>C18: Formatting a string made of literal text, its braces doubled, and plain fields gives the literal text unchanged with the
  arguments, each formatted by default, at the places of the fields and in order; when the fields outnumber the arguments it
  is refused. Arguments beyond the fields are ignored.\<close>

theorem vformat_plain_fields:
  assumes "list_all2 (\<lambda>a t. write_arg fo sep basic_format_specs a = Inr t) as ts"
    "\<forall>a \<in> set as. arg_type a \<notin> {none_type, named_arg_type, custom_type}" "length as < 2 ^ 32" "NUL \<notin> set (literals ps)"
  shows "vformat_to fo sep fc (template ps) as =
    Some (if holes ps \<le> length as then Inr (rendered ps ts) else Inl (Format_error ''argument index out of range''))"
  using assms by (rule vformat_template)

theorem vformat_plain_fields_witness:
  "vformat_to no_floats (CHR '','') (\<lambda>_ _ _ _. Inr (0, 0, [])) ''{{{}}} = {}'' [String_arg ''x'', Bool_arg True :: (unit, unit) fmt_arg] =
     Some (Inr ''{x} = true'')"
proof -
  have "list_all2 (\<lambda>a t. write_arg no_floats (CHR '','') basic_format_specs a = Inr t)
      [String_arg ''x'', Bool_arg True :: (unit, unit) fmt_arg] [''x'', ''true'']"
    by (simp add: write_str_spec_def write_bool_def check_string_type_spec_def basic_format_specs_def Let_def padded_def)
  from vformat_plain_fields [OF this, of "[Lit ''{'', Hole, Lit ''} = '', Hole]"] show ?thesis by (simp add: NUL_def)
qed

text \<open>A format string of class \<^verbatim>\<open>string_view\<close> is read through a null-terminated iterator: a zero character in it ends it.\<close>

lemma embedded_zero_cuts:
  "vformat_to fo sep fc (''ab'' @ NUL # rest) as = Some (Inr ''ab'')"
  by (simp add: vformat_to_def parse_format_string_def format_loop.simps peek_def NUL_def format_handler_def text_to_def
    append_out_def)

end
