(* ===== verification/Spd_Pattern.thy ===== *)
theory Spd_Pattern
  imports Fmt_Fields "HOL-Library.Signed_Division" "HOL-Library.Monad_Syntax"
begin

text \<open>
  Log lines: messages (\<^verbatim>\<open>log_msg.h\<close>), levels (\<^verbatim>\<open>common.h\<close>), the helpers of \<^verbatim>\<open>fmt_helper.h\<close>, and the pattern formatter with its flags and
  its caches (\<^verbatim>\<open>pattern_formatter.h\<close>). The result \<open>None\<close> stands for a read outside an array or a write outside a buffer. The
  clock counts nanoseconds; \<^verbatim>\<open>localtime\<close>, \<^verbatim>\<open>gmtime\<close> and \<^verbatim>\<open>pid\<close> are parameters. Divisions of C++ round towards zero (\<open>sdiv\<close>, \<open>smod\<close>).
\<close>

section \<open>Levels and messages\<close>

datatype level_enum = L_trace | L_debug | L_info | L_warn | L_err | L_critical | L_off

fun level_number :: "level_enum \<Rightarrow> nat" where
  "level_number L_trace = 0" | "level_number L_debug = 1" | "level_number L_info = 2" | "level_number L_warn = 3"
| "level_number L_err = 4" | "level_number L_critical = 5" | "level_number L_off = 6"

definition level_names :: "string list" where
  "level_names = [''trace'', ''debug'', ''info'', ''warning'', ''error'', ''critical'', ''off'']"

definition short_level_names :: "string list" where
  "short_level_names = [''T'', ''D'', ''I'', ''W'', ''E'', ''C'', ''O'']"

definition to_c_str :: "level_enum \<Rightarrow> string" where
  "to_c_str l = level_names ! level_number l"

definition to_short_c_str :: "level_enum \<Rightarrow> string" where
  "to_short_c_str l = short_level_names ! level_number l"

definition from_str :: "string \<Rightarrow> level_enum" where
  "from_str name =
     (case map_of (zip level_names [L_trace, L_debug, L_info, L_warn, L_err, L_critical, L_off]) name of
        Some l \<Rightarrow> l | None \<Rightarrow> L_off)"

text \<open>\<^verbatim>\<open>std::tm\<close>, with the offset from UTC in seconds.\<close>

record tm =
  tm_sec :: int
  tm_min :: int
  tm_hour :: int
  tm_mday :: int
  tm_mon :: int
  tm_year :: int
  tm_wday :: int
  tm_gmtoff :: int

definition zero_tm :: tm where
  "zero_tm = \<lparr>tm_sec = 0, tm_min = 0, tm_hour = 0, tm_mday = 0, tm_mon = 0, tm_year = 0, tm_wday = 0, tm_gmtoff = 0\<rparr>"

record log_msg =
  lm_logger_name :: string
  lm_level :: level_enum
  lm_time :: int
  lm_thread_id :: size_t
  lm_raw :: string
  lm_msg_id :: size_t
  lm_color_range_start :: nat
  lm_color_range_end :: nat

section \<open>Helpers\<close>

definition push_back :: "char \<Rightarrow> string \<Rightarrow> string option" where
  "push_back c dest = Some (dest @ [c])"

definition append_str :: "string \<Rightarrow> string \<Rightarrow> string option" where
  "append_str s dest = Some (dest @ s)"

text \<open>An element of a static array of texts; the index is an \<^verbatim>\<open>int\<close>.\<close>

definition text_at :: "string list \<Rightarrow> int \<Rightarrow> string option" where
  "text_at xs i = (if 0 \<le> i \<and> i < int (length xs) then Some (xs ! nat i) else None)"

text \<open>\<^verbatim>\<open>fmt::format_to(dest, "{:0<w>}", n)\<close> for an \<^verbatim>\<open>int\<close>, and for a \<^verbatim>\<open>long\<close>.\<close>

definition format_arg :: "string \<Rightarrow> (unit, unit) fmt_arg \<Rightarrow> string option" where
  "format_arg fmt a =
     (case vformat_to no_floats (CHR '','') (\<lambda>_ _ _ _. Inr (0, 0, [])) fmt [a] of Some (Inr t) \<Rightarrow> Some t | _ \<Rightarrow> None)"

definition format_width :: "nat \<Rightarrow> int \<Rightarrow> string" where
  "format_width w n =
     (case format_arg (''{:0'' @ [digit_char w] @ ''}'') (Int_arg (of_int n)) of Some t \<Rightarrow> t | None \<Rightarrow> [])"

abbreviation "put2 \<equiv> pad2 format_width"
abbreviation "put3 \<equiv> pad3 format_width"
abbreviation "put6 \<equiv> pad6 format_width"

text \<open>\<^verbatim>\<open>duration_cast<seconds>\<close> and \<^verbatim>\<open>time_fraction\<close>, for a unit of so many nanoseconds.\<close>

definition to_secs :: "int \<Rightarrow> int" where
  "to_secs t = t sdiv 1000000000"

definition time_fraction :: "int \<Rightarrow> int \<Rightarrow> int" where
  "time_fraction unit_ns t = t sdiv unit_ns - to_secs t * (1000000000 div unit_ns)"

section \<open>Flags\<close>

definition ampm :: "tm \<Rightarrow> string" where
  "ampm t = (if tm_hour t \<ge> 12 then ''PM'' else ''AM'')"

definition to12h :: "tm \<Rightarrow> int" where
  "to12h t = (if tm_hour t > 12 then tm_hour t - 12 else tm_hour t)"

definition days :: "string list" where
  "days = [''Sun'', ''Mon'', ''Tue'', ''Wed'', ''Thu'', ''Fri'', ''Sat'']"

definition full_days :: "string list" where
  "full_days = [''Sunday'', ''Monday'', ''Tuesday'', ''Wednesday'', ''Thursday'', ''Friday'', ''Saturday'']"

definition months :: "string list" where
  "months = [''Jan'', ''Feb'', ''Mar'', ''Apr'', ''May'', ''Jun'', ''Jul'', ''Aug'', ''Sept'', ''Oct'', ''Nov'', ''Dec'']"

definition full_months :: "string list" where
  "full_months = [''January'', ''February'', ''March'', ''April'', ''May'', ''June'', ''July'', ''August'', ''September'',
     ''October'', ''November'', ''December'']"

text \<open>The appenders, one per class.\<close>

definition a_format :: "tm \<Rightarrow> string \<Rightarrow> string option" where
  "a_format t dest = do { s \<leftarrow> text_at days (tm_wday t); append_str s dest }"

definition A_format :: "tm \<Rightarrow> string \<Rightarrow> string option" where
  "A_format t dest = do { s \<leftarrow> text_at full_days (tm_wday t); append_str s dest }"

definition b_format :: "tm \<Rightarrow> string \<Rightarrow> string option" where
  "b_format t dest = do { s \<leftarrow> text_at months (tm_mon t); append_str s dest }"

definition B_format :: "tm \<Rightarrow> string \<Rightarrow> string option" where
  "B_format t dest = do { s \<leftarrow> text_at full_months (tm_mon t); append_str s dest }"

definition T_format :: "tm \<Rightarrow> string \<Rightarrow> string option" where
  "T_format t dest = do {
     dest \<leftarrow> put2 (tm_hour t) dest; dest \<leftarrow> push_back (CHR '':'') dest;
     dest \<leftarrow> put2 (tm_min t) dest; dest \<leftarrow> push_back (CHR '':'') dest;
     put2 (tm_sec t) dest }"

definition c_format :: "tm \<Rightarrow> string \<Rightarrow> string option" where
  "c_format t dest = do {
     dest \<leftarrow> a_format t dest; dest \<leftarrow> push_back (CHR '' '') dest;
     dest \<leftarrow> b_format t dest; dest \<leftarrow> push_back (CHR '' '') dest;
     dest \<leftarrow> append_int (tm_mday t) dest; dest \<leftarrow> push_back (CHR '' '') dest;
     dest \<leftarrow> T_format t dest; dest \<leftarrow> push_back (CHR '' '') dest;
     append_int (tm_year t + 1900) dest }"

definition C_format :: "tm \<Rightarrow> string \<Rightarrow> string option" where
  "C_format t dest = put2 (tm_year t smod 100) dest"

definition D_format :: "tm \<Rightarrow> string \<Rightarrow> string option" where
  "D_format t dest = do {
     dest \<leftarrow> put2 (tm_mon t + 1) dest; dest \<leftarrow> push_back (CHR ''/'') dest;
     dest \<leftarrow> put2 (tm_mday t) dest; dest \<leftarrow> push_back (CHR ''/'') dest;
     put2 (tm_year t smod 100) dest }"

definition Y_format :: "tm \<Rightarrow> string \<Rightarrow> string option" where
  "Y_format t dest = append_int (tm_year t + 1900) dest"

definition e_format :: "log_msg \<Rightarrow> string \<Rightarrow> string option" where
  "e_format msg dest = put3 (time_fraction 1000000 (lm_time msg)) dest"

definition f_format :: "log_msg \<Rightarrow> string \<Rightarrow> string option" where
  "f_format msg dest = put6 (of_int (time_fraction 1000 (lm_time msg))) dest"

definition F_format :: "log_msg \<Rightarrow> string \<Rightarrow> string option" where
  "F_format msg dest = do {
     s \<leftarrow> format_arg ''{:09}'' (Long_long_arg (of_int (time_fraction 1 (lm_time msg)))); append_str s dest }"

definition E_format :: "log_msg \<Rightarrow> string \<Rightarrow> string option" where
  "E_format msg dest = append_int (to_secs (lm_time msg)) dest"

definition r_format :: "tm \<Rightarrow> string \<Rightarrow> string option" where
  "r_format t dest = do {
     dest \<leftarrow> put2 (to12h t) dest; dest \<leftarrow> push_back (CHR '':'') dest;
     dest \<leftarrow> put2 (tm_min t) dest; dest \<leftarrow> push_back (CHR '':'') dest;
     dest \<leftarrow> put2 (tm_sec t) dest; dest \<leftarrow> push_back (CHR '' '') dest;
     append_str (ampm t) dest }"

definition R_format :: "tm \<Rightarrow> string \<Rightarrow> string option" where
  "R_format t dest = do { dest \<leftarrow> put2 (tm_hour t) dest; dest \<leftarrow> push_back (CHR '':'') dest; put2 (tm_min t) dest }"

definition utc_minutes_offset :: "tm \<Rightarrow> int" where
  "utc_minutes_offset t = tm_gmtoff t sdiv 60"

definition z_format :: "tm \<Rightarrow> string \<Rightarrow> string option" where
  "z_format t dest =
     (let total = utc_minutes_offset t;
          mins = (if total < 0 then - total else total)
      in do {
        dest \<leftarrow> push_back (if total < 0 then CHR ''-'' else CHR ''+'') dest;
        dest \<leftarrow> put2 (mins sdiv 60) dest; dest \<leftarrow> push_back (CHR '':'') dest;
        put2 (mins smod 60) dest })"

text \<open>\<^verbatim>\<open>full_formatter\<close> keeps the text of the last second. It also marks the range of the level name.\<close>

definition datetime_format :: "tm \<Rightarrow> string \<Rightarrow> string option" where
  "datetime_format t dest = do {
     dest \<leftarrow> push_back (CHR ''['') dest;
     dest \<leftarrow> append_int (tm_year t + 1900) dest; dest \<leftarrow> push_back (CHR ''-'') dest;
     dest \<leftarrow> put2 (tm_mon t + 1) dest; dest \<leftarrow> push_back (CHR ''-'') dest;
     dest \<leftarrow> put2 (tm_mday t) dest; dest \<leftarrow> push_back (CHR '' '') dest;
     dest \<leftarrow> put2 (tm_hour t) dest; dest \<leftarrow> push_back (CHR '':'') dest;
     dest \<leftarrow> put2 (tm_min t) dest; dest \<leftarrow> push_back (CHR '':'') dest;
     dest \<leftarrow> put2 (tm_sec t) dest; push_back (CHR ''.'') dest }"

definition full_format :: "int \<Rightarrow> string \<Rightarrow> log_msg \<Rightarrow> tm \<Rightarrow> string \<Rightarrow> (int \<times> string \<times> log_msg \<times> string) option" where
  "full_format stamp cached msg t dest = do {
     let secs = to_secs (lm_time msg);
     (stamp, cached) \<leftarrow>
       (if stamp \<noteq> secs \<or> cached = [] then do { s \<leftarrow> datetime_format t []; Some (secs, s) } else Some (stamp, cached));
     dest \<leftarrow> append_str cached dest;
     dest \<leftarrow> put3 (time_fraction 1000000 (lm_time msg)) dest;
     dest \<leftarrow> append_str ''] '' dest;
     dest \<leftarrow> push_back (CHR ''['') dest;
     dest \<leftarrow> append_str (lm_logger_name msg) dest;
     dest \<leftarrow> append_str ''] '' dest;
     dest \<leftarrow> push_back (CHR ''['') dest;
     let msg = msg\<lparr>lm_color_range_start := length dest\<rparr>;
     dest \<leftarrow> append_str (to_c_str (lm_level msg)) dest;
     let msg = msg\<lparr>lm_color_range_end := length dest\<rparr>;
     dest \<leftarrow> append_str ''] '' dest;
     dest \<leftarrow> append_str (lm_raw msg) dest;
     Some (stamp, cached, msg, dest) }"

section \<open>The formatter\<close>

datatype flag_formatter =
    name_formatter | level_formatter | short_level_formatter | a_formatter | A_formatter | b_formatter | B_formatter
  | c_formatter | C_formatter | D_formatter | Y_formatter | m_formatter | d_formatter | H_formatter | I_formatter
  | M_formatter | S_formatter | e_formatter | f_formatter | F_formatter | E_formatter | p_formatter | r_formatter
  | R_formatter | T_formatter | z_formatter | t_formatter | pid_formatter | i_formatter | v_formatter
  | ch_formatter char | aggregate_formatter string | color_start_formatter | color_stop_formatter
  | full_formatter int string

record log_os =
  os_localtime :: "int \<Rightarrow> tm"
  os_gmtime :: "int \<Rightarrow> tm"
  os_pid :: int

text \<open>The text that a flag appends; the other effects follow below.\<close>

fun flag_text :: "log_os \<Rightarrow> flag_formatter \<Rightarrow> log_msg \<Rightarrow> tm \<Rightarrow> string \<Rightarrow> string option" where
  "flag_text sys name_formatter msg t = append_str (lm_logger_name msg)"
| "flag_text sys level_formatter msg t = append_str (to_c_str (lm_level msg))"
| "flag_text sys short_level_formatter msg t = append_str (to_short_c_str (lm_level msg))"
| "flag_text sys a_formatter msg t = a_format t"
| "flag_text sys A_formatter msg t = A_format t"
| "flag_text sys b_formatter msg t = b_format t"
| "flag_text sys B_formatter msg t = B_format t"
| "flag_text sys c_formatter msg t = c_format t"
| "flag_text sys C_formatter msg t = C_format t"
| "flag_text sys D_formatter msg t = D_format t"
| "flag_text sys Y_formatter msg t = Y_format t"
| "flag_text sys m_formatter msg t = put2 (tm_mon t + 1)"
| "flag_text sys d_formatter msg t = put2 (tm_mday t)"
| "flag_text sys H_formatter msg t = put2 (tm_hour t)"
| "flag_text sys I_formatter msg t = put2 (to12h t)"
| "flag_text sys M_formatter msg t = put2 (tm_min t)"
| "flag_text sys S_formatter msg t = put2 (tm_sec t)"
| "flag_text sys e_formatter msg t = e_format msg"
| "flag_text sys f_formatter msg t = f_format msg"
| "flag_text sys F_formatter msg t = F_format msg"
| "flag_text sys E_formatter msg t = E_format msg"
| "flag_text sys p_formatter msg t = append_str (ampm t)"
| "flag_text sys r_formatter msg t = r_format t"
| "flag_text sys R_formatter msg t = R_format t"
| "flag_text sys T_formatter msg t = T_format t"
| "flag_text sys z_formatter msg t = z_format t"
| "flag_text sys t_formatter msg t = put6 (lm_thread_id msg)"
| "flag_text sys pid_formatter msg t = append_int (os_pid sys)"
| "flag_text sys i_formatter msg t = put6 (lm_msg_id msg)"
| "flag_text sys v_formatter msg t = append_str (lm_raw msg)"
| "flag_text sys (ch_formatter c) msg t = push_back c"
| "flag_text sys (aggregate_formatter s) msg t = append_str s"
| "flag_text sys color_start_formatter msg t = Some"
| "flag_text sys color_stop_formatter msg t = Some"
| "flag_text sys (full_formatter stamp cached) msg t = (\<lambda>dest. map_option (\<lambda>(_, _, _, d). d) (full_format stamp cached msg t dest))"

text \<open>\<^verbatim>\<open>format\<close> of a flag: the flag may keep a cache, the ranges of the message are mutable.\<close>

definition flag_format ::
  "log_os \<Rightarrow> flag_formatter \<Rightarrow> log_msg \<Rightarrow> tm \<Rightarrow> string \<Rightarrow> (flag_formatter \<times> log_msg \<times> string) option" where
  "flag_format sys f msg t dest =
     (case f of
        color_start_formatter \<Rightarrow> Some (f, msg\<lparr>lm_color_range_start := length dest\<rparr>, dest)
      | color_stop_formatter \<Rightarrow> Some (f, msg\<lparr>lm_color_range_end := length dest\<rparr>, dest)
      | full_formatter stamp cached \<Rightarrow>
          map_option (\<lambda>(stamp, cached, msg, dest). (full_formatter stamp cached, msg, dest)) (full_format stamp cached msg t dest)
      | _ \<Rightarrow> map_option (\<lambda>dest. (f, msg, dest)) (flag_text sys f msg t dest))"

datatype pattern_time_type = Time_local | Time_utc

record pattern_formatter =
  pf_pattern :: string
  pf_eol :: string
  pf_time_type :: pattern_time_type
  pf_cached_tm :: tm
  pf_last_log_secs :: int
  pf_formatters :: "flag_formatter list"

definition handle_flag :: "char \<Rightarrow> flag_formatter list" where
  "handle_flag c =
     (if c = CHR ''n'' then [name_formatter]
      else if c = CHR ''l'' then [level_formatter]
      else if c = CHR ''L'' then [short_level_formatter]
      else if c = CHR ''t'' then [t_formatter]
      else if c = CHR ''v'' then [v_formatter]
      else if c = CHR ''a'' then [a_formatter]
      else if c = CHR ''A'' then [A_formatter]
      else if c = CHR ''b'' \<or> c = CHR ''h'' then [b_formatter]
      else if c = CHR ''B'' then [B_formatter]
      else if c = CHR ''c'' then [c_formatter]
      else if c = CHR ''C'' then [C_formatter]
      else if c = CHR ''Y'' then [Y_formatter]
      else if c = CHR ''D'' \<or> c = CHR ''x'' then [D_formatter]
      else if c = CHR ''m'' then [m_formatter]
      else if c = CHR ''d'' then [d_formatter]
      else if c = CHR ''H'' then [H_formatter]
      else if c = CHR ''I'' then [I_formatter]
      else if c = CHR ''M'' then [M_formatter]
      else if c = CHR ''S'' then [S_formatter]
      else if c = CHR ''e'' then [e_formatter]
      else if c = CHR ''f'' then [f_formatter]
      else if c = CHR ''F'' then [F_formatter]
      else if c = CHR ''E'' then [E_formatter]
      else if c = CHR ''p'' then [p_formatter]
      else if c = CHR ''r'' then [r_formatter]
      else if c = CHR ''R'' then [R_formatter]
      else if c = CHR ''T'' \<or> c = CHR ''X'' then [T_formatter]
      else if c = CHR ''z'' then [z_formatter]
      else if c = CHR ''+'' then [full_formatter 0 []]
      else if c = CHR ''P'' then [pid_formatter]
      else if c = CHR ''i'' then [i_formatter]
      else if c = CHR ''^'' then [color_start_formatter]
      else if c = CHR ''$'' then [color_stop_formatter]
      else [ch_formatter (CHR ''%''), ch_formatter c])"

text \<open>\<^verbatim>\<open>compile_pattern_\<close>: the characters of the user that have been collected, if any, and the rest of the pattern.\<close>

definition flush_user_chars :: "string option \<Rightarrow> flag_formatter list" where
  "flush_user_chars u = (case u of None \<Rightarrow> [] | Some s \<Rightarrow> [aggregate_formatter s])"

fun compile_loop :: "string option \<Rightarrow> string \<Rightarrow> flag_formatter list" where
  "compile_loop u [] = flush_user_chars u"
| "compile_loop u (c # cs) =
     (if c = CHR ''%''
      then flush_user_chars u @ (case cs of [] \<Rightarrow> [] | d # ds \<Rightarrow> handle_flag d @ compile_loop None ds)
      else compile_loop (Some ((case u of None \<Rightarrow> [] | Some s \<Rightarrow> s) @ [c])) cs)"

definition compile_pattern :: "string \<Rightarrow> flag_formatter list" where
  "compile_pattern pattern = compile_loop None pattern"

definition mk_pattern_formatter :: "string \<Rightarrow> pattern_time_type \<Rightarrow> string \<Rightarrow> pattern_formatter" where
  "mk_pattern_formatter pattern time_type eol =
     \<lparr>pf_pattern = pattern, pf_eol = eol, pf_time_type = time_type, pf_cached_tm = zero_tm, pf_last_log_secs = 0,
      pf_formatters = compile_pattern pattern\<rparr>"

definition pf_clone :: "pattern_formatter \<Rightarrow> pattern_formatter" where
  "pf_clone pf = mk_pattern_formatter (pf_pattern pf) (pf_time_type pf) (pf_eol pf)"

definition get_time :: "log_os \<Rightarrow> pattern_time_type \<Rightarrow> int \<Rightarrow> tm" where
  "get_time sys time_type t =
     (case time_type of Time_local \<Rightarrow> os_localtime sys (to_secs t) | Time_utc \<Rightarrow> os_gmtime sys (to_secs t))"

fun format_flags ::
  "log_os \<Rightarrow> flag_formatter list \<Rightarrow> log_msg \<Rightarrow> tm \<Rightarrow> string \<Rightarrow> (flag_formatter list \<times> log_msg \<times> string) option" where
  "format_flags sys [] msg t dest = Some ([], msg, dest)"
| "format_flags sys (f # fs) msg t dest = do {
     (f, msg, dest) \<leftarrow> flag_format sys f msg t dest;
     (fs, msg, dest) \<leftarrow> format_flags sys fs msg t dest;
     Some (f # fs, msg, dest) }"

definition pf_format :: "log_os \<Rightarrow> pattern_formatter \<Rightarrow> log_msg \<Rightarrow> string \<Rightarrow> (pattern_formatter \<times> log_msg \<times> string) option" where
  "pf_format sys pf msg dest =
     (let secs = to_secs (lm_time msg);
          pf = (if secs \<noteq> pf_last_log_secs pf
                then pf\<lparr>pf_cached_tm := get_time sys (pf_time_type pf) (lm_time msg), pf_last_log_secs := secs\<rparr> else pf)
      in do {
        (fs, msg, dest) \<leftarrow> format_flags sys (pf_formatters pf) msg (pf_cached_tm pf) dest;
        dest \<leftarrow> append_str (pf_eol pf) dest;
        Some (pf\<lparr>pf_formatters := fs\<rparr>, msg, dest) })"

lemma from_str_to_c_str: "from_str (to_c_str l) = l"
  by (cases l) (simp_all add: from_str_def to_c_str_def level_names_def)

end
