(* ===== verification/Spd_Lines.thy ===== *)
theory Spd_Lines
  imports Spd_Pattern
begin

text \<open>
  The lines that the pattern formatter writes are the ones that its pattern describes, whatever its caches hold.
\<close>

section \<open>Numbers of fixed width\<close>

lemma digit_char_zero [simp]: "digit_char 0 = CHR ''0''"
  by (simp add: digit_char_def char_of_def) code_simp

lemma zero_padded_Suc:
  assumes "0 < k"
  shows "zero_padded (Suc k) n = zero_padded k (n div 10) @ [digit_char (n mod 10)]"
proof (cases "n < 10")
  case True
  with assms show ?thesis
    by (cases k) (auto simp: zero_padded_def decimal_string_small replicate_append_same)
next
  case False
  then show ?thesis by (simp add: zero_padded_def decimal_string_step)
qed

lemma zero_padded_split:
  assumes "0 < j" "0 < k"
  shows "zero_padded (j + k) n = zero_padded j (n div 10 ^ k) @ zero_padded k (n mod 10 ^ k)"
  using assms(2)
proof (induction k arbitrary: n)
  case (Suc k)
  show ?case
  proof (cases "k = 0")
    case True
    with zero_padded_Suc [OF assms(1), of n] show ?thesis
      by (simp add: zero_padded_def [of "Suc 0"] decimal_string_small)
  next
    case False
    have "n mod (10 * 10 ^ k) div 10 = n div 10 mod 10 ^ k"
      by (simp add: mod_mult2_eq)
    moreover have "n mod (10 * 10 ^ k) mod 10 = n mod 10"
      by (simp add: mod_mod_cancel)
    ultimately show ?thesis
      using Suc.IH [of "n div 10"] False assms(1) zero_padded_Suc [of "j + k" n] zero_padded_Suc [of k "n mod 10 ^ Suc k"]
      by (simp add: div_mult2_eq)
  qed
qed simp

lemma pad6_correct: "pad6 fw n dest = Some (dest @ zero_padded 6 (unat n))"
proof (cases "n > 99999")
  case True
  then have "\<not> unat n < 10 ^ 5" by (simp add: word_less_nat_alt)
  then have "\<not> length (decimal_string (unat n)) \<le> 5" using decimal_string_length_iff [of 5 "unat n"] by simp
  with True show ?thesis
    by (simp add: pad6_def append_size_def format_int_unsigned_correct zero_padded_def)
next
  case False
  then have "\<not> unat (99999 :: size_t) < unat n" unfolding word_less_nat_alt .
  then have n: "unat n < 100000" by simp
  let ?q = "unat n div 1000" and ?r = "unat n mod 1000"
  have u: "uint (n div 1000) = int ?q" "uint (n mod 1000) = int ?r"
    by (simp_all add: uint_div_distrib uint_mod_distrib zdiv_int zmod_int)
  have q: "?q < 1000" "?r < 1000" using n by (simp_all add: less_mult_imp_div_less)
  have "pad3 fw (int k) d = Some (d @ zero_padded 3 k)" if "k < 1000" for k d
    using pad3_correct [of "int k" fw d] that by simp
  with q have "pad6 fw n dest = Some (dest @ zero_padded 3 ?q @ zero_padded 3 ?r)"
    unfolding pad6_def u using False by (simp only: if_False bind.simps append_assoc)
  moreover have "zero_padded 6 (unat n) = zero_padded 3 ?q @ zero_padded 3 ?r"
    using zero_padded_split [of 3 3 "unat n"] by simp
  ultimately show ?thesis by (simp only:)
qed

lemma append_int_correct:
  assumes "- (2 ^ 63) \<le> n" "n < 2 ^ 63"
  shows "append_int n dest = Some (dest @ (if n < 0 then ''-'' else []) @ decimal_string (nat \<bar>n\<bar>))"
  using format_int_signed_correct [of n] assms by (simp add: append_int_def)

lemma zero_width_specs:
  assumes "is_arithmetic t" "c = CHR ''2'' \<and> w = 2 \<or> c = CHR ''3'' \<and> w = 3 \<or> c = CHR ''9'' \<and> w = 9"
  shows "parse_format_specs (specs_checker t specs_handler) ([CHR ''0'', c, CHR ''}''], sp, ctx) =
    Inr (''}'', sp\<lparr>fs_align := ALIGN_NUMERIC, fs_fill := CHR ''0'', fs_width := w\<rparr>, ctx)"
  using assms(2)
  by (elim disjE)
    (simp_all add: assms(1) parse_format_specs_def parse_align_def align_of_def parse_sign_def parse_hash_def parse_zero_def
      parse_width_def parse_precision_def parse_type_def peek_def is_digit_def NUL_def parse_nonnegative_int_def MAX_INT_def
      specs_handler_defs require_numeric_argument_def Let_def)

lemma vformat_zero_width:
  assumes "is_arithmetic (arg_type a)" "arg_type a \<noteq> named_arg_type"
    "c = CHR ''2'' \<and> w = 2 \<or> c = CHR ''3'' \<and> w = 3 \<or> c = CHR ''9'' \<and> w = 9"
  shows "vformat_to fo sep fc [CHR ''{'', CHR '':'', CHR ''0'', c, CHR ''}''] [a] =
    Some (bindE (write_arg fo sep (basic_format_specs\<lparr>fs_align := ALIGN_NUMERIC, fs_fill := CHR ''0'', fs_width := w\<rparr>) a) Inr)"
proof -
  let ?fmt = "[CHR ''{'', CHR '':'', CHR ''0'', c, CHR ''}'']"
  let ?ctx = "\<lparr>pc_rest = ?fmt, pc_next_arg_id = 0, fx_out = [], fx_args = make_format_args [a]\<rparr>"
  have t: "arg_type a \<noteq> custom_type" "arg_type a \<noteq> none_type"
    using assms(1) by (auto simp: is_arithmetic_def last_numeric_type_def)
  then have p: "plain_args [a]" using assms(2) by (simp add: plain_args_def)
  then have ok: "args_ok [a] (?ctx\<lparr>pc_next_arg_id := 1\<rparr>)" using plain_wf [of a] t assms(2) by (simp add: args_ok_def)
  have "on_arg_id Auto_id (?ctx, None_arg) = Inr (?ctx\<lparr>pc_next_arg_id := 1\<rparr>, a)"
    using do_get_plain [OF ok p, of 0] by (simp add: on_arg_id_def get_arg_def next_arg_def next_arg_id_def)
  then show ?thesis
    by (cases "write_arg fo sep (basic_format_specs\<lparr>fs_align := ALIGN_NUMERIC, fs_fill := CHR ''0'', fs_width := w\<rparr>) a")
      (simp_all add: vformat_outcome format_loop.simps [of _ ?fmt] parse_field_def parse_arg_id_def peek_def NUL_def is_digit_def
        format_handler_def append_out_def text_to_def on_format_specs_plain [OF t(1)] zero_width_specs [OF assms(1,3)] outcome_def
        format_loop.simps [of _ "[]"])
qed

lemma format_nanos:
  assumes "0 \<le> n" "n < 1000000000"
  shows "format_arg ''{:09}'' (Long_long_arg (of_int n)) = Some (zero_padded 9 (nat n))"
proof -
  let ?spec = "basic_format_specs\<lparr>fs_align := ALIGN_NUMERIC, fs_fill := CHR ''0'', fs_width := 9\<rparr>"
    and ?a = "Long_long_arg (of_int n) :: (unit, unit) fmt_arg"
  have "sint (of_int n :: 64 word) = n"
    using assms signed_take_bit_int_eq_self [of 63 n] by (simp add: sint_sbintrunc')
  then have "write_arg no_floats (CHR '','') ?spec ?a = Inr (zero_padded 9 (nat n))"
    using assms by (simp add: int_writer64_text int_text_def basic_format_specs_def handle_int_type_spec_def int_field_def
      sign_prefix_def has_fs_flag_def int_prefix_def int_digits_def zero_padded_def)
  moreover have "is_arithmetic (arg_type ?a)" by (simp add: is_arithmetic_def last_numeric_type_def)
  ultimately show ?thesis
    using vformat_zero_width [of ?a "CHR ''9''" 9 no_floats] by (simp add: format_arg_def)
qed

section \<open>The lines that a pattern describes\<close>

text \<open>A broken-down time as the library returns it for dates from 1900 on.\<close>

definition tm_ok :: "tm \<Rightarrow> bool" where
  "tm_ok t \<longleftrightarrow> 0 \<le> tm_sec t \<and> tm_sec t \<le> 60 \<and> 0 \<le> tm_min t \<and> tm_min t < 60 \<and> 0 \<le> tm_hour t \<and> tm_hour t < 24 \<and>
     1 \<le> tm_mday t \<and> tm_mday t \<le> 31 \<and> 0 \<le> tm_mon t \<and> tm_mon t < 12 \<and> 0 \<le> tm_year t \<and> tm_year t < 2 ^ 31 - 1900 \<and>
     0 \<le> tm_wday t \<and> tm_wday t < 7 \<and> \<bar>tm_gmtoff t\<bar> < 86400"

abbreviation two :: "int \<Rightarrow> string" where
  "two n \<equiv> zero_padded 2 (nat n)"

definition signed_text :: "int \<Rightarrow> string" where
  "signed_text n = (if n < 0 then ''-'' else []) @ decimal_string (nat \<bar>n\<bar>)"

text \<open>The flags that are no abbreviation of others.\<close>

definition base_flag :: "log_os \<Rightarrow> log_msg \<Rightarrow> tm \<Rightarrow> char \<Rightarrow> string" where
  "base_flag sys msg t c =
     (if c = CHR ''n'' then lm_logger_name msg
      else if c = CHR ''l'' then to_c_str (lm_level msg)
      else if c = CHR ''L'' then to_short_c_str (lm_level msg)
      else if c = CHR ''t'' then zero_padded 6 (unat (lm_thread_id msg))
      else if c = CHR ''v'' then lm_raw msg
      else if c = CHR ''a'' then days ! nat (tm_wday t)
      else if c = CHR ''A'' then full_days ! nat (tm_wday t)
      else if c = CHR ''b'' \<or> c = CHR ''h'' then months ! nat (tm_mon t)
      else if c = CHR ''B'' then full_months ! nat (tm_mon t)
      else if c = CHR ''C'' then two (tm_year t mod 100)
      else if c = CHR ''Y'' then decimal_string (nat (tm_year t + 1900))
      else if c = CHR ''m'' then two (tm_mon t + 1)
      else if c = CHR ''d'' then two (tm_mday t)
      else if c = CHR ''H'' then two (tm_hour t)
      else if c = CHR ''I'' then two (to12h t)
      else if c = CHR ''M'' then two (tm_min t)
      else if c = CHR ''S'' then two (tm_sec t)
      else if c = CHR ''e'' then zero_padded 3 (nat (lm_time msg div 1000000 mod 1000))
      else if c = CHR ''f'' then zero_padded 6 (nat (lm_time msg div 1000 mod 1000000))
      else if c = CHR ''F'' then zero_padded 9 (nat (lm_time msg mod 1000000000))
      else if c = CHR ''E'' then decimal_string (nat (lm_time msg div 1000000000))
      else if c = CHR ''p'' then (if tm_hour t < 12 then ''AM'' else ''PM'')
      else if c = CHR ''z'' then
        (if tm_gmtoff t \<le> -60 then ''-'' else ''+'') @ two (\<bar>tm_gmtoff t\<bar> div 3600) @ '':'' @ two (\<bar>tm_gmtoff t\<bar> div 60 mod 60)
      else if c = CHR ''P'' then signed_text (os_pid sys)
      else if c = CHR ''i'' then zero_padded 6 (unat (lm_msg_id msg))
      else if c = CHR ''^'' \<or> c = CHR ''$'' then []
      else [CHR ''%'', c])"

text \<open>A pattern: a percent sign and a flag stand for the text of the flag, a percent sign at the end for nothing, other characters for themselves.\<close>

fun pattern_text :: "(char \<Rightarrow> string) \<Rightarrow> string \<Rightarrow> string" where
  "pattern_text g [] = []"
| "pattern_text g (c # cs) =
     (if c = CHR ''%'' then (case cs of [] \<Rightarrow> [] | d # ds \<Rightarrow> g d @ pattern_text g ds) else c # pattern_text g cs)"

text \<open>The flags that abbreviate patterns.\<close>

definition flag_pattern :: "char \<Rightarrow> string option" where
  "flag_pattern c =
     (if c = CHR ''+'' then Some ''[%Y-%m-%d %H:%M:%S.%e] [%n] [%l] %v''
      else if c = CHR ''D'' \<or> c = CHR ''x'' then Some ''%m/%d/%C''
      else if c = CHR ''T'' \<or> c = CHR ''X'' then Some ''%H:%M:%S''
      else if c = CHR ''R'' then Some ''%H:%M''
      else if c = CHR ''r'' then Some ''%I:%M:%S %p''
      else None)"

definition flag_spec :: "log_os \<Rightarrow> log_msg \<Rightarrow> tm \<Rightarrow> char \<Rightarrow> string" where
  "flag_spec sys msg t c =
     (if c = CHR ''c''
      then pattern_text (base_flag sys msg t) ''%a %b '' @ decimal_string (nat (tm_mday t)) @
           pattern_text (base_flag sys msg t) '' %H:%M:%S %Y''
      else case flag_pattern c of Some p \<Rightarrow> pattern_text (base_flag sys msg t) p | None \<Rightarrow> base_flag sys msg t c)"

definition log_line :: "log_os \<Rightarrow> pattern_time_type \<Rightarrow> string \<Rightarrow> string \<Rightarrow> log_msg \<Rightarrow> string" where
  "log_line sys time_type pattern eol msg =
     pattern_text (flag_spec sys msg (get_time sys time_type (lm_time msg))) pattern @ eol"

text \<open>Messages of this century's clocks: after the first second of 1970, and with the library's broken-down time in range.\<close>

definition msg_ok :: "log_os \<Rightarrow> pattern_time_type \<Rightarrow> log_msg \<Rightarrow> bool" where
  "msg_ok sys time_type msg \<longleftrightarrow>
     1000000000 \<le> lm_time msg \<and> lm_time msg < 2 ^ 63 \<and> tm_ok (get_time sys time_type (lm_time msg)) \<and> \<bar>os_pid sys\<bar> < 2 ^ 31"

section \<open>The appenders\<close>

lemma sdiv_nonneg: "0 \<le> a \<Longrightarrow> 0 < b \<Longrightarrow> a sdiv b = a div b" "0 \<le> a \<Longrightarrow> 0 < b \<Longrightarrow> a smod b = a mod (b :: int)"
  by (cases "a = 0"; simp add: signed_divide_int_def signed_modulo_int_def)+

lemma to_secs_eq: "0 \<le> t \<Longrightarrow> to_secs t = t div 1000000000"
  by (simp add: to_secs_def sdiv_nonneg)

lemma time_fraction_eq:
  assumes "0 \<le> t"
  shows "time_fraction 1000000 t = t div 1000000 mod 1000" "time_fraction 1000 t = t div 1000 mod 1000000"
    "time_fraction 1 t = t mod 1000000000"
proof -
  have f: "time_fraction u t = t div u mod k" if "0 < u" "0 < k" "u * k = 1000000000" for u k :: int
  proof -
    have "1000000000 div u = k" using that by (simp flip: that(3))
    moreover have "t div 1000000000 = t div u div k" unfolding that(3) [symmetric] by (rule zdiv_zmult2_eq) (use that in simp)
    ultimately show ?thesis
      unfolding time_fraction_def to_secs_eq [OF assms] sdiv_nonneg(1) [OF assms that(1)] by (simp only: minus_div_mult_eq_mod)
  qed
  show "time_fraction 1000000 t = t div 1000000 mod 1000" "time_fraction 1000 t = t div 1000 mod 1000000"
    by (rule f; simp)+
  show "time_fraction 1 t = t mod 1000000000" using f [of 1 1000000000] by simp
qed

lemma put_simps:
  "push_back c dest = Some (dest @ [c])" "append_str s dest = Some (dest @ s)"
  by (simp_all add: push_back_def append_str_def)

lemma text_at_eq: "0 \<le> i \<Longrightarrow> i < int (length xs) \<Longrightarrow> text_at xs i = Some (xs ! nat i)"
  by (simp add: text_at_def)

lemma tm_okD:
  assumes "tm_ok t"
  shows "0 \<le> tm_sec t" "tm_sec t < 100" "0 \<le> tm_min t" "tm_min t < 100" "0 \<le> tm_hour t" "tm_hour t < 100"
    "0 \<le> tm_mday t" "tm_mday t < 100" "0 \<le> tm_mon t + 1" "tm_mon t + 1 < 100" "0 \<le> tm_year t" "tm_year t + 1900 < 2 ^ 63"
    "0 \<le> to12h t" "to12h t < 100" "0 \<le> tm_mon t" "tm_mon t < 12" "0 \<le> tm_wday t" "tm_wday t < 7"
  using assms by (auto simp: tm_ok_def to12h_def)

lemma tm_put:
  assumes "tm_ok t"
  shows "put2 (tm_sec t) dest = Some (dest @ two (tm_sec t))" "put2 (tm_min t) dest = Some (dest @ two (tm_min t))"
    "put2 (tm_hour t) dest = Some (dest @ two (tm_hour t))" "put2 (tm_mday t) dest = Some (dest @ two (tm_mday t))"
    "put2 (tm_mon t + 1) dest = Some (dest @ two (tm_mon t + 1))" "put2 (to12h t) dest = Some (dest @ two (to12h t))"
    "put2 (tm_year t smod 100) dest = Some (dest @ two (tm_year t mod 100))"
    "append_int (tm_year t + 1900) dest = Some (dest @ decimal_string (nat (tm_year t + 1900)))"
    "append_int (tm_mday t) dest = Some (dest @ decimal_string (nat (tm_mday t)))"
    "text_at days (tm_wday t) = Some (days ! nat (tm_wday t))" "text_at full_days (tm_wday t) = Some (full_days ! nat (tm_wday t))"
    "text_at months (tm_mon t) = Some (months ! nat (tm_mon t))" "text_at full_months (tm_mon t) = Some (full_months ! nat (tm_mon t))"
  using tm_okD [OF assms]
  by (simp_all add: pad2_correct append_int_correct sdiv_nonneg text_at_eq days_def full_days_def months_def full_months_def)

lemma z_format_eq:
  assumes "tm_ok t"
  shows "z_format t dest = Some (dest @ (if tm_gmtoff t \<le> -60 then ''-'' else ''+'') @ two (\<bar>tm_gmtoff t\<bar> div 3600) @ '':'' @
    two (\<bar>tm_gmtoff t\<bar> div 60 mod 60))"
proof -
  let ?g = "tm_gmtoff t" and ?o = "utc_minutes_offset t"
  let ?m = "if ?o < 0 then - ?o else ?o"
  have o: "?o = (if ?g < 0 then - (- ?g div 60) else ?g div 60)"
    by (simp add: utc_minutes_offset_def signed_divide_int_def sgn_if)
  have m: "?m = \<bar>?g\<bar> div 60" "?o < 0 \<longleftrightarrow> ?g \<le> -60"
    unfolding o by (cases "?g < 0"; simp; linarith)+
  have g: "\<bar>?g\<bar> < 86400" using assms by (simp add: tm_ok_def)
  have e: "?m sdiv 60 = \<bar>?g\<bar> div 3600" "?m smod 60 = \<bar>?g\<bar> div 60 mod 60"
    unfolding m(1) using zdiv_zmult2_eq [of 60 "\<bar>?g\<bar>" 60] by (simp_all add: sdiv_nonneg)
  have p: "put2 (\<bar>?g\<bar> div 3600) d = Some (d @ two (\<bar>?g\<bar> div 3600))" "put2 (\<bar>?g\<bar> div 60 mod 60) d = Some (d @ two (\<bar>?g\<bar> div 60 mod 60))" for d
    using g by (intro pad2_correct; linarith)+
  show ?thesis
    unfolding z_format_def Let_def m(2) e [unfolded m(2)] put_simps bind.simps p by (cases "?g \<le> - 60") (simp_all only: if_True if_False append_assoc append.simps)
qed

lemma time_put:
  assumes "msg_ok sys tt msg"
  shows "put3 (time_fraction 1000000 (lm_time msg)) dest = Some (dest @ zero_padded 3 (nat (lm_time msg div 1000000 mod 1000)))"
    "f_format msg dest = Some (dest @ zero_padded 6 (nat (lm_time msg div 1000 mod 1000000)))"
    "F_format msg dest = Some (dest @ zero_padded 9 (nat (lm_time msg mod 1000000000)))"
    "E_format msg dest = Some (dest @ decimal_string (nat (lm_time msg div 1000000000)))"
proof -
  let ?t = "lm_time msg"
  have t: "0 \<le> ?t" "?t < 2 ^ 63" using assms by (simp_all add: msg_ok_def)
  note f = time_fraction_eq [OF t(1)]
  show "put3 (time_fraction 1000000 ?t) dest = Some (dest @ zero_padded 3 (nat (?t div 1000000 mod 1000)))"
    unfolding f by (rule pad3_correct) simp_all
  have "unat (of_int k :: size_t) = nat k" if "0 \<le> k" "k < 1000000" for k
    using that by (simp add: unat_eq_nat_uint uint_word_of_int)
  then show "f_format msg dest = Some (dest @ zero_padded 6 (nat (?t div 1000 mod 1000000)))"
    unfolding f_format_def f pad6_correct by simp
  show "F_format msg dest = Some (dest @ zero_padded 9 (nat (?t mod 1000000000)))"
    unfolding F_format_def f using format_nanos [of "?t mod 1000000000"] by (simp add: put_simps)
  have "0 \<le> ?t div 1000000000" "?t div 1000000000 < 2 ^ 63" using t by linarith+
  then show "E_format msg dest = Some (dest @ decimal_string (nat (?t div 1000000000)))"
    using t by (simp add: E_format_def to_secs_eq append_int_correct not_less)
qed

section \<open>Flags\<close>

text \<open>What a flag appends, through the letter it stands for.\<close>

fun flag_letter :: "flag_formatter \<Rightarrow> char" where
  "flag_letter name_formatter = CHR ''n''" | "flag_letter level_formatter = CHR ''l''" | "flag_letter short_level_formatter = CHR ''L''"
| "flag_letter a_formatter = CHR ''a''" | "flag_letter A_formatter = CHR ''A''" | "flag_letter b_formatter = CHR ''b''"
| "flag_letter B_formatter = CHR ''B''" | "flag_letter c_formatter = CHR ''c''" | "flag_letter C_formatter = CHR ''C''"
| "flag_letter D_formatter = CHR ''D''" | "flag_letter Y_formatter = CHR ''Y''" | "flag_letter m_formatter = CHR ''m''"
| "flag_letter d_formatter = CHR ''d''" | "flag_letter H_formatter = CHR ''H''" | "flag_letter I_formatter = CHR ''I''"
| "flag_letter M_formatter = CHR ''M''" | "flag_letter S_formatter = CHR ''S''" | "flag_letter e_formatter = CHR ''e''"
| "flag_letter f_formatter = CHR ''f''" | "flag_letter F_formatter = CHR ''F''" | "flag_letter E_formatter = CHR ''E''"
| "flag_letter p_formatter = CHR ''p''" | "flag_letter r_formatter = CHR ''r''" | "flag_letter R_formatter = CHR ''R''"
| "flag_letter T_formatter = CHR ''T''" | "flag_letter z_formatter = CHR ''z''" | "flag_letter t_formatter = CHR ''t''"
| "flag_letter pid_formatter = CHR ''P''" | "flag_letter i_formatter = CHR ''i''" | "flag_letter v_formatter = CHR ''v''"
| "flag_letter color_start_formatter = CHR ''^''" | "flag_letter color_stop_formatter = CHR ''$''"
| "flag_letter (full_formatter stamp cached) = CHR ''+''"
| "flag_letter (ch_formatter c) = c" | "flag_letter (aggregate_formatter s) = CHR ''%''"

fun flag_out :: "log_os \<Rightarrow> log_msg \<Rightarrow> tm \<Rightarrow> flag_formatter \<Rightarrow> string" where
  "flag_out sys msg t (ch_formatter c) = [c]"
| "flag_out sys msg t (aggregate_formatter s) = s"
| "flag_out sys msg t f = flag_spec sys msg t (flag_letter f)"

lemmas time_formats = a_format_def A_format_def b_format_def B_format_def T_format_def c_format_def C_format_def D_format_def
  Y_format_def e_format_def r_format_def R_format_def datetime_format_def

lemmas flag_specs = flag_spec_def flag_pattern_def base_flag_def

lemma handle_flag_out: "concat (map (flag_out sys msg t) (handle_flag c)) = flag_spec sys msg t c"
  unfolding handle_flag_def by (simp add: flag_specs)

text \<open>The cache of \<^verbatim>\<open>full_formatter\<close> holds the text of the second it is stamped with.\<close>

fun is_full :: "flag_formatter \<Rightarrow> bool" where
  "is_full (full_formatter stamp cached) = True"
| "is_full _ = False"

lemma flag_text_out:
  assumes "msg_ok sys tt msg" "t = get_time sys tt (lm_time msg)" "\<not> is_full f"
  shows "flag_text sys f msg t dest = Some (dest @ flag_out sys msg t f)"
proof -
  have t: "tm_ok t" "append_int (os_pid sys) dest = Some (dest @ signed_text (os_pid sys))"
    using assms(1,2) by (auto simp: msg_ok_def append_int_correct signed_text_def)
  note time_put [OF assms(1)] tm_put [OF t(1)] z_format_eq [OF t(1)]
  with assms(3) t(2) show ?thesis
    by (cases f) (simp_all add: time_formats flag_specs put_simps pad6_correct ampm_def not_le)
qed

end
