(* ===== verification/Spd_Formatter.thy ===== *)
theory Spd_Formatter
  imports Spd_Lines
begin

text \<open>
  The formatter as a whole: its caches do not show in the lines, which are those of \<open>Spd_Lines\<close>. Sinks rely on it through the interface
  \<open>line_formatter\<close> (\<^verbatim>\<open>formatter.h\<close>).
\<close>

section \<open>Caches\<close>

lemma flag_out_color [simp]:
  "flag_out sys (msg\<lparr>lm_color_range_start := a\<rparr>) = flag_out sys msg" "flag_out sys (msg\<lparr>lm_color_range_end := a\<rparr>) = flag_out sys msg"
proof -
  have b: "base_flag sys (msg\<lparr>lm_color_range_start := a\<rparr>) = base_flag sys msg" "base_flag sys (msg\<lparr>lm_color_range_end := a\<rparr>) = base_flag sys msg"
    by (intro ext, simp add: base_flag_def)+
  then have "flag_spec sys (msg\<lparr>lm_color_range_start := a\<rparr>) = flag_spec sys msg" "flag_spec sys (msg\<lparr>lm_color_range_end := a\<rparr>) = flag_spec sys msg"
    by (intro ext, simp only: flag_spec_def b)+
  then have "flag_out sys (msg\<lparr>lm_color_range_start := a\<rparr>) t f = flag_out sys msg t f" "flag_out sys (msg\<lparr>lm_color_range_end := a\<rparr>) t f = flag_out sys msg t f" for t f
    by (cases f; simp)+
  then show "flag_out sys (msg\<lparr>lm_color_range_start := a\<rparr>) = flag_out sys msg" "flag_out sys (msg\<lparr>lm_color_range_end := a\<rparr>) = flag_out sys msg"
    by (intro ext; simp)+
qed

definition datetime_text :: "tm \<Rightarrow> string" where
  "datetime_text t = ''['' @ decimal_string (nat (tm_year t + 1900)) @ ''-'' @ two (tm_mon t + 1) @ ''-'' @ two (tm_mday t) @ '' '' @
     two (tm_hour t) @ '':'' @ two (tm_min t) @ '':'' @ two (tm_sec t) @ ''.''"

lemma datetime_format_eq: "tm_ok t \<Longrightarrow> datetime_format t [] = Some (datetime_text t)"
  by (simp add: datetime_format_def datetime_text_def put_simps tm_put)

definition time_at :: "log_os \<Rightarrow> pattern_time_type \<Rightarrow> int \<Rightarrow> tm" where
  "time_at sys tt s = get_time sys tt (s * 1000000000)"

lemma get_time_eq: "0 \<le> n \<Longrightarrow> get_time sys tt n = time_at sys tt (to_secs n)"
  by (cases tt) (simp_all add: get_time_def time_at_def to_secs_eq)

definition cache_ok :: "log_os \<Rightarrow> pattern_time_type \<Rightarrow> flag_formatter \<Rightarrow> flag_formatter \<Rightarrow> bool" where
  "cache_ok sys tt g f \<longleftrightarrow>
     (case f of full_formatter stamp cached \<Rightarrow> is_full g \<and> (cached \<noteq> [] \<longrightarrow> cached = datetime_text (time_at sys tt stamp)) | _ \<Rightarrow> g = f)"

lemma full_format_out:
  assumes "msg_ok sys tt msg" "t = get_time sys tt (lm_time msg)" "cached \<noteq> [] \<longrightarrow> cached = datetime_text (time_at sys tt stamp)"
  shows "\<exists>stamp' cached' a b. full_format stamp cached msg t dest =
      Some (stamp', cached', msg\<lparr>lm_color_range_start := a, lm_color_range_end := b\<rparr>, dest @ flag_spec sys msg t (CHR ''+'')) \<and>
      (cached' \<noteq> [] \<longrightarrow> cached' = datetime_text (time_at sys tt stamp'))"
proof -
  let ?s = "to_secs (lm_time msg)"
  have t: "t = time_at sys tt ?s" "tm_ok t" using assms(1,2) get_time_eq [of "lm_time msg" sys tt] by (auto simp: msg_ok_def)
  have c: "(if stamp \<noteq> ?s \<or> cached = [] then datetime_format t [] \<bind> (\<lambda>s. Some (?s, s)) else Some (stamp, cached)) =
      Some (?s, datetime_text t)"
    using assms(3) t by (auto simp: datetime_format_eq)
  have s: "flag_spec sys msg t (CHR ''+'') = datetime_text t @ zero_padded 3 (nat (lm_time msg div 1000000 mod 1000)) @ ''] ['' @
      lm_logger_name msg @ ''] ['' @ to_c_str (lm_level msg) @ ''] '' @ lm_raw msg"
    by (simp add: flag_specs datetime_text_def)
  show ?thesis
    unfolding full_format_def Let_def c s
    by (simp only: bind.simps prod.case time_put(1) [OF assms(1)] put_simps) (auto simp: t(1))
qed

lemma flag_format_out:
  assumes "msg_ok sys tt msg" "t = get_time sys tt (lm_time msg)" "cache_ok sys tt g f"
  shows "\<exists>f' a b. flag_format sys f msg t dest =
      Some (f', msg\<lparr>lm_color_range_start := a, lm_color_range_end := b\<rparr>, dest @ flag_out sys msg t g) \<and> cache_ok sys tt g f'"
proof (cases "is_full f")
  case True
  then obtain stamp cached where f: "f = full_formatter stamp cached" by (cases f) auto
  then have g: "is_full g" "cached \<noteq> [] \<longrightarrow> cached = datetime_text (time_at sys tt stamp)" using assms(3) by (simp_all add: cache_ok_def)
  have "flag_out sys msg t g = flag_spec sys msg t (CHR ''+'')" using g(1) by (cases g) simp_all
  with full_format_out [OF assms(1,2) g(2), of dest] f g(1) show ?thesis
    by (fastforce simp: flag_format_def cache_ok_def)
next
  case False
  have g: "g = f" using False assms(3) by (cases f) (simp_all add: cache_ok_def)
  have plain: "flag_format sys f msg t dest = Some (f, msg, dest @ flag_out sys msg t f)"
    if "f \<noteq> color_start_formatter" "f \<noteq> color_stop_formatter"
    using flag_text_out [OF assms(1,2) False, of dest] False that by (cases f) (simp_all add: flag_format_def)
  have colour: "flag_out sys msg t color_start_formatter = []" "flag_out sys msg t color_stop_formatter = []"
    by (simp_all add: flag_specs)
  have "\<exists>a b. flag_format sys f msg t dest = Some (f, msg\<lparr>lm_color_range_start := a, lm_color_range_end := b\<rparr>, dest @ flag_out sys msg t f)"
  proof -
    consider "f = color_start_formatter" | "f = color_stop_formatter" | "f \<noteq> color_start_formatter" "f \<noteq> color_stop_formatter" by blast
    then show ?thesis
    proof cases
      case 1
      with colour show ?thesis
        by (intro exI [of _ "length dest"] exI [of _ "lm_color_range_end msg"]) (simp add: flag_format_def)
    next
      case 2
      with colour show ?thesis
        by (intro exI [of _ "lm_color_range_start msg"] exI [of _ "length dest"]) (simp add: flag_format_def)
    next
      case 3
      with plain show ?thesis
        by (intro exI [of _ "lm_color_range_start msg"] exI [of _ "lm_color_range_end msg"]) simp
    qed
  qed
  with g assms(3) show ?thesis by blast
qed

lemma msg_ok_color [simp]: "msg_ok sys tt (msg\<lparr>lm_color_range_start := a, lm_color_range_end := b\<rparr>) = msg_ok sys tt msg"
  by (simp add: msg_ok_def)

lemma format_flags_out:
  assumes "list_all2 (cache_ok sys tt) gs fs" "msg_ok sys tt msg" "t = get_time sys tt (lm_time msg)"
  shows "\<exists>fs' a b. format_flags sys fs msg t dest =
      Some (fs', msg\<lparr>lm_color_range_start := a, lm_color_range_end := b\<rparr>, dest @ concat (map (flag_out sys msg t) gs)) \<and>
      list_all2 (cache_ok sys tt) gs fs'"
  using assms
proof (induction gs fs arbitrary: msg dest rule: list_all2_induct)
  case Nil
  then show ?case
    by (intro exI [of _ "[]"] exI [of _ "lm_color_range_start msg"] exI [of _ "lm_color_range_end msg"]) simp
next
  case (Cons g gs f fs)
  obtain f' a b where f: "flag_format sys f msg t dest =
      Some (f', msg\<lparr>lm_color_range_start := a, lm_color_range_end := b\<rparr>, dest @ flag_out sys msg t g)" "cache_ok sys tt g f'"
    using flag_format_out [OF Cons.prems Cons.hyps(1)] by blast
  let ?msg = "msg\<lparr>lm_color_range_start := a, lm_color_range_end := b\<rparr>"
  have "msg_ok sys tt ?msg" "t = get_time sys tt (lm_time ?msg)" using Cons.prems by simp_all
  from Cons.IH [OF this, of "dest @ flag_out sys msg t g"] obtain fs' a' b' where
    "format_flags sys fs ?msg t (dest @ flag_out sys msg t g) =
      Some (fs', msg\<lparr>lm_color_range_start := a', lm_color_range_end := b'\<rparr>,
        (dest @ flag_out sys msg t g) @ concat (map (flag_out sys msg t) gs))" "list_all2 (cache_ok sys tt) gs fs'"
    by auto
  with f show ?case by (intro exI [of _ "f' # fs'"] exI [of _ a'] exI [of _ b']) simp
qed

section \<open>The formatter\<close>

lemma compile_loop_out:
  "concat (map (flag_out sys msg t) (compile_loop u cs)) = (case u of None \<Rightarrow> [] | Some s \<Rightarrow> s) @ pattern_text (flag_spec sys msg t) cs"
proof (induction u cs rule: compile_loop.induct)
  case (1 u)
  then show ?case by (simp add: flush_user_chars_def split: option.splits)
next
  case (2 u c cs)
  have u: "concat (map (flag_out sys msg t) (flush_user_chars u)) = (case u of None \<Rightarrow> [] | Some s \<Rightarrow> s)"
    by (simp add: flush_user_chars_def split: option.splits)
  with 2 handle_flag_out [of sys msg t] show ?case by (cases cs) (auto split: option.splits)
qed

lemma compiled_caches: "list_all2 (cache_ok sys tt) (compile_loop u cs) (compile_loop u cs)"
proof -
  have "cache_ok sys tt f f" if "f \<in> set (handle_flag c)" for f c
    using that by (cases f) (auto simp: cache_ok_def handle_flag_def split: if_splits)
  then have "\<forall>f \<in> set (compile_loop u cs). cache_ok sys tt f f"
    by (induction u cs rule: compile_loop.induct) (auto simp: flush_user_chars_def cache_ok_def split: option.splits list.splits)
  then show ?thesis by (simp add: list.rel_refl_strong)
qed

definition pf_ok :: "log_os \<Rightarrow> pattern_time_type \<Rightarrow> string \<Rightarrow> string \<Rightarrow> pattern_formatter \<Rightarrow> bool" where
  "pf_ok sys tt pattern eol pf \<longleftrightarrow>
     pf_pattern pf = pattern \<and> pf_eol pf = eol \<and> pf_time_type pf = tt \<and>
     (pf_last_log_secs pf \<noteq> 0 \<longrightarrow> pf_cached_tm pf = time_at sys tt (pf_last_log_secs pf)) \<and>
     list_all2 (cache_ok sys tt) (compile_pattern pattern) (pf_formatters pf)"

lemma mk_pattern_formatter_ok: "pf_ok sys tt pattern eol (mk_pattern_formatter pattern tt eol)"
  by (simp add: pf_ok_def mk_pattern_formatter_def compile_pattern_def compiled_caches)

lemma pf_clone_ok: "pf_ok sys tt pattern eol pf \<Longrightarrow> pf_ok sys tt pattern eol (pf_clone pf)"
  using mk_pattern_formatter_ok by (simp add: pf_ok_def pf_clone_def)

lemma pf_format_line:
  assumes "pf_ok sys tt pattern eol pf" "msg_ok sys tt msg"
  shows "\<exists>pf' a b. pf_format sys pf msg dest =
      Some (pf', msg\<lparr>lm_color_range_start := a, lm_color_range_end := b\<rparr>, dest @ log_line sys tt pattern eol msg) \<and>
    pf_ok sys tt pattern eol pf'"
proof -
  let ?t = "get_time sys tt (lm_time msg)" and ?secs = "to_secs (lm_time msg)"
  define pf1 where "pf1 = (if ?secs \<noteq> pf_last_log_secs pf
    then pf\<lparr>pf_cached_tm := get_time sys (pf_time_type pf) (lm_time msg), pf_last_log_secs := ?secs\<rparr> else pf)"
  have time: "?t = time_at sys tt ?secs" "?secs \<noteq> 0"
    using assms(2) get_time_eq [of "lm_time msg"] by (auto simp: msg_ok_def to_secs_eq)
  have pf1: "pf_ok sys tt pattern eol pf1" "pf_cached_tm pf1 = ?t" "pf_eol pf1 = eol"
    using assms(1) time by (auto simp: pf1_def pf_ok_def)
  obtain fs' a b where "format_flags sys (pf_formatters pf1) msg ?t dest =
      Some (fs', msg\<lparr>lm_color_range_start := a, lm_color_range_end := b\<rparr>, dest @ concat (map (flag_out sys msg ?t) (compile_pattern pattern)))"
      "list_all2 (cache_ok sys tt) (compile_pattern pattern) fs'"
    using format_flags_out [OF _ assms(2) refl] pf1(1) unfolding pf_ok_def by blast
  moreover have "concat (map (flag_out sys msg ?t) (compile_pattern pattern)) = pattern_text (flag_spec sys msg ?t) pattern"
    by (simp add: compile_pattern_def compile_loop_out)
  ultimately show ?thesis
    using pf1 unfolding pf_format_def Let_def pf1_def [symmetric] pf_ok_def log_line_def
    by (simp add: append_str_def) blast
qed

section \<open>The interface of formatters\<close>

fun format_all ::
  "('f \<Rightarrow> log_msg \<Rightarrow> string \<Rightarrow> ('f \<times> log_msg \<times> string) option) \<Rightarrow> 'f \<Rightarrow> log_msg list \<Rightarrow> string list option" where
  "format_all fmt f [] = Some []"
| "format_all fmt f (m # ms) = do {
     (f, _, s) \<leftarrow> fmt f m [];
     ss \<leftarrow> format_all fmt f ms;
     Some (s # ss) }"

text \<open>A formatter in a state \<open>ok\<close> appends the line of every message that is \<open>good\<close>; of the message it only changes the ranges.\<close>

locale line_formatter =
  fixes fmt :: "'f \<Rightarrow> log_msg \<Rightarrow> string \<Rightarrow> ('f \<times> log_msg \<times> string) option"
    and ok :: "'f \<Rightarrow> bool" and good :: "log_msg \<Rightarrow> bool" and line :: "log_msg \<Rightarrow> string"
  assumes format: "ok f \<Longrightarrow> good m \<Longrightarrow>
      \<exists>f' a b. fmt f m dest = Some (f', m\<lparr>lm_color_range_start := a, lm_color_range_end := b\<rparr>, dest @ line m) \<and> ok f'"
    and good_color: "good (m\<lparr>lm_color_range_start := a, lm_color_range_end := b\<rparr>) = good m"
    and line_color: "line (m\<lparr>lm_color_range_start := a, lm_color_range_end := b\<rparr>) = line m"
begin

lemma format_all_lines: "ok f \<Longrightarrow> list_all good ms \<Longrightarrow> format_all fmt f ms = Some (map line ms)"
proof (induction ms arbitrary: f)
  case (Cons m ms)
  obtain f' a b where "fmt f m [] = Some (f', m\<lparr>lm_color_range_start := a, lm_color_range_end := b\<rparr>, line m)" "ok f'"
    using format [of f m "[]"] Cons.prems by auto
  with Cons show ?case by simp
qed simp

end

lemma log_line_color: "log_line sys tt pattern eol (m\<lparr>lm_color_range_start := a, lm_color_range_end := b\<rparr>) = log_line sys tt pattern eol m"
proof -
  have "base_flag sys (m\<lparr>lm_color_range_start := a, lm_color_range_end := b\<rparr>) = base_flag sys m"
    by (intro ext) (simp add: base_flag_def)
  then have "flag_spec sys (m\<lparr>lm_color_range_start := a, lm_color_range_end := b\<rparr>) = flag_spec sys m"
    by (intro ext) (simp only: flag_spec_def)
  then show ?thesis by (simp add: log_line_def)
qed

interpretation pf: line_formatter "pf_format sys" "pf_ok sys tt pattern eol" "msg_ok sys tt" "log_line sys tt pattern eol"
  for sys tt pattern eol
  by unfold_locales (rule pf_format_line, assumption+, simp_all add: log_line_color)

section \<open>Properties\<close>


definition demo_os :: log_os where
  "demo_os =
     \<lparr>os_localtime = (\<lambda>s. \<lparr>tm_sec = s mod 60, tm_min = s div 60 mod 60, tm_hour = s div 3600 mod 24, tm_mday = 1 + s div 86400 mod 28,
        tm_mon = 0, tm_year = 70, tm_wday = (4 + s div 86400) mod 7, tm_gmtoff = 0\<rparr>),
      os_gmtime = (\<lambda>s. zero_tm), os_pid = 77\<rparr>"

definition demo_msg :: "int \<Rightarrow> string \<Rightarrow> log_msg" where
  "demo_msg t text = \<lparr>lm_logger_name = ''basic_logger'', lm_level = L_warn, lm_time = t, lm_thread_id = 42, lm_raw = text, lm_msg_id = 0,
     lm_color_range_start = 0, lm_color_range_end = 0\<rparr>"

lemma demo_msg_ok: "1000000000 \<le> t \<Longrightarrow> t < 2 ^ 63 \<Longrightarrow> msg_ok demo_os Time_local (demo_msg t text)"
  by (simp add: msg_ok_def demo_msg_def demo_os_def get_time_def tm_ok_def) (safe; linarith)


text \<open>The first second of the clock: the cached time is taken although it has never been set.\<close>

lemma first_second_unset:
  "map_option (snd \<circ> snd) (pf_format demo_os (mk_pattern_formatter ''%d'' Time_local []) (demo_msg 5 []) []) = Some ''00''"
  by code_simp

text \<open>Midnight on the clock of twelve hours is hour 0, not 12.\<close>

lemma midnight_is_zero: "flag_text demo_os r_formatter msg (zero_tm\<lparr>tm_mday := 1\<rparr>) [] = Some ''00:00:00 AM''"
  by (simp add: r_format_def to12h_def zero_tm_def ampm_def put_simps pad2_def)

end
