(* ===== verification/Spd_Sinks.thy ===== *)
theory Spd_Sinks
  imports Spd_Formatter
begin

text \<open>
  Log files: \<^verbatim>\<open>file_helper.h\<close> and the sinks \<^verbatim>\<open>basic_file_sink\<close>, \<^verbatim>\<open>rotating_file_sink\<close> and \<^verbatim>\<open>daily_file_sink\<close> on top of \<^verbatim>\<open>base_sink\<close>. The file system maps
  names to contents, what the C library still buffers included. Calls that may fail take their outcome from a list of faults, so
  that statements about all faults cover every failure. Exceptions (\<^verbatim>\<open>spdlog_ex\<close>) are their texts without the part that describes
  \<^verbatim>\<open>errno\<close>; the result \<open>None\<close> of an operation is undefined behaviour, here a write to a null stream.
\<close>

section \<open>The file system\<close>

record file_sys =
  fs_files :: "string \<rightharpoonup> string"
  fs_faults :: "nat option list"

text \<open>The outcome of the next call: success, or a failure, of a write after so many bytes.\<close>

definition next_outcome :: "file_sys \<Rightarrow> nat option \<times> file_sys" where
  "next_outcome fs = (case fs_faults fs of [] \<Rightarrow> (None, fs) | x # xs \<Rightarrow> (x, fs\<lparr>fs_faults := xs\<rparr>))"

definition sys_fopen :: "string \<Rightarrow> bool \<Rightarrow> file_sys \<Rightarrow> bool \<times> file_sys" where
  "sys_fopen name trunc fs =
     (let (x, fs) = next_outcome fs in
      if x \<noteq> None then (False, fs)
      else (True, fs\<lparr>fs_files := (fs_files fs)(name \<mapsto>
        (if trunc then [] else case fs_files fs name of None \<Rightarrow> [] | Some c \<Rightarrow> c))\<rparr>))"

definition sys_fwrite :: "string \<Rightarrow> string \<Rightarrow> file_sys \<Rightarrow> nat \<times> file_sys" where
  "sys_fwrite name data fs =
     (let (x, fs) = next_outcome fs;
          n = (case x of None \<Rightarrow> length data | Some k \<Rightarrow> min k (length data));
          old = (case fs_files fs name of None \<Rightarrow> [] | Some c \<Rightarrow> c)
      in (n, fs\<lparr>fs_files := (fs_files fs)(name \<mapsto> old @ take n data)\<rparr>))"

definition sys_exists :: "string \<Rightarrow> file_sys \<Rightarrow> bool" where
  "sys_exists name fs \<longleftrightarrow> fs_files fs name \<noteq> None"

definition sys_remove :: "string \<Rightarrow> file_sys \<Rightarrow> bool \<times> file_sys" where
  "sys_remove name fs =
     (let (x, fs) = next_outcome fs in
      if x \<noteq> None \<or> fs_files fs name = None then (False, fs) else (True, fs\<lparr>fs_files := (fs_files fs)(name := None)\<rparr>))"

definition sys_rename :: "string \<Rightarrow> string \<Rightarrow> file_sys \<Rightarrow> bool \<times> file_sys" where
  "sys_rename src target fs =
     (let (x, fs) = next_outcome fs in
      if x \<noteq> None \<or> fs_files fs src = None then (False, fs)
      else (True, fs\<lparr>fs_files := (fs_files fs)(src := None, target := fs_files fs src)\<rparr>))"

section \<open>File names\<close>

text \<open>\<^verbatim>\<open>std::string::rfind\<close>.\<close>

definition rfind :: "char \<Rightarrow> string \<Rightarrow> nat option" where
  "rfind c s = (case filter (\<lambda>i. s ! i = c) [0..<length s] of [] \<Rightarrow> None | js \<Rightarrow> Some (last js))"

definition folder_sep :: char where "folder_sep = CHR ''/''"

definition split_by_extenstion :: "string \<Rightarrow> string \<times> string" where
  "split_by_extenstion fname =
     (case rfind (CHR ''.'') fname of
        None \<Rightarrow> (fname, [])
      | Some ext_index \<Rightarrow>
          if ext_index = 0 \<or> ext_index = length fname - 1 then (fname, [])
          else
            (case rfind folder_sep fname of
               Some folder_index \<Rightarrow>
                 if folder_index \<ge> ext_index - 1 then (fname, []) else (take ext_index fname, drop ext_index fname)
             | None \<Rightarrow> (take ext_index fname, drop ext_index fname)))"

text \<open>\<^verbatim>\<open>fmt::format_to\<close> with arguments that are texts and integers.\<close>

definition format_text :: "string \<Rightarrow> (unit, unit) fmt_arg list \<Rightarrow> string" where
  "format_text fmt as =
     (case vformat_to no_floats (CHR '','') (\<lambda>_ _ _ _. Inr (0, 0, [])) fmt as of Some (Inr t) \<Rightarrow> t | _ \<Rightarrow> [])"

definition calc_filename :: "string \<Rightarrow> size_t \<Rightarrow> string" where
  "calc_filename filename index =
     (if index \<noteq> 0
      then (let (basename, ext) = split_by_extenstion filename
            in format_text ''{}.{}{}'' [String_arg basename, Ulong_long_arg index, String_arg ext])
      else format_text ''{}'' [String_arg filename])"

definition daily_filename :: "string \<Rightarrow> tm \<Rightarrow> string" where
  "daily_filename filename t =
     (let (basename, ext) = split_by_extenstion filename
      in format_text ''{}_{:04d}-{:02d}-{:02d}{}''
           [String_arg basename, Int_arg (of_int (tm_year t + 1900)), Int_arg (of_int (tm_mon t + 1)), Int_arg (of_int (tm_mday t)),
            String_arg ext])"

section \<open>file\_helper\<close>

record file_helper =
  fh_fd :: "string option"
  fh_filename :: string

definition open_tries :: nat where "open_tries = 5"

definition mk_file_helper :: file_helper where
  "mk_file_helper = \<lparr>fh_fd = None, fh_filename = []\<rparr>"

definition fh_close :: "file_helper \<Rightarrow> file_helper" where
  "fh_close h = h\<lparr>fh_fd := None\<rparr>"

fun open_loop :: "nat \<Rightarrow> string \<Rightarrow> bool \<Rightarrow> file_helper \<Rightarrow> file_sys \<Rightarrow> string option \<times> file_helper \<times> file_sys" where
  "open_loop 0 fname trunc h fs = (Some (''Failed opening file '' @ fname @ '' for writing''), h, fs)"
| "open_loop (Suc tries) fname trunc h fs =
     (case sys_fopen fname trunc fs of
        (True, fs) \<Rightarrow> (None, h\<lparr>fh_fd := Some fname\<rparr>, fs)
      | (False, fs) \<Rightarrow> open_loop tries fname trunc h fs)"

definition fh_open :: "string \<Rightarrow> bool \<Rightarrow> file_helper \<Rightarrow> file_sys \<Rightarrow> string option \<times> file_helper \<times> file_sys" where
  "fh_open fname trunc h fs = open_loop open_tries fname trunc ((fh_close h)\<lparr>fh_filename := fname\<rparr>) fs"

definition fh_reopen :: "bool \<Rightarrow> file_helper \<Rightarrow> file_sys \<Rightarrow> string option \<times> file_helper \<times> file_sys" where
  "fh_reopen trunc h fs =
     (if fh_filename h = [] then (Some ''Failed re opening file - was not opened before'', h, fs)
      else fh_open (fh_filename h) trunc h fs)"

definition fh_write :: "string \<Rightarrow> file_helper \<Rightarrow> file_sys \<Rightarrow> (string option \<times> file_sys) option" where
  "fh_write buf h fs =
     (case fh_fd h of
        None \<Rightarrow> None
      | Some name \<Rightarrow>
          (let (n, fs) = sys_fwrite name buf fs
           in Some (if n \<noteq> length buf then Some (''Failed writing to file '' @ fh_filename h) else None, fs)))"

definition fh_size :: "file_helper \<Rightarrow> file_sys \<Rightarrow> string + size_t" where
  "fh_size h fs =
     (case fh_fd h of
        None \<Rightarrow> Inl (''Cannot use size() on closed file '' @ fh_filename h)
      | Some name \<Rightarrow> Inr (of_nat (length (case fs_files fs name of None \<Rightarrow> [] | Some c \<Rightarrow> c))))"

section \<open>Sinks\<close>

text \<open>\<^verbatim>\<open>sink\<close> and \<^verbatim>\<open>base_sink\<close>; the mutex makes every operation one step.\<close>

record log_sink =
  sk_level :: level_enum
  sk_formatter :: pattern_formatter

definition sk_should_log :: "level_enum \<Rightarrow> 'x log_sink_scheme \<Rightarrow> bool" where
  "sk_should_log l s \<longleftrightarrow> level_number l \<ge> level_number (sk_level s)"

definition sk_set_level :: "level_enum \<Rightarrow> 'x log_sink_scheme \<Rightarrow> 'x log_sink_scheme" where
  "sk_set_level l s = s\<lparr>sk_level := l\<rparr>"

definition default_eol :: string where "default_eol = [CHR 0x0A]"

definition sk_set_formatter :: "pattern_formatter \<Rightarrow> 'x log_sink_scheme \<Rightarrow> 'x log_sink_scheme" where
  "sk_set_formatter f s = s\<lparr>sk_formatter := f\<rparr>"

definition sk_set_pattern :: "string \<Rightarrow> 'x log_sink_scheme \<Rightarrow> 'x log_sink_scheme" where
  "sk_set_pattern pattern s = sk_set_formatter (mk_pattern_formatter pattern Time_local default_eol) s"

definition default_formatter :: pattern_formatter where
  "default_formatter = mk_pattern_formatter ''%+'' Time_local default_eol"

type_synonym 's sink_result = "(string option \<times> 's \<times> log_msg \<times> file_sys) option"

text \<open>\<^verbatim>\<open>basic_file_sink\<close>.\<close>

record basic_file_sink = log_sink +
  bs_file :: file_helper

definition mk_basic_file_sink :: "string \<Rightarrow> bool \<Rightarrow> file_sys \<Rightarrow> (string + basic_file_sink) \<times> file_sys" where
  "mk_basic_file_sink filename trunc fs =
     (case fh_open filename trunc mk_file_helper fs of
        (Some e, h, fs) \<Rightarrow> (Inl e, fs)
      | (None, h, fs) \<Rightarrow> (Inr \<lparr>sk_level = L_trace, sk_formatter = default_formatter, bs_file = h\<rparr>, fs))"

definition basic_sink_it :: "log_os \<Rightarrow> log_msg \<Rightarrow> basic_file_sink \<Rightarrow> file_sys \<Rightarrow> basic_file_sink sink_result" where
  "basic_sink_it sys msg s fs = do {
     (f, msg, formatted) \<leftarrow> pf_format sys (sk_formatter s) msg [];
     let s = s\<lparr>sk_formatter := f\<rparr>;
     (ex, fs) \<leftarrow> fh_write formatted (bs_file s) fs;
     Some (ex, s, msg, fs) }"

text \<open>\<^verbatim>\<open>rotating_file_sink\<close>.\<close>

record rotating_file_sink = log_sink +
  rs_base_filename :: string
  rs_max_size :: size_t
  rs_max_files :: size_t
  rs_current_size :: size_t
  rs_file :: file_helper

definition mk_rotating_file_sink :: "string \<Rightarrow> size_t \<Rightarrow> size_t \<Rightarrow> file_sys \<Rightarrow> (string + rotating_file_sink) \<times> file_sys" where
  "mk_rotating_file_sink base max_size max_files fs =
     (case fh_open (calc_filename base 0) False mk_file_helper fs of
        (Some e, h, fs) \<Rightarrow> (Inl e, fs)
      | (None, h, fs) \<Rightarrow>
          (case fh_size h fs of
             Inl e \<Rightarrow> (Inl e, fs)
           | Inr n \<Rightarrow> (Inr \<lparr>sk_level = L_trace, sk_formatter = default_formatter, rs_base_filename = base, rs_max_size = max_size,
                            rs_max_files = max_files, rs_current_size = n, rs_file = h\<rparr>, fs)))"

definition remove_target :: "string \<Rightarrow> file_sys \<Rightarrow> string option \<times> file_sys" where
  "remove_target target fs =
     (if sys_exists target fs
      then (case sys_remove target fs of
              (True, fs) \<Rightarrow> (None, fs) | (False, fs) \<Rightarrow> (Some (''rotating_file_sink: failed removing '' @ target), fs))
      else (None, fs))"

definition move_source :: "string \<Rightarrow> string \<Rightarrow> file_sys \<Rightarrow> string option \<times> file_sys" where
  "move_source src target fs =
     (if sys_exists src fs
      then (case sys_rename src target fs of
              (True, fs) \<Rightarrow> (None, fs)
            | (False, fs) \<Rightarrow>
                (case sys_rename src target (snd (sys_remove target fs)) of
                   (True, fs) \<Rightarrow> (None, fs)
                 | (False, fs) \<Rightarrow> (Some (''rotating_file_sink: failed renaming '' @ src @ '' to '' @ target), fs)))
      else (None, fs))"

fun rotate_loop :: "string \<Rightarrow> nat \<Rightarrow> file_sys \<Rightarrow> string option \<times> file_sys" where
  "rotate_loop base 0 fs = (None, fs)"
| "rotate_loop base (Suc i) fs =
     (let src = calc_filename base (of_nat i); target = calc_filename base (of_nat (Suc i))
      in case remove_target target fs of
           (Some e, fs) \<Rightarrow> (Some e, fs)
         | (None, fs) \<Rightarrow>
             (case move_source src target fs of (Some e, fs) \<Rightarrow> (Some e, fs) | (None, fs) \<Rightarrow> rotate_loop base i fs))"

definition rs_rotate :: "rotating_file_sink \<Rightarrow> file_sys \<Rightarrow> string option \<times> rotating_file_sink \<times> file_sys" where
  "rs_rotate s fs =
     (let s = s\<lparr>rs_file := fh_close (rs_file s)\<rparr> in
      case rotate_loop (rs_base_filename s) (unat (rs_max_files s)) fs of
        (Some e, fs) \<Rightarrow> (Some e, s, fs)
      | (None, fs) \<Rightarrow> (case fh_reopen True (rs_file s) fs of (ex, h, fs) \<Rightarrow> (ex, s\<lparr>rs_file := h\<rparr>, fs)))"

definition rotating_sink_it :: "log_os \<Rightarrow> log_msg \<Rightarrow> rotating_file_sink \<Rightarrow> file_sys \<Rightarrow> rotating_file_sink sink_result" where
  "rotating_sink_it sys msg s fs = do {
     (f, msg, formatted) \<leftarrow> pf_format sys (sk_formatter s) msg [];
     let s = s\<lparr>sk_formatter := f, rs_current_size := rs_current_size s + of_nat (length formatted)\<rparr>;
     let (ex, s, fs) = (if rs_current_size s > rs_max_size s then
         (case rs_rotate s fs of
            (Some e, s, fs) \<Rightarrow> (Some e, s, fs)
          | (None, s, fs) \<Rightarrow> (None, s\<lparr>rs_current_size := of_nat (length formatted)\<rparr>, fs))
       else (None, s, fs));
     (case ex of
        Some e \<Rightarrow> Some (Some e, s, msg, fs)
      | None \<Rightarrow> do { (ex, fs) \<leftarrow> fh_write formatted (rs_file s) fs; Some (ex, s, msg, fs) }) }"

text \<open>\<^verbatim>\<open>daily_file_sink\<close>; \<open>now\<close> is the time of the clock (\<open>later\<close> when it is read again), \<open>mktime\<close> the function of the C library.\<close>

record daily_file_sink = log_sink +
  ds_base_filename :: string
  ds_rotation_h :: int
  ds_rotation_m :: int
  ds_rotation_tp :: int
  ds_file :: file_helper
  ds_truncate :: bool

definition next_rotation_tp :: "log_os \<Rightarrow> (tm \<Rightarrow> int) \<Rightarrow> int \<Rightarrow> int \<Rightarrow> int \<Rightarrow> int" where
  "next_rotation_tp sys mktime now h m =
     (let date = (os_localtime sys (to_secs now))\<lparr>tm_hour := h, tm_min := m, tm_sec := 0\<rparr>;
          rotation_time = mktime date * 1000000000
      in if rotation_time > now then rotation_time else rotation_time + 24 * 3600 * 1000000000)"

definition mk_daily_file_sink ::
  "log_os \<Rightarrow> (tm \<Rightarrow> int) \<Rightarrow> int \<Rightarrow> int \<Rightarrow> string \<Rightarrow> int \<Rightarrow> int \<Rightarrow> bool \<Rightarrow> file_sys \<Rightarrow> (string + daily_file_sink) \<times> file_sys" where
  "mk_daily_file_sink sys mktime now later base h m trunc fs =
     (if h < 0 \<or> h > 23 \<or> m < 0 \<or> m > 59 then (Inl ''daily_file_sink: Invalid rotation time in ctor'', fs)
      else
        (case fh_open (daily_filename base (os_localtime sys (to_secs now))) trunc mk_file_helper fs of
           (Some e, f, fs) \<Rightarrow> (Inl e, fs)
         | (None, f, fs) \<Rightarrow>
             (Inr \<lparr>sk_level = L_trace, sk_formatter = default_formatter, ds_base_filename = base, ds_rotation_h = h,
                   ds_rotation_m = m, ds_rotation_tp = next_rotation_tp sys mktime later h m, ds_file = f, ds_truncate = trunc\<rparr>, fs)))"

definition daily_sink_it :: "log_os \<Rightarrow> (tm \<Rightarrow> int) \<Rightarrow> int \<Rightarrow> log_msg \<Rightarrow> daily_file_sink \<Rightarrow> file_sys \<Rightarrow> daily_file_sink sink_result" where
  "daily_sink_it sys mktime now msg s fs =
     (let (ex, s, fs) = (if lm_time msg \<ge> ds_rotation_tp s then
          (case fh_open (daily_filename (ds_base_filename s) (os_localtime sys (to_secs (lm_time msg)))) (ds_truncate s) (ds_file s) fs of
             (Some e, f, fs) \<Rightarrow> (Some e, s\<lparr>ds_file := f\<rparr>, fs)
           | (None, f, fs) \<Rightarrow>
               (None, s\<lparr>ds_file := f, ds_rotation_tp := next_rotation_tp sys mktime now (ds_rotation_h s) (ds_rotation_m s)\<rparr>, fs))
        else (None, s, fs))
      in case ex of
           Some e \<Rightarrow> Some (Some e, s, msg, fs)
         | None \<Rightarrow> do {
             (f, msg, formatted) \<leftarrow> pf_format sys (sk_formatter s) msg [];
             let s = s\<lparr>sk_formatter := f\<rparr>;
             (ex, fs) \<leftarrow> fh_write formatted (ds_file s) fs;
             Some (ex, s, msg, fs) })"

end
