(* ===== verification/Spd_Files.thy ===== *)
theory Spd_Files
  imports Spd_Sinks
begin

text \<open>
  What the file sinks promise: the names of the files, the contents of the files without failures, and what failures can lead to.
\<close>

section \<open>File names\<close>

lemma int_text_basic: "0 \<le> x \<Longrightarrow> int_text sep basic_format_specs x = Inr (decimal_string (nat x))"
  by (simp add: int_text_def basic_format_specs_def handle_int_type_spec_def int_field_def sign_prefix_def
      has_fs_flag_def int_prefix_def int_digits_def padded_def)

lemma write_plain:
  "write_arg fo sep basic_format_specs (String_arg s) = Inr s"
  "write_arg fo sep basic_format_specs (Ulong_long_arg n) = Inr (decimal_string (unat n))"
proof -
  show "write_arg fo sep basic_format_specs (String_arg s) = Inr s"
    by (simp add: write_str_spec_def check_string_type_spec_def basic_format_specs_def padded_def)
  show "write_arg fo sep basic_format_specs (Ulong_long_arg n) = Inr (decimal_string (unat n))"
    unfolding write_arg.simps int_writer64_text unat_eq_nat_uint by (simp only: if_False int_text_basic [OF uint_ge_0])
qed

lemmas plain_texts = list_all2_Cons list_all2_Nil write_plain simp_thms

lemma format_text_plain:
  assumes "list_all2 (\<lambda>a t. write_arg no_floats (CHR '','') basic_format_specs a = Inr t) as ts"
    "\<forall>a \<in> set as. arg_type a \<notin> {none_type, named_arg_type, custom_type}" "length as < 2 ^ 32" "NUL \<notin> set (literals ps)" "holes ps \<le> length as"
  shows "format_text (template ps) as = rendered ps ts"
  using vformat_template [OF assms(1-4)] assms(5) by (simp add: format_text_def)

lemma calc_filename_eq:
  "calc_filename f 0 = f"
  "index \<noteq> 0 \<Longrightarrow> calc_filename f index = fst (split_by_extenstion f) @ ''.'' @ decimal_string (unat index) @ snd (split_by_extenstion f)"
proof -
  have "format_text (template [Hole]) [String_arg f] = rendered [Hole] [f]"
    by (rule format_text_plain) (simp_all only: plain_texts, simp_all)
  then show "calc_filename f 0 = f" by (simp add: calc_filename_def)
  let ?b = "fst (split_by_extenstion f)" and ?e = "snd (split_by_extenstion f)"
  assume i: "index \<noteq> 0"
  have "format_text (template [Hole, Lit ''.'', Hole, Hole]) [String_arg ?b, Ulong_long_arg index, String_arg ?e] =
      rendered [Hole, Lit ''.'', Hole, Hole] [?b, decimal_string (unat index), ?e]"
    by (rule format_text_plain) (simp_all only: plain_texts, simp_all add: NUL_def)
  with i show "calc_filename f index = ?b @ ''.'' @ decimal_string (unat index) @ ?e"
    by (simp add: calc_filename_def split_beta)
qed

lemma split_append: "fst (split_by_extenstion f) @ snd (split_by_extenstion f) = f"
  by (simp add: split_by_extenstion_def split: option.splits)

lemma calc_filename_inj: "calc_filename f i = calc_filename f j \<longleftrightarrow> i = j"
proof -
  have z: "calc_filename f i \<noteq> f" if "i \<noteq> 0" for i
    using calc_filename_eq(2) [OF that, of f] arg_cong [OF split_append [of f], of length] by (auto dest!: arg_cong [where f = length])
  show ?thesis
  proof (cases "i = 0 \<or> j = 0")
    case True
    then show ?thesis using z [of i] z [of j] calc_filename_eq(1) [of f] by metis
  next
    case False
    then show ?thesis
      by (simp add: calc_filename_eq(2) decimal_string_inj word_unat_eq_iff)
  qed
qed

lemma rfind_None: "rfind c s = None \<longleftrightarrow> c \<notin> set s"
proof -
  have "filter (\<lambda>i. s ! i = c) [0..<length s] = [] \<longleftrightarrow> c \<notin> set s"
    by (auto simp: filter_empty_conv in_set_conv_nth)
  then show ?thesis by (auto simp: rfind_def split: list.splits)
qed

lemma sorted_le_last: "sorted xs \<Longrightarrow> x \<in> set xs \<Longrightarrow> x \<le> last (xs :: nat list)"
  by (induction xs) (auto dest: last_in_set)

lemma rfind_Some:
  assumes "rfind c s = Some i"
  shows "i < length s" "s ! i = c" "c \<notin> set (drop (Suc i) s)"
proof -
  let ?js = "filter (\<lambda>i. s ! i = c) [0..<length s]"
  have j: "?js \<noteq> []" "last ?js = i" using assms by (auto simp: rfind_def split: list.splits)
  have "i \<in> set ?js" using last_in_set [OF j(1)] j(2) by simp
  then show i: "i < length s" "s ! i = c" by auto
  show "c \<notin> set (drop (Suc i) s)"
  proof
    assume "c \<in> set (drop (Suc i) s)"
    then obtain k where "k < length s - Suc i" "drop (Suc i) s ! k = c" by (auto simp: in_set_conv_nth)
    then have m: "Suc i + k \<in> set ?js" by (simp add: less_diff_conv add.commute)
    have "sorted ?js" by (intro sorted_wrt_filter) simp
    from sorted_le_last [OF this m] j(2) show False by simp
  qed
qed

text \<open>What \<^verbatim>\<open>split_by_extenstion\<close> takes for an extension: it starts with the last dot, is longer than the dot, is not the whole name of a file that
  starts with a dot, and lies in the last component of the path.\<close>

lemma split_extension_spec:
  assumes "split_by_extenstion f = (b, e)" "e \<noteq> []"
  shows "f = b @ e" "\<exists>x. e = CHR ''.'' # x \<and> x \<noteq> [] \<and> CHR ''.'' \<notin> set x \<and> folder_sep \<notin> set x" "b \<noteq> []" "last b \<noteq> folder_sep"
proof -
  obtain i where i: "rfind (CHR ''.'') f = Some i" "i \<noteq> 0" "i \<noteq> length f - 1" "b = take i f" "e = drop i f"
    and k: "\<And>k. rfind folder_sep f = Some k \<Longrightarrow> k < i - 1"
    using assms by (auto simp: split_by_extenstion_def not_le split: option.splits if_splits)
  note d = rfind_Some [OF i(1)]
  show "f = b @ e" using i by simp
  have e: "e = CHR ''.'' # drop (Suc i) f" using i(5) d(1,2) Cons_nth_drop_Suc [of i f] by simp
  have n: "folder_sep \<notin> set (drop (i - 1) f)"
  proof (cases "rfind folder_sep f")
    case None
    then show ?thesis using rfind_None [of folder_sep f] by (auto dest: in_set_dropD)
  next
    case (Some k)
    then have "set (drop (i - 1) f) \<subseteq> set (drop (Suc k) f)" using k by (intro set_drop_subset_set_drop) simp
    with rfind_Some(3) [OF Some] show ?thesis by blast
  qed
  have "set (drop (Suc i) f) \<subseteq> set (drop (i - 1) f)" by (intro set_drop_subset_set_drop) simp
  with e n d i(2,3) show "\<exists>x. e = CHR ''.'' # x \<and> x \<noteq> [] \<and> CHR ''.'' \<notin> set x \<and> folder_sep \<notin> set x"
    by (intro exI [of _ "drop (Suc i) f"]) auto
  show "b \<noteq> []" using i(2,4) d(1) by auto
  have "last b = f ! (i - 1)" using i(2,4) d(1) by (subst last_conv_nth) auto
  moreover have "f ! (i - 1) \<in> set (drop (i - 1) f)"
    using d(1) i(2) by (metis Cons_nth_drop_Suc list.set_intros(1) less_imp_diff_less)
  ultimately show "last b \<noteq> folder_sep" using n by metis
qed

lemma split_none_spec:
  assumes "split_by_extenstion f = (b, [])"
  shows "b = f"
  using assms rfind_Some(1) [of "CHR ''.''" f] by (fastforce simp: split_by_extenstion_def split: option.splits if_splits)

section \<open>The file system\<close>

definition content :: "file_sys \<Rightarrow> string \<Rightarrow> string" where
  "content fs name = (case fs_files fs name of None \<Rightarrow> [] | Some c \<Rightarrow> c)"

lemma no_fault [simp]: "fs_faults fs = [] \<Longrightarrow> next_outcome fs = (None, fs)"
  by (simp add: next_outcome_def)

lemma fopen_ok: "fs_faults fs = [] \<Longrightarrow>
    sys_fopen name trunc fs = (True, fs\<lparr>fs_files := (fs_files fs)(name \<mapsto> (if trunc then [] else content fs name))\<rparr>)"
  by (simp add: sys_fopen_def content_def)

lemma fh_open_ok: "fs_faults fs = [] \<Longrightarrow>
    fh_open name trunc h fs =
      (None, \<lparr>fh_fd = Some name, fh_filename = name\<rparr>, fs\<lparr>fs_files := (fs_files fs)(name \<mapsto> (if trunc then [] else content fs name))\<rparr>)"
  by (simp add: fh_open_def open_tries_def eval_nat_numeral fopen_ok fh_close_def)

lemma fh_write_ok: "fs_faults fs = [] \<Longrightarrow> fh_fd h = Some name \<Longrightarrow>
    fh_write buf h fs = Some (None, fs\<lparr>fs_files := (fs_files fs)(name \<mapsto> content fs name @ buf)\<rparr>)"
  by (simp add: fh_write_def sys_fwrite_def content_def)

section \<open>The interface of sinks\<close>

text \<open>A sequence of messages, with the exception that came out of the sink for each, if any.\<close>

fun log_all :: "(log_msg \<Rightarrow> 's \<Rightarrow> file_sys \<Rightarrow> 's sink_result) \<Rightarrow> log_msg list \<Rightarrow> 's \<Rightarrow> file_sys \<Rightarrow> (string option list \<times> 's \<times> file_sys) option" where
  "log_all sink_it [] s fs = Some ([], s, fs)"
| "log_all sink_it (m # ms) s fs = do {
     (ex, s, _, fs) \<leftarrow> sink_it m s fs;
     (exs, s, fs) \<leftarrow> log_all sink_it ms s fs;
     Some (ex # exs, s, fs) }"

text \<open>A sink that never fails on the messages it is \<open>good\<close> for, and whose files, seen as a value, take every line by \<open>add\<close>.\<close>

locale line_sink =
  fixes sink_it :: "log_msg \<Rightarrow> 's \<Rightarrow> file_sys \<Rightarrow> 's sink_result" and ok :: "'s \<Rightarrow> file_sys \<Rightarrow> bool"
    and good :: "log_msg \<Rightarrow> bool" and line :: "log_msg \<Rightarrow> string" and view :: "file_sys \<Rightarrow> 'v" and add :: "string \<Rightarrow> 'v \<Rightarrow> 'v"
  assumes sink_it: "ok s fs \<Longrightarrow> good m \<Longrightarrow>
      \<exists>s' m' fs'. sink_it m s fs = Some (None, s', m', fs') \<and> ok s' fs' \<and> view fs' = add (line m) (view fs)"
begin

lemma log_all_lines: "ok s fs \<Longrightarrow> list_all good ms \<Longrightarrow>
    \<exists>s' fs'. log_all sink_it ms s fs = Some (map (\<lambda>_. None) ms, s', fs') \<and> ok s' fs' \<and> view fs' = fold (\<lambda>m. add (line m)) ms (view fs)"
proof (induction ms arbitrary: s fs)
  case (Cons m ms)
  obtain s1 m1 fs1 where one: "sink_it m s fs = Some (None, s1, m1, fs1)" "ok s1 fs1" "view fs1 = add (line m) (view fs)"
    using sink_it [of s fs m] Cons.prems by auto
  from Cons.IH [OF one(2)] Cons.prems obtain s' fs' where
    "log_all sink_it ms s1 fs1 = Some (map (\<lambda>_. None) ms, s', fs')" "ok s' fs'" "view fs' = fold (\<lambda>m. add (line m)) ms (view fs1)"
    by auto
  with one show ?case by simp
qed simp

end

section \<open>A sink with one file\<close>

definition bs_ok :: "log_os \<Rightarrow> string \<Rightarrow> string \<Rightarrow> basic_file_sink \<Rightarrow> file_sys \<Rightarrow> bool" where
  "bs_ok sys pattern name s fs \<longleftrightarrow>
     fs_faults fs = [] \<and> fh_fd (bs_file s) = Some name \<and> pf_ok sys Time_local pattern default_eol (sk_formatter s)"

lemma basic_sink_it_ok:
  assumes "bs_ok sys pattern name s fs" "msg_ok sys Time_local msg"
  shows "\<exists>s' msg' fs'. basic_sink_it sys msg s fs = Some (None, s', msg', fs') \<and> bs_ok sys pattern name s' fs' \<and>
    fs_files fs' = (fs_files fs)(name \<mapsto> content fs name @ log_line sys Time_local pattern default_eol msg)"
proof -
  obtain f' a b where "pf_format sys (sk_formatter s) msg [] =
      Some (f', msg\<lparr>lm_color_range_start := a, lm_color_range_end := b\<rparr>, log_line sys Time_local pattern default_eol msg)"
    "pf_ok sys Time_local pattern default_eol f'"
    using pf.format [of sys Time_local pattern default_eol "sk_formatter s" msg "[]"] assms by (auto simp: bs_ok_def)
  with assms(1) show ?thesis by (simp add: basic_sink_it_def bs_ok_def fh_write_ok)
qed

interpretation basic: line_sink "basic_sink_it sys" "bs_ok sys pattern name" "msg_ok sys Time_local"
    "log_line sys Time_local pattern default_eol" fs_files "\<lambda>line files. files(name \<mapsto> (case files name of None \<Rightarrow> [] | Some c \<Rightarrow> c) @ line)"
  for sys pattern name
  by unfold_locales (rule basic_sink_it_ok [unfolded content_def])

section \<open>Rotation\<close>

abbreviation file_name :: "string \<Rightarrow> nat \<Rightarrow> string" where
  "file_name base i \<equiv> calc_filename base (of_nat i)"

lemma file_name_eq: "i < 2 ^ 64 \<Longrightarrow> j < 2 ^ 64 \<Longrightarrow> file_name base i = file_name base j \<longleftrightarrow> i = j"
  using unat_of_nat_id [of i, where 'a = 64] unat_of_nat_id [of j, where 'a = 64] by (simp add: calc_filename_inj word_unat_eq_iff)

lemma remove_target_ok: "fs_faults fs = [] \<Longrightarrow> remove_target t fs = (None, fs\<lparr>fs_files := (fs_files fs)(t := None)\<rparr>)"
  by (cases "fs_files fs t") (simp_all add: remove_target_def sys_exists_def sys_remove_def fun_upd_idem)

lemma move_source_ok: "fs_faults fs = [] \<Longrightarrow> s \<noteq> t \<Longrightarrow> fs_files fs t = None \<Longrightarrow>
    move_source s t fs = (None, fs\<lparr>fs_files := (fs_files fs)(s := None, t := fs_files fs s)\<rparr>)"
  by (cases "fs_files fs s") (simp_all add: move_source_def sys_exists_def sys_rename_def fun_upd_idem)

text \<open>Without failures every file takes the content of the one before it, also where files are missing.\<close>

lemma rotate_loop_shifts:
  assumes "fs_faults fs = []" "n < 2 ^ 64"
  shows "\<exists>F. rotate_loop base n fs = (None, fs\<lparr>fs_files := F\<rparr>) \<and> (\<forall>i<n. F (file_name base (Suc i)) = fs_files fs (file_name base i)) \<and>
    (0 < n \<longrightarrow> F (file_name base 0) = None) \<and> (\<forall>x. (\<forall>i\<le>n. x \<noteq> file_name base i) \<longrightarrow> F x = fs_files fs x)"
  using assms
proof (induction n arbitrary: fs)
  case 0
  then show ?case by (intro exI [of _ "fs_files fs"]) simp
next
  case (Suc n)
  let ?src = "file_name base n" and ?t = "file_name base (Suc n)"
  let ?fs = "fs\<lparr>fs_files := (fs_files fs)(?t := fs_files fs ?src, ?src := None)\<rparr>"
  have ne: "?src \<noteq> ?t" using Suc.prems(2) file_name_eq [of n "Suc n" base] by simp
  then have step: "rotate_loop base (Suc n) fs = rotate_loop base n ?fs"
    using Suc.prems(1) by (simp add: remove_target_ok move_source_ok fun_upd_twist)
  obtain F where F: "rotate_loop base n ?fs = (None, ?fs\<lparr>fs_files := F\<rparr>)" "\<forall>i<n. F (file_name base (Suc i)) = fs_files ?fs (file_name base i)"
    "0 < n \<longrightarrow> F (file_name base 0) = None" "\<forall>x. (\<forall>i\<le>n. x \<noteq> file_name base i) \<longrightarrow> F x = fs_files ?fs x"
    using Suc.IH [of ?fs] Suc.prems by auto
  have other: "file_name base i \<noteq> ?t" "i < n \<Longrightarrow> file_name base i \<noteq> ?src" if "i \<le> n" for i
    using that Suc.prems(2) file_name_eq [of i "Suc n" base] file_name_eq [of i n base] by simp_all
  have t: "F ?t = fs_files fs ?src" using F(4) other(1) ne by (metis fun_upd_apply file_sys.select_convs(1) file_sys.surjective file_sys.update_convs(1))
  have "F (file_name base (Suc i)) = fs_files fs (file_name base i)" if "i < Suc n" for i
    using that t F(2) other [of i] by (cases "i = n") (auto simp: less_Suc_eq)
  moreover have "F (file_name base 0) = None"
  proof (cases "n = 0")
    case True
    then have "F = fs_files ?fs" using arg_cong [OF F(1), of "\<lambda>r. fs_files (snd r)"] by simp
    with True show ?thesis by simp
  qed (use F(3) in simp)
  moreover have "F x = fs_files fs x" if "\<forall>i\<le>Suc n. x \<noteq> file_name base i" for x
  proof -
    have "x \<noteq> ?t" "x \<noteq> ?src" "\<forall>i\<le>n. x \<noteq> file_name base i" using that by auto
    with F(4) show ?thesis by simp
  qed
  ultimately show ?case using step F(1) by (intro exI [of _ F]) auto
qed

text \<open>The files of a rotating sink, the newest first, and what a line does to them.\<close>

definition log_files :: "string \<Rightarrow> nat \<Rightarrow> file_sys \<Rightarrow> string option list" where
  "log_files base n fs = map (\<lambda>i. fs_files fs (file_name base i)) [0..<Suc n]"

fun add_line :: "nat \<Rightarrow> string \<Rightarrow> string option list \<Rightarrow> string option list" where
  "add_line max_size line [] = []"
| "add_line max_size line (c # cs) =
     (let cur = (case c of None \<Rightarrow> [] | Some t \<Rightarrow> t) in
      if length cur + length line > max_size then Some line # butlast (c # cs) else Some (cur @ line) # cs)"

definition only_changes :: "string set \<Rightarrow> file_sys \<Rightarrow> file_sys \<Rightarrow> bool" where
  "only_changes names fs fs' \<longleftrightarrow> (\<forall>x. x \<notin> names \<longrightarrow> fs_files fs' x = fs_files fs x)"

lemma only_changes_refl [simp]: "only_changes names fs fs"
  by (simp add: only_changes_def)

lemma only_changes_trans: "only_changes names fs1 fs2 \<Longrightarrow> only_changes names fs2 fs3 \<Longrightarrow> only_changes names fs1 fs3"
  by (simp add: only_changes_def)

definition file_names :: "string \<Rightarrow> nat \<Rightarrow> string set" where
  "file_names base n = file_name base ` {..n}"

lemma base_in_file_names [simp]: "base \<in> file_names base n"
  using calc_filename_eq(1) [of base] by (force simp: file_names_def)

lemma rotate_ok:
  assumes "fs_faults fs = []" "fh_filename (rs_file s) = rs_base_filename s" "rs_base_filename s \<noteq> []"
  defines "base \<equiv> rs_base_filename s" and "n \<equiv> unat (rs_max_files s)"
  shows "\<exists>F. rs_rotate s fs = (None, s\<lparr>rs_file := \<lparr>fh_fd = Some base, fh_filename = base\<rparr>\<rparr>, fs\<lparr>fs_files := F\<rparr>) \<and>
    map (\<lambda>i. F (file_name base i)) [0..<Suc n] = Some [] # butlast (log_files base n fs) \<and>
    only_changes (file_names base n) fs (fs\<lparr>fs_files := F\<rparr>)"
proof -
  have n: "n < 2 ^ 64" unfolding n_def using unsigned_less [of "rs_max_files s"] by simp
  obtain F where F: "rotate_loop base n fs = (None, fs\<lparr>fs_files := F\<rparr>)" "\<forall>i<n. F (file_name base (Suc i)) = fs_files fs (file_name base i)"
    "\<forall>x. (\<forall>i\<le>n. x \<noteq> file_name base i) \<longrightarrow> F x = fs_files fs x"
    using rotate_loop_shifts [OF assms(1) n, of base] by blast
  let ?F = "F(base \<mapsto> [])"
  have "rs_rotate s fs = (None, s\<lparr>rs_file := \<lparr>fh_fd = Some base, fh_filename = base\<rparr>\<rparr>, fs\<lparr>fs_files := ?F\<rparr>)"
    using F(1) assms by (simp add: rs_rotate_def fh_reopen_def fh_open_ok fh_close_def)
  moreover have "map (\<lambda>i. ?F (file_name base i)) [0..<Suc n] = Some [] # butlast (log_files base n fs)"
  proof -
    have ne: "file_name base (Suc i) \<noteq> base" if "i < n" for i
      using file_name_eq [of "Suc i" 0 base] that n calc_filename_eq(1) [of base] by simp
    have "[0..<Suc n] = 0 # map Suc [0..<n]" by (simp add: upt_conv_Cons map_Suc_upt del: upt_Suc)
    then have "map (\<lambda>i. ?F (file_name base i)) [0..<Suc n] = ?F (file_name base 0) # map (\<lambda>i. ?F (file_name base (Suc i))) [0..<n]"
      by (simp add: comp_def del: upt_Suc)
    also have "map (\<lambda>i. ?F (file_name base (Suc i))) [0..<n] = map (\<lambda>i. fs_files fs (file_name base i)) [0..<n]"
      using F(2) ne by simp
    also have "\<dots> = butlast (log_files base n fs)" by (simp add: log_files_def)
    finally show ?thesis by (simp add: calc_filename_eq(1))
  qed
  moreover have "only_changes (file_names base n) fs (fs\<lparr>fs_files := ?F\<rparr>)"
    unfolding only_changes_def using F(3) base_in_file_names [of base n] by (auto simp: file_names_def)
  ultimately show ?thesis by (intro exI [of _ ?F]) (simp only: simp_thms)
qed

text \<open>The state of a rotating sink between two messages, when nothing fails.\<close>

definition rs_ok :: "log_os \<Rightarrow> string \<Rightarrow> rotating_file_sink \<Rightarrow> file_sys \<Rightarrow> bool" where
  "rs_ok sys pattern s fs \<longleftrightarrow>
     fs_faults fs = [] \<and> rs_base_filename s \<noteq> [] \<and> rs_file s = \<lparr>fh_fd = Some (rs_base_filename s), fh_filename = rs_base_filename s\<rparr> \<and>
     length (content fs (rs_base_filename s)) < 2 ^ 62 \<and> rs_current_size s = of_nat (length (content fs (rs_base_filename s))) \<and>
     pf_ok sys Time_local pattern default_eol (sk_formatter s)"

lemma log_files_head: "log_files base n fs = fs_files fs base # map (\<lambda>i. fs_files fs (file_name base i)) [Suc 0..<Suc n]"
  by (simp add: log_files_def upt_conv_Cons calc_filename_eq(1) del: upt_Suc)

lemma log_files_write:
  assumes "n < 2 ^ 64"
  shows "log_files base n (fs\<lparr>fs_files := (fs_files fs)(base \<mapsto> t)\<rparr>) = Some t # tl (log_files base n fs)"
proof -
  have "file_name base i \<noteq> base" if "Suc 0 \<le> i" "i < Suc n" for i
    using file_name_eq [of i 0 base] that assms calc_filename_eq(1) [of base] by simp
  then show ?thesis by (simp add: log_files_head del: upt_Suc)
qed

lemma rotating_sink_it_ok:
  assumes "rs_ok sys pattern s fs" "msg_ok sys Time_local msg" "rs_max_size s < 2 ^ 62"
    "length (log_line sys Time_local pattern default_eol msg) < 2 ^ 62"
  defines "base \<equiv> rs_base_filename s" and "n \<equiv> unat (rs_max_files s)" and "line \<equiv> log_line sys Time_local pattern default_eol msg"
  shows "\<exists>s' msg' fs'. rotating_sink_it sys msg s fs = Some (None, s', msg', fs') \<and> rs_ok sys pattern s' fs' \<and>
    log_files base n fs' = add_line (unat (rs_max_size s)) line (log_files base n fs) \<and> only_changes (file_names base n) fs fs' \<and>
    rs_base_filename s' = base \<and> rs_max_files s' = rs_max_files s \<and> rs_max_size s' = rs_max_size s"
proof -
  let ?cur = "content fs base"
  have ok: "fs_faults fs = []" "base \<noteq> []" "rs_file s = \<lparr>fh_fd = Some base, fh_filename = base\<rparr>" "length ?cur < 2 ^ 62"
    "rs_current_size s = of_nat (length ?cur)" "pf_ok sys Time_local pattern default_eol (sk_formatter s)"
    using assms(1) by (simp_all add: rs_ok_def base_def)
  have n: "n < 2 ^ 64" unfolding n_def using unsigned_less [of "rs_max_files s"] by simp
  obtain f' a b where f: "pf_format sys (sk_formatter s) msg [] = Some (f', msg\<lparr>lm_color_range_start := a, lm_color_range_end := b\<rparr>, line)"
    "pf_ok sys Time_local pattern default_eol f'"
    using pf.format [OF ok(6) assms(2), of "[]"] unfolding line_def by auto
  let ?msg = "msg\<lparr>lm_color_range_start := a, lm_color_range_end := b\<rparr>"
  let ?s = "s\<lparr>sk_formatter := f', rs_current_size := rs_current_size s + of_nat (length line)\<rparr>"
  have line: "length line < 2 ^ 62" using assms(4) by (simp add: line_def)
  have sum: "unat (of_nat (length ?cur) + of_nat (length line) :: size_t) = length ?cur + length line"
    using ok(4) line by (simp add: unat_add_no_wrap unat_of_nat_id)
  have big: "rs_current_size ?s > rs_max_size ?s \<longleftrightarrow> length ?cur + length line > unat (rs_max_size s)"
    using sum by (simp add: ok(5) word_less_nat_alt)
  have max_size: "unat (rs_max_size s) < 2 ^ 62" using assms(3) by (simp add: word_less_nat_alt)
  have cur: "(case fs_files fs base of None \<Rightarrow> [] | Some t \<Rightarrow> t) = ?cur" by (simp add: content_def)
  show ?thesis
  proof (cases "length ?cur + length line > unat (rs_max_size s)")
    case True
    obtain F where F: "rs_rotate ?s fs = (None, ?s\<lparr>rs_file := \<lparr>fh_fd = Some base, fh_filename = base\<rparr>\<rparr>, fs\<lparr>fs_files := F\<rparr>)"
      "map (\<lambda>i. F (file_name base i)) [0..<Suc n] = Some [] # butlast (log_files base n fs)" "only_changes (file_names base n) fs (fs\<lparr>fs_files := F\<rparr>)"
      using rotate_ok [of fs ?s] ok by (auto simp: base_def n_def)
    let ?fs = "fs\<lparr>fs_files := F\<rparr>"
    have files: "log_files base n ?fs = Some [] # butlast (log_files base n fs)" using F(2) by (simp add: log_files_def)
    then have "content ?fs base = []" by (simp add: log_files_head content_def)
    then have w: "fh_write line \<lparr>fh_fd = Some base, fh_filename = base\<rparr> ?fs = Some (None, ?fs\<lparr>fs_files := F(base \<mapsto> line)\<rparr>)"
      using fh_write_ok [of ?fs "\<lparr>fh_fd = Some base, fh_filename = base\<rparr>" base line] ok(1) by simp
    have "log_files base n (?fs\<lparr>fs_files := F(base \<mapsto> line)\<rparr>) = add_line (unat (rs_max_size s)) line (log_files base n fs)"
      using log_files_write [OF n, of base ?fs line] files True cur by (simp add: log_files_head [of base n fs])
    moreover have "only_changes (file_names base n) fs (?fs\<lparr>fs_files := F(base \<mapsto> line)\<rparr>)"
      using F(3) by (auto simp: only_changes_def)
    ultimately show ?thesis
      using f F(1) w True big ok line by (simp add: rotating_sink_it_def rs_ok_def content_def base_def)
  next
    case False
    let ?fs = "fs\<lparr>fs_files := (fs_files fs)(base \<mapsto> ?cur @ line)\<rparr>"
    have w: "fh_write line (rs_file ?s) fs = Some (None, ?fs)"
      using fh_write_ok [of fs "rs_file s" base line] ok(1,3) by simp
    have "log_files base n ?fs = add_line (unat (rs_max_size s)) line (log_files base n fs)"
      using log_files_write [OF n, of base fs] False cur by (simp add: log_files_head [of base n fs])
    moreover have "only_changes (file_names base n) fs ?fs" by (auto simp: only_changes_def)
    moreover have "rs_current_size s + of_nat (length line) = of_nat (length (?cur @ line))" using ok(5) by simp
    moreover have "length (?cur @ line) < 2 ^ 62" using False max_size by simp
    moreover have "content ?fs base = ?cur @ line" by (simp add: content_def)
    ultimately show ?thesis
      using f w False big ok by (simp add: rotating_sink_it_def rs_ok_def base_def [symmetric])
  qed
qed

text \<open>The rotating sink as a sink of lines; \<open>fs0\<close> are the files before.\<close>

definition rotating_ok :: "log_os \<Rightarrow> string \<Rightarrow> string \<Rightarrow> size_t \<Rightarrow> size_t \<Rightarrow> file_sys \<Rightarrow> rotating_file_sink \<Rightarrow> file_sys \<Rightarrow> bool" where
  "rotating_ok sys pattern base max_size max_files fs0 s fs \<longleftrightarrow>
     rs_ok sys pattern s fs \<and> rs_base_filename s = base \<and> rs_max_size s = max_size \<and> rs_max_files s = max_files \<and> max_size < 2 ^ 62 \<and>
     only_changes (file_names base (unat max_files)) fs0 fs"

interpretation rotating: line_sink "rotating_sink_it sys" "rotating_ok sys pattern base max_size max_files fs0"
    "\<lambda>m. msg_ok sys Time_local m \<and> length (log_line sys Time_local pattern default_eol m) < 2 ^ 62"
    "log_line sys Time_local pattern default_eol" "log_files base (unat max_files)" "add_line (unat max_size)"
  for sys pattern base max_size max_files fs0
proof
  fix s fs m
  assume ok: "rotating_ok sys pattern base max_size max_files fs0 s fs"
    and m: "msg_ok sys Time_local m \<and> length (log_line sys Time_local pattern default_eol m) < 2 ^ 62"
  from ok have s: "rs_ok sys pattern s fs" "rs_max_size s < 2 ^ 62" "rs_base_filename s = base" "rs_max_size s = max_size" "rs_max_files s = max_files"
    "only_changes (file_names base (unat max_files)) fs0 fs" by (simp_all add: rotating_ok_def)
  from rotating_sink_it_ok [OF s(1) conjunct1 [OF m] s(2) conjunct2 [OF m]] s(2,3-6)
  show "\<exists>s' m' fs'. rotating_sink_it sys m s fs = Some (None, s', m', fs') \<and> rotating_ok sys pattern base max_size max_files fs0 s' fs' \<and>
      log_files base (unat max_files) fs' =
        add_line (unat max_size) (log_line sys Time_local pattern default_eol m) (log_files base (unat max_files) fs)"
    by (auto simp: rotating_ok_def dest: only_changes_trans)
qed

section \<open>What the files hold\<close>

text \<open>The lines of the files, the newest file first: a file is within the limit or holds a single line, and the first line of a file did not fit into
  the one before.\<close>

fun rotated :: "nat \<Rightarrow> string list list \<Rightarrow> bool" where
  "rotated m [] = True"
| "rotated m (g # gs) \<longleftrightarrow>
     (length (concat g) \<le> m \<or> length g \<le> 1) \<and>
     (case gs of [] \<Rightarrow> True | h # _ \<Rightarrow> g \<noteq> [] \<and> length (concat h) + length (hd g) > m) \<and> rotated m gs"

text \<open>The files hold the newest of the lines in their order; lines are only missing when there are as many files as there may be.\<close>

definition newest_lines :: "nat \<Rightarrow> nat \<Rightarrow> string list \<Rightarrow> string option list \<Rightarrow> bool" where
  "newest_lines m n lines files \<longleftrightarrow>
     (\<exists>dropped groups k. lines = dropped @ concat (rev groups) \<and> files = map (Some \<circ> concat) groups @ replicate k None \<and>
        length groups + k = Suc n \<and> groups \<noteq> [] \<and> (dropped \<noteq> [] \<longrightarrow> k = 0) \<and> rotated m groups)"

lemma rotated_butlast: "rotated m gs \<Longrightarrow> rotated m (butlast gs)"
proof (induction gs)
  case (Cons g gs)
  then show ?case by (cases gs) (auto split: list.splits)
qed simp

lemma concat_rev_last: "gs \<noteq> [] \<Longrightarrow> concat (rev gs) = last gs @ concat (rev (butlast gs))"
  by (induction gs rule: rev_induct) simp_all

lemma newest_lines_add:
  assumes "newest_lines m n lines files"
  shows "newest_lines m n (lines @ [line]) (add_line m line files)"
proof -
  obtain dropped g gs k where v: "lines = dropped @ concat (rev (g # gs))" "files = map (Some \<circ> concat) (g # gs) @ replicate k None"
    "length (g # gs) + k = Suc n" "dropped \<noteq> [] \<longrightarrow> k = 0" "rotated m (g # gs)"
    using assms unfolding newest_lines_def by (metis list.exhaust)
  show ?thesis
  proof (cases "length (concat g) + length line > m")
    case fits: False
    then have "add_line m line files = map (Some \<circ> concat) ((g @ [line]) # gs) @ replicate k None" using v(2) by simp
    moreover have "rotated m ((g @ [line]) # gs)" using v(5) fits by (cases gs) auto
    moreover have "lines @ [line] = dropped @ concat (rev ((g @ [line]) # gs))" using v(1) by simp
    ultimately show ?thesis using v(3,4) unfolding newest_lines_def
      by (intro exI [of _ dropped] exI [of _ "(g @ [line]) # gs"] exI [of _ k]) simp
  next
    case new: True
    then have add: "add_line m line files = Some line # butlast files" and r: "rotated m ([line] # g # gs)" using v(2,5) by auto
    show ?thesis
    proof (cases k)
      case (Suc j)
      then have "files = (map (Some \<circ> concat) (g # gs) @ replicate j None) @ [None]" using v(2) by (simp add: replicate_append_same)
      then have "butlast files = map (Some \<circ> concat) (g # gs) @ replicate j None" by (simp only: butlast_snoc)
      with Suc v r add show ?thesis unfolding newest_lines_def
        by (intro exI [of _ dropped] exI [of _ "[line] # g # gs"] exI [of _ j]) simp
    next
      case 0
      then have "butlast files = map (Some \<circ> concat) (butlast (g # gs))" using v(2) by (simp add: map_butlast)
      moreover have "lines @ [line] = (dropped @ last (g # gs)) @ concat (rev ([line] # butlast (g # gs)))"
        unfolding v(1) by (subst concat_rev_last [of "g # gs"]) simp_all
      moreover have "rotated m ([line] # butlast (g # gs))"
        using rotated_butlast [OF r] by simp
      ultimately show ?thesis using 0 v(3) add unfolding newest_lines_def
        by (intro exI [of _ "dropped @ last (g # gs)"] exI [of _ "[line] # butlast (g # gs)"] exI [of _ 0]) auto
    qed
  qed
qed

lemma newest_lines_fold:
  "newest_lines m n lines files \<Longrightarrow> newest_lines m n (lines @ map line ms) (fold (\<lambda>msg. add_line m (line msg)) ms files)"
proof (induction ms arbitrary: lines files)
  case (Cons msg ms)
  then show ?case using Cons.IH [OF newest_lines_add [OF Cons.prems, of "line msg"]] by simp
qed simp

text \<open>The sink opens its file and goes on where the file ends.\<close>

lemma mk_rotating_ok:
  assumes "fs_faults fs = []" "base \<noteq> []" "length (content fs base) < 2 ^ 62" "max_size < 2 ^ 62"
  shows "\<exists>s fs'. mk_rotating_file_sink base max_size max_files fs = (Inr s, fs') \<and>
    rotating_ok sys pattern base max_size max_files fs (sk_set_pattern pattern s) fs' \<and>
    log_files base (unat max_files) fs' = Some (content fs base) # tl (log_files base (unat max_files) fs)"
proof -
  let ?fs = "fs\<lparr>fs_files := (fs_files fs)(base \<mapsto> content fs base)\<rparr>"
  have "unat max_files < 2 ^ 64" using unsigned_less [of max_files] by simp
  from log_files_write [OF this, of base fs "content fs base"]
  have "log_files base (unat max_files) ?fs = Some (content fs base) # tl (log_files base (unat max_files) fs)" .
  moreover have "content ?fs base = content fs base" "only_changes (file_names base n) fs ?fs" for n
    by (auto simp: content_def only_changes_def)
  ultimately show ?thesis
    using assms mk_pattern_formatter_ok [of sys Time_local pattern default_eol]
    by (simp add: mk_rotating_file_sink_def fh_open_ok calc_filename_eq(1) fh_size_def rotating_ok_def rs_ok_def sk_set_pattern_def
        sk_set_formatter_def content_def split: option.splits)
qed

section \<open>Properties\<close>



end
