(* ===== verification/Http_Main.thy ===== *)
theory Http_Main
  imports Http_Server Spd_Files
begin

text \<open>
  The HTTP example program (\<^verbatim>\<open>HttpMain.cpp\<close>, \<^verbatim>\<open>SqlConnPool.h/.cpp\<close>): the callbacks it gives to the server. They serve the files of a directory
  and check the names and passwords of users in a database.

  The file system of the program is a map from paths to contents; a stream is an address in a list. The client library of MySQL is the
  record \<open>mysql_ops\<close> of parameters. Exceptions and undefined behaviour are values of \<open>main_error\<close>. Logging is left out.
\<close>

section \<open>Paths\<close>

definition SuffixType :: "(string \<times> string) list" where
  "SuffixType =
     [(''.html'', ''text/html''), (''.xml'', ''text/xml''), (''.xhtml'', ''application/xhtml+xml''), (''.txt'', ''text/plain''),
      (''.rtf'', ''application/rtf''), (''.pdf'', ''application/pdf''), (''.word'', ''application/nsword''), (''.png'', ''image/png''),
      (''.gif'', ''image/gif''), (''.jpg'', ''image/jpeg''), (''.jpeg'', ''image/jpeg''), (''.ico'', ''image/x-icon''),
      (''.au'', ''audio/basic''), (''.mpeg'', ''video/mpeg''), (''.mpg'', ''video/mpeg''), (''.avi'', ''video/x-msvideo''),
      (''.gz'', ''application/x-gzip''), (''.tar'', ''application/x-tar''), (''.css'', ''text/css ''), (''.js'', ''text/javascript '')]"

definition Route :: "string list" where
  "Route = [''/index'', ''/login'', ''/register'', ''/picture'', ''/video'', ''/fans'']"

definition GetFileType :: "string \<Rightarrow> string" where
  "GetFileType path =
     (case rfind (CHR ''.'') path of
        None \<Rightarrow> ''text/plain''
      | Some idx \<Rightarrow> (case map_of SuffixType (drop idx path) of Some t \<Rightarrow> t | None \<Rightarrow> ''text/plain''))"

section \<open>Forms\<close>

text \<open>The matches of the regular expression \<^verbatim>\<open>(\w+)=(\w+)\<close>, from left to right: at every position the longest word, an equals sign and the
  longest word behind it; the search goes on behind a match.\<close>

definition is_word :: "char \<Rightarrow> bool" where
  "is_word c \<longleftrightarrow>
     (let n = of_char c :: nat in 48 \<le> n \<and> n \<le> 57 \<or> 65 \<le> n \<and> n \<le> 90 \<or> 97 \<le> n \<and> n \<le> 122 \<or> n = 95)"

definition match_here :: "string \<Rightarrow> (string \<times> string) option" where
  "match_here s =
     (let w = takeWhile is_word s; r = dropWhile is_word s; v = takeWhile is_word (tl r)
      in if w \<noteq> [] \<and> r \<noteq> [] \<and> hd r = CHR ''='' \<and> v \<noteq> [] then Some (w, v) else None)"

function regex_matches :: "string \<Rightarrow> (string \<times> string) list" where
  "regex_matches s =
     (case match_here s of
        Some (w, v) \<Rightarrow> (w, v) # regex_matches (drop (length w + 1 + length v) s)
      | None \<Rightarrow> (if s = [] then [] else regex_matches (tl s)))"
  by auto
termination
  by (relation "measure length") (auto simp: match_here_def Let_def split: if_splits dest: length_pos_if_in_set)

declare regex_matches.simps [simp del]

text \<open>The loop over the submatches keeps a field until its value comes. The map is a list of pairs, the newest first.\<close>

type_synonym post_map = "(string \<times> string) list"

fun take_submatch :: "string \<Rightarrow> string \<times> post_map \<Rightarrow> string \<times> post_map" where
  "take_submatch m (str_field, pm) = (if str_field = [] then (m, pm) else ([], (str_field, m) # pm))"

definition parse_postbody :: "string \<Rightarrow> post_map" where
  "parse_postbody body = snd (fold take_submatch (concat (map (\<lambda>(w, v). [w, v]) (regex_matches body))) ([], []))"

section \<open>The pool of database connections\<close>

datatype main_error = Out_of_range_exception | Null_result | Null_text | Closed_stream | Buffer_error buffer_error

record sql_pool =
  MAX_CONN :: "int option"
  connQue :: "nat list"

definition mk_sql_pool :: sql_pool where
  "mk_sql_pool = \<lparr>MAX_CONN = None, connQue = []\<rparr>"

text \<open>\<^verbatim>\<open>Init\<close>: \<open>connect i\<close> is the handle of the \<open>i\<close>-th attempt, or \<open>None\<close> when \<^verbatim>\<open>mysql_init\<close> or \<^verbatim>\<open>mysql_real_connect\<close> fails.\<close>

fun init_loop :: "(nat \<Rightarrow> nat option) \<Rightarrow> nat \<Rightarrow> nat \<Rightarrow> nat list \<Rightarrow> bool \<times> nat list" where
  "init_loop connect i 0 que = (True, que)"
| "init_loop connect i (Suc n) que =
     (case connect i of None \<Rightarrow> (False, que) | Some sql \<Rightarrow> init_loop connect (Suc i) n (que @ [sql]))"

definition pool_Init :: "(nat \<Rightarrow> nat option) \<Rightarrow> int \<Rightarrow> sql_pool \<Rightarrow> bool \<times> sql_pool" where
  "pool_Init connect connSize p =
     (let (ok, que) = init_loop connect 0 (nat connSize) (connQue p); p = p\<lparr>connQue := que\<rparr>
      in if ok then (True, p\<lparr>MAX_CONN := Some connSize\<rparr>) else (False, p))"

text \<open>The handles that \<^verbatim>\<open>mysql_close\<close> gets.\<close>

definition ClosePool :: "sql_pool \<Rightarrow> nat list \<times> sql_pool" where
  "ClosePool p = (connQue p, p\<lparr>connQue := []\<rparr>)"

definition GetConn :: "sql_pool \<Rightarrow> nat option \<times> sql_pool" where
  "GetConn p = (case connQue p of [] \<Rightarrow> (None, p) | sql # que \<Rightarrow> (Some sql, p\<lparr>connQue := que\<rparr>))"

definition FreeConn :: "nat option \<Rightarrow> sql_pool \<Rightarrow> sql_pool" where
  "FreeConn sql p = (case sql of None \<Rightarrow> p | Some h \<Rightarrow> p\<lparr>connQue := connQue p @ [h]\<rparr>)"

definition GetFreeConnCount :: "sql_pool \<Rightarrow> nat" where
  "GetFreeConnCount p = length (connQue p)"

text \<open>\<^verbatim>\<open>SqlConnRAII\<close>: the constructor takes a connection, the destructor gives it back.\<close>

definition raii_ctor :: "sql_pool \<Rightarrow> nat option \<times> sql_pool" where
  "raii_ctor p = GetConn p"

definition raii_dtor :: "nat option \<Rightarrow> sql_pool \<Rightarrow> sql_pool" where
  "raii_dtor sql p = (if sql \<noteq> None then FreeConn sql p else p)"

section \<open>Users\<close>

text \<open>\<^verbatim>\<open>mysql_query\<close> says whether it failed; \<^verbatim>\<open>mysql_store_result\<close> gives the rows of the result, \<^verbatim>\<open>NULL\<close> texts included, or no result.\<close>

record 'db mysql_ops =
  my_query :: "nat \<Rightarrow> string \<Rightarrow> 'db \<Rightarrow> bool \<times> 'db"
  my_store_result :: "nat \<Rightarrow> 'db \<Rightarrow> string option list list option"

definition select_query :: "string \<Rightarrow> string" where
  "select_query name = format_text (''SELECT username, password FROM user WHERE username='' @ [CHR 0x27] @ ''{}'' @ [CHR 0x27] @ '' LIMIT 1'')
     [String_arg name]"

definition insert_query :: "string \<Rightarrow> string \<Rightarrow> string" where
  "insert_query name pwd =
     format_text (''INSERT INTO user(username, password) VALUES('' @ [CHR 0x27] @ ''{}'' @ [CHR 0x27] @ '','' @ [CHR 0x27] @ ''{}'' @ [CHR 0x27] @ '')'')
       [Cstring_arg 1 name, Cstring_arg 1 pwd]"

fun check_rows :: "string \<Rightarrow> string option list list \<Rightarrow> bool \<Rightarrow> main_error + bool" where
  "check_rows pwd [] flag = Inr flag"
| "check_rows pwd (row # rows) flag =
     (if length row \<le> 1 then Inl Null_text
      else case row ! 1 of
             None \<Rightarrow> Inl Null_text
           | Some password \<Rightarrow> check_rows pwd rows (if pwd = password then True else flag))"

text \<open>The object of class \<^verbatim>\<open>SqlConnRAII\<close> has no name: it is destroyed at the end of the statement that creates it.\<close>

definition user_verify ::
  "'db mysql_ops \<Rightarrow> string \<Rightarrow> string \<Rightarrow> int \<Rightarrow> sql_pool \<Rightarrow> 'db \<Rightarrow> main_error + bool \<times> sql_pool \<times> 'db" where
  "user_verify my name pwd login p db =
     (let (sql, p) = raii_ctor p; p = raii_dtor sql p in
      case sql of
        None \<Rightarrow> Inr (False, p, db)
      | Some h \<Rightarrow>
          (let (failed, db) = my_query my h (select_query name) db in
           if failed then Inr (False, p, db)
           else
             (case my_store_result my h db of
                None \<Rightarrow> Inl Null_result
              | Some rows \<Rightarrow>
                  if length rows = 0
                  then (if login = 0
                        then (let (failed, db) = my_query my h (insert_query name pwd) db in Inr (\<not> failed, p, db))
                        else Inr (False, p, db))
                  else if login \<noteq> 0 then bindE (check_rows pwd rows False) (\<lambda>flag. Inr (flag, p, db))
                  else Inr (False, p, db))))"

section \<open>Requests\<close>

text \<open>An open file: its content, the position of the stream, and whether it is open.\<close>

record stream =
  st_data :: string
  st_pos :: nat
  st_open :: bool

record 'db web =
  wb_root_dir :: string
  wb_files :: "string \<rightharpoonup> string"
  wb_unreadable :: "string \<Rightarrow> bool"
  wb_streams :: "stream list"
  wb_pool :: sql_pool
  wb_db :: 'db

text \<open>The page that answers a form, or no page.\<close>

definition post_page :: "'db mysql_ops \<Rightarrow> string \<Rightarrow> string \<Rightarrow> string \<Rightarrow> 'db web \<Rightarrow> main_error + string option \<times> 'db web" where
  "post_page my url user pwd w =
     (if url = ''/login'' then
        bindE (user_verify my user pwd 1 (wb_pool w) (wb_db w)) (\<lambda>(ok, p, db).
          Inr (Some (if ok then ''/welcome.html'' else ''/login_error.html''), w\<lparr>wb_pool := p, wb_db := db\<rparr>))
      else if url = ''/register'' then
        bindE (user_verify my user pwd 0 (wb_pool w) (wb_db w)) (\<lambda>(ok, p, db).
          Inr (Some (if ok then ''/login.html'' else ''/register_error.html''), w\<lparr>wb_pool := p, wb_db := db\<rparr>))
      else if url = ''/picture'' then Inr (Some ''/picture.html'', w)
      else if url = ''/video'' then Inr (Some ''/video.html'', w)
      else if url = ''/fans'' then Inr (Some ''/fans.html'', w)
      else Inr (None, w))"

definition form_fields :: "http_request \<Rightarrow> main_error + string \<times> string" where
  "form_fields req =
     (let pm = (if get_header req ''Content-Type'' = Some ''application/x-www-form-urlencoded''
                  then parse_postbody (contents (rq_body req)) else [])
      in if pm \<noteq> [] then
           (case (map_of pm ''user'', map_of pm ''password'') of
              (Some user, Some pwd) \<Rightarrow> Inr (user, pwd)
            | _ \<Rightarrow> Inl Out_of_range_exception)
         else Inr ([], []))"

definition get_page :: "string \<Rightarrow> string" where
  "get_page url =
     (let path_file = (if url = ''/'' then url @ ''index'' else url)
      in if path_file \<in> set Route then path_file @ ''.html'' else path_file)"

text \<open>The last part: the file is opened and becomes the context of the task.\<close>

definition open_page :: "string \<Rightarrow> task_data \<Rightarrow> 'db web \<Rightarrow> task_data \<times> 'db web" where
  "open_page page d w =
     (let path_file = wb_root_dir w @ page; resp = tk_response d in
      case wb_files w path_file of
        None \<Rightarrow> (d\<lparr>tk_response := resp\<lparr>rs_code := 404\<rparr>\<rparr>, w)
      | Some data \<Rightarrow>
          if wb_unreadable w path_file then (d\<lparr>tk_response := resp\<lparr>rs_code := 404\<rparr>\<rparr>, w)
          else
            (d\<lparr>tk_response := resp\<lparr>rs_content_type := GetFileType path_file, rs_content_len := of_nat (length data)\<rparr>,
               tk_send_progressively := True, tk_context := Some (length (wb_streams w))\<rparr>,
             w\<lparr>wb_streams := wb_streams w @ [\<lparr>st_data = data, st_pos = 0, st_open = True\<rparr>]\<rparr>))"

definition set_code :: "int \<Rightarrow> task_data \<Rightarrow> task_data" where
  "set_code code d = d\<lparr>tk_response := (tk_response d)\<lparr>rs_code := code\<rparr>\<rparr>"

definition set_closeconnection :: "bool \<Rightarrow> task_data \<Rightarrow> task_data" where
  "set_closeconnection b d = d\<lparr>tk_response := (tk_response d)\<lparr>rs_close_connection := b\<rparr>\<rparr>"

definition on_request :: "'db mysql_ops \<Rightarrow> task_data \<Rightarrow> 'db web \<Rightarrow> main_error + task_data \<times> 'db web" where
  "on_request my d w =
     (let req = tk_request d; d = set_closeconnection (\<not> rq_keep_alive req) (set_code 200 d) in
      bindE
        (if rq_method req = ''POST'' then
           bindE (form_fields req) (\<lambda>(user, pwd).
           bindE (post_page my (rq_url req) user pwd w) (\<lambda>(page, w).
             Inr (case page of None \<Rightarrow> (set_code 404 d, w) | Some page \<Rightarrow> open_page page d w)))
         else if rq_method req = ''GET'' then Inr (open_page (get_page (rq_url req)) d w)
         else Inr (set_code 400 d, w))
        (\<lambda>(d, w). Inr (if rs_code (tk_response d) \<noteq> 200 then set_closeconnection True d else d, w)))"

definition process_file :: "task_data \<Rightarrow> buffer \<Rightarrow> 'db web \<Rightarrow> main_error + buffer \<times> 'db web" where
  "process_file d b w =
     (case tk_context d of
        None \<Rightarrow> Inr (b, w)
      | Some f \<Rightarrow>
          (let s = wb_streams w ! f; chunk = take (unat InitialSize) (drop (st_pos s) (st_data s)) in
           if \<not> st_open s then Inl Closed_stream
           else if chunk \<noteq> [] then
             (case store_at_write b chunk of
                Inl e \<Rightarrow> Inl (Buffer_error e)
              | Inr b \<Rightarrow> Inr (has_written b (of_nat (length chunk)),
                  w\<lparr>wb_streams := (wb_streams w)[f := s\<lparr>st_pos := st_pos s + length chunk\<rparr>]\<rparr>))
           else Inr (b, w\<lparr>wb_streams := (wb_streams w)[f := s\<lparr>st_open := False\<rparr>]\<rparr>)))"

section \<open>Forms cannot carry quotes\<close>

lemma match_here_words: "match_here s = Some (w, v) \<Longrightarrow> w \<noteq> [] \<and> v \<noteq> [] \<and> list_all is_word w \<and> list_all is_word v"
  by (auto simp: match_here_def Let_def list_all_iff split: if_splits dest: set_takeWhileD)

lemma regex_matches_words: "(w, v) \<in> set (regex_matches s) \<Longrightarrow> w \<noteq> [] \<and> v \<noteq> [] \<and> list_all is_word w \<and> list_all is_word v"
proof (induction s rule: regex_matches.induct)
  case (1 s)
  show ?case
  proof (cases "match_here s")
    case None
    with "1.IH"(1) "1.prems" show ?thesis by (simp add: regex_matches.simps [of s] split: if_splits)
  next
    case (Some m)
    obtain w' v' where m: "m = (w', v')" by fastforce
    with Some "1.prems" have "(w, v) = (w', v') \<or> (w, v) \<in> set (regex_matches (drop (length w' + 1 + length v') s))"
      by (simp add: regex_matches.simps [of s])
    with "1.IH"(2) [OF Some m [symmetric]] match_here_words [OF Some [unfolded m]] show ?thesis by auto
  qed
qed

lemma parse_postbody_pairs: "parse_postbody body = rev (regex_matches body)"
proof -
  have "fold take_submatch (concat (map (\<lambda>(w, v). [w, v]) ms)) ([], pm) = ([], rev ms @ pm)"
    if "\<forall>(w, v) \<in> set ms. w \<noteq> []" for ms pm
    using that by (induction ms arbitrary: pm) auto
  from this [of "regex_matches body" "[]"] regex_matches_words [of _ _ body] show ?thesis
    unfolding parse_postbody_def by fastforce
qed

lemma select_query_eq: "select_query name =
    ''SELECT username, password FROM user WHERE username='' @ [CHR 0x27] @ name @ [CHR 0x27] @ '' LIMIT 1''"
proof -
  let ?ps = "[Lit (''SELECT username, password FROM user WHERE username='' @ [CHR 0x27]), Hole, Lit ([CHR 0x27] @ '' LIMIT 1'')]"
  have "format_text (template ?ps) [String_arg name] = rendered ?ps [name]"
    by (rule format_text_plain) (simp_all only: plain_texts, simp_all add: NUL_def)
  then show ?thesis by (simp add: select_query_def)
qed

lemma insert_query_eq: "insert_query name pwd = ''INSERT INTO user(username, password) VALUES('' @ [CHR 0x27] @ name @ [CHR 0x27] @ '','' @
    [CHR 0x27] @ pwd @ [CHR 0x27] @ '')''"
proof -
  let ?ps = "[Lit (''INSERT INTO user(username, password) VALUES('' @ [CHR 0x27]), Hole, Lit ([CHR 0x27] @ '','' @ [CHR 0x27]), Hole,
    Lit ([CHR 0x27] @ '')'')]"
  have c: "write_arg no_floats (CHR '','') basic_format_specs (Cstring_arg 1 t) = Inr t" for t
    by (simp add: write_cstring_def handle_cstring_type_spec_def write_str_spec_def check_string_type_spec_def basic_format_specs_def padded_def)
  have "format_text (template ?ps) [Cstring_arg 1 name, Cstring_arg 1 pwd] = rendered ?ps [name, pwd]"
    by (rule format_text_plain) (simp_all only: list_all2_Cons list_all2_Nil c simp_thms, simp_all add: NUL_def)
  then show ?thesis by (simp add: insert_query_def)
qed

lemma form_values: "form_fields req = Inr (user, pwd) \<Longrightarrow> list_all is_word user \<and> list_all is_word pwd"
  by (auto simp: form_fields_def parse_postbody_pairs Let_def split: if_splits option.splits dest!: map_of_SomeD regex_matches_words)

lemma quote_is_no_word: "list_all is_word s \<Longrightarrow> CHR 0x27 \<notin> set s"
  by (auto simp: list_all_iff is_word_def Let_def)

section \<open>Files\<close>

lemma chunk_in_buffer:
  assumes "length chunk \<le> 1024"
  shows "\<exists>b. store_at_write (mk_buffer InitialSize) chunk = Inr b \<and> contents (has_written b (of_nat (length chunk))) = chunk \<and>
    readable_bytes (has_written b (of_nat (length chunk))) = of_nat (length chunk)"
proof -
  have n: "unat (of_nat (length chunk) :: size_t) = length chunk" using assms by (simp add: unat_of_nat_id)
  then have "(of_nat (length chunk) :: size_t) \<le> 1024" using assms by (simp add: word_le_nat_alt)
  with n assms show ?thesis
    by (simp add: store_at_write_def mk_buffer_def InitialSize_def has_written_def writable_bytes_def buff_size_def contents_def
        readable_bytes_def splice_at_def)
qed

text \<open>The calls of \<^verbatim>\<open>process_file\<close> until one leaves the buffer empty.\<close>

fun send_chunks :: "nat \<Rightarrow> task_data \<Rightarrow> 'db web \<Rightarrow> main_error + string list \<times> 'db web" where
  "send_chunks 0 d w = Inr ([], w)"
| "send_chunks (Suc n) d w =
     bindE (process_file d (mk_buffer InitialSize) w) (\<lambda>(b, w).
       if readable_bytes b > 0 then bindE (send_chunks n d w) (\<lambda>(rest, w). Inr (contents b # rest, w)) else Inr ([], w))"

lemma send_chunks_all:
  assumes "tk_context d = Some f" "f < length (wb_streams w)" "wb_streams w ! f = s" "st_open s" "st_pos s \<le> length (st_data s)"
    "(length (st_data s) - st_pos s + 1023) div 1024 + 1 \<le> n"
  shows "\<exists>chunks w'. send_chunks n d w = Inr (chunks, w') \<and> concat chunks = drop (st_pos s) (st_data s) \<and>
    (\<forall>c \<in> set chunks. c \<noteq> [] \<and> length c \<le> 1024) \<and> \<not> st_open (wb_streams w' ! f)"
  using assms
proof (induction n arbitrary: w s)
  case (Suc n)
  let ?chunk = "take 1024 (drop (st_pos s) (st_data s))"
  have i: "unat InitialSize = 1024" by (simp add: InitialSize_def)
  show ?case
  proof (cases "?chunk = []")
    case True
    then have "process_file d (mk_buffer InitialSize) w = Inr (mk_buffer InitialSize, w\<lparr>wb_streams := (wb_streams w)[f := s\<lparr>st_open := False\<rparr>]\<rparr>)"
      using Suc.prems by (simp add: process_file_def i)
    moreover have "readable_bytes (mk_buffer InitialSize) = 0" by (simp add: readable_bytes_def mk_buffer_def)
    ultimately show ?thesis using True Suc.prems by simp
  next
    case False
    let ?s = "s\<lparr>st_pos := st_pos s + length ?chunk\<rparr>" let ?w = "w\<lparr>wb_streams := (wb_streams w)[f := ?s]\<rparr>"
    obtain b where b: "store_at_write (mk_buffer InitialSize) ?chunk = Inr b" "contents (has_written b (of_nat (length ?chunk))) = ?chunk"
      "readable_bytes (has_written b (of_nat (length ?chunk))) = of_nat (length ?chunk)"
      using chunk_in_buffer [of ?chunk] by auto
    have p: "process_file d (mk_buffer InitialSize) w = Inr (has_written b (of_nat (length ?chunk)), ?w)"
      using Suc.prems False b(1) by (simp add: process_file_def i Let_def)
    have "unat (of_nat (length ?chunk) :: size_t) = length ?chunk" by (simp add: unat_of_nat_id)
    then have r: "readable_bytes (has_written b (of_nat (length ?chunk))) > 0" unfolding b(3) using False by (simp add: word_less_nat_alt)
    have step: "(r - min r 1024 + 1023) div 1024 + 1 \<le> n" if "0 < r" "(r + 1023) div 1024 + 1 \<le> Suc n" for r :: nat
    proof (cases "r \<le> 1024")
      case True
      then have "1024 div 1024 \<le> (r + 1023) div 1024" using that(1) by (intro div_le_mono) simp
      with that(2) True show ?thesis by simp
    next
      case False
      then have "r + 1023 = (r - 1024 + 1023) + 1024" by simp
      then have "(r + 1023) div 1024 = (r - 1024 + 1023) div 1024 + 1" by (metis div_add_self2 zero_neq_numeral)
      with that(2) False show ?thesis by simp
    qed
    have left: "(length (st_data ?s) - st_pos ?s + 1023) div 1024 + 1 \<le> n"
      using step [of "length (st_data s) - st_pos s"] Suc.prems(6) False by simp
    have "\<exists>chunks w'. send_chunks n d ?w = Inr (chunks, w') \<and> concat chunks = drop (st_pos ?s) (st_data ?s) \<and>
        (\<forall>c \<in> set chunks. c \<noteq> [] \<and> length c \<le> 1024) \<and> \<not> st_open (wb_streams w' ! f)"
      by (rule Suc.IH [OF Suc.prems(1) _ _ _ _ left]) (use Suc.prems in simp_all)
    then obtain chunks w' where IH: "send_chunks n d ?w = Inr (chunks, w')" "concat chunks = drop (st_pos ?s) (st_data ?s)"
      "\<forall>c \<in> set chunks. c \<noteq> [] \<and> length c \<le> 1024" "\<not> st_open (wb_streams w' ! f)" by blast
    have "send_chunks (Suc n) d w = Inr (?chunk # chunks, w')" using p r b(2) IH(1) by simp
    moreover have "take k xs @ drop (length (take k xs)) xs = xs" for k and xs :: string by (cases "length xs \<le> k") simp_all
    from this [of 1024 "drop (st_pos s) (st_data s)"] have "concat (?chunk # chunks) = drop (st_pos s) (st_data s)"
      unfolding concat.simps IH(2) by (simp add: add.commute)
    ultimately show ?thesis using IH(3,4) False by (intro exI [of _ "?chunk # chunks"] exI [of _ w']) simp
  qed
qed simp

text \<open>A page that exists and can be read.\<close>

definition has_page :: "'db web \<Rightarrow> string \<Rightarrow> string \<Rightarrow> bool" where
  "has_page w page data \<longleftrightarrow> wb_files w (wb_root_dir w @ page) = Some data \<and> \<not> wb_unreadable w (wb_root_dir w @ page)"

lemma get_request:
  assumes "rq_method (tk_request d) = ''GET''" "has_page w (get_page (rq_url (tk_request d))) data"
  shows "\<exists>d' w'. on_request my d w = Inr (d', w') \<and> rs_code (tk_response d') = 200 \<and>
    rs_close_connection (tk_response d') = (\<not> rq_keep_alive (tk_request d)) \<and> rs_content_len (tk_response d') = of_nat (length data) \<and>
    tk_send_progressively d' \<and> tk_context d' = Some (length (wb_streams w)) \<and>
    wb_streams w' = wb_streams w @ [\<lparr>st_data = data, st_pos = 0, st_open = True\<rparr>]"
  using assms by (simp add: on_request_def has_page_def open_page_def set_code_def set_closeconnection_def Let_def)

text \<open>The program only answers with codes that \<^verbatim>\<open>make_buffer\<close> knows, and keeps the connection only for a file.\<close>

lemma on_request_known_code:
  assumes "on_request my d w = Inr (d', w')"
  shows "rs_code (tk_response d') \<in> {200, 400, 404}" "rs_code (tk_response d') \<noteq> 200 \<Longrightarrow> rs_close_connection (tk_response d')"
    "make_buffer order (tk_response d') b \<noteq> Inl Bad_status"
proof -
  have page: "rs_code (tk_response d2) = 200 \<or> rs_code (tk_response d2) = 404"
    if "open_page page d1 w1 = (d2, w2)" "rs_code (tk_response d1) = 200" for page d1 d2 and w1 w2 :: "'a web"
    using that by (auto simp: open_page_def Let_def split: option.splits if_splits)
  show code: "rs_code (tk_response d') \<in> {200, 400, 404}"
    using assms by (auto simp: on_request_def Let_def set_closeconnection_def set_code_def split: if_splits option.splits prod.splits sum.splits
        dest!: page)
  have result: "\<exists>d1. d2 = f d1" if "bindE r (\<lambda>(d, w). Inr (f d, w)) = Inr (d2, w2)" for f d2 and r :: "main_error + task_data \<times> 'a web" and w2
    using that by (cases r) auto
  obtain d1 where "d' = (if rs_code (tk_response d1) \<noteq> 200 then set_closeconnection True d1 else d1)"
    using result [OF assms [unfolded on_request_def Let_def]] by blast
  then show "rs_code (tk_response d') \<noteq> 200 \<Longrightarrow> rs_close_connection (tk_response d')"
    by (auto simp: set_closeconnection_def split: if_splits)
  from code have "\<exists>status. map_of CodeStatus (rs_code (tk_response d')) = Some status" by (auto simp: CodeStatus_def)
  then show "make_buffer order (tk_response d') b \<noteq> Inl Bad_status" by (auto simp: make_buffer_def split: sum.splits)
qed

section \<open>Properties\<close>

text \<open>C12: A GET of a page that exists is answered with code 200 and its length (modulo the 32 bits of the field), and the calls of
  \<^verbatim>\<open>process_file\<close> that follow send exactly its content, in pieces of at most 1024 bytes, and close the file.\<close>

theorem get_serves_file:
  assumes "rq_method (tk_request d) = ''GET''" "has_page w (get_page (rq_url (tk_request d))) data"
    and "(length data + 1023) div 1024 + 1 \<le> n"
  shows "\<exists>d' w' chunks w''. on_request my d w = Inr (d', w') \<and> rs_code (tk_response d') = 200 \<and>
    rs_content_len (tk_response d') = of_nat (length data) \<and> tk_send_progressively d' \<and>
    send_chunks n d' w' = Inr (chunks, w'') \<and> concat chunks = data \<and> (\<forall>c \<in> set chunks. c \<noteq> [] \<and> length c \<le> 1024) \<and>
    \<not> st_open (wb_streams w'' ! length (wb_streams w))"
proof -
  obtain d' w' where r: "on_request my d w = Inr (d', w')" "rs_code (tk_response d') = 200" "rs_content_len (tk_response d') = of_nat (length data)"
    "tk_send_progressively d'" "tk_context d' = Some (length (wb_streams w))"
    "wb_streams w' = wb_streams w @ [\<lparr>st_data = data, st_pos = 0, st_open = True\<rparr>]"
    using get_request [OF assms(1,2), of my] by blast
  from send_chunks_all [OF r(5), of w' "\<lparr>st_data = data, st_pos = 0, st_open = True\<rparr>" n] r(6) assms(3)
  obtain chunks w'' where "send_chunks n d' w' = Inr (chunks, w'')" "concat chunks = data" "\<forall>c \<in> set chunks. c \<noteq> [] \<and> length c \<le> 1024"
    "\<not> st_open (wb_streams w'' ! length (wb_streams w))" by auto
  with r(1-4) show ?thesis by blast
qed

definition demo_request :: "string \<Rightarrow> string \<Rightarrow> task_data" where
  "demo_request method url =
     \<lparr>tk_header_field = [], tk_completed = True,
      tk_request = \<lparr>rq_method = method, rq_url = url, rq_keep_alive = True, rq_headers = (\<lambda>_. None), rq_body = mk_buffer 0\<rparr>,
      tk_response = \<lparr>rs_code = 0, rs_close_connection = True, rs_content_type = [], rs_content_len = 0, rs_headers = (\<lambda>_. None), rs_body = mk_buffer 0\<rparr>,
      tk_send_progressively = False, tk_context = None, tk_fault = None\<rparr>"

definition demo_web :: "unit web" where
  "demo_web = \<lparr>wb_root_dir = ''/www'', wb_files = [''/www/index.html'' \<mapsto> ''hello''], wb_unreadable = (\<lambda>_. False), wb_streams = [],
     wb_pool = mk_sql_pool, wb_db = ()\<rparr>"

definition no_mysql :: "unit mysql_ops" where
  "no_mysql = \<lparr>my_query = (\<lambda>_ _ db. (True, db)), my_store_result = (\<lambda>_ _. None)\<rparr>"

theorem get_serves_file_witness:
  "\<exists>d' w' chunks w''. on_request no_mysql (demo_request ''GET'' ''/'') demo_web = Inr (d', w') \<and> rs_code (tk_response d') = 200 \<and>
    rs_content_len (tk_response d') = 5 \<and> send_chunks 2 d' w' = Inr (chunks, w'') \<and> concat chunks = ''hello''"
proof -
  have "has_page demo_web (get_page (rq_url (tk_request (demo_request ''GET'' ''/'')))) ''hello''"
    by (simp add: has_page_def demo_web_def demo_request_def get_page_def Route_def)
  from get_serves_file [of "demo_request ''GET'' ''/''", OF _ this, of 2 no_mysql] show ?thesis by (auto simp: demo_request_def)
qed

text \<open>C13: Whatever a client sends as a form, the statements for the database hold the name and the password between quotes, and neither of them
  contains a quote: only words come out of a form.\<close>

theorem form_values_cannot_quote:
  assumes "form_fields req = Inr (user, pwd)"
  shows "select_query user = ''SELECT username, password FROM user WHERE username='' @ [CHR 0x27] @ user @ [CHR 0x27] @ '' LIMIT 1'' \<and>
    insert_query user pwd = ''INSERT INTO user(username, password) VALUES('' @ [CHR 0x27] @ user @ [CHR 0x27] @ '','' @
      [CHR 0x27] @ pwd @ [CHR 0x27] @ '')'' \<and> CHR 0x27 \<notin> set user \<and> CHR 0x27 \<notin> set pwd"
  using form_values [OF assms] by (simp only: select_query_eq insert_query_eq quote_is_no_word simp_thms)

definition demo_form :: "string \<Rightarrow> http_request" where
  "demo_form body = \<lparr>rq_method = ''POST'', rq_url = ''/login'', rq_keep_alive = True,
     rq_headers = [''Content-Type'' \<mapsto> ''application/x-www-form-urlencoded''],
     rq_body = \<lparr>buff = body, read_index = 0, write_index = of_nat (length body)\<rparr>\<rparr>"

theorem form_values_cannot_quote_witness:
  "form_fields (demo_form (''user=joe'' @ [CHR 0x27] @ ''or=1&password=x'')) = Inr (''joe'', ''x'') \<and>
   select_query ''joe'' = ''SELECT username, password FROM user WHERE username='' @ [CHR 0x27] @ ''joe'' @ [CHR 0x27] @ '' LIMIT 1''"
proof -
  have f: "form_fields (demo_form (''user=joe'' @ [CHR 0x27] @ ''or=1&password=x'')) = Inr (''joe'', ''x'')" by code_simp
  from form_values_cannot_quote [OF f] f show ?thesis by blast
qed

section \<open>Defects\<close>

text \<open>The path of a request is appended to the root directory as it is: a file outside it is served.\<close>

lemma get_leaves_root:
  assumes "rq_method (tk_request d) = ''GET''" "rq_url (tk_request d) = ''/../../etc/passwd''"
    "wb_files w (wb_root_dir w @ ''/../../etc/passwd'') = Some data" "\<not> wb_unreadable w (wb_root_dir w @ ''/../../etc/passwd'')"
  shows "\<exists>d' w'. on_request my d w = Inr (d', w') \<and> rs_code (tk_response d') = 200 \<and> st_data (last (wb_streams w')) = data"
proof -
  have "has_page w (get_page (rq_url (tk_request d))) data" using assms by (simp add: has_page_def get_page_def Route_def)
  from get_request [OF assms(1) this] show ?thesis by force
qed

text \<open>A form without the fields of a user raises an exception.\<close>

lemma form_without_user_raises:
  "on_request my ((demo_request ''POST'' ''/login'')\<lparr>tk_request := demo_form ''a=b''\<rparr>) w = Inl Out_of_range_exception"
proof -
  have "form_fields (demo_form ''a=b'') = Inl Out_of_range_exception" by code_simp
  then show ?thesis by (simp add: on_request_def demo_form_def Let_def)
qed

text \<open>The connection is back in the pool before it is used: another thread gets the same one.\<close>

lemma connection_given_out_twice:
  assumes "connQue p = [h]" "raii_ctor p = (sql, p1)"
  shows "sql = Some h" "fst (GetConn (raii_dtor sql p1)) = Some h"
  using assms by (auto simp: raii_ctor_def raii_dtor_def GetConn_def FreeConn_def)

text \<open>A login needs a row with the password.\<close>

lemma check_rows_password: "check_rows pwd rows flag = Inr True \<Longrightarrow> flag \<or> (\<exists>row \<in> set rows. row ! 1 = Some pwd)"
  by (induction pwd rows flag rule: check_rows.induct) (auto split: if_splits option.splits)

lemma login_needs_password:
  assumes "user_verify my name pwd 1 p db = Inr (True, p', db')"
  shows "\<exists>h db1 rows. my_store_result my h db1 = Some rows \<and> (\<exists>row \<in> set rows. row ! 1 = Some pwd)"
  using assms by (auto simp: user_verify_def Let_def split: prod.splits option.splits if_splits dest!: check_rows_password) blast

end
