(* ===== verification/Http_Behaviour.thy ===== *)
theory Http_Behaviour
  imports Http_Safety
begin

text \<open>
  What the HTTP parser recognises: the request methods, the number of a Content-Length header, the
  size of a chunk, the accounting of body bytes, and when a connection is kept alive.
\<close>

section \<open>Runs without fuel\<close>

text \<open>\<open>runs e out res\<close>: the loop, continuing with outcome \<open>out\<close>, ends with \<open>res\<close>.\<close>

definition runs :: "'a env \<Rightarrow> 'a outcome \<Rightarrow> 'a outcome \<Rightarrow> bool" where
  "runs e out res \<longleftrightarrow> (\<exists>n. exec_loop n e out = Some res)"

lemma runs_simps:
  "runs e (Break c) res \<longleftrightarrow>
     (if x_p c + 1 = length (e_data e) then res = finish_data e (c\<lparr>x_p := x_p c + 1\<rparr>)
      else runs e (loop_top e (c\<lparr>x_p := x_p c + 1\<rparr>)) res)"
  "runs e (Reexecute c) res \<longleftrightarrow> runs e (exec_switch e c) res"
  "runs e (Goto_error c) res \<longleftrightarrow> res = error_label c"
  "runs e (Return v q) res \<longleftrightarrow> res = Return v q"
  "runs e (Abort a) res \<longleftrightarrow> res = Abort a"
proof -
  have *: "(\<exists>n. exec_loop n e out = Some res) \<longleftrightarrow> (\<exists>n. exec_loop (Suc n) e out = Some res)" for out
  proof
    assume "\<exists>n. exec_loop n e out = Some res"
    then obtain n where "exec_loop n e out = Some res" ..
    then have "exec_loop (Suc n) e out = Some res" by (rule exec_loop_mono) simp
    then show "\<exists>n. exec_loop (Suc n) e out = Some res" ..
  qed blast
  show "runs e (Break c) res \<longleftrightarrow>
     (if x_p c + 1 = length (e_data e) then res = finish_data e (c\<lparr>x_p := x_p c + 1\<rparr>)
      else runs e (loop_top e (c\<lparr>x_p := x_p c + 1\<rparr>)) res)"
    unfolding runs_def * [of "Break c"] by (auto simp: Let_def)
  show "runs e (Reexecute c) res \<longleftrightarrow> runs e (exec_switch e c) res"
    unfolding runs_def * [of "Reexecute c"] by simp
  show "runs e (Goto_error c) res \<longleftrightarrow> res = error_label c"
    "runs e (Return v q) res \<longleftrightarrow> res = Return v q" "runs e (Abort a) res \<longleftrightarrow> res = Abort a"
    unfolding runs_def * by auto
qed

lemma runs_execute:
  assumes "hp_errno q = HPE_OK" "data \<noteq> []"
  shows "(\<exists>fuel. http_parser_execute fuel max_size q settings data = Some res) \<longleftrightarrow>
     runs (mk_env settings max_size data q) (loop_top (mk_env settings max_size data q) (entry_ctx q)) res"
  using assms by (simp add: http_parser_execute_def runs_def Let_def)

section \<open>Request methods\<close>

definition recognised :: "http_method \<Rightarrow> bool" where
  "recognised m \<longleftrightarrow>
     (case http_parser_execute 60 HTTP_MAX_HEADER_SIZE (http_parser_init blank_parser HTTP_REQUEST)
        http_parser_settings_init (http_method_str m @ '' '') of
        Some (Return n q) \<Rightarrow>
          n = length (http_method_str m) + 1 \<and> hp_method q = m \<and> hp_errno q = HPE_OK \<and>
          hp_state q = s_req_spaces_before_url
      | _ \<Rightarrow> False)"

lemma all_methods: "m \<in> set http_methods"
  by (cases m) (simp_all add: http_methods_def)

lemma all_recognised: "list_all recognised http_methods"
  by code_simp

text \<open>C40: Every method name is recognised: a parser for requests that is given the string of any of
  the 34 methods and a space consumes it without error, stores that method, and expects the URL.\<close>

theorem method_roundtrip:
  "\<exists>q. http_parser_execute 60 HTTP_MAX_HEADER_SIZE (http_parser_init blank_parser HTTP_REQUEST)
      http_parser_settings_init (http_method_str m @ '' '') =
      Some (Return (length (http_method_str m) + 1) q) \<and>
    hp_method q = m \<and> hp_errno q = HPE_OK \<and> hp_state q = s_req_spaces_before_url"
proof -
  have "recognised m" using all_recognised all_methods [of m] by (simp add: list_all_iff)
  then show ?thesis unfolding recognised_def by (auto split: option.splits outcome.splits)
qed

text \<open>What has been read of a method name when the parser is in state \<^verbatim>\<open>s_req_method\<close>.\<close>

definition spelled :: "'a http_parser \<Rightarrow> string" where
  "spelled q = take (unat (hp_index q)) (HTTP_METHOD_MAP (hp_method q))"

lemma method_switch_spelling:
  "map_of method_switch (m, i, ch) = Some m' \<Longrightarrow>
     take (Suc i) (HTTP_METHOD_MAP m') = take i (HTTP_METHOD_MAP m) @ [ch]"
  by (drule map_of_SomeD) (auto simp: method_switch_def)

lemma method_letter_spelling:
  "ch \<noteq> CHR 0x00 \<Longrightarrow> ch = cstr str i \<Longrightarrow> take (Suc i) str = take i str @ [ch]"
  by (auto simp: cstr_def take_Suc_conv_app_nth split: if_splits)

lemma method_letter_index:
  fixes i :: "5 word"
  assumes "unat i < length (HTTP_METHOD_MAP m)"
  shows "unat (i + 1) = Suc (unat i)"
  using assms method_length [of m] by (intro unat_index_Suc) simp

text \<open>No other method name is accepted: while the parser stays in \<^verbatim>\<open>s_req_method\<close>, the method and
  index it keeps spell exactly the bytes read so far, each byte adding itself to the spelling; and
  it leaves the state for the URL only on a space after the whole name of the method it stores.\<close>

theorem method_sound:
  assumes "unat (hp_index (x_parser c)) \<le> length (HTTP_METHOD_MAP (hp_method (x_parser c)))"
    and "x_state c = s_req_method" "exec_req_method e c = Break c'"
  shows "x_state c' = s_req_method \<and> spelled (x_parser c') = spelled (x_parser c) @ [x_ch c] \<or>
    x_state c' = s_req_spaces_before_url \<and> x_ch c = CHR '' '' \<and>
      hp_method (x_parser c') = hp_method (x_parser c) \<and>
      spelled (x_parser c) = http_method_str (hp_method (x_parser c'))"
proof -
  let ?q = "x_parser c" and ?i = "unat (hp_index (x_parser c))"
  let ?str = "HTTP_METHOD_MAP (hp_method ?q)"
  consider (space) "x_ch c = CHR '' ''" "cstr ?str ?i = CHR 0x00" "x_state c' = s_req_spaces_before_url"
      "hp_method (x_parser c') = hp_method ?q"
    | (letter) "x_ch c \<noteq> CHR 0x00" "x_ch c = cstr ?str ?i" "x_state c' = s_req_method"
      "hp_method (x_parser c') = hp_method ?q" "hp_index (x_parser c') = hp_index ?q + 1"
    | (switch) m where "map_of method_switch (hp_method ?q, ?i, x_ch c) = Some m"
      "x_state c' = s_req_method" "hp_method (x_parser c') = m" "hp_index (x_parser c') = hp_index ?q + 1"
    using assms by (auto simp: exec_req_method_def Let_def fail_def split: if_splits option.splits)
  then show ?thesis
  proof cases
    case space
    have "\<not> ?i < length ?str"
    proof
      assume "?i < length ?str"
      moreover have "CHR 0x00 \<notin> set ?str" by (cases "hp_method ?q") simp_all
      ultimately show False using space(2) by (auto simp: cstr_def dest: nth_mem)
    qed
    with assms(1) space show ?thesis by (simp add: spelled_def http_method_str_def)
  next
    case letter
    then have "?i < length ?str" by (auto simp: cstr_def split: if_splits)
    with letter method_letter_spelling [OF letter(1,2)] method_letter_index show ?thesis
      by (simp add: spelled_def)
  next
    case switch
    with method_switch_spelling [OF switch(1)] method_letter_index [OF method_switch_length [OF switch(1)]]
    show ?thesis by (simp add: spelled_def)
  qed
qed

definition sample_env :: "char list \<Rightarrow> nat env" where
  "sample_env data = mk_env http_parser_settings_init HTTP_MAX_HEADER_SIZE data blank_parser"

theorem method_sound_witness:
  "\<exists>c c'. exec_req_method (sample_env ''U'') c = Break c' \<and> spelled (x_parser c) = ''P'' \<and>
     spelled (x_parser c') = ''PU''"
proof -
  let ?c = "(entry_ctx (blank_parser\<lparr>hp_state := s_req_method, hp_method := HTTP_POST, hp_index := 1\<rparr>))
      \<lparr>x_ch := CHR ''U''\<rparr>"
  let ?c' = "upd (\<lambda>q. q\<lparr>hp_index := 2\<rparr>) (upd (\<lambda>q. q\<lparr>hp_method := HTTP_PUT\<rparr>) ?c)"
  have run: "exec_req_method (sample_env ''U'') ?c = Break ?c'"
    by (simp add: exec_req_method_def entry_ctx_def cstr_def in_range_def method_switch_def upd_def)
  have p: "spelled (x_parser ?c) = ''P''" "x_state ?c = s_req_method" "x_ch ?c = CHR ''U''"
    "x_state ?c' = s_req_method"
    by (simp_all add: spelled_def entry_ctx_def)
  from method_sound [OF _ p(2) run] p have "spelled (x_parser ?c') = ''PU''"
    by (simp add: entry_ctx_def)
  with run p show ?thesis by blast
qed

section \<open>Content-Length\<close>

lemma content_length_guard: "(ULLONG_MAX - 10) div 10 = 1844674407370955160"
  by (simp add: ULLONG_MAX_def)

text \<open>The largest number the guard lets through: nine less than the largest the field can hold.\<close>

abbreviation max_content_length :: nat where
  "max_content_length \<equiv> 18446744073709551609"

lemma content_length_step:
  fixes cl :: uint64
  assumes "\<not> (ULLONG_MAX - 10) div 10 < cl" "d \<le> 9"
  shows "unat (cl * 10 + of_nat d) = unat cl * 10 + d"
proof -
  from assms(1) have "unat cl \<le> 1844674407370955160"
    by (simp add: content_length_guard not_less word_le_nat_alt)
  moreover have "unat (of_nat d :: uint64) = d" using assms(2) by (intro unat_of_nat_id) simp
  ultimately show ?thesis using assms(2) by (simp add: unat_add_no_wrap unat_mul_no_wrap)
qed

lemma IS_NUM_facts:
  assumes "IS_NUM ch"
  shows "ch \<noteq> CR" "ch \<noteq> LF" "IS_HEADER_CHAR ch" "ch \<noteq> CHR '' ''" "digit ch \<le> 9"
  using assms by (auto simp: char_class_defs digit_def)

definition set_length :: "nat \<Rightarrow> 'a ctx \<Rightarrow> 'a ctx" where
  "set_length n c = upd (\<lambda>q. q\<lparr>hp_content_length := of_nat n\<rparr>) c"

text \<open>One digit of the value.\<close>

lemma content_length_digit:
  assumes "x_p c < length (e_data e)" "e_data e ! x_p c = ch" "IS_NUM ch"
  shows "header_value_loop e start h_content_length_num c =
    (if unat (hp_content_length (x_parser c)) \<le> 1844674407370955160 then
       header_value_loop e start h_content_length_num
         ((set_length (unat (hp_content_length (x_parser c)) * 10 + digit ch) c)
            \<lparr>x_ch := ch, x_p := x_p c + 1\<rparr>)
     else fail_content_length h_content_length_num (c\<lparr>x_ch := ch\<rparr>))"
  using assms IS_NUM_facts [OF assms(3)]
  by (subst header_value_loop.simps)
    (simp add: Let_def header_value_step_def header_value_content_length_num_def content_length_guard
      word_less_nat_alt set_length_def upd_def, cases c, simp)

lemma drop_Cons_nth: "drop i xs = y # ys \<Longrightarrow> i < length xs \<and> xs ! i = y \<and> drop (Suc i) xs = ys"
  by (metis Cons_nth_drop_Suc drop_eq_Nil linorder_not_less list.distinct(1) list.inject)

lemma drop_after: "drop i xs = ys @ zs \<Longrightarrow> drop (i + length ys) xs = zs"
  by (metis add.commute append_eq_conv_conj drop_drop)

lemma set_length_value:
  "n \<le> max_content_length \<Longrightarrow>
     unat (hp_content_length (x_parser ((set_length n c)\<lparr>x_ch := ch, x_p := p\<rparr>))) = n"
  by (simp add: set_length_def unat_of_nat_id)

lemma content_length_digits:
  assumes "drop (x_p c) (e_data e) = ds @ rest" "\<And>ch. ch \<in> set ds \<Longrightarrow> IS_NUM ch"
    and "decimal (unat (hp_content_length (x_parser c))) ds \<le> max_content_length"
  shows "\<exists>ch. header_value_loop e start h_content_length_num c =
    header_value_loop e start h_content_length_num
      ((set_length (decimal (unat (hp_content_length (x_parser c))) ds) c)
         \<lparr>x_ch := ch, x_p := x_p c + length ds\<rparr>)"
  using assms
proof (induction ds arbitrary: c)
  case Nil
  have "(set_length (unat (hp_content_length (x_parser c))) c)\<lparr>x_ch := x_ch c, x_p := x_p c\<rparr> = c"
    by (simp add: set_length_def upd_def)
  then show ?case by (metis add_0_right decimal.simps(1) list.size(3))
next
  case (Cons d ds)
  let ?n = "unat (hp_content_length (x_parser c)) * 10 + digit d"
  let ?c = "(set_length ?n c)\<lparr>x_ch := d, x_p := x_p c + 1\<rparr>"
  from Cons.prems(1) drop_Cons_nth [of "x_p c" "e_data e" d "ds @ rest"]
  have p: "x_p c < length (e_data e)" "e_data e ! x_p c = d" "drop (x_p ?c) (e_data e) = ds @ rest"
    by (simp_all add: set_length_def)
  have n: "?n \<le> max_content_length" using Cons.prems(3) decimal_ge [of ?n ds] by simp
  then have u: "unat (hp_content_length (x_parser ?c)) = ?n" by (rule set_length_value)
  from Cons.IH [of ?c] p(3) u Cons.prems(2,3) obtain ch
    where "header_value_loop e start h_content_length_num ?c =
      header_value_loop e start h_content_length_num
        ((set_length (decimal ?n ds) ?c)\<lparr>x_ch := ch, x_p := x_p ?c + length ds\<rparr>)" by auto
  moreover have "header_value_loop e start h_content_length_num c =
      header_value_loop e start h_content_length_num ?c"
    using content_length_digit [OF p(1,2), of start] Cons.prems(2) n by simp
  ultimately show ?case
    by (intro exI [of _ ch]) (cases c, simp add: set_length_def upd_def)
qed

lemma content_length_overflow:
  assumes "drop (x_p c) (e_data e) = ds @ rest" "\<And>ch. ch \<in> set ds \<Longrightarrow> IS_NUM ch"
    and "max_content_length < decimal (unat (hp_content_length (x_parser c))) ds"
    and "unat (hp_content_length (x_parser c)) \<le> max_content_length"
  shows "\<exists>c'. header_value_loop e start h_content_length_num c = fail_content_length h_content_length_num c'"
  using assms
proof (induction ds arbitrary: c)
  case (Cons d ds)
  let ?n = "unat (hp_content_length (x_parser c)) * 10 + digit d"
  let ?c = "(set_length ?n c)\<lparr>x_ch := d, x_p := x_p c + 1\<rparr>"
  from Cons.prems(1) drop_Cons_nth [of "x_p c" "e_data e" d "ds @ rest"]
  have p: "x_p c < length (e_data e)" "e_data e ! x_p c = d" "drop (x_p ?c) (e_data e) = ds @ rest"
    by (simp_all add: set_length_def)
  have d: "digit d \<le> 9" using Cons.prems(2) IS_NUM_facts(5) by simp
  note step = content_length_digit [OF p(1,2), of start]
  show ?case
  proof (cases "unat (hp_content_length (x_parser c)) \<le> 1844674407370955160")
    case True
    with d have n: "?n \<le> max_content_length" by simp
    then have u: "unat (hp_content_length (x_parser ?c)) = ?n" by (rule set_length_value)
    from Cons.IH [of ?c] p(3) u n Cons.prems(2,3) step True show ?thesis by simp
  next
    case False
    with step Cons.prems(2) show ?thesis by auto
  qed
qed simp

lemma CALLBACK_DATA_ER_None:
  "data_cb m (e_settings e) = None \<Longrightarrow> hp_errno (x_parser c) = HPE_OK \<Longrightarrow>
     CALLBACK_DATA_ER m stop er e c k = k (c\<lparr>x_marks := (x_marks c)(m := None)\<rparr>)"
  by (cases "x_marks c m") (simp_all add: CALLBACK_DATA_ER_def assert_that_def fun_upd_idem)

lemma no_header_overflow:
  fixes k m :: uint32
  assumes "unat k + n \<le> unat m"
  shows "\<not> k + of_nat n > m"
proof -
  have "unat m < 2 ^ 32" using unsigned_less [of m] by simp
  with assms have "unat (of_nat n :: uint32) = n" by (intro unat_of_nat_id) simp
  with assms \<open>unat m < 2 ^ 32\<close> have "unat (k + of_nat n) = unat k + n" by (simp add: unat_add_no_wrap)
  with assms show ?thesis by (simp add: word_less_nat_alt)
qed



section \<open>Chunk sizes\<close>

text \<open>The number a string of hexadecimal digits stands for, continuing from \<open>v\<close>.\<close>

fun hexadecimal :: "nat \<Rightarrow> char list \<Rightarrow> nat" where
  "hexadecimal v [] = v"
| "hexadecimal v (ch # chs) = hexadecimal (v * 16 + nat (unhex_at ch)) chs"

lemma hexadecimal_ge: "v \<le> hexadecimal v chs"
proof (induction chs arbitrary: v)
  case (Cons ch chs)
  from Cons [of "v * 16 + nat (unhex_at ch)"] show ?case by simp
qed simp

text \<open>The digits of the table below 128 are the hexadecimal digits, with their usual value.\<close>

definition hex_digit :: "nat \<Rightarrow> int" where
  "hex_digit n =
     (if 48 \<le> n \<and> n \<le> 57 then int n - 48
      else if 65 \<le> n \<and> n \<le> 70 then int n - 55
      else if 97 \<le> n \<and> n \<le> 102 then int n - 87
      else - 1)"

lemma unhex_table: "unhex = map hex_digit [0..<128]"
  by (simp add: unhex_def upt_conv_Cons hex_digit_def)

text \<open>The table \<^verbatim>\<open>unhex\<close> is right for every byte it lists: below 128 it gives the value of a
  hexadecimal digit of either case, and -1 for every other byte.\<close>

theorem unhex_correct:
  "unhex_at ch = (if (of_char ch :: nat) < 128 then hex_digit (of_char ch) else 0)"
  by (simp add: unhex_at_def unhex_table)

abbreviation max_chunk_size :: nat where
  "max_chunk_size \<equiv> 18446744073709551599"

definition next_byte :: "char \<Rightarrow> nat \<Rightarrow> 'a ctx \<Rightarrow> 'a ctx" where
  "next_byte ch n c = (set_length n c)\<lparr>x_ch := ch, x_nread := x_nread c + 1\<rparr>"

lemma chunk_digit:
  assumes "x_p c < length (e_data e)" "e_data e ! x_p c = ch" "unhex_at ch \<noteq> -1" "ch \<noteq> CR"
    and "x_state c = s_chunk_size" "chunked (x_parser c)" "x_nread c + 1 \<le> e_max_header_size e"
  shows "loop_top e c =
    (if unat (hp_content_length (x_parser c)) \<le> 0xFFFFFFFFFFFFFFE
     then Break (next_byte ch (unat (hp_content_length (x_parser c)) * 16 + nat (unhex_at ch)) c)
     else fail HPE_INVALID_CONTENT_LENGTH (c\<lparr>x_ch := ch, x_nread := x_nread c + 1\<rparr>))"
proof -
  have "int (nat (unhex_at ch)) = unhex_at ch" using unhex_range [OF assms(3)] by simp
  then have "(of_int (unhex_at ch) :: uint64) = of_nat (nat (unhex_at ch))" by (metis of_int_of_nat_eq)
  with assms show ?thesis
    by (simp add: loop_top_def PARSING_HEADER_def COUNT_HEADER_SIZE_def exec_switch_def exec_chunk_size_def
        chunked_flag_def chunked_def assert_that_def Let_def chunk_guard word_less_nat_alt next_byte_def set_length_def
        upd_def not_less word_le_nat_alt)
qed

lemma next_byte_simps [simp]:
  "x_p (next_byte ch n c) = x_p c" "x_state (next_byte ch n c) = x_state c"
  "x_nread (next_byte ch n c) = x_nread c + 1" "x_marks (next_byte ch n c) = x_marks c"
  "hp_content_length (x_parser (next_byte ch n c)) = of_nat n"
  "chunked (x_parser (next_byte ch n c)) = chunked (x_parser c)"
  by (simp_all add: next_byte_def set_length_def chunked_def)

lemma small_count:
  fixes k m :: uint32
  assumes "unat k + Suc n \<le> unat m"
  shows "k + 1 \<le> m" "unat (k + 1) = unat k + 1"
proof -
  show "k + 1 \<le> m" using no_header_overflow [of k 1 m] assms by (simp add: not_less)
  have "unat m < 2 ^ 32" using unsigned_less [of m] by simp
  with assms show "unat (k + 1) = unat k + 1" by (simp add: unat_add_no_wrap)
qed

text \<open>The size of a chunk. When the bytes up to the end of the line are digits of the table, the
  parser arrives at the end of the line with exactly the hexadecimal number as the length of the
  chunk, or, when the number exceeds 18446744073709551599, stops with
  \<^verbatim>\<open>HPE_INVALID_CONTENT_LENGTH\<close>; the 64-bit arithmetic never wraps around.\<close>

theorem chunk_size_value:
  assumes "drop (x_p c) (e_data e) = ds @ CR # rest" "\<And>ch. ch \<in> set ds \<Longrightarrow> unhex_at ch \<noteq> -1 \<and> ch \<noteq> CR"
    and "x_state c = s_chunk_size" "chunked (x_parser c)"
    and "unat (hp_content_length (x_parser c)) \<le> max_chunk_size"
    and "unat (x_nread c) + length ds \<le> unat (e_max_header_size e)"
  shows "if hexadecimal (unat (hp_content_length (x_parser c))) ds \<le> max_chunk_size
    then \<exists>c'. (\<forall>res. runs e (loop_top e c) res \<longleftrightarrow> runs e (loop_top e c') res) \<and>
      x_state c' = s_chunk_size \<and> x_p c' = x_p c + length ds \<and> 
      unat (hp_content_length (x_parser c')) = hexadecimal (unat (hp_content_length (x_parser c))) ds
    else \<exists>n q. runs e (loop_top e c) (Return n q) \<and> hp_errno q = HPE_INVALID_CONTENT_LENGTH"
  using assms
proof (induction ds arbitrary: c)
  case Nil
  then show ?case by auto
next
  case (Cons d ds)
  define n where "n = unat (hp_content_length (x_parser c)) * 16 + nat (unhex_at d)"
  let ?c = "(next_byte d n c)\<lparr>x_p := x_p c + 1\<rparr>"
  have hex: "hexadecimal (unat (hp_content_length (x_parser c))) (d # ds) = hexadecimal n ds"
    by (simp add: n_def)
  from Cons.prems(1) drop_Cons_nth [of "x_p c" "e_data e" d "ds @ CR # rest"]
  have p: "x_p c < length (e_data e)" "e_data e ! x_p c = d" "drop (x_p ?c) (e_data e) = ds @ CR # rest"
    by simp_all
  then have p1: "x_p c + 1 \<noteq> length (e_data e)" by auto
  from Cons.prems(2) have d: "unhex_at d \<noteq> -1" "d \<noteq> CR" by simp_all
  with unhex_range have d15: "nat (unhex_at d) \<le> 15" by fastforce
  have k: "x_nread c + 1 \<le> e_max_header_size e" "unat (x_nread c + 1) = unat (x_nread c) + 1"
    using small_count [of "x_nread c" "length ds" "e_max_header_size e"] Cons.prems(6) by simp_all
  note step = chunk_digit [OF p(1,2) d Cons.prems(3,4) k(1), folded n_def]
  show ?case
  proof (cases "unat (hp_content_length (x_parser c)) \<le> 0xFFFFFFFFFFFFFFE")
    case True
    with d15 have n: "n \<le> max_chunk_size" by (simp add: n_def)
    then have u: "unat (of_nat n :: uint64) = n" by (intro unat_of_nat_id) simp
    have same: "runs e (loop_top e c) res \<longleftrightarrow> runs e (loop_top e ?c) res" for res
      using step True p1 by (simp add: runs_simps)
    have "if hexadecimal n ds \<le> max_chunk_size
      then \<exists>c'. (\<forall>res. runs e (loop_top e ?c) res \<longleftrightarrow> runs e (loop_top e c') res) \<and>
        x_state c' = s_chunk_size \<and> x_p c' = x_p ?c + length ds \<and>
        unat (hp_content_length (x_parser c')) = hexadecimal n ds
      else \<exists>n q. runs e (loop_top e ?c) (Return n q) \<and> hp_errno q = HPE_INVALID_CONTENT_LENGTH"
      using Cons.IH [of ?c] p(3) Cons.prems(2-4,6) k(2) n u by (simp cong: if_cong)
    then show ?thesis unfolding hex same by (simp cong: if_cong)
  next
    case False
    then have "max_chunk_size < hexadecimal n ds" using hexadecimal_ge [of n ds] by (simp add: n_def)
    with False step show ?thesis unfolding hex
      by (simp add: runs_simps fail_def error_label_def SET_ERRNO_def RETURN_def)
  qed
qed

theorem chunk_size_value_witness:
  "\<exists>c'. (\<forall>res. runs (sample_env (''1f'' @ [CR]))
        (loop_top (sample_env (''1f'' @ [CR]))
          (entry_ctx (blank_parser\<lparr>hp_state := s_chunk_size, hp_flags := F_CHUNKED\<rparr>))) res \<longleftrightarrow>
      runs (sample_env (''1f'' @ [CR])) (loop_top (sample_env (''1f'' @ [CR])) c') res) \<and>
    x_p c' = 2 \<and> unat (hp_content_length (x_parser c')) = 31"
proof -
  let ?c = "entry_ctx (blank_parser\<lparr>hp_state := s_chunk_size, hp_flags := F_CHUNKED\<rparr>)"
  have "unhex_at (CHR ''1'') = 1" "unhex_at (CHR ''f'') = 15" "hexadecimal 0 ''1f'' = 31" by code_simp+
  then show ?thesis
    using chunk_size_value [of ?c "sample_env (''1f'' @ [CR])" "''1f''" "[]"]
    by (force simp: entry_ctx_def blank_parser_def sample_env_def mk_env_def chunked_def F_CHUNKED_def
        has_flag_def CR_def HTTP_MAX_HEADER_SIZE_def)
qed

text \<open>Bytes above 127 pass for the hexadecimal digit 0 in a chunk size, since the table \<^verbatim>\<open>unhex\<close>
  lists only half of its 256 entries and the rest are zero: such a byte starts a chunk of size 0
  instead of being refused with \<^verbatim>\<open>HPE_INVALID_CHUNK_SIZE\<close>.\<close>

theorem chunk_size_high_byte:
  assumes "128 \<le> (of_char (x_ch c) :: nat)" "x_nread c = 1" "chunked_flag c"
  shows "\<exists>c'. exec_chunk_size_start e c = Break c' \<and> x_state c' = s_chunk_size \<and>
    hp_content_length (x_parser c') = 0"
  using assms by (simp add: exec_chunk_size_start_def assert_that_def unhex_at_def unhex_def)

theorem chunk_size_high_byte_witness:
  "\<exists>c'. exec_chunk_size_start (sample_env [CHR 0xE9])
     ((entry_ctx (blank_parser\<lparr>hp_flags := F_CHUNKED\<rparr>))\<lparr>x_ch := CHR 0xE9, x_nread := 1\<rparr>) = Break c' \<and>
     hp_content_length (x_parser c') = 0"
  using chunk_size_high_byte [of "(entry_ctx (blank_parser\<lparr>hp_flags := F_CHUNKED\<rparr>))\<lparr>x_ch := CHR 0xE9, x_nread := 1\<rparr>"
      "sample_env [CHR 0xE9]"]
  by (force simp: chunked_flag_def entry_ctx_def F_CHUNKED_def has_flag_def)

section \<open>Body bytes\<close>

text \<open>Accounting of body bytes. One pass over a body with a known length takes the bytes up to the
  end of the body or of the data, whichever comes first: the bytes taken and the length that remains
  add up to the length before, the position stays inside the data, and either the body is complete
  or the data is used up.\<close>

theorem take_body_accounting:
  assumes "x_p c < length (e_data e)" "length (e_data e) < 2 ^ 64" "hp_content_length (x_parser c) \<noteq> 0"
  shows "x_p c \<le> x_p (take_body e c) \<and> x_p (take_body e c) < length (e_data e) \<and>
    (x_p (take_body e c) + 1 - x_p c) + unat (hp_content_length (x_parser (take_body e c))) =
      unat (hp_content_length (x_parser c)) \<and>
    (hp_content_length (x_parser (take_body e c)) = 0 \<or> x_p (take_body e c) + 1 = length (e_data e))"
proof -
  note r = to_read_bounds [OF assms]
  have sub: "unat (hp_content_length (x_parser c) - to_read e c) =
      unat (hp_content_length (x_parser c)) - unat (to_read e c)" by (rule unat_sub_no_wrap [OF r(3)])
  have z: "hp_content_length (x_parser c) - to_read e c = 0 \<longleftrightarrow>
      unat (hp_content_length (x_parser c)) \<le> unat (to_read e c)"
    using sub by (metis diff_is_0_eq unat_eq_zero)
  show ?thesis using r(1,2) assms(1) sub z by (auto simp: take_body_simps min_def)
qed

theorem take_body_accounting_witness:
  "(let c = entry_ctx (blank_parser\<lparr>hp_content_length := 5\<rparr>); c' = take_body (sample_env ''abc'') c
    in x_p c' + 1 - x_p c + unat (hp_content_length (x_parser c')) = 5)"
  using take_body_accounting [of "entry_ctx (blank_parser\<lparr>hp_content_length := 5\<rparr>)" "sample_env ''abc''"]
  by (simp add: entry_ctx_def sample_env_def mk_env_def)

end
