(* ===== verification/Rpc.thy ===== *)
theory Rpc
  imports Buffer
begin

text \<open>
  \<^verbatim>\<open>examples/rpc\<close>: remote procedure calls over a byte stream, \<^verbatim>\<open>RpcChannel.h\<close>, \<^verbatim>\<open>RpcChannel.cpp\<close>,
  \<^verbatim>\<open>RpcController.h\<close> and \<^verbatim>\<open>RpcController.cpp\<close>.

  A message travels as a frame: the bytes \<^verbatim>\<open>ERPC\<close>, the length of the body and the length of the meta data
  as 32-bit numbers in network order, the serialised meta data and the serialised message. The
  serialisation is Google's protobuf library with code generated from the \<^verbatim>\<open>.proto\<close> files; it is a parameter
  of the definitions, the record \<open>rpc_codec\<close>, with the services of the user. What a channel asks of others
  is output, a list of \<open>rpc_op\<close>. Controllers are shared by address; \<open>None\<close> is a null pointer.

  \<^verbatim>\<open>process\<close> is a loop that need not end, a partial function with the value \<open>None\<close> when it does not.
\<close>

section \<open>Data\<close>

datatype rpc_error_code = ENOERROR | ENOSERVICE | ENOMETHOD | EREQUEST | ERESPONSE | EINTERNAL

fun code_number :: "rpc_error_code \<Rightarrow> int" where
  "code_number ENOERROR = 0"
| "code_number ENOSERVICE = 1001"
| "code_number ENOMETHOD = 1002"
| "code_number EREQUEST = 1003"
| "code_number ERESPONSE = 1004"
| "code_number EINTERNAL = 1005"

definition CodeError :: "(int \<times> string) list" where
  "CodeError =
     [(1001, ''no service''), (1002, ''no method''), (1003, ''invalid request''),
      (1004, ''invalid response''), (1005, ''internal error'')]"

record rpc_meta =
  correlation_id :: int64
  request_meta :: "(string \<times> string) option"
  response_meta :: "(int \<times> string) option"

record 'm rpc_controller =
  response :: "'m option"
  done_closure :: "nat option"
  error_text :: string
  error_code :: int
  log_id :: int

record ('m, 's) rpc_codec =
  ser_meta :: "rpc_meta \<Rightarrow> string"
  parse_meta :: "string \<Rightarrow> rpc_meta option"
  ser_msg :: "'m \<Rightarrow> string"
  parse_into :: "'m \<Rightarrow> string \<Rightarrow> 'm option"
  find_method :: "'s \<Rightarrow> string \<Rightarrow> bool"
  parse_request :: "'s \<Rightarrow> string \<Rightarrow> string \<Rightarrow> 'm option"
  new_response :: "'s \<Rightarrow> string \<Rightarrow> 'm"

text \<open>The output of a channel: a frame for the connection, closing it, running a closure with the
  controller that has the result, and calling a method of a service.\<close>

datatype ('m, 's) rpc_op =
    Send_frame string
  | Close_conn
  | Run_closure nat "'m rpc_controller"
  | Call_service 's string int64 'm

text \<open>The allocations for a request that can fail.\<close>

datatype rpc_alloc = Alloc_request | Alloc_response | Alloc_controller | Alloc_callback

record ('m, 's) rpc_channel =
  has_conn :: bool
  reqs :: "int64 \<Rightarrow> 'm rpc_controller option"
  services :: "(string \<Rightarrow> 's option) option"
  next_id :: int64

section \<open>Controllers\<close>

definition mk_controller :: "'m rpc_controller" where
  "mk_controller = \<lparr>response = None, done_closure = None, error_text = [], error_code = 0, log_id = 0\<rparr>"

definition reset_controller :: "'m rpc_controller \<Rightarrow> 'm rpc_controller" where
  "reset_controller c = c\<lparr>response := None, done_closure := None, error_text := [], error_code := 0, log_id := 0\<rparr>"

definition Failed :: "'m rpc_controller \<Rightarrow> bool" where
  "Failed c \<longleftrightarrow> error_code c \<noteq> 0"

definition SetFailed :: "string \<Rightarrow> 'm rpc_controller \<Rightarrow> 'm rpc_controller" where
  "SetFailed reason c = c\<lparr>error_text := reason, error_code := - 1\<rparr>"

definition set_error_code :: "int \<Rightarrow> 'm rpc_controller \<Rightarrow> 'm rpc_controller" where
  "set_error_code ec c = c\<lparr>error_code := ec\<rparr>"

definition set_log_id :: "int \<Rightarrow> 'm rpc_controller \<Rightarrow> 'm rpc_controller" where
  "set_log_id n c = c\<lparr>log_id := n\<rparr>"

definition ErrorText :: "'m rpc_controller \<Rightarrow> string" where
  "ErrorText c = error_text c"

definition IsCanceled :: "'m rpc_controller \<Rightarrow> bool" where
  "IsCanceled c = False"

section \<open>Frames\<close>

definition HeaderLen :: size_t where "HeaderLen = 12"

text \<open>A 32-bit number in network order, as it lies in memory.\<close>

definition be32 :: "uint32 \<Rightarrow> string" where
  "be32 n = map (\<lambda>k. char_of (unat n div 256 ^ k mod 256)) [3, 2, 1, 0]"

definition read_be32 :: "string \<Rightarrow> uint32" where
  "read_be32 bs = of_nat (foldl (\<lambda>v c. v * 256 + of_char c) 0 bs)"

text \<open>Reading \<open>n\<close> bytes at \<^verbatim>\<open>begin_read() + off\<close>.\<close>

definition peek :: "buffer \<Rightarrow> nat \<Rightarrow> nat \<Rightarrow> buffer_error + string" where
  "peek b off n =
     (if unat (read_index b) + off + n \<le> length (buff b)
      then Inr (take n (drop (unat (read_index b) + off) (buff b)))
      else Inl OutOfBounds)"

text \<open>\<^verbatim>\<open>pack_send\<close>: the buffer it fills.\<close>

definition pack_buffer :: "('m, 's) rpc_codec \<Rightarrow> rpc_meta \<Rightarrow> 'm option \<Rightarrow> buffer_error + buffer" where
  "pack_buffer codec meta msg =
     (let meta_bytes = ser_meta codec meta;
          msg_bytes = (case msg of None \<Rightarrow> [] | Some m \<Rightarrow> ser_msg codec m);
          meta_len = of_nat (length meta_bytes) :: uint32;
          msg_len = of_nat (length msg_bytes) :: uint32;
          body_len = meta_len + msg_len
      in bindE (ensure_writable (mk_buffer InitialSize) (ucast body_len + HeaderLen)) (\<lambda>b.
         bindE (write_data b (Some (''ERPC'' @ be32 body_len @ be32 meta_len)) HeaderLen) (\<lambda>b.
         bindE (store_at_write b meta_bytes) (\<lambda>b.
         let b = has_written b (ucast meta_len)
         in if msg_len > 0
            then bindE (store_at_write b msg_bytes) (\<lambda>b. Inr (has_written b (ucast msg_len)))
            else Inr b))))"

definition pack_send ::
    "('m, 's) rpc_codec \<Rightarrow> rpc_meta \<Rightarrow> 'm option \<Rightarrow> ('m, 's) rpc_channel \<Rightarrow> buffer_error + ('m, 's) rpc_op list" where
  "pack_send codec meta msg ch =
     bindE (pack_buffer codec meta msg) (\<lambda>b.
       if has_conn ch then bindE (read_at b (readable_bytes b)) (\<lambda>d. Inr [Send_frame d]) else Inr [])"

section \<open>The channel\<close>

text \<open>The constructor leaves \<^verbatim>\<open>services_\<close> and \<^verbatim>\<open>id_\<close> uninitialised: their values are arguments.\<close>

definition mk_channel :: "(string \<Rightarrow> 's option) option \<Rightarrow> int64 \<Rightarrow> ('m, 's) rpc_channel" where
  "mk_channel garbage_services garbage_id =
     \<lparr>has_conn = False, reqs = (\<lambda>_. None), services = garbage_services, next_id = garbage_id\<rparr>"

definition set_conn :: "bool \<Rightarrow> ('m, 's) rpc_channel \<Rightarrow> ('m, 's) rpc_channel" where
  "set_conn alive ch = ch\<lparr>has_conn := alive\<rparr>"

definition set_services :: "(string \<Rightarrow> 's option) option \<Rightarrow> ('m, 's) rpc_channel \<Rightarrow> ('m, 's) rpc_channel" where
  "set_services s ch = ch\<lparr>services := s\<rparr>"

text \<open>\<^verbatim>\<open>CallMethod\<close>, for the method \<open>meth\<close> of the service \<open>svc\<close>.\<close>

definition CallMethod ::
    "('m, 's) rpc_codec \<Rightarrow> string \<Rightarrow> string \<Rightarrow> 'm rpc_controller \<Rightarrow> 'm \<Rightarrow> 'm option \<Rightarrow> nat option \<Rightarrow>
     ('m, 's) rpc_channel \<Rightarrow> buffer_error + ('m, 's) rpc_op list \<times> ('m, 's) rpc_channel" where
  "CallMethod codec svc meth ctrl request resp closure ch =
     (let cid = next_id ch;
          meta = \<lparr>correlation_id = cid, request_meta = Some (svc, meth), response_meta = None\<rparr>;
          ctrl1 = ctrl\<lparr>response := resp, done_closure := closure\<rparr>;
          ch1 = ch\<lparr>next_id := cid + 1, reqs := (reqs ch)(cid := Some ctrl1)\<rparr>
      in bindE (pack_send codec meta (Some request) ch1) (\<lambda>ops. Inr (ops, ch1)))"

text \<open>The destructor: what it deletes, for the outstanding requests in the order \<open>ids\<close> in which \<^verbatim>\<open>reqs_\<close> is
  traversed. Deleting a null pointer does nothing.\<close>

datatype 'm rpc_freed = Free_response 'm | Free_closure nat | Free_controller "'m rpc_controller"

definition free_request :: "'m rpc_controller \<Rightarrow> 'm rpc_freed list" where
  "free_request ctrl =
     (case response ctrl of None \<Rightarrow> [] | Some m \<Rightarrow> [Free_response m]) @
     (case done_closure ctrl of None \<Rightarrow> [] | Some k \<Rightarrow> [Free_closure k]) @ [Free_controller ctrl]"

definition destroy_channel :: "int64 list \<Rightarrow> ('m, 's) rpc_channel \<Rightarrow> 'm rpc_freed list" where
  "destroy_channel ids ch =
     concat (map (\<lambda>cid. case reqs ch cid of None \<Rightarrow> [] | Some ctrl \<Rightarrow> free_request ctrl) ids)"

definition send_resp ::
    "('m, 's) rpc_codec \<Rightarrow> int64 \<Rightarrow> rpc_error_code \<Rightarrow> 'm option \<Rightarrow> ('m, 's) rpc_channel \<Rightarrow>
     buffer_error + ('m, 's) rpc_op list" where
  "send_resp codec cid code resp ch =
     pack_send codec
       \<lparr>correlation_id = cid, request_meta = None,
        response_meta = Some (code_number code,
          case map_of CodeError (code_number code) of None \<Rightarrow> [] | Some txt \<Rightarrow> txt)\<rparr> resp ch"

text \<open>\<^verbatim>\<open>on_done\<close>, called when the user's method has finished.\<close>

definition on_done ::
    "('m, 's) rpc_codec \<Rightarrow> int64 \<Rightarrow> 'm rpc_controller \<Rightarrow> ('m, 's) rpc_channel \<Rightarrow>
     buffer_error + ('m, 's) rpc_op list" where
  "on_done codec cid ctrl ch =
     send_resp codec cid (if Failed ctrl then EINTERNAL else ENOERROR) (response ctrl) ch"

text \<open>A response, at the client.\<close>

definition process_response ::
    "('m, 's) rpc_codec \<Rightarrow> rpc_meta \<Rightarrow> string \<Rightarrow> ('m, 's) rpc_channel \<Rightarrow>
     ('m, 's) rpc_op list \<times> ('m, 's) rpc_channel" where
  "process_response codec meta msg ch =
     (let cid = correlation_id meta
      in case reqs ch cid of
           None \<Rightarrow> ([], ch)
         | Some ctrl \<Rightarrow>
             (let ch1 = ch\<lparr>reqs := (reqs ch)(cid := None)\<rparr>;
                  (error, ctrl1) =
                    (case response ctrl of
                       None \<Rightarrow> (ENOERROR, ctrl)
                     | Some proto \<Rightarrow>
                         (case parse_into codec proto msg of
                            None \<Rightarrow> (ERESPONSE, ctrl)
                          | Some m \<Rightarrow> (ENOERROR, ctrl\<lparr>response := Some m\<rparr>)));
                  ctrl2 = (case map_of CodeError (code_number error) of
                             None \<Rightarrow> ctrl1 | Some txt \<Rightarrow> SetFailed txt ctrl1)
              in (case done_closure ctrl2 of None \<Rightarrow> [] | Some k \<Rightarrow> [Run_closure k ctrl2], ch1)))"

text \<open>A request, at the server; \<open>oom\<close> says which allocations fail.\<close>

definition process_request ::
    "('m, 's) rpc_codec \<Rightarrow> (rpc_alloc \<Rightarrow> bool) \<Rightarrow> rpc_meta \<Rightarrow> string \<times> string \<Rightarrow> string \<Rightarrow> ('m, 's) rpc_channel \<Rightarrow>
     buffer_error + ('m, 's) rpc_op list" where
  "process_request codec oom meta req msg ch =
     (case req of (svc, meth) \<Rightarrow>
        (let outcome =
           (case services ch of
              None \<Rightarrow> Inl ENOSERVICE
            | Some table \<Rightarrow>
                (case table svc of
                   None \<Rightarrow> Inl ENOSERVICE
                 | Some service \<Rightarrow>
                     if \<not> find_method codec service meth then Inl ENOMETHOD
                     else if oom Alloc_request then Inl EINTERNAL
                     else
                       (case parse_request codec service meth msg of
                          None \<Rightarrow> Inl EREQUEST
                        | Some request \<Rightarrow>
                            if oom Alloc_response \<or> oom Alloc_controller \<or> oom Alloc_callback then Inl EINTERNAL
                            else Inr [Call_service service meth (correlation_id meta) request])))
         in case outcome of
              Inr ops \<Rightarrow> Inr ops
            | Inl error \<Rightarrow> send_resp codec (correlation_id meta) error None ch))"

definition process_message ::
    "('m, 's) rpc_codec \<Rightarrow> (rpc_alloc \<Rightarrow> bool) \<Rightarrow> rpc_meta \<Rightarrow> string \<Rightarrow> ('m, 's) rpc_channel \<Rightarrow>
     buffer_error + ('m, 's) rpc_op list \<times> ('m, 's) rpc_channel" where
  "process_message codec oom meta msg ch =
     (if response_meta meta \<noteq> None then Inr (process_response codec meta msg ch)
      else
        (case request_meta meta of
           None \<Rightarrow> Inr ([], ch)
         | Some req \<Rightarrow> bindE (process_request codec oom meta req msg ch) (\<lambda>ops. Inr (ops, ch))))"

text \<open>What one pass of the loop in \<^verbatim>\<open>process\<close> finds: it returns, it handles a complete frame and goes on, or the
  meta data of a complete frame cannot be parsed; then the connection is closed and the loop goes on too.\<close>

datatype frame_status = Frame_wait | Frame_bad_meta | Frame_ok rpc_meta string nat

definition parse_frame :: "('m, 's) rpc_codec \<Rightarrow> buffer \<Rightarrow> buffer_error + frame_status" where
  "parse_frame codec b =
     bindE (peek b 0 4) (\<lambda>magic.
     if magic \<noteq> ''ERPC'' then Inr Frame_wait
     else
       bindE (peek b 4 4) (\<lambda>l1. bindE (peek b 8 4) (\<lambda>l2.
       let body_len = read_be32 l1; meta_len = read_be32 l2
       in if body_len < meta_len then Inr Frame_wait
          else if readable_bytes b < HeaderLen + ucast body_len then Inr Frame_wait
          else
            bindE (peek b 12 (unat meta_len)) (\<lambda>meta_bytes.
            bindE (peek b (12 + unat meta_len) (unat (body_len - meta_len))) (\<lambda>msg.
            Inr (case parse_meta codec meta_bytes of
                   None \<Rightarrow> Frame_bad_meta
                 | Some meta \<Rightarrow> Frame_ok meta msg (unat body_len)))))))"

partial_function (option) process ::
    "('m, 's) rpc_codec \<Rightarrow> (rpc_alloc \<Rightarrow> bool) \<Rightarrow> buffer \<Rightarrow> ('m, 's) rpc_op list \<Rightarrow> ('m, 's) rpc_channel \<Rightarrow>
     (buffer_error + ('m, 's) rpc_op list \<times> buffer \<times> ('m, 's) rpc_channel) option" where
  "process codec oom b out ch =
     (if readable_bytes b \<ge> HeaderLen then
        (case parse_frame codec b of
           Inl e \<Rightarrow> Some (Inl e)
         | Inr Frame_wait \<Rightarrow> Some (Inr (out, b, ch))
         | Inr Frame_bad_meta \<Rightarrow> process codec oom b (if has_conn ch then out @ [Close_conn] else out) ch
         | Inr (Frame_ok meta msg body_len) \<Rightarrow>
             (case process_message codec oom meta msg ch of
                Inl e \<Rightarrow> Some (Inl e)
              | Inr (ops, ch1) \<Rightarrow> process codec oom (has_readed b (HeaderLen + of_nat body_len)) (out @ ops) ch1))
      else Some (Inr (out, b, ch)))"

section \<open>Bytes in buffers\<close>

lemma be32_length [simp]: "length (be32 n) = 4"
  by (simp add: be32_def)

lemma read_be32 [simp]: "read_be32 (be32 n) = n"
proof -
  let ?a = "unat n"
  have "?a < 2 ^ 32" using unsigned_less [of n] by simp
  then have "?a div 256 ^ 3 < 256" by (simp add: less_mult_imp_div_less)
  then have top: "?a div 256 ^ 3 mod 256 = ?a div 256 ^ 3" by simp
  have up: "?a div 256 ^ Suc k * 256 + ?a div 256 ^ k mod 256 = ?a div 256 ^ k" for k
    using div_mult_mod_eq [of "?a div 256 ^ k" 256] by (simp add: div_mult2_eq [symmetric] mult.commute)
  have "((?a div 256 ^ 3 * 256 + ?a div 256 ^ 2 mod 256) * 256 + ?a div 256 ^ 1 mod 256) * 256 + ?a div 256 ^ 0 mod 256 = ?a"
    using up [of 2] up [of 1] up [of 0] by (simp add: numeral_3_eq_3 numeral_2_eq_2)
  with top have "foldl (\<lambda>v c. v * 256 + of_char c) 0 (be32 n) = ?a"
    by (simp add: be32_def)
  then show ?thesis by (simp add: read_be32_def)
qed

lemma take_drop_take_drop:
  "off + n \<le> k \<Longrightarrow> take n (drop off (take k (drop r xs))) = take n (drop (r + off) xs)"
  by (simp add: drop_take add.commute)

lemma peek_contents:
  assumes "buffer_inv b" "off + n \<le> length (contents b)"
  shows "peek b off n = Inr (take n (drop off (contents b)))"
proof -
  have k: "length (contents b) = unat (readable_bytes b)" using assms(1) by (rule length_contents)
  have "unat (read_index b) + unat (readable_bytes b) \<le> length (buff b)"
    using assms(1) by (auto elim!: buffer_invE)
  moreover have "take n (drop off (contents b)) = take n (drop (unat (read_index b) + off) (buff b))"
    using assms(2) unfolding k by (simp add: contents_def take_drop_take_drop)
  ultimately show ?thesis using assms(2) unfolding k by (simp add: peek_def)
qed

text \<open>Storing bytes where there is room.\<close>

lemma store_in_room:
  assumes "buffer_inv b" "length d \<le> unat (writable_bytes b)" "unat n = length d"
  shows "\<exists>b'. store_at_write b d = Inr b' \<and> buffer_inv (has_written b' n) \<and>
    contents (has_written b' n) = contents b @ d \<and>
    unat (writable_bytes (has_written b' n)) = unat (writable_bytes b) - length d"
proof -
  let ?b = "b\<lparr>buff := splice_at (unat (write_index b)) d (buff b)\<rparr>"
  from splice_written [OF assms(1) assms(3) [symmetric]] assms(2,3)
  have inv: "buffer_inv (has_written ?b n)" "contents (has_written ?b n) = contents b @ d"
    "write_index (has_written ?b n) = write_index b + n" by simp_all
  have room: "unat (write_index b) + length d \<le> length (buff b)"
    using assms(1,2) by (auto elim!: buffer_invE)
  have len: "length (buff (has_written ?b n)) = length (buff b)"
    using room by (simp add: has_written_def)
  have "unat (write_index b + n) = unat (write_index b) + length d"
    using assms room by (auto elim!: buffer_invE simp: unat_add_no_wrap)
  with inv len have "unat (writable_bytes (has_written ?b n)) = length (buff b) - (unat (write_index b) + length d)"
    by (auto elim!: buffer_invE)
  moreover have "unat (writable_bytes b) = length (buff b) - unat (write_index b)"
    using assms(1) by (auto elim!: buffer_invE)
  ultimately show ?thesis using inv room by (simp add: store_at_write_def)
qed

lemma write_in_room:
  assumes "buffer_inv b" "length d \<le> unat (writable_bytes b)" "unat n = length d" "n \<noteq> 0"
  shows "\<exists>b'. write_data b (Some d) n = Inr b' \<and> buffer_inv b' \<and> contents b' = contents b @ d \<and>
    unat (writable_bytes b') = unat (writable_bytes b) - length d"
proof -
  from store_in_room [OF assms(1-3)] obtain b' where
    b': "store_at_write b d = Inr b'" "buffer_inv (has_written b' n)" "contents (has_written b' n) = contents b @ d"
      "unat (writable_bytes (has_written b' n)) = unat (writable_bytes b) - length d" by blast
  have "\<not> writable_bytes b < n" using assms(2,3) by (simp add: word_less_nat_alt)
  with b'(1) assms(3,4) have "write_data b (Some d) n = Inr (has_written b' n)"
    by (auto simp: write_data_def ensure_writable_def store_at_write_def split: if_splits)
  with b' show ?thesis by blast
qed

section \<open>Frames can be read back\<close>

definition msg_bytes :: "('m, 's) rpc_codec \<Rightarrow> 'm option \<Rightarrow> string" where
  "msg_bytes codec msg = (case msg of None \<Rightarrow> [] | Some m \<Rightarrow> ser_msg codec m)"

definition body_size :: "('m, 's) rpc_codec \<Rightarrow> rpc_meta \<times> 'm option \<Rightarrow> nat" where
  "body_size codec mm = length (ser_meta codec (fst mm)) + length (msg_bytes codec (snd mm))"

text \<open>The frame of a message.\<close>

definition frame :: "('m, 's) rpc_codec \<Rightarrow> rpc_meta \<times> 'm option \<Rightarrow> string" where
  "frame codec mm =
     ''ERPC'' @ be32 (of_nat (body_size codec mm)) @ be32 (of_nat (length (ser_meta codec (fst mm)))) @
     ser_meta codec (fst mm) @ msg_bytes codec (snd mm)"

lemma length_frame: "length (frame codec mm) = 12 + body_size codec mm"
  by (simp add: frame_def body_size_def)

lemma pack_buffer_frame:
  assumes "body_size codec (meta, msg) < 2 ^ 32"
  shows "\<exists>b. pack_buffer codec meta msg = Inr b \<and> buffer_inv b \<and> contents b = frame codec (meta, msg)"
proof -
  let ?m = "ser_meta codec meta" and ?g = "msg_bytes codec msg"
  let ?ml = "of_nat (length ?m) :: uint32" and ?gl = "of_nat (length ?g) :: uint32"
  have sum: "length ?m + length ?g < 2 ^ 32" using assms by (simp add: body_size_def)
  then have u: "unat ?ml = length ?m" "unat ?gl = length ?g" "unat (?ml + ?gl) = length ?m + length ?g"
    "?ml + ?gl = of_nat (body_size codec (meta, msg))"
    by (simp_all add: unat_of_nat_id unat_add_no_wrap body_size_def)
  have up: "unat (ucast x :: size_t) = unat x" for x :: uint32
  proof -
    have "unat x < 2 ^ 32" using unsigned_less [of x] by simp
    then show ?thesis by (simp add: unsigned_ucast_eq take_bit_nat_eq_self)
  qed
  have total: "unat (ucast (?ml + ?gl) + HeaderLen) = length ?m + length ?g + 12"
    using sum up [of "?ml + ?gl"] u(3) by (simp add: unat_add_no_wrap HeaderLen_def)
  have new: "buffer_inv (mk_buffer InitialSize)" "fits (mk_buffer InitialSize) (unat (ucast (?ml + ?gl) + HeaderLen))"
    using total sum by (simp_all add: mk_buffer_inv fits_def InitialSize_def) (simp add: mk_buffer_def)
  from ensure_writable_room [OF new] obtain b1 where
    b1: "ensure_writable (mk_buffer InitialSize) (ucast (?ml + ?gl) + HeaderLen) = Inr b1" "buffer_inv b1"
      "contents b1 = []" "length ?m + length ?g + 12 \<le> unat (writable_bytes b1)"
    unfolding total by (auto simp: made_room_def)
  let ?h = "''ERPC'' @ be32 (?ml + ?gl) @ be32 ?ml"
  from write_in_room [OF b1(2), of ?h HeaderLen] b1(3,4) obtain b2 where
    b2: "write_data b1 (Some ?h) HeaderLen = Inr b2" "buffer_inv b2" "contents b2 = ?h"
      "length ?m + length ?g \<le> unat (writable_bytes b2)"
    by (auto simp: HeaderLen_def)
  from store_in_room [OF b2(2), of ?m "ucast ?ml"] b2(3,4) up [of ?ml] u(1) obtain b3 where
    b3: "store_at_write b2 ?m = Inr b3" "buffer_inv (has_written b3 (ucast ?ml))"
      "contents (has_written b3 (ucast ?ml)) = ?h @ ?m" "length ?g \<le> unat (writable_bytes (has_written b3 (ucast ?ml)))"
    by auto
  from store_in_room [OF b3(2), of ?g "ucast ?gl"] b3(3,4) up [of ?gl] u(2) obtain b4 where
    b4: "store_at_write (has_written b3 (ucast ?ml)) ?g = Inr b4" "buffer_inv (has_written b4 (ucast ?gl))"
      "contents (has_written b4 (ucast ?gl)) = (?h @ ?m) @ ?g" by auto
  have fr: "frame codec (meta, msg) = ?h @ ?m @ ?g" using u(4) by (simp add: frame_def)
  show ?thesis
  proof (cases "?gl > 0")
    case True
    with b1 b2 b3 b4 have "pack_buffer codec meta msg = Inr (has_written b4 (ucast ?gl))"
      by (simp add: pack_buffer_def msg_bytes_def Let_def)
    with b4 fr show ?thesis by simp
  next
    case False
    then have "?g = []" using u(2) by (simp add: word_gt_0 flip: length_0_conv)
    with False b1 b2 b3 have "pack_buffer codec meta msg = Inr (has_written b3 (ucast ?ml))"
      by (simp add: pack_buffer_def msg_bytes_def Let_def)
    with b3 fr \<open>?g = []\<close> show ?thesis by simp
  qed
qed

text \<open>A buffer that starts with a complete frame.\<close>

lemma ucast_len [simp]: "unat (ucast (x :: uint32) :: size_t) = unat x"
proof -
  have "unat x < 2 ^ 32" using unsigned_less [of x] by simp
  then show ?thesis by (simp add: unsigned_ucast_eq take_bit_nat_eq_self)
qed

lemma header_len_add: "unat (HeaderLen + ucast (x :: uint32)) = 12 + unat x"
proof -
  have "unat x < 2 ^ 32" using unsigned_less [of x] by simp
  then show ?thesis by (simp add: HeaderLen_def unat_add_no_wrap)
qed

definition has_frame :: "('m, 's) rpc_codec \<Rightarrow> rpc_meta \<times> 'm option \<Rightarrow> string \<Rightarrow> buffer \<Rightarrow> bool" where
  "has_frame codec mm rest b \<longleftrightarrow>
     buffer_inv b \<and> contents b = frame codec mm @ rest \<and> body_size codec mm < 2 ^ 32"

text \<open>The header of a frame that is there as far as byte 12, complete or not.\<close>

lemma peek_header:
  assumes "buffer_inv b" "12 \<le> length (contents b)"
    "take 12 (contents b) = ''ERPC'' @ be32 x @ be32 y"
  shows "peek b 0 4 = Inr ''ERPC''" "peek b 4 4 = Inr (be32 x)" "peek b 8 4 = Inr (be32 y)"
proof -
  have part: "take 4 (drop off (contents b)) = take 4 (drop off (''ERPC'' @ be32 x @ be32 y))" if "off + 4 \<le> 12" for off
    using that unfolding assms(3) [symmetric] by (simp add: drop_take)
  show "peek b 0 4 = Inr ''ERPC''" "peek b 4 4 = Inr (be32 x)" "peek b 8 4 = Inr (be32 y)"
    using assms(1,2) part [of 0] part [of 4] part [of 8] by (simp_all add: peek_contents del: length_contents)
qed

lemma take_frame: "take 12 (frame codec mm) =
    ''ERPC'' @ be32 (of_nat (body_size codec mm)) @ be32 (of_nat (length (ser_meta codec (fst mm))))"
  by (simp add: frame_def)

lemma drop_frame: "drop 12 (frame codec mm) = ser_meta codec (fst mm) @ msg_bytes codec (snd mm)"
  by (simp add: frame_def)

lemma frame_lengths:
  assumes "body_size codec mm < 2 ^ 32"
  shows "unat (of_nat (body_size codec mm) :: uint32) = body_size codec mm"
    "unat (of_nat (length (ser_meta codec (fst mm))) :: uint32) = length (ser_meta codec (fst mm))"
    "\<not> (of_nat (body_size codec mm) :: uint32) < of_nat (length (ser_meta codec (fst mm)))"
    "unat (of_nat (body_size codec mm) - of_nat (length (ser_meta codec (fst mm))) :: uint32) =
       length (msg_bytes codec (snd mm))"
proof -
  show u: "unat (of_nat (body_size codec mm) :: uint32) = body_size codec mm"
    "unat (of_nat (length (ser_meta codec (fst mm))) :: uint32) = length (ser_meta codec (fst mm))"
    using assms by (simp_all add: unat_of_nat_id unat_add_no_wrap body_size_def)
  show le: "\<not> (of_nat (body_size codec mm) :: uint32) < of_nat (length (ser_meta codec (fst mm)))"
    unfolding word_less_nat_alt u by (simp add: body_size_def)
  show "unat (of_nat (body_size codec mm) - of_nat (length (ser_meta codec (fst mm))) :: uint32) =
       length (msg_bytes codec (snd mm))"
    using assms by (simp add: body_size_def unat_of_nat_id)
qed

lemma parse_frame_header:
  assumes "buffer_inv b" "12 \<le> length (contents b)" "body_size codec mm < 2 ^ 32"
    "take 12 (contents b) = take 12 (frame codec mm)"
  shows "parse_frame codec b =
    (if length (contents b) < 12 + body_size codec mm then Inr Frame_wait
     else Inr (case parse_meta codec (take (length (ser_meta codec (fst mm))) (drop 12 (contents b))) of
                 None \<Rightarrow> Frame_bad_meta
               | Some meta \<Rightarrow> Frame_ok meta
                   (take (length (msg_bytes codec (snd mm)))
                      (drop (12 + length (ser_meta codec (fst mm))) (contents b)))
                   (body_size codec mm)))"
proof -
  note fl = frame_lengths [OF assms(3)]
  note hd = peek_header [OF assms(1,2) assms(4) [unfolded take_frame]]
  have cmp: "readable_bytes b < HeaderLen + ucast (of_nat (body_size codec mm) :: uint32) \<longleftrightarrow>
      length (contents b) < 12 + body_size codec mm"
    using assms(1) by (simp add: word_less_nat_alt header_len_add fl)
  have pk: "peek b 12 (length (ser_meta codec (fst mm))) =
        Inr (take (length (ser_meta codec (fst mm))) (drop 12 (contents b)))"
      "peek b (12 + length (ser_meta codec (fst mm))) (length (msg_bytes codec (snd mm))) =
        Inr (take (length (msg_bytes codec (snd mm))) (drop (12 + length (ser_meta codec (fst mm))) (contents b)))"
    if "\<not> length (contents b) < 12 + body_size codec mm"
    using that assms(1) by (simp_all add: peek_contents body_size_def del: length_contents)
  show ?thesis
    unfolding parse_frame_def hd by (simp add: fl cmp pk Let_def del: length_contents split: option.splits)
qed

lemma parse_frame_complete:
  assumes "has_frame codec mm rest b"
  shows "parse_frame codec b =
    Inr (case parse_meta codec (ser_meta codec (fst mm)) of
           None \<Rightarrow> Frame_bad_meta
         | Some meta \<Rightarrow> Frame_ok meta (msg_bytes codec (snd mm)) (body_size codec mm))"
proof -
  have c: "contents b = frame codec mm @ rest" and s: "body_size codec mm < 2 ^ 32" and i: "buffer_inv b"
    using assms by (simp_all add: has_frame_def)
  have l: "12 \<le> length (contents b)" "\<not> length (contents b) < 12 + body_size codec mm"
    unfolding c by (simp_all add: length_frame)
  have d: "drop 12 (contents b) = ser_meta codec (fst mm) @ msg_bytes codec (snd mm) @ rest"
    unfolding c by (simp add: drop_frame length_frame)
  have d2: "drop (12 + length (ser_meta codec (fst mm))) (contents b) = msg_bytes codec (snd mm) @ rest"
    using d by (metis append_eq_conv_conj add.commute drop_drop)
  have t: "take 12 (contents b) = take 12 (frame codec mm)"
    unfolding c by (simp add: length_frame)
  show ?thesis
    unfolding parse_frame_header [OF i l(1) s t] d d2 using l(2) by (simp split: option.splits)
qed

lemma parse_frame_partial:
  assumes "buffer_inv b" "contents b = take k (frame codec mm)" "k < length (frame codec mm)"
    "body_size codec mm < 2 ^ 32" "12 \<le> length (contents b)"
  shows "parse_frame codec b = Inr Frame_wait"
proof -
  have "length (contents b) < 12 + body_size codec mm"
    unfolding assms(2) using assms(3) by (simp add: length_frame)
  moreover have "take 12 (contents b) = take 12 (frame codec mm)"
    using assms(2,3,5) by (simp add: min_def length_frame split: if_splits)
  ultimately show ?thesis
    using parse_frame_header [OF assms(1,5,4)] by (simp del: length_contents)
qed

section \<open>The loop\<close>

text \<open>The messages of a stream, handled one after the other.\<close>

primrec handle_messages ::
    "('m, 's) rpc_codec \<Rightarrow> (rpc_alloc \<Rightarrow> bool) \<Rightarrow> (rpc_meta \<times> 'm option) list \<Rightarrow> ('m, 's) rpc_channel \<Rightarrow>
     buffer_error + ('m, 's) rpc_op list \<times> ('m, 's) rpc_channel" where
  "handle_messages codec oom [] ch = Inr ([], ch)"
| "handle_messages codec oom (mm # ms) ch =
     bindE (process_message codec oom (fst mm) (msg_bytes codec (snd mm)) ch) (\<lambda>(ops, ch1).
     bindE (handle_messages codec oom ms ch1) (\<lambda>(ops2, ch2). Inr (ops @ ops2, ch2)))"

text \<open>What is left of a stream when it stops inside a frame.\<close>

definition incomplete :: "('m, 's) rpc_codec \<Rightarrow> string \<Rightarrow> bool" where
  "incomplete codec rest \<longleftrightarrow>
     (\<exists>mm k. body_size codec mm < 2 ^ 32 \<and> k < length (frame codec mm) \<and> rest = take k (frame codec mm))"

lemma process_incomplete:
  assumes "buffer_inv b" "incomplete codec (contents b)"
  shows "process codec oom b out ch = Some (Inr (out, b, ch))"
proof (cases "12 \<le> length (contents b)")
  case True
  from assms(2) obtain mm k where
    "body_size codec mm < 2 ^ 32" "k < length (frame codec mm)" "contents b = take k (frame codec mm)"
    unfolding incomplete_def by blast
  then have "parse_frame codec b = Inr Frame_wait" using parse_frame_partial [OF assms(1)] True by blast
  then show ?thesis by (subst process.simps) simp
next
  case False
  then have "\<not> HeaderLen \<le> readable_bytes b" using assms(1) by (simp add: word_le_nat_alt HeaderLen_def)
  then show ?thesis by (subst process.simps) simp
qed

lemma process_frame:
  assumes "has_frame codec mm rest b" "parse_meta codec (ser_meta codec (fst mm)) = Some (fst mm)"
    "process_message codec oom (fst mm) (msg_bytes codec (snd mm)) ch = Inr (ops, ch1)"
  shows "\<exists>b1. buffer_inv b1 \<and> contents b1 = rest \<and>
    process codec oom b out ch = process codec oom b1 (out @ ops) ch1"
proof -
  let ?n = "HeaderLen + of_nat (body_size codec mm)"
  have f: "buffer_inv b" "contents b = frame codec mm @ rest" "body_size codec mm < 2 ^ 32"
    using assms(1) by (simp_all add: has_frame_def)
  have n: "unat ?n = length (frame codec mm)"
    using f(3) by (simp add: length_frame HeaderLen_def unat_add_no_wrap unat_of_nat_id)
  have "12 \<le> length (contents b)" unfolding f(2) by (simp add: length_frame)
  then have "HeaderLen \<le> readable_bytes b" using f(1) by (simp add: word_le_nat_alt HeaderLen_def)
  then have "process codec oom b out ch = process codec oom (has_readed b ?n) (out @ ops) ch1"
    using assms(2,3) by (subst process.simps) (simp add: parse_frame_complete [OF assms(1)])
  moreover have "contents (has_readed b ?n) = rest" using f(1,2) n by (simp add: contents_has_readed)
  ultimately show ?thesis using has_readed_inv [OF f(1)] by blast
qed

definition meta_ok :: "('m, 's) rpc_codec \<Rightarrow> rpc_meta \<times> 'm option \<Rightarrow> bool" where
  "meta_ok codec mm \<longleftrightarrow>
     parse_meta codec (ser_meta codec (fst mm)) = Some (fst mm) \<and> body_size codec mm < 2 ^ 32"

lemma process_frames:
  assumes "\<forall>mm \<in> set ms. meta_ok codec mm"
    "buffer_inv b" "contents b = concat (map (frame codec) ms) @ rest" "incomplete codec rest" "handle_messages codec oom ms ch = Inr (ops, ch')"
  shows "\<exists>b'. process codec oom b out ch = Some (Inr (out @ ops, b', ch')) \<and> buffer_inv b' \<and> contents b' = rest"
  using assms(1-3,5)
proof (induction ms arbitrary: b out ops ch)
  case Nil
  then show ?case using process_incomplete [of b codec oom out ch] assms(4) by auto
next
  case (Cons mm ms)
  from Cons.prems(4) obtain ops1 ch1 ops2 where
    h: "process_message codec oom (fst mm) (msg_bytes codec (snd mm)) ch = Inr (ops1, ch1)"
      "handle_messages codec oom ms ch1 = Inr (ops2, ch')" "ops = ops1 @ ops2"
    by auto
  have "has_frame codec mm (concat (map (frame codec) ms) @ rest) b"
    using Cons.prems(1-3) by (simp add: has_frame_def meta_ok_def)
  from process_frame [OF this _ h(1)] Cons.prems(1) obtain b1 where
    b1: "buffer_inv b1" "contents b1 = concat (map (frame codec) ms) @ rest"
      "process codec oom b out ch = process codec oom b1 (out @ ops1) ch1" by (auto simp: meta_ok_def)
  from Cons.IH [OF _ b1(1,2) h(2), of "out @ ops1"] Cons.prems(1) h(3) b1(3) show ?case by simp
qed

text \<open>When the meta data of a complete frame cannot be parsed the loop does not end.\<close>

lemma process_bad_meta_raw:
  assumes "process codec oom b out ch = Some y"
  shows "\<not> (HeaderLen \<le> readable_bytes b \<and> parse_frame codec b = Inr Frame_bad_meta)"
  using assms by (rule process.raw_induct [rotated]) (auto split: if_splits)

section \<open>Calls\<close>

lemma pack_send_frame:
  assumes "body_size codec (meta, msg) < 2 ^ 32"
  shows "pack_send codec meta msg ch = Inr (if has_conn ch then [Send_frame (frame codec (meta, msg))] else [])"
proof -
  from pack_buffer_frame [OF assms] obtain b where
    b: "pack_buffer codec meta msg = Inr b" "buffer_inv b" "contents b = frame codec (meta, msg)" by blast
  have "read_at b (readable_bytes b) = Inr (contents b)"
    using b(2) by (auto elim!: buffer_invE simp: read_at_def contents_def)
  with b show ?thesis by (simp add: pack_send_def)
qed

text \<open>The meta data of the two messages of a call.\<close>

definition call_meta :: "int64 \<Rightarrow> string \<Rightarrow> string \<Rightarrow> rpc_meta" where
  "call_meta cid svc meth = \<lparr>correlation_id = cid, request_meta = Some (svc, meth), response_meta = None\<rparr>"

definition reply_meta :: "int64 \<Rightarrow> rpc_error_code \<Rightarrow> rpc_meta" where
  "reply_meta cid code =
     \<lparr>correlation_id = cid, request_meta = None,
      response_meta = Some (code_number code, case map_of CodeError (code_number code) of None \<Rightarrow> [] | Some t \<Rightarrow> t)\<rparr>"

lemma process_single:
  assumes "buffer_inv b" "contents b = frame codec mm" "meta_ok codec mm"
    "process_message codec oom (fst mm) (msg_bytes codec (snd mm)) ch = Inr (ops, ch')"
  shows "\<exists>b'. process codec oom b [] ch = Some (Inr (ops, b', ch')) \<and> buffer_inv b' \<and> contents b' = []"
proof -
  have "incomplete codec []" unfolding incomplete_def using assms(3)
    by (intro exI [of _ mm] exI [of _ 0]) (simp add: meta_ok_def length_frame)
  with process_frames [of "[mm]" codec b "[]" oom ch ops ch' "[]"] assms show ?thesis
    by (simp add: meta_ok_def)
qed

lemma CallMethod_frame:
  assumes "has_conn ch" "body_size codec (call_meta (next_id ch) svc meth, Some request) < 2 ^ 32"
  shows "CallMethod codec svc meth ctrl request resp closure ch =
    Inr ([Send_frame (frame codec (call_meta (next_id ch) svc meth, Some request))],
         ch\<lparr>next_id := next_id ch + 1,
            reqs := (reqs ch)(next_id ch := Some (ctrl\<lparr>response := resp, done_closure := closure\<rparr>))\<rparr>)"
  using assms by (simp add: CallMethod_def Let_def pack_send_frame call_meta_def)

lemma on_done_frame:
  assumes "has_conn ch" "body_size codec (reply_meta cid code, response c) < 2 ^ 32"
    "code = (if Failed c then EINTERNAL else ENOERROR)"
  shows "on_done codec cid c ch = Inr [Send_frame (frame codec (reply_meta cid code, response c))]"
  using assms by (simp add: on_done_def send_resp_def pack_send_frame reply_meta_def)

lemma request_dispatched:
  assumes "services sv = Some table" "table svc = Some service" "find_method codec service meth" "\<forall>a. \<not> oom a"
    "parse_request codec service meth (ser_msg codec req) = Some req"
  shows "process_message codec oom (call_meta cid svc meth) (msg_bytes codec (Some req)) sv =
    Inr ([Call_service service meth cid req], sv)"
  using assms by (simp add: process_message_def process_request_def call_meta_def msg_bytes_def)

text \<open>The client takes the payload of a response and ignores its error code.\<close>

lemma response_delivered:
  assumes "reqs ch cid = Some c" "response c = Some proto" "done_closure c = Some k"
    "parse_into codec proto (msg_bytes codec msg) = Some m"
  shows "process_message codec oom (reply_meta cid code) (msg_bytes codec msg) ch =
    Inr ([Run_closure k (c\<lparr>response := Some m\<rparr>)], ch\<lparr>reqs := (reqs ch)(cid := None)\<rparr>)"
  using assms by (simp add: process_message_def process_response_def reply_meta_def CodeError_def)

text \<open>A call that has no response when its channel is destroyed: its closure is deleted and never run. A
  request that a response has answered is not touched.\<close>

lemma unanswered_call_freed:
  assumes "CallMethod codec svc meth ctrl request resp (Some k) ch = Inr (ops, ch')"
    "set ids = dom (reqs ch')"
  shows "Free_closure k \<in> set (destroy_channel ids ch') \<and> (\<forall>k c. Run_closure k c \<notin> set ops)"
proof -
  have ch': "reqs ch' = (reqs ch)(next_id ch := Some (ctrl\<lparr>response := resp, done_closure := Some k\<rparr>))"
    using assms(1) by (auto simp: CallMethod_def Let_def bindE_def split: sum.splits)
  then have "next_id ch \<in> set ids" using assms(2) by simp
  moreover have "\<forall>k c. Run_closure k c \<notin> set ops"
    using assms(1) by (auto simp: CallMethod_def Let_def bindE_def pack_send_def split: sum.splits if_splits)
  ultimately show ?thesis
    using ch' by (fastforce simp: destroy_channel_def free_request_def)
qed

lemma answered_call_not_freed:
  assumes "process_response codec meta msg ch = (ops, ch')"
  shows "destroy_channel [correlation_id meta] ch' = []"
  using assms by (auto simp: destroy_channel_def process_response_def Let_def split: option.splits prod.splits)

section \<open>Properties\<close>

text \<open>C9: However the bytes of a connection are cut, a channel handles exactly the messages whose
  frames have arrived completely, each once and in order, and keeps the bytes of the frame that has only
  begun: for a buffer with the frames of \<open>ms\<close> and a beginning \<open>rest\<close> of another frame, the loop of \<^verbatim>\<open>process\<close>
  ends with the output of handling \<open>ms\<close> one after the other and leaves \<open>rest\<close> in the buffer.\<close>

theorem rpc_stream_handled:
  assumes "\<forall>mm \<in> set ms. meta_ok codec mm"
    "buffer_inv b" "contents b = concat (map (frame codec) ms) @ rest" "incomplete codec rest"
    "handle_messages codec oom ms ch = Inr (ops, ch')"
  shows "\<exists>b'. process codec oom b [] ch = Some (Inr (ops, b', ch')) \<and> buffer_inv b' \<and> contents b' = rest"
  using process_frames [of ms codec b rest oom ch ops ch' "[]"] assms by (auto simp: meta_ok_def)

text \<open>C8: A remote call is a call: the frame that \<^verbatim>\<open>CallMethod\<close> sends makes the server call the
  method of the service with the request, once; the frame that \<^verbatim>\<open>on_done\<close> sends when the method has succeeded
  makes the client run the closure of the call, once, with the response of the method, and the call is no
  longer outstanding.\<close>

theorem rpc_call_is_a_call:
  assumes "has_conn cl" "has_conn sv" "services sv = Some table" "table svc = Some service"
    "find_method codec service meth" "\<forall>a. \<not> oom a"
    "meta_ok codec (call_meta (next_id cl) svc meth, Some req)"
    "meta_ok codec (reply_meta (next_id cl) ENOERROR, Some resp)"
    "parse_request codec service meth (ser_msg codec req) = Some req"
    "parse_into codec proto (ser_msg codec resp) = Some resp"
    "\<not> Failed sctrl" "response sctrl = Some resp"
  shows "\<exists>f g cl1.
    CallMethod codec svc meth ctrl req (Some proto) (Some k) cl = Inr ([Send_frame f], cl1) \<and>
    (\<forall>b. buffer_inv b \<and> contents b = f \<longrightarrow>
       (\<exists>b'. process codec oom b [] sv = Some (Inr ([Call_service service meth (next_id cl) req], b', sv)) \<and> contents b' = [])) \<and>
    on_done codec (next_id cl) sctrl sv = Inr [Send_frame g] \<and>
    (\<forall>b. buffer_inv b \<and> contents b = g \<longrightarrow>
       (\<exists>b' cl2. process codec oom b [] cl1 =
            Some (Inr ([Run_closure k (ctrl\<lparr>response := Some resp, done_closure := Some k\<rparr>)], b', cl2)) \<and>
          contents b' = [] \<and> reqs cl2 = (reqs cl)(next_id cl := None)))"
proof -
  let ?cid = "next_id cl" and ?c = "ctrl\<lparr>response := Some proto, done_closure := Some k\<rparr>"
  let ?cl1 = "cl\<lparr>next_id := ?cid + 1, reqs := (reqs cl)(?cid := Some ?c)\<rparr>"
  let ?f = "frame codec (call_meta ?cid svc meth, Some req)"
  let ?g = "frame codec (reply_meta ?cid ENOERROR, Some resp)"
  have 1: "CallMethod codec svc meth ctrl req (Some proto) (Some k) cl = Inr ([Send_frame ?f], ?cl1)"
    using assms(1,7) by (simp add: CallMethod_frame meta_ok_def)
  have 2: "\<exists>b'. process codec oom b [] sv = Some (Inr ([Call_service service meth ?cid req], b', sv)) \<and> contents b' = []"
    if "buffer_inv b" "contents b = ?f" for b
    using process_single [OF that assms(7)] request_dispatched [OF assms(3-6,9)] by fastforce
  have 3: "on_done codec ?cid sctrl sv = Inr [Send_frame ?g]"
    using on_done_frame [of sv codec ?cid ENOERROR sctrl] assms(2,8,11,12) by (simp add: meta_ok_def)
  have 4: "\<exists>b' cl2. process codec oom b [] ?cl1 =
            Some (Inr ([Run_closure k (ctrl\<lparr>response := Some resp, done_closure := Some k\<rparr>)], b', cl2)) \<and>
          contents b' = [] \<and> reqs cl2 = (reqs cl)(?cid := None)"
    if "buffer_inv b" "contents b = ?g" for b
    using process_single [OF that assms(8)]
      response_delivered [of ?cl1 ?cid ?c proto k codec "Some resp" resp oom ENOERROR] assms(10)
    by (fastforce simp: msg_bytes_def)
  show ?thesis using 1 2 3 4 by blast
qed

text \<open>C33: The failure of a method is not reported: when the method has called \<^verbatim>\<open>SetFailed\<close> the server sends
  a response with the code 1005, but the client reads only the payload. Its closure runs with a controller
  that has not failed, as after a success.\<close>

theorem rpc_failure_not_reported:
  assumes "has_conn sv" "Failed sctrl" "meta_ok codec (reply_meta cid EINTERNAL, response sctrl)"
    "reqs cl cid = Some c" "response c = Some proto" "done_closure c = Some k" "\<not> Failed c"
    "parse_into codec proto (msg_bytes codec (response sctrl)) = Some m"
  shows "\<exists>g. on_done codec cid sctrl sv = Inr [Send_frame g] \<and>
    (\<forall>b. buffer_inv b \<and> contents b = g \<longrightarrow>
       (\<exists>b' cl2 c'. process codec oom b [] cl = Some (Inr ([Run_closure k c'], b', cl2)) \<and> \<not> Failed c'))"
proof -
  let ?g = "frame codec (reply_meta cid EINTERNAL, response sctrl)"
  have "on_done codec cid sctrl sv = Inr [Send_frame ?g]"
    using on_done_frame [of sv codec cid EINTERNAL sctrl] assms(1-3) by (simp add: meta_ok_def)
  moreover have "\<exists>b' cl2 c'. process codec oom b [] cl = Some (Inr ([Run_closure k c'], b', cl2)) \<and> \<not> Failed c'"
    if "buffer_inv b" "contents b = ?g" for b
    using process_single [OF that assms(3)]
      response_delivered [of cl cid c proto k codec "response sctrl" m oom EINTERNAL] assms(4-8)
    by (fastforce simp: Failed_def)
  ultimately show ?thesis by blast
qed


section \<open>Examples\<close>

text \<open>A codec for small messages: strings as messages, one service with one method, and meta data of two bytes
  (request or response, and the correlation id).\<close>

definition demo_codec :: "(string, unit) rpc_codec" where
  "demo_codec =
     \<lparr>ser_meta = (\<lambda>m. [case response_meta m of
          None \<Rightarrow> CHR ''Q'' | Some (code, _) \<Rightarrow> if code = 0 then CHR ''R'' else CHR ''E'',
          char_of (unat (correlation_id m))]),
      parse_meta = (\<lambda>s. case s of
          [k, c] \<Rightarrow> if k = CHR ''Q'' then Some (call_meta (of_nat (of_char c)) ''Echo'' ''echo'')
                    else if k = CHR ''R'' then Some (reply_meta (of_nat (of_char c)) ENOERROR)
                    else if k = CHR ''E'' then Some (reply_meta (of_nat (of_char c)) EINTERNAL) else None
        | _ \<Rightarrow> None),
      ser_msg = (\<lambda>m. m), parse_into = (\<lambda>_ s. Some s), find_method = (\<lambda>_ n. n = ''echo''),
      parse_request = (\<lambda>_ _ s. Some s), new_response = (\<lambda>_ _. [])\<rparr>"

text \<open>The same codec, unable to parse meta data.\<close>

definition deaf_codec :: "(string, unit) rpc_codec" where
  "deaf_codec = demo_codec\<lparr>parse_meta := (\<lambda>_. None)\<rparr>"

definition buffer_of :: "string \<Rightarrow> buffer" where
  "buffer_of s = \<lparr>buff = s, read_index = 0, write_index = of_nat (length s)\<rparr>"

lemma buffer_of [simp]:
  assumes "length s < 2 ^ 32"
  shows "buffer_inv (buffer_of s)" "contents (buffer_of s) = s"
  using assms
  by (simp_all add: buffer_of_def buffer_inv_def contents_def readable_bytes_def unat_of_nat_id)

definition demo_channel :: "int64 \<Rightarrow> (string, unit) rpc_channel" where
  "demo_channel i = set_services (Some [''Echo'' \<mapsto> ()]) (set_conn True (mk_channel None i))"

lemmas demo_defs = demo_codec_def demo_channel_def deaf_codec_def call_meta_def reply_meta_def meta_ok_def
  body_size_def msg_bytes_def CodeError_def set_services_def set_conn_def mk_channel_def mk_controller_def
  Failed_def SetFailed_def

theorem rpc_stream_handled_witness:
  "\<exists>b'. process demo_codec (\<lambda>_. False)
      (buffer_of (frame demo_codec (call_meta 1 ''Echo'' ''echo'', Some ''hi'') @
                  frame demo_codec (call_meta 2 ''Echo'' ''echo'', Some ''you'') @ ''ERP''))
      [] (demo_channel 0) =
    Some (Inr ([Call_service () ''echo'' 1 ''hi'', Call_service () ''echo'' 2 ''you''], b', demo_channel 0)) \<and>
    buffer_inv b' \<and> contents b' = ''ERP''"
proof -
  let ?ms = "[(call_meta 1 ''Echo'' ''echo'', Some ''hi''), (call_meta 2 ''Echo'' ''echo'', Some ''you'')]"
  have "incomplete demo_codec ''ERP''"
    unfolding incomplete_def
    by (rule exI [of _ "(call_meta 1 [] [], None)"], rule exI [of _ 3]) (simp add: demo_defs frame_def)
  then show ?thesis
    using rpc_stream_handled [of ?ms demo_codec
        "buffer_of (concat (map (frame demo_codec) ?ms) @ ''ERP'')" "''ERP''" "\<lambda>_. False" "demo_channel 0"]
    by (simp add: demo_defs length_frame process_message_def process_request_def)
qed

theorem rpc_call_is_a_call_witness:
  "\<exists>f g cl1.
    CallMethod demo_codec ''Echo'' ''echo'' mk_controller ''hi'' (Some []) (Some 7) (demo_channel 3) =
      Inr ([Send_frame f], cl1) \<and>
    (\<forall>b. buffer_inv b \<and> contents b = f \<longrightarrow>
       (\<exists>b'. process demo_codec (\<lambda>_. False) b [] (demo_channel 0) =
          Some (Inr ([Call_service () ''echo'' (next_id (demo_channel 3)) ''hi''], b', demo_channel 0)) \<and> contents b' = [])) \<and>
    on_done demo_codec (next_id (demo_channel 3)) (mk_controller\<lparr>response := Some ''ok''\<rparr>) (demo_channel 0) = Inr [Send_frame g] \<and>
    (\<forall>b. buffer_inv b \<and> contents b = g \<longrightarrow>
       (\<exists>b' cl2. process demo_codec (\<lambda>_. False) b [] cl1 =
            Some (Inr ([Run_closure 7 (mk_controller\<lparr>response := Some ''ok'', done_closure := Some 7\<rparr>)], b', cl2)) \<and>
          contents b' = [] \<and> reqs cl2 = (reqs (demo_channel 3))(next_id (demo_channel 3) := None)))"
  by (rule rpc_call_is_a_call [where table = "[''Echo'' \<mapsto> ()]"]) (simp_all add: demo_defs)

theorem rpc_failure_not_reported_witness:
  "\<exists>g. on_done demo_codec 3 (SetFailed ''failed'' (mk_controller\<lparr>response := Some []\<rparr>)) (demo_channel 0) = Inr [Send_frame g] \<and>
    (\<forall>b. buffer_inv b \<and> contents b = g \<longrightarrow>
       (\<exists>b' cl2 c'. process demo_codec (\<lambda>_. False) b []
            ((demo_channel 4)\<lparr>reqs := [3 \<mapsto> mk_controller\<lparr>response := Some [], done_closure := Some 7\<rparr>]\<rparr>) =
            Some (Inr ([Run_closure 7 c'], b', cl2)) \<and> \<not> Failed c'))"
  by (rule rpc_failure_not_reported [where proto = "[]" and m = "[]" and
        c = "mk_controller\<lparr>response := Some [], done_closure := Some 7\<rparr>"]) (simp_all add: demo_defs)


end
