(* ===== verification/TcpClient.thy ===== *)
theory TcpClient
  imports TcpConnection EventLoop Fmt
begin

text \<open>
  \<^verbatim>\<open>code/TcpClient.h\<close> and \<^verbatim>\<open>code/TcpClient.cpp\<close>: a client that connects to a server and tries again after an
  interval when that fails.

  The client works on its loop and the timers of the loop, so its state here includes the loop's timing
  wheel; \<open>client_mem\<close> is the memory of its connections. What \<^verbatim>\<open>new\<close> and \<^verbatim>\<open>std::make_shared\<close> return are
  arguments. The socket's part is output, a list of \<open>client_op\<close>. Using the empty connection pointer and
  the errors of the timing wheel are errors of the model.
\<close>

section \<open>State\<close>

datatype client_task = Handle_timeout | Other_task nat

record tcp_client =
  cl_loop :: nat
  cl_name :: string
  cl_conn :: "nat option"
  cl_ep :: "string \<times> uint16"
  cl_interval :: size_t
  cl_timer :: timer_id
  connecting :: bool
  cl_count :: uint32
  client_wheel :: "client_task timing_wheel"
  client_mem :: "nat \<Rightarrow> tcp_connection option"

datatype client_error = Null_pointer | Wheel_error wheel_error | Buffer_error buffer_error

datatype client_op =
    Post_connect_loop
  | Post_disconnect_loop
  | Async_connect nat
  | Socket_close nat
  | Conn_close nat
  | Conn_op nat socket_op

datatype connect_result = Connect_ok "string \<times> uint16" "string \<times> uint16" | Connect_aborted | Connect_failed

type_synonym client_result = "client_error + client_op list \<times> tcp_client"

definition mk_client :: "nat \<Rightarrow> string \<Rightarrow> client_task timing_wheel \<Rightarrow> tcp_client" where
  "mk_client loop name w =
     \<lparr>cl_loop = loop, cl_name = name, cl_conn = None, cl_ep = ([], 0), cl_interval = 0, cl_timer = null_timer_id,
      connecting = False, cl_count = 1, client_wheel = w, client_mem = (\<lambda>_. None)\<rparr>"

definition lift_error :: "('e \<Rightarrow> client_error) \<Rightarrow> 'e + 'a \<Rightarrow> client_error + 'a" where
  "lift_error f r = (case r of Inl e \<Rightarrow> Inl (f e) | Inr x \<Rightarrow> Inr x)"

section \<open>Operations\<close>

text \<open>\<^verbatim>\<open>connect\<close>; \<open>bad_address\<close> says that \<^verbatim>\<open>make_address_v4\<close> rejects the address. The endpoint is kept in the form
  that \<^verbatim>\<open>to_string\<close> prints.\<close>

definition client_connect ::
    "bool \<Rightarrow> string option \<Rightarrow> uint16 \<Rightarrow> size_t \<Rightarrow> tcp_client \<Rightarrow> bool \<times> client_op list \<times> tcp_client" where
  "client_connect bad_address ip_str port interval c =
     (case ip_str of
        None \<Rightarrow> (False, [], c)
      | Some ip \<Rightarrow>
          if port = 0 \<or> interval = 0 then (False, [], c)
          else if connecting c then (False, [], c)
          else
            (let c1 = c\<lparr>connecting := True\<rparr>
             in if bad_address then (False, [], c1)
                else (True, [Post_connect_loop], c1\<lparr>cl_ep := (ip, port), cl_interval := interval\<rparr>)))"

definition client_connect_loop :: "nat \<Rightarrow> tcp_client \<Rightarrow> client_op list \<times> tcp_client" where
  "client_connect_loop p c =
     (let name = cl_name c @ ''-'' @ fst (cl_ep c) @ '':'' @ fmt_uint (ucast (snd (cl_ep c))) @ ''#'' @
                 fmt_uint (ucast (cl_count c))
      in ([Async_connect p],
          c\<lparr>client_mem := (client_mem c)(p := Some (mk_connection (cl_loop c) name)), cl_conn := Some p\<rparr>))"

definition client_disconnect_loop :: "tcp_client \<Rightarrow> client_result" where
  "client_disconnect_loop c =
     bindE (lift_error Wheel_error (del_timer (cl_timer c) (client_wheel c))) (\<lambda>w.
       let c1 = c\<lparr>client_wheel := w\<rparr>
       in case cl_conn c1 of
            None \<Rightarrow> Inr ([], c1\<lparr>connecting := False\<rparr>)
          | Some p \<Rightarrow>
              (case client_mem c1 p of
                 None \<Rightarrow> Inl Null_pointer
               | Some conn \<Rightarrow> Inr ([if connected conn then Conn_close p else Socket_close p], c1)))"

definition client_disconnect :: "bool \<Rightarrow> tcp_client \<Rightarrow> client_result" where
  "client_disconnect here c =
     (if \<not> connecting c then Inr ([], c)
      else if here then client_disconnect_loop c
      else Inr ([Post_disconnect_loop], c))"

text \<open>\<^verbatim>\<open>handle_connect\<close>; \<open>q\<close> is the address of the timer it may create, \<open>calls\<close> are the calls of the connection
  callback.\<close>

definition handle_connect :: "connect_result \<Rightarrow> nat \<Rightarrow> app_call list \<Rightarrow> tcp_client \<Rightarrow> client_result" where
  "handle_connect r q calls c =
     (case r of
        Connect_aborted \<Rightarrow> Inr ([], c\<lparr>cl_conn := None, connecting := False\<rparr>)
      | Connect_failed \<Rightarrow>
          bindE (lift_error Wheel_error
              (add_timer q (cl_interval c) (Some Handle_timeout) False (client_wheel c))) (\<lambda>(tid, w).
            Inr ([], c\<lparr>cl_conn := None, cl_timer := tid, client_wheel := w\<rparr>))
      | Connect_ok remote local \<Rightarrow>
          (case cl_conn c of
             None \<Rightarrow> Inl Null_pointer
           | Some p \<Rightarrow>
               (case client_mem c p of
                  None \<Rightarrow> Inl Null_pointer
                | Some conn \<Rightarrow>
                    (let (init_ops, conn1) = conn_init remote local conn
                     in bindE (lift_error Buffer_error (handle_establish calls conn1)) (\<lambda>(ops, conn2).
                          Inr (map (Conn_op p) (init_ops @ ops),
                               c\<lparr>cl_count := cl_count c + 1, client_mem := (client_mem c)(p := Some conn2)\<rparr>))))))"

definition client_handle_timeout :: "nat \<Rightarrow> tcp_client \<Rightarrow> client_op list \<times> tcp_client" where
  "client_handle_timeout p c = client_connect_loop p c"

definition client_remove_conn :: "tcp_client \<Rightarrow> tcp_client" where
  "client_remove_conn c = c\<lparr>cl_conn := None, connecting := False\<rparr>"

section \<open>Properties\<close>

text \<open>A client whose attempt to connect has just failed: the state after \<^verbatim>\<open>handle_connect\<close>, and what its timer
  does.\<close>

lemma failed_connect_timer:
  assumes "wheel_inv (client_wheel c)" "heap (client_wheel c) q = None" "cl_interval c \<noteq> 0"
    and "unat (cl_interval c) + 60 \<le> 2 ^ 64"
  shows "\<exists>c1 kss ks w. handle_connect Connect_failed q calls c = Inr ([], c1) \<and> cl_conn c1 = None \<and>
    connecting c1 = connecting c \<and> cl_ep c1 = cl_ep c \<and>
    ticks (due (unat (cl_interval c))) (client_wheel c1) = Inr (kss @ [ks], w) \<and> Handle_timeout \<in> set ks \<and>
    tid_timer (cl_timer c1) = Some q \<and> heap w q = None \<and> wheel_inv w"
proof -
  obtain tid w where a: "add_timer q (cl_interval c) (Some Handle_timeout) False (client_wheel c) = Inr (tid, w)"
    using assms(3) by (simp add: add_timer_def add_timer_loop_def new_timer_def Let_def)
  from one_shot_expires [OF assms(1,2) a assms(3,4)] a show ?thesis
    by (auto simp: handle_connect_def lift_error_def)
qed


text \<open>Disconnecting after a second attempt reads freed memory. The timer of a failed attempt is freed
  when it fires, but the client keeps its identifier and \<^verbatim>\<open>disconnect_loop\<close> cancels it again.\<close>

theorem client_stale_timer:
  assumes "wheel_inv (client_wheel c)" "heap (client_wheel c) q = None" "cl_interval c \<noteq> 0"
    and "unat (cl_interval c) + 60 \<le> 2 ^ 64" "connecting c"
  shows "\<exists>c1 kss w. handle_connect Connect_failed q calls c = Inr ([], c1) \<and>
    ticks (due (unat (cl_interval c))) (client_wheel c1) = Inr (kss, w) \<and>
    client_disconnect True (snd (client_handle_timeout p (c1\<lparr>client_wheel := w\<rparr>))) = Inl (Wheel_error UseAfterFree)"
proof -
  from failed_connect_timer [OF assms(1-4), of calls] obtain c1 kss ks w where
    c1: "handle_connect Connect_failed q calls c = Inr ([], c1)" "connecting c1 = connecting c"
      "ticks (due (unat (cl_interval c))) (client_wheel c1) = Inr (kss @ [ks], w)"
      "tid_timer (cl_timer c1) = Some q" "heap w q = None" by blast
  then have "client_disconnect True (snd (client_handle_timeout p (c1\<lparr>client_wheel := w\<rparr>))) = Inl (Wheel_error UseAfterFree)"
    using assms(5) by (simp add: client_disconnect_def client_disconnect_loop_def client_handle_timeout_def
        client_connect_loop_def del_timer_def del_timer_loop_def lift_error_def)
  with c1 show ?thesis by blast
qed

text \<open>A client that has been told to connect, every \<open>5\<close> seconds.\<close>

definition waiting_client :: tcp_client where
  "waiting_client =
     snd (client_connect_loop 1 (snd (snd (client_connect False (Some ''10.0.0.1'') 80 5 (mk_client 0 ''c'' (mk_timing_wheel 0))))))"

lemma waiting_client_facts:
  "wheel_inv (client_wheel waiting_client)" "heap (client_wheel waiting_client) q = None"
  "cl_interval waiting_client = 5" "connecting waiting_client"
  using wheel_inv_init [of 0]
  by (simp_all add: waiting_client_def client_connect_loop_def client_connect_def mk_client_def Let_def)
    (simp add: mk_timing_wheel_def)


theorem client_stale_timer_witness:
  "\<exists>c1 kss w. handle_connect Connect_failed 7 [] waiting_client = Inr ([], c1) \<and>
    ticks (due 5) (client_wheel c1) = Inr (kss, w) \<and>
    client_disconnect True (snd (client_handle_timeout 2 (c1\<lparr>client_wheel := w\<rparr>))) = Inl (Wheel_error UseAfterFree)"
proof -
  have "unat (cl_interval waiting_client) = 5" by (simp add: waiting_client_facts)
  with client_stale_timer [of waiting_client 7 "[]" 2] waiting_client_facts show ?thesis by auto
qed

text \<open>An address that cannot be parsed leaves the client in the connecting state, although nothing was
  started: every further \<^verbatim>\<open>connect\<close> fails, until \<^verbatim>\<open>disconnect\<close> is called.\<close>

lemma client_bad_address:
  assumes "\<not> connecting c" "port \<noteq> 0" "interval \<noteq> 0"
  shows "client_connect True (Some ip) port interval c = (False, [], c\<lparr>connecting := True\<rparr>) \<and>
    client_connect bad' ip' port' interval' (c\<lparr>connecting := True\<rparr>) = (False, [], c\<lparr>connecting := True\<rparr>)"
  using assms by (simp add: client_connect_def split: option.split)

text \<open>Disconnecting before the loop has run the queued \<^verbatim>\<open>connect_loop\<close> does not stop the attempt: the client is
  not connecting any more, and still starts to connect.\<close>

lemma client_disconnect_race:
  assumes "client_connect False (Some ip) port interval c = (True, ops, c1)" "cl_conn c = None"
    "cl_timer c = null_timer_id"
  shows "\<exists>c2. client_disconnect True c1 = Inr ([], c2) \<and> \<not> connecting c2 \<and>
    fst (client_connect_loop p c2) = [Async_connect p]"
  using assms
  by (auto simp: client_connect_def client_disconnect_def client_disconnect_loop_def del_timer_def
      null_timer_id_def lift_error_def client_connect_loop_def Let_def split: if_splits)

text \<open>The end of a connection is reported twice when a write and a receive both fail. When the user has
  connected again in between, the second report drops the new connection, and its completion then
  uses the empty pointer.\<close>

lemma client_second_close:
  "handle_connect (Connect_ok remote local) q calls (client_remove_conn c) = Inl Null_pointer"
  by (simp add: handle_connect_def client_remove_conn_def)

end
