(* ===== verification/Rpc_Server.thy ===== *)
theory Rpc_Server
  imports Rpc TcpServer TcpClient ThreadPool
begin

text \<open>
  \<^verbatim>\<open>examples/rpc/RpcServer\<close> and \<^verbatim>\<open>RpcClient\<close>: the channels of a server's connections and the channel of a client.

  The channel of a connection is its context. A channel of the server holds a pointer to the server's table of
  services; the pointer is followed when the channel processes data, so that a service can be registered after
  the connection was made. The address of a connection identifies it; it exists while one of its callbacks
  runs. Work for the threads of the server is the address of the connection whose data is to be processed.
\<close>

section \<open>The server\<close>

record ('m, 's) rpc_server =
  rpc_tcp :: tcp_server
  rpc_workers :: "nat pool"
  rpc_num_workers :: size_t
  rpc_services :: "string \<Rightarrow> 's option"
  rpc_channels :: "nat \<Rightarrow> ('m, 's) rpc_channel option"

text \<open>The constructor leaves \<^verbatim>\<open>num_workers_\<close> uninitialised.\<close>

definition mk_rpc_server :: "nat \<Rightarrow> size_t \<Rightarrow> ('m, 's) rpc_server" where
  "mk_rpc_server loop garbage =
     \<lparr>rpc_tcp = mk_server loop ''RpcServer'', rpc_workers = mk_pool, rpc_num_workers = garbage,
      rpc_services = (\<lambda>_. None), rpc_channels = (\<lambda>_. None)\<rparr>"

definition rpc_start ::
    "(acceptor_step \<Rightarrow> bool) \<Rightarrow> (nat \<Rightarrow> nat) \<Rightarrow> string option \<Rightarrow> uint16 \<Rightarrow> size_t \<Rightarrow> size_t \<Rightarrow> ('m, 's) rpc_server \<Rightarrow>
     bool \<times> server_op list \<times> ('m, 's) rpc_server" where
  "rpc_start fails new_at ip prt n_io n_worker s =
     (let s1 = s\<lparr>rpc_num_workers := n_worker\<rparr>;
          (started, workers) = (if n_worker > 0 then pool_start n_worker 100000 False (rpc_workers s1) else (0, rpc_workers s1));
          s2 = s1\<lparr>rpc_workers := workers\<rparr>
      in if started \<noteq> 0 then (False, [], s2)
         else
           (let (ok, ops, srv) = server_start fails new_at ip prt (set_io_threads n_io (rpc_tcp s2))
            in (ok, ops, s2\<lparr>rpc_tcp := srv\<rparr>)))"

definition register_service :: "string \<Rightarrow> 's \<Rightarrow> ('m, 's) rpc_server \<Rightarrow> ('m, 's) rpc_server" where
  "register_service full_name service s = s\<lparr>rpc_services := (rpc_services s)(full_name \<mapsto> service)\<rparr>"

text \<open>\<^verbatim>\<open>on_connection\<close>; \<open>garbage\<close> is what the constructor of the channel leaves in \<^verbatim>\<open>id_\<close>.\<close>

definition rpc_on_connection :: "nat \<Rightarrow> bool \<Rightarrow> int64 \<Rightarrow> ('m, 's) rpc_server \<Rightarrow> ('m, 's) rpc_server" where
  "rpc_on_connection p is_connected garbage s =
     (if is_connected
      then s\<lparr>rpc_channels := (rpc_channels s)
               (p \<mapsto> set_services (Some (rpc_services s)) (set_conn True (mk_channel None garbage)))\<rparr>
      else s)"

datatype rpc_recv_error = Rpc_bad_cast | Rpc_buffer_error buffer_error

text \<open>\<^verbatim>\<open>on_recv\<close>: \<open>None\<close> when processing does not end. With worker threads the processing is queued and the buffer is
  left alone for the moment.\<close>

definition rpc_on_recv ::
    "('m, 's) rpc_codec \<Rightarrow> (rpc_alloc \<Rightarrow> bool) \<Rightarrow> nat \<Rightarrow> buffer \<Rightarrow> ('m, 's) rpc_server \<Rightarrow>
     (rpc_recv_error + ('m, 's) rpc_op list \<times> buffer \<times> ('m, 's) rpc_server) option" where
  "rpc_on_recv codec oom p b s =
     (case rpc_channels s p of
        None \<Rightarrow> Some (Inl Rpc_bad_cast)
      | Some ch \<Rightarrow>
          if rpc_num_workers s > 0
          then Some (Inr ([], b, s\<lparr>rpc_workers := snd (pool_append (Some p) (rpc_workers s))\<rparr>))
          else
            map_option
              (\<lambda>r. case r of
                 Inl err \<Rightarrow> Inl (Rpc_buffer_error err)
               | Inr (ops, b1, ch1) \<Rightarrow> Inr (ops, b1, s\<lparr>rpc_channels := (rpc_channels s)(p \<mapsto> ch1)\<rparr>))
              (process codec oom b [] (set_services (Some (rpc_services s)) (set_conn True ch))))"

section \<open>The client\<close>

record ('m, 's) rpc_client =
  rpc_tcp_client :: tcp_client
  rpc_client_channel :: "('m, 's) rpc_channel"
  is_connected :: bool

definition mk_rpc_client :: "nat \<Rightarrow> client_task timing_wheel \<Rightarrow> (string \<Rightarrow> 's option) option \<Rightarrow> int64 \<Rightarrow> ('m, 's) rpc_client" where
  "mk_rpc_client loop w garbage_services garbage_id =
     \<lparr>rpc_tcp_client = mk_client loop ''RpcClient'' w, rpc_client_channel = mk_channel garbage_services garbage_id,
      is_connected = False\<rparr>"

definition rpc_connect ::
    "bool \<Rightarrow> string option \<Rightarrow> uint16 \<Rightarrow> ('m, 's) rpc_client \<Rightarrow> client_op list \<times> ('m, 's) rpc_client" where
  "rpc_connect bad_address ip prt c =
     (let (_, ops, cl) = client_connect bad_address ip prt 10 (rpc_tcp_client c)
      in (ops, c\<lparr>rpc_tcp_client := cl\<rparr>))"

definition rpc_disconnect :: "bool \<Rightarrow> ('m, 's) rpc_client \<Rightarrow> client_error + client_op list \<times> ('m, 's) rpc_client" where
  "rpc_disconnect in_loop c =
     bindE (client_disconnect in_loop (rpc_tcp_client c)) (\<lambda>(ops, cl). Inr (ops, c\<lparr>rpc_tcp_client := cl\<rparr>))"

definition rpc_client_on_connection :: "bool \<Rightarrow> ('m, 's) rpc_client \<Rightarrow> ('m, 's) rpc_client" where
  "rpc_client_on_connection conn c =
     (if conn then c\<lparr>rpc_client_channel := set_conn True (rpc_client_channel c), is_connected := True\<rparr>
      else c\<lparr>is_connected := False\<rparr>)"

definition rpc_client_on_recv ::
    "('m, 's) rpc_codec \<Rightarrow> (rpc_alloc \<Rightarrow> bool) \<Rightarrow> buffer \<Rightarrow> ('m, 's) rpc_client \<Rightarrow>
     (buffer_error + ('m, 's) rpc_op list \<times> buffer \<times> ('m, 's) rpc_client) option" where
  "rpc_client_on_recv codec oom b c =
     map_option
       (\<lambda>r. case r of
          Inl err \<Rightarrow> Inl err
        | Inr (ops, b1, ch) \<Rightarrow> Inr (ops, b1, c\<lparr>rpc_client_channel := ch\<rparr>))
       (process codec oom b [] (rpc_client_channel c))"

section \<open>Registered services are called\<close>

text \<open>A service can be called on every connection, whether it was registered before the connection was made or
  after it.\<close>

lemma registered_service_called:
  assumes "rpc_channels s p = Some ch" "rpc_num_workers s = 0" "find_method codec service meth" "\<forall>a. \<not> oom a"
    "parse_request codec service meth (ser_msg codec req) = Some req"
    "meta_ok codec (call_meta cid svc meth, Some req)"
    "buffer_inv b" "contents b = frame codec (call_meta cid svc meth, Some req)"
  shows "\<exists>b' s'. rpc_on_recv codec oom p b (register_service svc service s) =
      Some (Inr ([Call_service service meth cid req], b', s')) \<and> contents b' = []"
proof -
  let ?s = "register_service svc service s"
  let ?ch = "set_services (Some (rpc_services ?s)) (set_conn True ch)"
  have "process_message codec oom (call_meta cid svc meth) (msg_bytes codec (Some req)) ?ch =
      Inr ([Call_service service meth cid req], ?ch)"
    by (rule request_dispatched [where table = "rpc_services ?s", OF _ _ assms(3,4,5)]) (simp_all add: set_services_def register_service_def)
  with process_single [OF assms(7,8,6)] obtain b' where
    "process codec oom b [] ?ch = Some (Inr ([Call_service service meth cid req], b', ?ch))" "contents b' = []"
    by fastforce
  then show ?thesis using assms(1,2) by (simp add: rpc_on_recv_def register_service_def)
qed

end
