(* ===== verification/ThreadGroup.thy ===== *)
theory ThreadGroup
  imports ThreadPool RoundRobin
begin

text \<open>
  \<^verbatim>\<open>code/ThreadGroup.h\<close> and \<^verbatim>\<open>code/ThreadGroup.cpp\<close>: a group of workers, each with a thread and a queue of its
  own, given out in turn.

  A \<^verbatim>\<open>ThreadWorker\<close> is a pool of one thread: its \<^verbatim>\<open>run\<close>, \<^verbatim>\<open>push\<close> and \<^verbatim>\<open>stop\<close> are those of \<^verbatim>\<open>ThreadPool\<close>, and
  its thread makes the steps of \<open>thread_step\<close>. Its constructor starts the thread before it
  initialises the queue; the queue it was constructed with is empty and not exiting, and nobody can
  push before the constructor returns, so that the state it leaves does not depend on the order.

  Workers are allocated with \<^verbatim>\<open>new\<close>; a group keeps their addresses, and \<^verbatim>\<open>get_worker\<close> returns one.
  \<^verbatim>\<open>ThreadGroup::stop\<close> returns after every worker's \<^verbatim>\<open>stop\<close> has: the theorems on stopping a pool apply to
  each of them.
\<close>

section \<open>Workers\<close>

definition mk_worker :: "size_t \<Rightarrow> 'k pool" where
  "mk_worker max_task = mk_pool\<lparr>threads := [Popping], tasks := snd (bq_init max_task mk_blocking_queue)\<rparr>"

definition worker_push :: "'k option \<Rightarrow> 'k pool \<Rightarrow> bool \<times> 'k pool" where
  "worker_push task w = pool_append task w"

definition worker_stop_request :: "'k pool \<Rightarrow> int \<times> 'k pool" where
  "worker_stop_request w =
     (if threads w = [] then (- 1, w)
      else (0, w\<lparr>tasks := bq_notify_exit (tasks w), threads := map wake (threads w)\<rparr>))"

text \<open>A new worker is a reachable state of a pool, as are all states its thread and its users lead to: the
  accounting of tasks and the freedom from lost wake-ups hold for every worker.\<close>

lemma mk_worker_eq: "mk_worker n = snd (pool_start 1 n False mk_pool)"
  by (simp add: mk_worker_def pool_start_def add_thread_def mk_pool_def bq_init_def mk_blocking_queue_def)

lemma mk_worker_reachable: "pool_reachable (mk_worker n)"
proof (rule pool_reachable.step [OF pool_reachable.init])
  show "pool_step mk_pool (mk_worker n)"
    unfolding mk_worker_eq by (rule pool_step.start) (rule prod.collapse [symmetric])
qed

section \<open>Groups\<close>

record 'k thread_group =
  workers :: "nat list"
  group_next :: size_t
  worker_at :: "nat \<Rightarrow> 'k pool option"

definition mk_group :: "'k thread_group" where
  "mk_group = \<lparr>workers = [], group_next = 0, worker_at = (\<lambda>_. None)\<rparr>"

text \<open>\<^verbatim>\<open>start\<close>; the list \<open>addrs\<close> has the addresses that the calls of \<^verbatim>\<open>new\<close> return, one per worker.\<close>

definition group_start :: "nat list \<Rightarrow> size_t \<Rightarrow> size_t \<Rightarrow> 'k thread_group \<Rightarrow> int \<times> 'k thread_group" where
  "group_start addrs thread_num max_task g =
     (if thread_num < 1 \<or> max_task < 1 \<or> workers g \<noteq> [] then (- 1, g)
      else (0, g\<lparr>workers := addrs,
                 worker_at := (\<lambda>a. if a \<in> set addrs then Some (mk_worker 100000) else worker_at g a),
                 group_next := 0\<rparr>))"

definition group_stop :: "'k thread_group \<Rightarrow> int \<times> 'k thread_group" where
  "group_stop g =
     (if workers g = [] then (- 1, g)
      else (0, g\<lparr>worker_at := (\<lambda>a. if a \<in> set (workers g) then None else worker_at g a),
                 workers := [], group_next := 0\<rparr>))"

definition get_worker :: "'k thread_group \<Rightarrow> nat option \<times> 'k thread_group" where
  "get_worker g =
     (if workers g = [] then (None, g)
      else (Some (workers g ! unat (group_next g)),
            g\<lparr>group_next := (group_next g + 1) mod of_nat (length (workers g))\<rparr>))"

section \<open>Taking turns\<close>

definition group_ok :: "'k thread_group \<Rightarrow> bool" where
  "group_ok g \<longleftrightarrow> unat (group_next g) < length (workers g) \<and> length (workers g) < 2 ^ 63"

interpretation group: round_robin "\<lambda>g. map Some (workers g)" "\<lambda>g. unat (group_next g)" get_worker group_ok
  by unfold_locales (auto simp: get_worker_def group_ok_def next_turn)

section \<open>Properties\<close>

text \<open>After a successful \<^verbatim>\<open>start\<close> of a group with \<open>n\<close> workers, any number of \<^verbatim>\<open>get_worker\<close> calls give each
  worker the same number of times, up to one: worker \<open>j\<close> is returned \<open>k div n\<close> times in \<open>k\<close> calls, once
  more if \<open>j < k mod n\<close>.\<close>

theorem get_worker_fair:
  assumes "group_start addrs n max_task g = (0, g')" "length addrs = unat n" "distinct addrs"
    and "unat n < 2 ^ 63" "j < unat n"
  shows "count_list (picks get_worker k g') (Some (addrs ! j)) =
    k div unat n + (if j < k mod unat n then 1 else 0)"
proof -
  from assms have g': "workers g' = addrs" "group_next g' = 0" "0 < unat n"
    by (auto simp: group_start_def split: if_splits)
  with assms have "group_ok g'" by (simp add: group_ok_def)
  with group.picks_fair [of g' j k] g' assms(2,3,5) show ?thesis
    by (simp add: distinct_map)
qed

theorem get_worker_fair_witness:
  "\<exists>g'. group_start [7, 8, 9] 3 1 (mk_group :: nat thread_group) = (0, g') \<and>
     count_list (picks get_worker 5 g') (Some 8) = 2 \<and> count_list (picks get_worker 5 g') (Some 9) = 1"
proof -
  obtain g' where g': "group_start [7, 8, 9] 3 1 (mk_group :: nat thread_group) = (0, g')"
    by (simp add: group_start_def mk_group_def)
  from get_worker_fair [OF g', of 1 5] get_worker_fair [OF g', of 2 5] g' show ?thesis
    by (intro exI [of _ g']) simp
qed

end
