(* ===== verification/LockFreeQueue.thy ===== *)
theory LockFreeQueue
  imports Prelude
begin

text \<open>
  \<^verbatim>\<open>code/LockFreeQueue.hpp\<close>: a linked queue with a sentry node whose pointers change by compare-and-exchange.

  Pointers are numbers, 0 is \<^verbatim>\<open>nullptr\<close>; the nodes live in an explicit heap. A thread inside \<^verbatim>\<open>push\<close> or \<^verbatim>\<open>pop\<close> is at one of
  the program points \<open>pc\<close>, with the local variables that matter there; one step of \<open>lf_step\<close> is one access to
  shared memory. The threads interleave at these steps, each of which takes effect at once for all of them. The
  weak form of compare-and-exchange may fail although the values agree: the argument \<open>spurious\<close> says whether it
  does. The address that \<^verbatim>\<open>new\<close> returns is an argument too; an address that has been freed may return.
\<close>

section \<open>State\<close>

record 'a lf_node =
  nd_data :: 'a
  nd_next :: nat

record 'a lfq =
  lf_head :: nat
  lf_tail :: nat
  lf_count :: size_t
  lf_max_count :: size_t
  lf_heap :: "nat \<Rightarrow> 'a lf_node option"

datatype lf_error = Null_deref | Freed_deref

definition deref :: "nat \<Rightarrow> 'a lfq \<Rightarrow> lf_error + 'a lf_node" where
  "deref p q =
     (if p = 0 then Inl Null_deref
      else case lf_heap q p of None \<Rightarrow> Inl Freed_deref | Some nd \<Rightarrow> Inr nd)"

definition mk_lfq :: "(nat \<Rightarrow> 'a lf_node option) \<Rightarrow> 'a lfq" where
  "mk_lfq h = \<lparr>lf_head = 0, lf_tail = 0, lf_count = 0, lf_max_count = 0, lf_heap = h\<rparr>"

section \<open>Operations that are not thread safe\<close>

text \<open>\<^verbatim>\<open>clear\<close>: the loop ends when it meets a null pointer.\<close>

partial_function (option) lf_clear_from :: "nat \<Rightarrow> 'a lfq \<Rightarrow> (lf_error + 'a lfq) option" where
  "lf_clear_from cur q =
     (if cur = 0 then Some (Inr q)
      else
        (case deref cur q of
           Inl err \<Rightarrow> Some (Inl err)
         | Inr nd \<Rightarrow> lf_clear_from (nd_next nd) (q\<lparr>lf_heap := (lf_heap q)(cur := None)\<rparr>)))"

definition lf_clear :: "'a lfq \<Rightarrow> (lf_error + 'a lfq) option" where
  "lf_clear q = lf_clear_from (lf_head q) q"

text \<open>\<^verbatim>\<open>init\<close>; \<open>a\<close> is the address of the sentry, \<open>dflt\<close> the value of \<^verbatim>\<open>T()\<close>.\<close>

definition lf_init :: "'a \<Rightarrow> nat \<Rightarrow> size_t \<Rightarrow> 'a lfq \<Rightarrow> (lf_error + 'a lfq) option" where
  "lf_init dflt a max_count q =
     map_option (\<lambda>r. bindE r (\<lambda>q1.
         Inr (q1\<lparr>lf_heap := (lf_heap q1)(a \<mapsto> \<lparr>nd_data = dflt, nd_next = 0\<rparr>), lf_head := a, lf_tail := a\<rparr>)))
       (lf_clear (q\<lparr>lf_max_count := max_count, lf_count := 0\<rparr>))"

definition lf_empty :: "'a lfq \<Rightarrow> bool" where
  "lf_empty q \<longleftrightarrow> lf_count q = 0"

definition lf_full :: "'a lfq \<Rightarrow> bool" where
  "lf_full q \<longleftrightarrow> lf_max_count q > 0 \<and> lf_max_count q \<le> lf_count q"

definition lf_size :: "'a lfq \<Rightarrow> size_t" where
  "lf_size q = lf_count q"

definition lf_front :: "'a lfq \<Rightarrow> lf_error + 'a option" where
  "lf_front q =
     bindE (deref (lf_head q) q) (\<lambda>nd.
     if nd_next nd = 0 then Inr None
     else bindE (deref (nd_next nd) q) (\<lambda>nx. Inr (Some (nd_data nx))))"

definition lf_back :: "'a lfq \<Rightarrow> lf_error + 'a option" where
  "lf_back q = (if lf_tail q = 0 then Inr None else bindE (deref (lf_tail q) q) (\<lambda>nd. Inr (Some (nd_data nd))))"

section \<open>Push and pop\<close>

datatype 'a pc =
    Idle
  | Push_start 'a
  | Push_new 'a
  | Push_load nat
  | Push_next nat nat
  | Push_check nat nat nat
  | Push_help nat nat nat
  | Push_link nat nat
  | Push_swing nat nat
  | Push_count
  | Push_done bool
  | Pop_start
  | Pop_head
  | Pop_tail nat
  | Pop_next nat nat
  | Pop_check nat nat nat
  | Pop_help nat nat
  | Pop_data nat nat
  | Pop_cas nat nat 'a
  | Pop_delete nat 'a
  | Pop_count 'a
  | Pop_done "'a option"

text \<open>\<^verbatim>\<open>p.compare_exchange_weak(expected, desired)\<close> on the tail and the head.\<close>

definition cas_tail :: "bool \<Rightarrow> nat \<Rightarrow> nat \<Rightarrow> 'a lfq \<Rightarrow> 'a lfq" where
  "cas_tail spurious expected desired q =
     (if lf_tail q = expected \<and> \<not> spurious then q\<lparr>lf_tail := desired\<rparr> else q)"

fun lf_step :: "bool \<Rightarrow> nat \<Rightarrow> 'a pc \<Rightarrow> 'a lfq \<Rightarrow> lf_error + 'a pc \<times> 'a lfq" where
  "lf_step spurious a Idle q = Inr (Idle, q)"
| "lf_step spurious a (Push_start item) q = Inr (if lf_full q then Push_done False else Push_new item, q)"
| "lf_step spurious a (Push_new item) q =
     Inr (Push_load a, q\<lparr>lf_heap := (lf_heap q)(a \<mapsto> \<lparr>nd_data = item, nd_next = 0\<rparr>)\<rparr>)"
| "lf_step spurious a (Push_load n) q = Inr (Push_next n (lf_tail q), q)"
| "lf_step spurious a (Push_next n t) q = bindE (deref t q) (\<lambda>nd. Inr (Push_check n t (nd_next nd), q))"
| "lf_step spurious a (Push_check n t x) q =
     Inr (if t \<noteq> lf_tail q then Push_load n else if x \<noteq> 0 then Push_help n t x else Push_link n t, q)"
| "lf_step spurious a (Push_help n t x) q = Inr (Push_load n, cas_tail spurious t x q)"
| "lf_step spurious a (Push_link n t) q =
     bindE (deref t q) (\<lambda>nd.
     if nd_next nd = 0 \<and> \<not> spurious
     then Inr (Push_swing n t, q\<lparr>lf_heap := (lf_heap q)(t \<mapsto> nd\<lparr>nd_next := n\<rparr>)\<rparr>)
     else Inr (Push_load n, q))"
| "lf_step spurious a (Push_swing n t) q = Inr (Push_count, cas_tail spurious t n q)"
| "lf_step spurious a Push_count q = Inr (Push_done True, q\<lparr>lf_count := lf_count q + 1\<rparr>)"
| "lf_step spurious a (Push_done b) q = Inr (Idle, q)"
| "lf_step spurious a Pop_start q = Inr (if lf_empty q then Pop_done None else Pop_head, q)"
| "lf_step spurious a Pop_head q = Inr (Pop_tail (lf_head q), q)"
| "lf_step spurious a (Pop_tail h) q = Inr (Pop_next h (lf_tail q), q)"
| "lf_step spurious a (Pop_next h t) q = bindE (deref h q) (\<lambda>nd. Inr (Pop_check h t (nd_next nd), q))"
| "lf_step spurious a (Pop_check h t x) q =
     Inr (if h \<noteq> lf_head q then Pop_head
          else if h = t \<and> x = 0 then Pop_done None
          else if h = t then Pop_help t x
          else Pop_data h x, q)"
| "lf_step spurious a (Pop_help t x) q = Inr (Pop_head, cas_tail spurious t x q)"
| "lf_step spurious a (Pop_data h x) q = bindE (deref x q) (\<lambda>nd. Inr (Pop_cas h x (nd_data nd), q))"
| "lf_step spurious a (Pop_cas h x d) q =
     (if lf_head q = h \<and> \<not> spurious then Inr (Pop_delete h d, q\<lparr>lf_head := x\<rparr>) else Inr (Pop_head, q))"
| "lf_step spurious a (Pop_delete h d) q =
     bindE (deref h q) (\<lambda>_. Inr (Pop_count d, q\<lparr>lf_heap := (lf_heap q)(h := None)\<rparr>))"
| "lf_step spurious a (Pop_count d) q = Inr (Pop_done (Some d), q\<lparr>lf_count := lf_count q - 1\<rparr>)"
| "lf_step spurious a (Pop_done r) q = Inr (Idle, q)"

section \<open>Threads\<close>

text \<open>A schedule: which thread makes a step, or begins a call, and how the step is resolved.\<close>

datatype 'a lf_event =
    Begin_push nat 'a
  | Begin_pop nat
  | Step nat bool nat

fun lf_run :: "'a lf_event list \<Rightarrow> 'a pc list \<Rightarrow> 'a lfq \<Rightarrow> lf_error + 'a pc list \<times> 'a lfq" where
  "lf_run [] ts q = Inr (ts, q)"
| "lf_run (Begin_push i item # es) ts q = lf_run es (ts[i := Push_start item]) q"
| "lf_run (Begin_pop i # es) ts q = lf_run es (ts[i := Pop_start]) q"
| "lf_run (Step i spurious a # es) ts q =
     bindE (lf_step spurious a (ts ! i) q) (\<lambda>(pc, q1). lf_run es (ts[i := pc]) q1)"

text \<open>One producer and one consumer, with what has been put into the queue and taken out of it. The machine's
  compare-and-exchange does not fail spuriously; \<^verbatim>\<open>new\<close> returns an address that is not in use.\<close>

record 'a lf_sys =
  sy_q :: "'a lfq"
  sy_prod :: "'a pc"
  sy_cons :: "'a pc"
  sy_pushed :: "'a list"
  sy_popped :: "'a list"

text \<open>The elements that a step of the producer makes visible, and those that a step of the consumer returns.\<close>

fun linked_by :: "'a pc \<Rightarrow> 'a pc \<Rightarrow> 'a lfq \<Rightarrow> 'a list" where
  "linked_by (Push_link n t) (Push_swing n' t') q = (case lf_heap q n of None \<Rightarrow> [] | Some nd \<Rightarrow> [nd_data nd])"
| "linked_by _ _ q = []"

fun returned_by :: "'a pc \<Rightarrow> 'a pc \<Rightarrow> 'a list" where
  "returned_by (Pop_count d) (Pop_done r) = (case r of None \<Rightarrow> [] | Some v \<Rightarrow> [v])"
| "returned_by _ _ = []"

fun at_rest :: "'a pc \<Rightarrow> bool" where
  "at_rest Idle \<longleftrightarrow> True"
| "at_rest (Push_done b) \<longleftrightarrow> True"
| "at_rest (Pop_done r) \<longleftrightarrow> True"
| "at_rest _ \<longleftrightarrow> False"

inductive lf_sys_step :: "'a lf_sys \<Rightarrow> 'a lf_sys \<Rightarrow> bool" where
  begin_push: "at_rest (sy_prod s) \<Longrightarrow> lf_sys_step s (s\<lparr>sy_prod := Push_start item\<rparr>)"
| begin_pop: "at_rest (sy_cons s) \<Longrightarrow> lf_sys_step s (s\<lparr>sy_cons := Pop_start\<rparr>)"
| producer:
    "a \<noteq> 0 \<Longrightarrow> lf_heap (sy_q s) a = None \<Longrightarrow> lf_step False a (sy_prod s) (sy_q s) = Inr (pc, q) \<Longrightarrow>
     lf_sys_step s (s\<lparr>sy_q := q, sy_prod := pc, sy_pushed := sy_pushed s @ linked_by (sy_prod s) pc (sy_q s)\<rparr>)"
| consumer:
    "lf_step False 0 (sy_cons s) (sy_q s) = Inr (pc, q) \<Longrightarrow>
     lf_sys_step s (s\<lparr>sy_q := q, sy_cons := pc, sy_popped := sy_popped s @ returned_by (sy_cons s) pc\<rparr>)"

inductive lf_reachable :: "'a lfq \<Rightarrow> 'a lf_sys \<Rightarrow> bool" for q0 where
  start: "lf_reachable q0 \<lparr>sy_q = q0, sy_prod = Idle, sy_cons = Idle, sy_pushed = [], sy_popped = []\<rparr>"
| step: "lf_reachable q0 s \<Longrightarrow> lf_sys_step s s' \<Longrightarrow> lf_reachable q0 s'"

section \<open>Chains of nodes\<close>

fun chain :: "(nat \<Rightarrow> 'a lf_node option) \<Rightarrow> nat list \<Rightarrow> bool" where
  "chain h [] \<longleftrightarrow> True"
| "chain h (p # ps) \<longleftrightarrow>
     p \<noteq> 0 \<and> (\<exists>nd. h p = Some nd \<and> nd_next nd = (case ps of [] \<Rightarrow> 0 | x # _ \<Rightarrow> x)) \<and> chain h ps"

definition node_values :: "(nat \<Rightarrow> 'a lf_node option) \<Rightarrow> nat list \<Rightarrow> 'a list" where
  "node_values h ps = map (\<lambda>p. nd_data (the (h p))) ps"

lemma chain_other [simp]: "p \<notin> set ps \<Longrightarrow> chain (h(p := v)) ps = chain h ps"
  by (induction ps) auto

lemma node_values_other [simp]: "p \<notin> set ps \<Longrightarrow> node_values (h(p := v)) ps = node_values h ps"
  by (auto simp: node_values_def)

lemma node_values_simps [simp]:
  "node_values h [] = []" "node_values h (p # ps) = nd_data (the (h p)) # node_values h ps"
  "node_values h (ps @ rs) = node_values h ps @ node_values h rs"
  by (simp_all add: node_values_def)

lemma chain_nonzero: "chain h ps \<Longrightarrow> 0 \<notin> set ps"
  by (induction ps) auto

lemma chain_mem: "chain h ps \<Longrightarrow> p \<in> set ps \<Longrightarrow> \<exists>nd. h p = Some nd"
  by (induction ps) auto

lemma chain_last: "chain h ps \<Longrightarrow> ps \<noteq> [] \<Longrightarrow> \<exists>nd. h (last ps) = Some nd \<and> nd_next nd = 0"
  by (induction ps) (auto split: list.splits)

text \<open>Linking a node behind the last one.\<close>

lemma chain_link:
  assumes "chain h ps" "ps \<noteq> []" "distinct ps" "n \<notin> set ps" "n \<noteq> 0" "h n = Some nn" "nd_next nn = 0" "h (last ps) = Some nd"
  shows "chain (h(last ps \<mapsto> nd\<lparr>nd_next := n\<rparr>)) (ps @ [n])"
  using assms
proof (induction ps)
  case (Cons p ps)
  show ?case
  proof (cases ps)
    case Nil
    with Cons.prems show ?thesis by auto
  next
    case (Cons x xs)
    have "p \<noteq> last ps" using Cons.prems(3) Cons by (metis distinct.simps(2) last_in_set list.distinct(1))
    with Cons.IH Cons.prems Cons show ?thesis by auto
  qed
qed simp

lemma node_values_link:
  "h p = Some nd \<Longrightarrow> node_values (h(p \<mapsto> nd\<lparr>nd_next := n\<rparr>)) ps = node_values h ps"
  by (simp add: node_values_def)

section \<open>The invariant\<close>

text \<open>A node that the producer has made and not linked yet.\<close>

definition own_node :: "nat \<Rightarrow> 'a lfq \<Rightarrow> nat list \<Rightarrow> 'a pc \<Rightarrow> bool" where
  "own_node n q ns cons \<longleftrightarrow>
     n \<noteq> 0 \<and> n \<notin> set ns \<and> (\<exists>nd. lf_heap q n = Some nd \<and> nd_next nd = 0) \<and> (\<forall>h d. cons = Pop_delete h d \<longrightarrow> h \<noteq> n)"

fun prod_ok :: "'a pc \<Rightarrow> 'a lfq \<Rightarrow> nat list \<Rightarrow> 'a pc \<Rightarrow> bool" where
  "prod_ok Idle q ns cons \<longleftrightarrow> lf_tail q = last ns"
| "prod_ok (Push_start item) q ns cons \<longleftrightarrow> lf_tail q = last ns"
| "prod_ok (Push_new item) q ns cons \<longleftrightarrow> lf_tail q = last ns"
| "prod_ok (Push_load n) q ns cons \<longleftrightarrow> lf_tail q = last ns \<and> own_node n q ns cons"
| "prod_ok (Push_next n t) q ns cons \<longleftrightarrow> lf_tail q = last ns \<and> own_node n q ns cons \<and> t = last ns"
| "prod_ok (Push_check n t x) q ns cons \<longleftrightarrow> lf_tail q = last ns \<and> own_node n q ns cons \<and> t = last ns \<and> x = 0"
| "prod_ok (Push_link n t) q ns cons \<longleftrightarrow> lf_tail q = last ns \<and> own_node n q ns cons \<and> t = last ns"
| "prod_ok (Push_swing n t) q ns cons \<longleftrightarrow>
     n = last ns \<and> t \<noteq> n \<and> (lf_tail q = n \<or> lf_tail q = t \<and> (\<exists>pre. ns = pre @ [t, n]))"
| "prod_ok Push_count q ns cons \<longleftrightarrow> lf_tail q = last ns"
| "prod_ok (Push_done b) q ns cons \<longleftrightarrow> lf_tail q = last ns"
| "prod_ok _ q ns cons \<longleftrightarrow> False"

fun cons_ok :: "'a pc \<Rightarrow> 'a lfq \<Rightarrow> nat list \<Rightarrow> bool" where
  "cons_ok Idle q ns \<longleftrightarrow> True"
| "cons_ok Pop_start q ns \<longleftrightarrow> True"
| "cons_ok Pop_head q ns \<longleftrightarrow> True"
| "cons_ok (Pop_tail h) q ns \<longleftrightarrow> h = hd ns"
| "cons_ok (Pop_next h t) q ns \<longleftrightarrow> h = hd ns \<and> (t \<noteq> h \<longrightarrow> lf_tail q \<noteq> hd ns)"
| "cons_ok (Pop_check h t x) q ns \<longleftrightarrow>
     h = hd ns \<and> (t \<noteq> h \<longrightarrow> lf_tail q \<noteq> hd ns \<and> x \<noteq> 0) \<and> (x \<noteq> 0 \<longrightarrow> (\<exists>rest. ns = h # x # rest))"
| "cons_ok (Pop_help t x) q ns \<longleftrightarrow> (\<exists>rest. ns = t # x # rest)"
| "cons_ok (Pop_data h x) q ns \<longleftrightarrow> lf_tail q \<noteq> hd ns \<and> (\<exists>rest. ns = h # x # rest)"
| "cons_ok (Pop_cas h x d) q ns \<longleftrightarrow>
     lf_tail q \<noteq> hd ns \<and> (\<exists>rest. ns = h # x # rest) \<and> d = nd_data (the (lf_heap q x))"
| "cons_ok (Pop_delete h d) q ns \<longleftrightarrow> h \<noteq> 0 \<and> h \<notin> set ns \<and> lf_heap q h \<noteq> None"
| "cons_ok (Pop_count d) q ns \<longleftrightarrow> True"
| "cons_ok (Pop_done r) q ns \<longleftrightarrow> True"
| "cons_ok _ q ns \<longleftrightarrow> False"

text \<open>The element the consumer has taken and not returned yet; what the count lags behind.\<close>

fun in_flight :: "'a pc \<Rightarrow> 'a list" where
  "in_flight (Pop_delete h d) = [d]"
| "in_flight (Pop_count d) = [d]"
| "in_flight _ = []"

fun uncounted :: "'a pc \<Rightarrow> size_t" where
  "uncounted (Push_swing n t) = 1"
| "uncounted Push_count = 1"
| "uncounted _ = 0"

definition queue_ok :: "'a lfq \<Rightarrow> nat list \<Rightarrow> bool" where
  "queue_ok q ns \<longleftrightarrow>
     ns \<noteq> [] \<and> distinct ns \<and> chain (lf_heap q) ns \<and> lf_head q = hd ns \<and> lf_tail q \<in> set ns"

definition lf_inv :: "'a lf_sys \<Rightarrow> nat list \<Rightarrow> bool" where
  "lf_inv s ns \<longleftrightarrow>
     queue_ok (sy_q s) ns \<and> prod_ok (sy_prod s) (sy_q s) ns (sy_cons s) \<and> cons_ok (sy_cons s) (sy_q s) ns \<and>
     sy_pushed s = sy_popped s @ in_flight (sy_cons s) @ node_values (lf_heap (sy_q s)) (tl ns) \<and>
     lf_count (sy_q s) + uncounted (sy_prod s) = of_nat (length (tl ns)) + of_nat (length (in_flight (sy_cons s)))"

lemma deref_chain:
  assumes "queue_ok q ns" "p \<in> set ns"
  shows "\<exists>nd. deref p q = Inr nd \<and> lf_heap q p = Some nd"
proof -
  have "0 \<notin> set ns" using assms(1) chain_nonzero [of "lf_heap q" ns] by (simp add: queue_ok_def)
  with assms(2) have "p \<noteq> 0" by metis
  moreover have "\<exists>nd. lf_heap q p = Some nd" using assms chain_mem by (auto simp: queue_ok_def)
  ultimately show ?thesis by (auto simp: deref_def)
qed

lemma deref_last:
  assumes "queue_ok q ns"
  shows "\<exists>nd. deref (last ns) q = Inr nd \<and> lf_heap q (last ns) = Some nd \<and> nd_next nd = 0"
  using deref_chain [OF assms, of "last ns"] chain_last [of "lf_heap q" ns] assms by (auto simp: queue_ok_def)

lemma deref_head:
  assumes "queue_ok q ns"
  shows "\<exists>nd. deref (hd ns) q = Inr nd \<and> nd_next nd = (case tl ns of [] \<Rightarrow> 0 | x # _ \<Rightarrow> x) \<and> 0 \<notin> set ns"
proof -
  obtain p ps where ns: "ns = p # ps" using assms by (cases ns) (auto simp: queue_ok_def)
  then show ?thesis using assms chain_nonzero [of "lf_heap q" ns] by (auto simp: queue_ok_def deref_def)
qed

text \<open>No step of either thread goes wrong.\<close>

lemma lf_inv_steps_ok:
  assumes "lf_inv s ns"
  shows "lf_step False a (sy_prod s) (sy_q s) \<noteq> Inl err" "lf_step False b (sy_cons s) (sy_q s) \<noteq> Inl err"
proof -
  have q: "queue_ok (sy_q s) ns" using assms by (simp add: lf_inv_def)
  from deref_last [OF q] obtain nd where l: "deref (last ns) (sy_q s) = Inr nd" by blast
  have p: "prod_ok (sy_prod s) (sy_q s) ns (sy_cons s)" using assms by (simp add: lf_inv_def)
  show "lf_step False a (sy_prod s) (sy_q s) \<noteq> Inl err"
    using p l by (cases "sy_prod s") (auto simp: bindE_def split: sum.splits if_splits)
  have c: "cons_ok (sy_cons s) (sy_q s) ns" using assms by (simp add: lf_inv_def)
  have m: "\<exists>nd. deref x (sy_q s) = Inr nd" if "x \<in> set ns" for x using deref_chain [OF q that] by blast
  from deref_head [OF q] obtain nh where h: "deref (hd ns) (sy_q s) = Inr nh" by blast
  show "lf_step False b (sy_cons s) (sy_q s) \<noteq> Inl err"
  proof (cases "sy_cons s")
    case (Pop_data h x)
    with c have "x \<in> set ns" by auto
    with m Pop_data show ?thesis by fastforce
  qed (use c h in \<open>auto simp: deref_def\<close>)
qed

section \<open>Every step keeps the invariant\<close>

lemma count_irrelevant [simp]:
  "queue_ok (q\<lparr>lf_count := k\<rparr>) ns = queue_ok q ns"
  "prod_ok pc (q\<lparr>lf_count := k\<rparr>) ns cons = prod_ok pc q ns cons"
  "cons_ok pc' (q\<lparr>lf_count := k\<rparr>) ns = cons_ok pc' q ns"
  subgoal by (simp add: queue_ok_def)
  subgoal by (cases pc) (simp_all add: own_node_def)
  subgoal by (cases pc') simp_all
  done

text \<open>What the producer relies on is not touched by the consumer's own progress.\<close>

lemma prod_ok_cons:
  assumes "prod_ok pc q ns c" "\<And>h d n. c' = Pop_delete h d \<Longrightarrow> own_node n q ns c \<Longrightarrow> h \<noteq> n"
  shows "prod_ok pc q ns c'"
proof -
  have "own_node n q ns c'" if "own_node n q ns c" for n using that assms(2) [OF _ that] unfolding own_node_def by blast
  with assms(1) show ?thesis by (cases pc) simp_all
qed

lemma fresh_not_linked: "queue_ok q ns \<Longrightarrow> lf_heap q a = None \<Longrightarrow> a \<notin> set ns"
  using chain_mem [of "lf_heap q" ns a] by (auto simp: queue_ok_def)

lemma lf_inv_new:
  assumes "lf_inv s ns" "sy_prod s = Push_new item" "a \<noteq> 0" "lf_heap (sy_q s) a = None"
  shows "lf_inv (s\<lparr>sy_q := (sy_q s)\<lparr>lf_heap := (lf_heap (sy_q s))(a \<mapsto> \<lparr>nd_data = item, nd_next = 0\<rparr>)\<rparr>,
    sy_prod := Push_load a\<rparr>) ns"
proof -
  let ?q = "sy_q s" and ?h = "(lf_heap (sy_q s))(a \<mapsto> \<lparr>nd_data = item, nd_next = 0\<rparr>)"
  have q: "queue_ok ?q ns" and c: "cons_ok (sy_cons s) ?q ns" using assms(1) by (simp_all add: lf_inv_def)
  have a: "a \<notin> set ns" using fresh_not_linked [OF q assms(4)] .
  have a': "a \<notin> set (tl ns)" using a by (cases ns) auto
  have "cons_ok (sy_cons s) (?q\<lparr>lf_heap := ?h\<rparr>) ns" using c a by (cases "sy_cons s") auto
  moreover have "own_node a (?q\<lparr>lf_heap := ?h\<rparr>) ns (sy_cons s)" using a assms(3,4) c by (auto simp: own_node_def)
  ultimately show ?thesis using assms(1,2) q a a' by (simp add: lf_inv_def queue_ok_def)
qed

lemma lf_inv_link:
  assumes "lf_inv s ns" "sy_prod s = Push_link n t" "deref t (sy_q s) = Inr nd" "lf_heap (sy_q s) n = Some nn"
  shows "lf_inv (s\<lparr>sy_q := (sy_q s)\<lparr>lf_heap := (lf_heap (sy_q s))(t \<mapsto> nd\<lparr>nd_next := n\<rparr>)\<rparr>,
    sy_prod := Push_swing n t, sy_pushed := sy_pushed s @ [nd_data nn]\<rparr>) (ns @ [n])"
proof -
  let ?q = "sy_q s" and ?h = "(lf_heap (sy_q s))(t \<mapsto> nd\<lparr>nd_next := n\<rparr>)"
  have q: "queue_ok ?q ns" and c: "cons_ok (sy_cons s) ?q ns" and t: "t = last ns" "lf_tail ?q = last ns"
    and own: "own_node n ?q ns (sy_cons s)" using assms(1,2) by (simp_all add: lf_inv_def)
  have ns: "ns \<noteq> []" "distinct ns" "chain (lf_heap ?q) ns" "n \<notin> set ns" "n \<noteq> 0" "nd_next nn = 0"
    "\<And>h d. sy_cons s = Pop_delete h d \<Longrightarrow> h \<noteq> n"
    using q own assms(4) by (auto simp: queue_ok_def own_node_def)
  have grow: "\<exists>rest. ns @ [n] = h # x # rest" if "\<exists>rest. ns = h # x # rest" for h x using that by auto
  have new: "n \<noteq> t" using ns(1,4) t(1) last_in_set by metis
  have nd: "lf_heap ?q t = Some nd" using assms(3) by (auto simp: deref_def split: if_splits option.splits)
  have "chain ?h (ns @ [n])" using chain_link [OF ns(3,1,2,4,5) assms(4) ns(6)] nd t(1) by simp
  moreover have vals: "node_values ?h ps = node_values (lf_heap ?q) ps" for ps using node_values_link [of _ t nd n ps] nd by simp
  moreover have "nd_data (the (?h x)) = nd_data (the (lf_heap ?q x))" for x using nd by simp
  ultimately have "queue_ok (?q\<lparr>lf_heap := ?h\<rparr>) (ns @ [n])" "cons_ok (sy_cons s) (?q\<lparr>lf_heap := ?h\<rparr>) (ns @ [n])"
    using q c ns grow by (simp_all add: queue_ok_def) (cases "sy_cons s"; auto)
  moreover have "prod_ok (Push_swing n t) (?q\<lparr>lf_heap := ?h\<rparr>) (ns @ [n]) (sy_cons s)"
  proof -
    have "ns @ [n] = butlast ns @ [t, n]" using ns(1) t(1) append_butlast_last_id [of ns] by simp
    then have "\<exists>pre. ns @ [n] = pre @ [t, n]" by blast
    with new show ?thesis using t by simp
  qed
  moreover have "tl (ns @ [n]) = tl ns @ [n]" using ns(1) by (rule tl_append2)
  moreover have "of_nat (length (tl (ns @ [n]))) = (of_nat (length (tl ns)) + 1 :: size_t)" using ns(1) by (cases ns) simp_all
  ultimately show ?thesis using assms vals new by (simp add: lf_inv_def del: prod_ok.simps(8) length_tl)
qed

lemma lf_inv_swing:
  assumes "lf_inv s ns" "sy_prod s = Push_swing n t"
  shows "lf_inv (s\<lparr>sy_q := cas_tail False t n (sy_q s), sy_prod := Push_count\<rparr>) ns"
proof -
  let ?q = "sy_q s"
  have q: "queue_ok ?q ns" and c: "cons_ok (sy_cons s) ?q ns" using assms by (simp_all add: lf_inv_def)
  have p: "prod_ok (Push_swing n t) ?q ns (sy_cons s)"
    using assms unfolding lf_inv_def by (simp del: prod_ok.simps)
  from p have n: "n = last ns" "t \<noteq> n" "lf_tail ?q = n \<or> lf_tail ?q = t \<and> (\<exists>pre. ns = pre @ [t, n])" unfolding prod_ok.simps by blast+
  have hd: "n \<noteq> hd ns" if "lf_tail ?q = t"
  proof -
    from n that obtain pre where "ns = pre @ [t, n]" by auto
    with q n(2) show ?thesis by (cases pre) (auto simp: queue_ok_def)
  qed
  have "cons_ok (sy_cons s) (cas_tail False t n ?q) ns" "queue_ok (cas_tail False t n ?q) ns"
    using c q hd n by (simp_all add: cas_tail_def queue_ok_def) (cases "sy_cons s"; auto)
  moreover have "lf_tail (cas_tail False t n ?q) = last ns" using n by (auto simp: cas_tail_def)
  moreover have "lf_heap (cas_tail False t n ?q) = lf_heap ?q" "lf_count (cas_tail False t n ?q) = lf_count ?q"
    by (simp_all add: cas_tail_def)
  ultimately show ?thesis using assms by (simp add: lf_inv_def)
qed

lemma lf_inv_producer:
  assumes "lf_inv s ns" "a \<noteq> 0" "lf_heap (sy_q s) a = None" "lf_step False a (sy_prod s) (sy_q s) = Inr (pc, q)"
  shows "\<exists>ns'. lf_inv (s\<lparr>sy_q := q, sy_prod := pc, sy_pushed := sy_pushed s @ linked_by (sy_prod s) pc (sy_q s)\<rparr>) ns'"
proof (cases "sy_prod s")
  case (Push_new item)
  with lf_inv_new [OF assms(1) Push_new assms(2,3)] assms(4) show ?thesis by auto
next
  case (Push_link n t)
  have q: "queue_ok (sy_q s) ns" and t: "t = last ns" "own_node n (sy_q s) ns (sy_cons s)"
    using assms(1) Push_link by (simp_all add: lf_inv_def)
  from deref_last [OF q] t(1) obtain nd where nd: "deref t (sy_q s) = Inr nd" "nd_next nd = 0" by blast
  from t(2) obtain nn where nn: "lf_heap (sy_q s) n = Some nn" by (auto simp: own_node_def)
  from lf_inv_link [OF assms(1) Push_link nd(1) nn] assms(4) Push_link nd nn show ?thesis by auto
next
  case (Push_swing n t)
  with lf_inv_swing [OF assms(1) Push_swing] assms(4) show ?thesis by auto
next
  case (Push_next n t)
  have q: "queue_ok (sy_q s) ns" and t: "t = last ns" using assms(1) Push_next by (simp_all add: lf_inv_def)
  from deref_last [OF q] t obtain nd where "deref t (sy_q s) = Inr nd" "nd_next nd = 0" by blast
  with assms(1,4) Push_next show ?thesis by (auto simp: lf_inv_def)
qed (use assms(1,4) in \<open>auto simp: lf_inv_def\<close>)

text \<open>The steps of the consumer.\<close>

lemma lf_invD:
  assumes "lf_inv s ns"
  shows "queue_ok (sy_q s) ns" "prod_ok (sy_prod s) (sy_q s) ns (sy_cons s)" "cons_ok (sy_cons s) (sy_q s) ns"
  using assms by (simp_all add: lf_inv_def)

lemma lf_inv_help:
  assumes "lf_inv s ns" "sy_cons s = Pop_help t x"
  shows "lf_inv (s\<lparr>sy_q := cas_tail False t x (sy_q s), sy_cons := Pop_head\<rparr>) ns"
proof -
  let ?q = "sy_q s"
  note q = lf_invD(1) [OF assms(1)] and p = lf_invD(2) [OF assms(1), unfolded assms(2)]
  from assms obtain rest where ns: "ns = t # x # rest" by (auto simp: lf_inv_def)
  have p': "prod_ok (sy_prod s) ?q ns Pop_head" using p by (rule prod_ok_cons) simp
  show ?thesis
  proof (cases "lf_tail ?q = t")
    case True
    have "t \<noteq> last ns" using q ns by (auto simp: queue_ok_def)
    with True p have "\<exists>n t'. sy_prod s = Push_swing n t'" by (cases "sy_prod s") simp_all
    then obtain n t' where sw: "sy_prod s = Push_swing n t'" by blast
    with p True \<open>t \<noteq> last ns\<close> have pre: "\<exists>pre. ns = pre @ [t, n]" "t' = t" "n = last ns" "t \<noteq> n"
      unfolding sw prod_ok.simps by blast+
    from pre(1) obtain pre where pre': "ns = pre @ [t, n]" by blast
    have "distinct (pre @ [t, n])" using q pre' by (simp add: queue_ok_def)
    moreover have "hd (pre @ [t, n]) = t" using pre' ns by (metis list.sel(1))
    ultimately have "pre = []" by (cases pre) auto
    with pre' ns have x: "x = n" "rest = []" by auto
    have "cas_tail False t x ?q = ?q\<lparr>lf_tail := n\<rparr>" using True x by (simp add: cas_tail_def)
    moreover have "queue_ok (?q\<lparr>lf_tail := n\<rparr>) ns" using q ns x by (simp add: queue_ok_def)
    moreover have "prod_ok (sy_prod s) (?q\<lparr>lf_tail := n\<rparr>) ns Pop_head" using pre(3,4) by (simp add: sw pre(2))
    ultimately show ?thesis using assms unfolding lf_inv_def by (simp del: prod_ok.simps)
  next
    case False
    then have "cas_tail False t x ?q = ?q" by (simp add: cas_tail_def)
    with p' assms show ?thesis by (simp add: lf_inv_def)
  qed
qed

lemma own_node_tl: "own_node n q ns c \<Longrightarrow> h \<in> set ns \<Longrightarrow> own_node n (q\<lparr>lf_head := x\<rparr>) (tl ns) (Pop_delete h d)"
  by (cases ns) (auto simp: own_node_def)

lemma lf_inv_take:
  assumes "lf_inv s ns" "sy_cons s = Pop_cas h x d"
  shows "lf_inv (s\<lparr>sy_q := (sy_q s)\<lparr>lf_head := x\<rparr>, sy_cons := Pop_delete h d\<rparr>) (tl ns)"
proof -
  let ?q = "sy_q s"
  note q = lf_invD(1) [OF assms(1)] and p = lf_invD(2) [OF assms(1), unfolded assms(2)]
  from assms obtain rest where ns: "ns = h # x # rest" and t: "lf_tail ?q \<noteq> h" and d: "d = nd_data (the (lf_heap ?q x))"
    by (auto simp: lf_inv_def)
  have last: "last (tl ns) = last ns" using ns by simp
  have swing: "\<exists>pre. tl ns = pre @ [t', n]" if "lf_tail ?q = t'" "\<exists>pre. ns = pre @ [t', n]" for t' n
  proof -
    from that obtain pre where pre: "ns = pre @ [t', n]" by blast
    with ns t that(1) have "pre \<noteq> []" by auto
    with pre show ?thesis by (metis tl_append2)
  qed
  have "own_node n (?q\<lparr>lf_head := x\<rparr>) (tl ns) (Pop_delete h d)" if "own_node n ?q ns (Pop_cas h x d)" for n
    using own_node_tl [OF that] ns by simp
  with p last swing have "prod_ok (sy_prod s) (?q\<lparr>lf_head := x\<rparr>) (tl ns) (Pop_delete h d)"
    by (cases "sy_prod s") auto
  moreover have "queue_ok (?q\<lparr>lf_head := x\<rparr>) (tl ns)" using q ns t by (auto simp: queue_ok_def)
  moreover have "h \<noteq> 0 \<and> h \<notin> set (tl ns) \<and> lf_heap ?q h \<noteq> None" using q ns by (auto simp: queue_ok_def)
  ultimately show ?thesis using assms d ns by (simp add: lf_inv_def)
qed

lemma lf_inv_delete:
  assumes "lf_inv s ns" "sy_cons s = Pop_delete h d"
  shows "lf_inv (s\<lparr>sy_q := (sy_q s)\<lparr>lf_heap := (lf_heap (sy_q s))(h := None)\<rparr>, sy_cons := Pop_count d\<rparr>) ns"
proof -
  let ?q = "sy_q s" and ?q' = "(sy_q s)\<lparr>lf_heap := (lf_heap (sy_q s))(h := None)\<rparr>"
  note q = lf_invD(1) [OF assms(1)] and p = lf_invD(2) [OF assms(1), unfolded assms(2)]
  have h: "h \<notin> set ns" using lf_invD(3) [OF assms(1)] by (simp add: assms(2))
  have h': "h \<notin> set (tl ns)" using h by (cases ns) auto
  have "own_node n ?q' ns (Pop_count d)" if "own_node n ?q ns (Pop_delete h d)" for n
    using that by (auto simp: own_node_def)
  with p have "prod_ok (sy_prod s) ?q' ns (Pop_count d)" by (cases "sy_prod s") auto
  with assms q h h' show ?thesis by (simp add: lf_inv_def queue_ok_def)
qed

lemma two_nodes:
  assumes "queue_ok q ns" "lf_tail q \<noteq> hd ns"
  shows "\<exists>x rest. ns = hd ns # x # rest \<and> x \<noteq> 0"
proof -
  obtain p ps where ns: "ns = p # ps" using assms by (cases ns) (auto simp: queue_ok_def)
  with assms obtain x rest where "ps = x # rest" by (cases ps) (auto simp: queue_ok_def)
  with ns assms show ?thesis by (auto simp: queue_ok_def)
qed

lemma lf_inv_read_next:
  assumes "lf_inv s ns" "sy_cons s = Pop_next h t" "deref h (sy_q s) = Inr nd"
  shows "lf_inv (s\<lparr>sy_cons := Pop_check h t (nd_next nd)\<rparr>) ns"
proof -
  let ?q = "sy_q s"
  note q = lf_invD(1) [OF assms(1)] and p = lf_invD(2) [OF assms(1), unfolded assms(2)]
  have h: "h = hd ns" and t: "t \<noteq> h \<Longrightarrow> lf_tail ?q \<noteq> hd ns" using assms by (simp_all add: lf_inv_def)
  have p': "prod_ok (sy_prod s) ?q ns (Pop_check h t (nd_next nd))" using p by (rule prod_ok_cons) simp
  have x: "nd_next nd = (case tl ns of [] \<Rightarrow> 0 | x # _ \<Rightarrow> x)" using deref_head [OF q] assms(3) h by auto
  have "nd_next nd \<noteq> 0" if "t \<noteq> h" using two_nodes [OF q t [OF that]] x by (metis list.case(2) list.sel(3))
  moreover have "\<exists>rest. ns = h # nd_next nd # rest" if "nd_next nd \<noteq> 0"
    using that x h q by (cases ns) (auto simp: queue_ok_def split: list.splits)
  ultimately show ?thesis using assms p' h t by (auto simp: lf_inv_def)
qed

lemma lf_inv_move:
  assumes "lf_inv s ns" "cons_ok c' (sy_q s) ns" "in_flight c' = in_flight (sy_cons s)" "\<And>h d. c' \<noteq> Pop_delete h d"
  shows "lf_inv (s\<lparr>sy_cons := c'\<rparr>) ns"
proof -
  have "prod_ok (sy_prod s) (sy_q s) ns (sy_cons s)" using assms(1) by (simp add: lf_inv_def)
  then have "prod_ok (sy_prod s) (sy_q s) ns c'" by (rule prod_ok_cons) (use assms(4) in simp)
  with assms(1-3) show ?thesis by (simp add: lf_inv_def)
qed

lemma lf_inv_consumer:
  assumes "lf_inv s ns" "lf_step False b (sy_cons s) (sy_q s) = Inr (pc, q)"
  shows "\<exists>ns'. lf_inv (s\<lparr>sy_q := q, sy_cons := pc, sy_popped := sy_popped s @ returned_by (sy_cons s) pc\<rparr>) ns'"
proof -
  note q = lf_invD(1) [OF assms(1)] and c = lf_invD(3) [OF assms(1)]
  note move = exI [of "lf_inv (s\<lparr>sy_cons := pc\<rparr>)" ns, OF lf_inv_move [OF assms(1), of pc]]
  have hd: "lf_head (sy_q s) = hd ns" using q by (simp add: queue_ok_def)
  show ?thesis
  proof (cases "sy_cons s")
    case (Pop_help t x)
    with lf_inv_help [OF assms(1) Pop_help] assms(2) show ?thesis by auto
  next
    case (Pop_cas h x d)
    with c q have "lf_head (sy_q s) = h" by (auto simp: queue_ok_def)
    with lf_inv_take [OF assms(1) Pop_cas] assms(2) Pop_cas show ?thesis by auto
  next
    case (Pop_delete h d)
    with c have "deref h (sy_q s) \<noteq> Inl e" for e by (auto simp: deref_def)
    with lf_inv_delete [OF assms(1) Pop_delete] assms(2) Pop_delete show ?thesis
      by (cases "deref h (sy_q s)") auto
  next
    case (Pop_next h t)
    then show ?thesis
    proof (cases "deref h (sy_q s)")
      case (Inr nd)
      with lf_inv_read_next [OF assms(1) Pop_next Inr] assms(2) Pop_next show ?thesis by auto
    qed (use assms(2) Pop_next in auto)
  next
    case (Pop_data h x)
    with c have "x \<in> set ns" by auto
    from deref_chain [OF q this] obtain nd where "deref x (sy_q s) = Inr nd" "lf_heap (sy_q s) x = Some nd" by blast
    with Pop_data assms(2) c move show ?thesis by auto
  next
    case (Pop_count d)
    have p: "prod_ok (sy_prod s) (sy_q s) ns (Pop_done (Some d))"
      by (rule prod_ok_cons [OF lf_invD(2) [OF assms(1)]]) simp
    have "lf_count (sy_q s) - 1 + uncounted (sy_prod s) = of_nat (length (tl ns))"
      using assms(1) Pop_count by (simp add: lf_inv_def algebra_simps)
    with p assms Pop_count show ?thesis by (auto simp: lf_inv_def intro!: exI [of _ ns])
  next
    case (Pop_check h t x)
    with assms(2) c have "cons_ok pc (sy_q s) ns" "q = sy_q s" "in_flight pc = []" "\<And>g d. pc \<noteq> Pop_delete g d"
      by (auto split: if_splits)
    with move Pop_check show ?thesis by auto
  qed (use assms(2) c move hd in \<open>auto split: if_splits\<close>)
qed

lemma lf_inv_step:
  assumes "lf_sys_step s s'" "lf_inv s ns"
  shows "\<exists>ns'. lf_inv s' ns'"
  using assms
proof cases
  case (begin_push item)
  have "uncounted (sy_prod s) = 0" using begin_push by (cases "sy_prod s") auto
  moreover have "lf_tail (sy_q s) = last ns" using lf_invD(2) [OF assms(2)] begin_push by (cases "sy_prod s") auto
  ultimately show ?thesis using assms(2) begin_push by (auto simp: lf_inv_def)
next
  case begin_pop
  then have "in_flight (sy_cons s) = []" by (cases "sy_cons s") auto
  with begin_pop lf_inv_move [OF assms(2), of Pop_start] show ?thesis by auto
next
  case (producer a pc q)
  with lf_inv_producer [OF assms(2)] show ?thesis by blast
next
  case (consumer pc q)
  with lf_inv_consumer [OF assms(2)] show ?thesis by blast
qed

lemma lf_init_fresh:
  "lf_init dflt a mx (mk_lfq h) =
     Some (Inr \<lparr>lf_head = a, lf_tail = a, lf_count = 0, lf_max_count = mx, lf_heap = h(a \<mapsto> \<lparr>nd_data = dflt, nd_next = 0\<rparr>)\<rparr>)"
  by (simp add: lf_init_def lf_clear_def lf_clear_from.simps mk_lfq_def)

lemma lf_reachable_inv:
  assumes "lf_reachable q0 s" "a \<noteq> 0" "lf_init dflt a mx (mk_lfq h) = Some (Inr q0)"
  shows "\<exists>ns. lf_inv s ns"
  using assms(1)
proof induction
  case start
  show ?case using assms(2,3) by (auto simp: lf_init_fresh lf_inv_def queue_ok_def intro!: exI [of _ "[a]"])
next
  case (step s s')
  then show ?case using lf_inv_step by blast
qed

section \<open>One producer and one consumer\<close>

text \<open>C7: One thread pushes, one thread pops, in any interleaving of their memory accesses, and the compare-and-exchange does not fail
  spuriously: no access ever meets a null or freed pointer; the elements returned by \<^verbatim>\<open>pop\<close>, then the one being
  returned, then those still linked behind the sentry, are exactly the elements pushed, in order; and when both
  threads are between calls \<^verbatim>\<open>size\<close> is the number of elements in the queue.\<close>

theorem lf_spsc_fifo:
  assumes "a \<noteq> 0" "lf_init dflt a mx (mk_lfq h) = Some (Inr q0)" "lf_reachable q0 s"
  shows "lf_step False b (sy_prod s) (sy_q s) \<noteq> Inl err \<and> lf_step False b (sy_cons s) (sy_q s) \<noteq> Inl err \<and>
    (\<exists>ns. ns \<noteq> [] \<and> hd ns = lf_head (sy_q s) \<and> chain (lf_heap (sy_q s)) ns \<and>
       sy_pushed s = sy_popped s @ in_flight (sy_cons s) @ node_values (lf_heap (sy_q s)) (tl ns) \<and>
       (at_rest (sy_prod s) \<and> at_rest (sy_cons s) \<longrightarrow> lf_size (sy_q s) = of_nat (length (tl ns))))"
proof -
  obtain ns where inv: "lf_inv s ns" using lf_reachable_inv [OF assms(3,1,2)] by blast
  have rest: "at_rest (sy_prod s) \<Longrightarrow> uncounted (sy_prod s) = 0" "at_rest (sy_cons s) \<Longrightarrow> in_flight (sy_cons s) = []"
    by (cases "sy_prod s"; simp) (cases "sy_cons s"; simp)
  have "lf_size (sy_q s) = of_nat (length (tl ns))" if "at_rest (sy_prod s)" "at_rest (sy_cons s)"
    using inv rest that by (simp add: lf_inv_def lf_size_def)
  with inv lf_inv_steps_ok [OF inv] show ?thesis by (auto simp: lf_inv_def queue_ok_def)
qed

section \<open>A call with no interference\<close>

text \<open>A thread that runs its call to the end while no other thread moves.\<close>

fun lf_call :: "nat \<Rightarrow> nat \<Rightarrow> 'a pc \<Rightarrow> 'a lfq \<Rightarrow> (lf_error + 'a pc \<times> 'a lfq) option" where
  "lf_call 0 a pc q = (if at_rest pc then Some (Inr (pc, q)) else None)"
| "lf_call (Suc k) a pc q =
     (if at_rest pc then Some (Inr (pc, q))
      else case lf_step False a pc q of Inl err \<Rightarrow> Some (Inl err) | Inr (pc', q') \<Rightarrow> lf_call k a pc' q')"

definition lf_quiet :: "'a lfq \<Rightarrow> 'a list \<Rightarrow> bool" where
  "lf_quiet q xs \<longleftrightarrow>
     (\<exists>ns. queue_ok q ns \<and> lf_tail q = last ns \<and> node_values (lf_heap q) (tl ns) = xs) \<and> lf_count q = of_nat (length xs)"

lemma lf_call_Suc: "\<not> at_rest pc \<Longrightarrow> lf_step False a pc q = Inr (pc', q') \<Longrightarrow> lf_call (Suc k) a pc q = lf_call k a pc' q'"
  by simp

lemma lf_call_rest: "at_rest pc \<Longrightarrow> lf_call k a pc q = Some (Inr (pc, q))"
  by (cases k) simp_all

lemma lf_call_push:
  assumes "lf_quiet q xs" "\<not> lf_full q" "a \<noteq> 0" "lf_heap q a = None"
  shows "\<exists>q'. lf_call 9 a (Push_start v) q = Some (Inr (Push_done True, q')) \<and> lf_quiet q' (xs @ [v])"
proof -
  from assms(1) obtain ns where q: "queue_ok q ns" "lf_tail q = last ns" "node_values (lf_heap q) (tl ns) = xs"
    "lf_count q = of_nat (length xs)" by (auto simp: lf_quiet_def)
  let ?h = "(lf_heap q)(a \<mapsto> \<lparr>nd_data = v, nd_next = 0\<rparr>)"
  from deref_last [OF q(1)] obtain nd where nd: "lf_heap q (last ns) = Some nd" "nd_next nd = 0" by blast
  have ns: "ns \<noteq> []" "distinct ns" "chain (lf_heap q) ns" "lf_head q = hd ns" using q(1) by (simp_all add: queue_ok_def)
  have a: "a \<notin> set ns" using fresh_not_linked [OF q(1) assms(4)] .
  have l: "last ns \<noteq> a" "last ns \<noteq> 0" using a ns chain_nonzero [OF ns(3)] last_in_set [OF ns(1)] by metis+
  have at: "a \<notin> set (tl ns)" using a by (cases ns) auto
  let ?h' = "?h(last ns \<mapsto> nd\<lparr>nd_next := a\<rparr>)"
  let ?q = "q\<lparr>lf_heap := ?h', lf_tail := a, lf_count := lf_count q + 1\<rparr>"
  have "lf_call 9 a (Push_start v) q = Some (Inr (Push_done True, ?q))"
    using assms(2) q(2) nd l by (simp add: eval_nat_numeral deref_def cas_tail_def)
  moreover have "chain ?h' (ns @ [a])"
    using chain_link [of ?h ns a _ nd] ns a assms(3) nd l by simp
  moreover have "node_values ?h' (tl (ns @ [a])) = xs @ [v]"
  proof -
    have "node_values ?h' (tl ns) = xs" using node_values_link [of ?h "last ns" nd a "tl ns"] nd l at q(3) by simp
    with l ns(1) show ?thesis by simp
  qed
  ultimately show ?thesis using ns a q(4) by (auto simp: lf_quiet_def queue_ok_def intro!: exI [of _ "ns @ [a]"])
qed

lemma lf_call_pop:
  assumes "lf_quiet q (x # xs)" "length xs < 2 ^ 64 - 1"
  shows "\<exists>q'. lf_call 10 a Pop_start q = Some (Inr (Pop_done (Some x), q')) \<and> lf_quiet q' xs"
proof -
  from assms(1) obtain ns where q: "queue_ok q ns" "lf_tail q = last ns" "node_values (lf_heap q) (tl ns) = x # xs"
    "lf_count q = of_nat (Suc (length xs))" by (auto simp: lf_quiet_def)
  from q(3) obtain h n rest where ns: "ns = h # n # rest" by (cases ns; cases "tl ns") auto
  from q(1) ns have "chain (lf_heap q) (h # n # rest)" and hd: "lf_head q = h" "h \<noteq> n" "h \<notin> set rest" "h \<noteq> last ns"
    by (auto simp: queue_ok_def)
  then obtain nh nn where nd: "lf_heap q h = Some nh" "nd_next nh = n" "h \<noteq> 0" "lf_heap q n = Some nn" "n \<noteq> 0" by auto
  have x: "nd_data nn = x" "node_values (lf_heap q) rest = xs" using q(3) ns nd by simp_all
  have c: "lf_count q \<noteq> 0"
  proof
    assume "lf_count q = 0"
    then have "unat (of_nat (Suc (length xs)) :: size_t) = 0" using q(4) by simp
    moreover have "unat (of_nat (Suc (length xs)) :: size_t) = Suc (length xs)"
      using assms(2) by (intro unat_of_nat_id) simp
    ultimately show False by simp
  qed
  let ?q = "q\<lparr>lf_head := n, lf_heap := (lf_heap q)(h := None), lf_count := lf_count q - 1\<rparr>"
  have "lf_call 10 a Pop_start q = Some (Inr (Pop_done (Some x), ?q))"
    using c q(2) nd hd x by (simp add: eval_nat_numeral deref_def lf_empty_def)
  moreover have "lf_quiet ?q xs"
    using q(1,2,4) ns nd hd x by (auto simp: lf_quiet_def queue_ok_def intro!: exI [of _ "n # rest"])
  ultimately show ?thesis by blast
qed

lemma lf_call_refused:
  "lf_full q \<Longrightarrow> lf_call 9 a (Push_start v) q = Some (Inr (Push_done False, q))"
  "lf_quiet q [] \<Longrightarrow> lf_call 10 a Pop_start q = Some (Inr (Pop_done None, q))"
  by (simp_all add: eval_nat_numeral lf_quiet_def lf_empty_def)

lemma lf_quiet_ends:
  assumes "lf_quiet q xs"
  shows "lf_front q = Inr (case xs of [] \<Rightarrow> None | x # _ \<Rightarrow> Some x)" "xs \<noteq> [] \<Longrightarrow> lf_back q = Inr (Some (last xs))"
proof -
  from assms obtain ns where q: "queue_ok q ns" "lf_tail q = last ns" "node_values (lf_heap q) (tl ns) = xs"
    by (auto simp: lf_quiet_def)
  then obtain p ps where ns: "ns = p # ps" by (cases ns) (auto simp: queue_ok_def)
  with q show "lf_front q = Inr (case xs of [] \<Rightarrow> None | x # _ \<Rightarrow> Some x)"
    by (cases ps) (auto simp: lf_front_def queue_ok_def deref_def)
  assume "xs \<noteq> []"
  with q ns have "ps \<noteq> []" by auto
  with q(3) ns have "nd_data (the (lf_heap q (last ns))) = last xs" by (auto simp: node_values_def last_map)
  with deref_last [OF q(1)] q(2) show "lf_back q = Inr (Some (last xs))"
    by (auto simp: lf_back_def deref_def split: if_splits)
qed

text \<open>Without interference the queue is a bounded first-in-first-out queue: from a state that holds \<open>xs\<close>, \<^verbatim>\<open>push\<close> ends after
  at most nine steps and has appended the element or, at the bound, refused it; \<^verbatim>\<open>pop\<close> ends after at most ten and has taken
  the first element or reported an empty queue; \<^verbatim>\<open>front\<close> and \<^verbatim>\<open>back\<close> return the two ends.\<close>

theorem lf_alone_refines_list:
  assumes "lf_quiet q xs" "length xs < 2 ^ 64" "a \<noteq> 0" "lf_heap q a = None"
  shows "(\<exists>r q'. lf_call 9 a (Push_start v) q = Some (Inr (Push_done r, q')) \<and>
      (if lf_max_count q > 0 \<and> lf_max_count q \<le> of_nat (length xs) then \<not> r \<and> q' = q else r \<and> lf_quiet q' (xs @ [v])))
    \<and> (\<exists>r q'. lf_call 10 a Pop_start q = Some (Inr (Pop_done r, q')) \<and>
      (case xs of [] \<Rightarrow> r = None \<and> q' = q | x # ys \<Rightarrow> r = Some x \<and> lf_quiet q' ys))
    \<and> lf_front q = Inr (case xs of [] \<Rightarrow> None | x # _ \<Rightarrow> Some x)
    \<and> (xs \<noteq> [] \<longrightarrow> lf_back q = Inr (Some (last xs)))"
proof (intro conjI impI)
  have full: "lf_full q \<longleftrightarrow> lf_max_count q > 0 \<and> lf_max_count q \<le> of_nat (length xs)"
    using assms(1) by (simp add: lf_full_def lf_quiet_def)
  show "\<exists>r q'. lf_call 9 a (Push_start v) q = Some (Inr (Push_done r, q')) \<and>
      (if lf_max_count q > 0 \<and> lf_max_count q \<le> of_nat (length xs) then \<not> r \<and> q' = q else r \<and> lf_quiet q' (xs @ [v]))"
    using lf_call_push [OF assms(1) _ assms(3,4), of v] lf_call_refused(1) [of q a v] unfolding full [symmetric] by auto
  show "\<exists>r q'. lf_call 10 a Pop_start q = Some (Inr (Pop_done r, q')) \<and>
      (case xs of [] \<Rightarrow> r = None \<and> q' = q | x # ys \<Rightarrow> r = Some x \<and> lf_quiet q' ys)"
  proof (cases xs)
    case Nil
    with assms(1) lf_call_refused(2) show ?thesis by auto
  next
    case (Cons x ys)
    with assms(1,2) lf_call_pop [of q x ys a] show ?thesis by auto
  qed
qed (use lf_quiet_ends [OF assms(1)] in auto)

lemma lf_quiet_init:
  assumes "a \<noteq> 0"
  shows "\<exists>q0. lf_init dflt a mx (mk_lfq h) = Some (Inr q0) \<and> lf_quiet q0 []"
  using assms by (auto simp: lf_init_fresh lf_quiet_def queue_ok_def intro!: exI [of _ "[a]"])

section \<open>Clearing\<close>

lemma lf_clear_chain:
  "chain (lf_heap q) ns \<Longrightarrow> distinct ns \<Longrightarrow>
   lf_clear_from (case ns of [] \<Rightarrow> 0 | p # _ \<Rightarrow> p) q =
     Some (Inr (q\<lparr>lf_heap := \<lambda>p. if p \<in> set ns then None else lf_heap q p\<rparr>))"
proof (induction ns arbitrary: q)
  case Nil
  then show ?case by (simp add: lf_clear_from.simps)
next
  case (Cons p ps)
  let ?q = "q\<lparr>lf_heap := (lf_heap q)(p := None)\<rparr>"
  from Cons.prems obtain nd where nd: "p \<noteq> 0" "lf_heap q p = Some nd" "nd_next nd = (case ps of [] \<Rightarrow> 0 | x # _ \<Rightarrow> x)" by auto
  have ch: "chain (lf_heap ?q) ps" using Cons.prems by simp
  have "lf_clear_from p q = lf_clear_from (case ps of [] \<Rightarrow> 0 | x # _ \<Rightarrow> x) ?q"
    using nd by (subst lf_clear_from.simps) (simp add: deref_def)
  also have "\<dots> = Some (Inr (?q\<lparr>lf_heap := \<lambda>p. if p \<in> set ps then None else lf_heap ?q p\<rparr>))"
    by (rule Cons.IH [OF ch]) (use Cons.prems in simp)
  also have "(\<lambda>p'. if p' \<in> set ps then None else lf_heap ?q p') = (\<lambda>p'. if p' \<in> set (p # ps) then None else lf_heap q p')"
    by auto
  finally show ?case by simp
qed

text \<open>On a queue that holds any elements \<^verbatim>\<open>clear\<close> ends and frees every node, but keeps the head, the tail and the count: the queue
  still claims its size, and the next \<^verbatim>\<open>clear\<close>, which the destructor and \<^verbatim>\<open>init\<close> call, the next \<^verbatim>\<open>front\<close> and
  the next \<^verbatim>\<open>back\<close> use freed memory.\<close>

theorem lf_clear_dangles:
  assumes "lf_quiet q xs"
  shows "\<exists>q'. lf_clear q = Some (Inr q') \<and> lf_size q' = of_nat (length xs) \<and> lf_clear q' = Some (Inl Freed_deref) \<and>
    lf_init dflt a mx q' = Some (Inl Freed_deref) \<and> lf_front q' = Inl Freed_deref \<and> lf_back q' = Inl Freed_deref"
proof -
  from assms obtain ns where q: "queue_ok q ns" "lf_tail q = last ns" "lf_count q = of_nat (length xs)"
    by (auto simp: lf_quiet_def)
  then obtain p ps where ns: "ns = p # ps" by (cases ns) (auto simp: queue_ok_def)
  let ?q = "q\<lparr>lf_heap := \<lambda>p. if p \<in> set ns then None else lf_heap q p\<rparr>"
  have "lf_clear q = Some (Inr ?q)" using lf_clear_chain [of q ns] q ns by (simp add: lf_clear_def queue_ok_def)
  moreover have "p \<noteq> 0" "lf_head q = p" "last ns \<in> set ns" using q(1) ns by (auto simp: queue_ok_def)
  moreover have "last ns \<noteq> 0"
    using q(1) ns chain_nonzero [of "lf_heap q" ns] last_in_set [of ns] unfolding queue_ok_def by metis
  ultimately show ?thesis using q ns
    by (simp add: lf_size_def lf_front_def lf_back_def lf_init_def lf_clear_def lf_clear_from.simps deref_def)
qed

section \<open>What goes wrong\<close>

definition lf_steps :: "nat \<Rightarrow> nat \<Rightarrow> nat \<Rightarrow> 'a lf_event list" where
  "lf_steps n i a = replicate n (Step i False a)"

text \<open>Thread 0 pushes two elements; threads 1 and 2 pop.\<close>

definition two_consumers :: "nat lf_event list" where
  "two_consumers =
     Begin_push 0 7 # lf_steps 8 0 2 @ Begin_push 0 8 # lf_steps 8 0 3 @
     Begin_pop 1 # lf_steps 3 1 0 @ Begin_pop 2 # lf_steps 9 2 0 @ lf_steps 1 1 0"

text \<open>Thread 0 pushes, thread 1 pops; in the first push the second compare-and-exchange fails spuriously.\<close>

definition spurious_swing :: "nat lf_event list" where
  "spurious_swing =
     Begin_push 0 7 # lf_steps 6 0 2 @ Step 0 True 2 # lf_steps 1 0 2 @
     Begin_push 0 8 # lf_steps 3 0 3 @ Begin_pop 1 # lf_steps 14 1 0 @ lf_steps 1 0 3"

definition lf_outcome :: "lf_error + 'a pc list \<times> 'a lfq \<Rightarrow> lf_error option" where
  "lf_outcome r = (case r of Inl err \<Rightarrow> Some err | Inr _ \<Rightarrow> None)"

definition lf_demo :: "nat lfq" where
  "lf_demo = \<lparr>lf_head = 1, lf_tail = 1, lf_count = 0, lf_max_count = 0,
     lf_heap = (\<lambda>_. None)(1 \<mapsto> \<lparr>nd_data = 0, nd_next = 0\<rparr>)\<rparr>"

lemma lf_demo_init: "lf_init 0 1 0 (mk_lfq (\<lambda>_. None)) = Some (Inr lf_demo)"
  by (simp add: lf_init_fresh lf_demo_def)

definition lf_demo_sys :: "nat lf_sys" where
  "lf_demo_sys = \<lparr>sy_q = lf_demo, sy_prod = Push_new 7, sy_cons = Idle, sy_pushed = [], sy_popped = []\<rparr>"

lemma lf_demo_reachable: "lf_reachable lf_demo lf_demo_sys"
proof -
  let ?s0 = "\<lparr>sy_q = lf_demo, sy_prod = Idle, sy_cons = Idle, sy_pushed = [], sy_popped = []\<rparr>"
  have "lf_sys_step ?s0 (?s0\<lparr>sy_prod := Push_start 7\<rparr>)" by (rule begin_push) simp
  then have 1: "lf_reachable lf_demo (?s0\<lparr>sy_prod := Push_start 7\<rparr>)" by (rule lf_reachable.step [OF lf_reachable.start])
  have "lf_sys_step (?s0\<lparr>sy_prod := Push_start 7\<rparr>) lf_demo_sys"
    using producer [of 2 "?s0\<lparr>sy_prod := Push_start 7\<rparr>" "Push_new 7" lf_demo]
    by (simp add: lf_demo_def lf_demo_sys_def lf_full_def)
  with 1 show ?thesis by (rule lf_reachable.step)
qed

theorem lf_spsc_fifo_witness:
  "lf_step False 2 (Push_new 7) lf_demo \<noteq> Inl Null_deref \<and>
   (\<exists>ns. ns \<noteq> [] \<and> hd ns = lf_head lf_demo \<and> chain (lf_heap lf_demo) ns \<and> [] = node_values (lf_heap lf_demo) (tl ns))"
  using lf_spsc_fifo [OF _ lf_demo_init lf_demo_reachable, of 2 Null_deref] by (auto simp: lf_demo_sys_def)

theorem lf_alone_refines_list_witness:
  "\<exists>r q'. lf_call 9 2 (Push_start 7) lf_demo = Some (Inr (Push_done r, q')) \<and> r \<and> lf_quiet q' [7]"
proof -
  have "lf_quiet lf_demo []" using lf_quiet_init [of 1 "0 :: nat" 0 "\<lambda>_. None"] lf_demo_init by auto
  from lf_alone_refines_list [OF this, of 2 7] show ?thesis by (simp add: lf_demo_def)
qed

theorem lf_clear_dangles_witness:
  "\<exists>q'. lf_clear lf_demo = Some (Inr q') \<and> lf_clear q' = Some (Inl Freed_deref)"
proof -
  have "lf_quiet lf_demo []" using lf_quiet_init [of 1 "0 :: nat" 0 "\<lambda>_. None"] lf_demo_init by auto
  from lf_clear_dangles [OF this] show ?thesis by blast
qed


end
