(* ===== verification/Spd_Faults.thy ===== *)
theory Spd_Faults
  imports Spd_Files
begin

text \<open>
  The file sinks when calls of the file system fail, in any order of failures.
\<close>

section \<open>One step\<close>

lemma fh_open_fd:
  assumes "fh_open name trunc h fs = (ex, h', fs')"
  shows "fh_filename h' = name" "fh_fd h' = (if ex = None then Some name else None)"
proof -
  have "open_loop tries name trunc h fs = (ex, h', fs') \<Longrightarrow> fh_fd h = None \<Longrightarrow>
      fh_filename h' = fh_filename h \<and> fh_fd h' = (if ex = None then Some name else None)" for tries h fs
    by (induction tries name trunc h fs rule: open_loop.induct) (auto split: prod.splits bool.splits)
  from this [of _ "(fh_close h)\<lparr>fh_filename := name\<rparr>"] show "fh_filename h' = name" "fh_fd h' = (if ex = None then Some name else None)"
    using assms by (auto simp: fh_open_def fh_close_def)
qed

lemma sys_fwrite_content: "content (snd (sys_fwrite name buf fs)) name = content fs name @ take (fst (sys_fwrite name buf fs)) buf"
  by (simp add: sys_fwrite_def next_outcome_def content_def Let_def split: list.splits)

lemma fh_write_fd:
  "fh_fd h = Some name \<Longrightarrow> \<exists>ex k fs'. fh_write buf h fs = Some (ex, fs') \<and> content fs' name = content fs name @ take k buf \<and> (ex = None \<longrightarrow> k = length buf)"
  using sys_fwrite_content [of name buf fs] by (cases "sys_fwrite name buf fs") (auto simp: fh_write_def)

text \<open>A rotation leaves an open file, or an exception comes out of it.\<close>

lemma fh_reopen_fd:
  assumes "fh_reopen trunc h fs = (ex, h', fs')"
  shows "fh_filename h' = fh_filename h" "ex = None \<Longrightarrow> fh_fd h' = Some (fh_filename h)"
  using assms by (auto simp: fh_reopen_def split: if_splits dest: fh_open_fd)

lemma rotate_fd:
  assumes "rs_rotate s fs = (ex, s', fs')"
  obtains h where "s' = s\<lparr>rs_file := h\<rparr>" "fh_filename h = fh_filename (rs_file s)" "ex = None \<Longrightarrow> fh_fd h = Some (fh_filename (rs_file s))"
proof -
  let ?h = "fh_close (rs_file s)"
  have name: "fh_filename ?h = fh_filename (rs_file s)" by (simp add: fh_close_def)
  obtain e fs1 where l: "rotate_loop (rs_base_filename s) (unat (rs_max_files s)) fs = (e, fs1)" by fastforce
  show thesis
  proof (cases e)
    case None
    obtain ex1 h fs2 where "fh_reopen True ?h fs1 = (ex1, h, fs2)" by (metis prod_cases3)
    with None l assms name that [of h] fh_reopen_fd [of True ?h fs1 ex1 h fs2] show thesis by (simp add: rs_rotate_def)
  qed (use l assms name that [of ?h] in \<open>auto simp: rs_rotate_def\<close>)
qed

text \<open>A rotating sink whose file is closed is over its limit, so that the next message rotates again before it is written. The size must not wrap
  around: \<open>bound\<close> bounds it.\<close>

definition rs_safe :: "log_os \<Rightarrow> string \<Rightarrow> nat \<Rightarrow> rotating_file_sink \<Rightarrow> bool" where
  "rs_safe sys pattern bound s \<longleftrightarrow>
     fh_filename (rs_file s) = rs_base_filename s \<and> unat (rs_current_size s) \<le> bound \<and>
     (fh_fd (rs_file s) = Some (rs_base_filename s) \<or> rs_current_size s > rs_max_size s) \<and>
     pf_ok sys Time_local pattern default_eol (sk_formatter s)"

lemma rotating_sink_it_steps:
  assumes "pf_format sys (sk_formatter s) msg [] = Some (f', msg', line)"
    "s1 = s\<lparr>sk_formatter := f', rs_current_size := rs_current_size s + of_nat (length line)\<rparr>"
  shows "rs_current_size s1 \<le> rs_max_size s \<Longrightarrow>
      rotating_sink_it sys msg s fs = map_option (\<lambda>(ex, fs). (ex, s1, msg', fs)) (fh_write line (rs_file s1) fs)"
    "\<not> rs_current_size s1 \<le> rs_max_size s \<Longrightarrow> rs_rotate s1 fs = (Some e, s2, fs2) \<Longrightarrow>
      rotating_sink_it sys msg s fs = Some (Some e, s2, msg', fs2)"
    "\<not> rs_current_size s1 \<le> rs_max_size s \<Longrightarrow> rs_rotate s1 fs = (None, s2, fs2) \<Longrightarrow>
      rotating_sink_it sys msg s fs =
        map_option (\<lambda>(ex, fs). (ex, s2\<lparr>rs_current_size := of_nat (length line)\<rparr>, msg', fs)) (fh_write line (rs_file s2) fs2)"
  using assms(2) by (auto simp: rotating_sink_it_def Let_def assms(1) not_le split: Option.bind_splits)

lemma rotating_sink_it_safe:
  assumes "rs_safe sys pattern bound s" "msg_ok sys Time_local msg"
  defines "line \<equiv> log_line sys Time_local pattern default_eol msg"
  assumes "bound + length line < 2 ^ 64"
  shows "\<exists>ex s' msg' fs'. rotating_sink_it sys msg s fs = Some (ex, s', msg', fs') \<and> rs_safe sys pattern (bound + length line) s' \<and>
    rs_base_filename s' = rs_base_filename s \<and> (ex = None \<longrightarrow> (\<exists>pre. content fs' (rs_base_filename s) = pre @ line))"
proof -
  let ?base = "rs_base_filename s"
  obtain f' a b where f: "pf_format sys (sk_formatter s) msg [] = Some (f', msg\<lparr>lm_color_range_start := a, lm_color_range_end := b\<rparr>, line)"
    "pf_ok sys Time_local pattern default_eol f'"
    using pf.format [of sys Time_local pattern default_eol "sk_formatter s" msg "[]"] assms(1,2) unfolding line_def by (auto simp: rs_safe_def)
  define s1 where "s1 = s\<lparr>sk_formatter := f', rs_current_size := rs_current_size s + of_nat (length line)\<rparr>"
  note steps = rotating_sink_it_steps [OF f(1) s1_def]
  have old: "fh_filename (rs_file s) = ?base" "unat (rs_current_size s) \<le> bound" using assms(1) by (simp_all add: rs_safe_def)
  have size: "unat (rs_current_size s1) = unat (rs_current_size s) + length line"
    using assms(4) old(2) by (simp add: s1_def unat_add_no_wrap unat_of_nat_id)
  show ?thesis
  proof (cases "rs_current_size s1 \<le> rs_max_size s")
    case True
    then have fd: "fh_fd (rs_file s1) = Some ?base"
      using assms(1) size by (auto simp: rs_safe_def word_less_nat_alt word_le_nat_alt s1_def)
    then obtain ex fs' where "fh_write line (rs_file s1) fs = Some (ex, fs')" "ex = None \<longrightarrow> content fs' ?base = content fs ?base @ line"
      using fh_write_fd [of "rs_file s1" ?base line fs] by auto
    moreover have "rs_safe sys pattern (bound + length line) s1" using fd f(2) old size by (simp add: rs_safe_def) (simp add: s1_def)
    ultimately show ?thesis using steps(1) [OF True, of fs] by (auto simp: s1_def)
  next
    case False
    obtain ex s2 fs2 where r: "rs_rotate s1 fs = (ex, s2, fs2)" by (metis prod_cases3)
    then obtain h where h: "s2 = s1\<lparr>rs_file := h\<rparr>" "fh_filename h = ?base" "ex = None \<Longrightarrow> fh_fd h = Some ?base"
      by (rule rotate_fd) (use old(1) in \<open>simp add: s1_def\<close>)
    show ?thesis
    proof (cases ex)
      case (Some e)
      have "rs_safe sys pattern (bound + length line) s2"
        using False f(2) old size h by (simp add: rs_safe_def) (simp add: s1_def not_le)
      then show ?thesis using steps(2) [OF False r [unfolded Some]] h by (simp add: s1_def)
    next
      case None
      let ?s3 = "s2\<lparr>rs_current_size := of_nat (length line)\<rparr>"
      obtain ex' fs' where "fh_write line (rs_file s2) fs2 = Some (ex', fs')" "ex' = None \<longrightarrow> content fs' ?base = content fs2 ?base @ line"
        using fh_write_fd [of "rs_file s2" ?base line fs2] h None by auto
      moreover have "rs_safe sys pattern (bound + length line) ?s3"
        using f(2) h None assms(4) by (simp add: rs_safe_def unat_of_nat_id) (simp add: s1_def)
      ultimately show ?thesis using steps(3) [OF False r [unfolded None]] h by (auto simp: s1_def)
    qed
  qed
qed

lemma rotating_log_all_safe:
  assumes "rs_safe sys pattern bound s" "list_all (msg_ok sys Time_local) msgs"
    "bound + sum_list (map (length \<circ> log_line sys Time_local pattern default_eol) msgs) < 2 ^ 64"
  shows "\<exists>exs s' fs'. log_all (rotating_sink_it sys) msgs s fs = Some (exs, s', fs') \<and> length exs = length msgs \<and>
    rs_base_filename s' = rs_base_filename s \<and>
    (msgs \<noteq> [] \<and> last exs = None \<longrightarrow>
      (\<exists>pre. content fs' (rs_base_filename s) = pre @ log_line sys Time_local pattern default_eol (last msgs)))"
  using assms
proof (induction msgs arbitrary: bound s fs)
  case (Cons m ms)
  let ?line = "log_line sys Time_local pattern default_eol m"
  obtain ex s1 m1 fs1 where one: "rotating_sink_it sys m s fs = Some (ex, s1, m1, fs1)" "rs_safe sys pattern (bound + length ?line) s1"
    "rs_base_filename s1 = rs_base_filename s" "ex = None \<longrightarrow> (\<exists>pre. content fs1 (rs_base_filename s) = pre @ ?line)"
    using rotating_sink_it_safe [OF Cons.prems(1), of m fs] Cons.prems by auto
  from Cons.IH [OF one(2), of fs1] Cons.prems(2,3) obtain exs s' fs' where
    "log_all (rotating_sink_it sys) ms s1 fs1 = Some (exs, s', fs')" "length exs = length ms" "rs_base_filename s' = rs_base_filename s1"
    "ms \<noteq> [] \<and> last exs = None \<longrightarrow>
      (\<exists>pre. content fs' (rs_base_filename s1) = pre @ log_line sys Time_local pattern default_eol (last ms))"
    by (auto simp: add.assoc)
  with one show ?case by (cases "ms = []") auto
qed simp

section \<open>The sink with a file per day\<close>

text \<open>A closed file is opened again by a message that is not older than the rotation that failed.\<close>

definition ds_safe :: "log_os \<Rightarrow> string \<Rightarrow> int \<Rightarrow> daily_file_sink \<Rightarrow> bool" where
  "ds_safe sys pattern t s \<longleftrightarrow>
     (fh_fd (ds_file s) \<noteq> None \<or> ds_rotation_tp s \<le> t) \<and> pf_ok sys Time_local pattern default_eol (sk_formatter s)"

lemma daily_sink_it_safe:
  assumes "ds_safe sys pattern t s" "msg_ok sys Time_local msg" "t \<le> lm_time msg"
  shows "\<exists>ex s' msg' fs'. daily_sink_it sys mktime now msg s fs = Some (ex, s', msg', fs') \<and> ds_safe sys pattern (lm_time msg) s'"
proof -
  obtain f' a b where f: "pf_format sys (sk_formatter s) msg [] = Some (f', msg\<lparr>lm_color_range_start := a, lm_color_range_end := b\<rparr>,
      log_line sys Time_local pattern default_eol msg)" "pf_ok sys Time_local pattern default_eol f'"
    using pf.format [of sys Time_local pattern default_eol "sk_formatter s" msg "[]"] assms(1,2) by (auto simp: ds_safe_def)
  show ?thesis
  proof (cases "lm_time msg \<ge> ds_rotation_tp s")
    case False
    then obtain name where n: "fh_fd (ds_file s) = Some name" using assms(1,3) by (auto simp: ds_safe_def)
    with False f fh_write_fd [OF n, of "log_line sys Time_local pattern default_eol msg" fs] show ?thesis by (auto simp: daily_sink_it_def ds_safe_def)
  next
    case True
    obtain ex h fs1 where o: "fh_open (daily_filename (ds_base_filename s) (os_localtime sys (to_secs (lm_time msg)))) (ds_truncate s) (ds_file s) fs =
        (ex, h, fs1)" by (metis prod_cases3)
    show ?thesis
    proof (cases ex)
      case None
      then obtain name where n: "fh_fd h = Some name" using fh_open_fd(2) [OF o] by simp
      with True None o f fh_write_fd [OF n, of "log_line sys Time_local pattern default_eol msg" fs1] show ?thesis by (auto simp: daily_sink_it_def ds_safe_def)
    qed (use True o assms(1) in \<open>simp add: daily_sink_it_def ds_safe_def\<close>)
  qed
qed

lemma daily_log_all_safe:
  assumes "ds_safe sys pattern t s" "list_all (msg_ok sys Time_local) msgs" "sorted (t # map lm_time msgs)"
  shows "log_all (\<lambda>m. daily_sink_it sys mktime (now m) m) msgs s fs \<noteq> None"
  using assms
proof (induction msgs arbitrary: t s fs)
  case (Cons m ms)
  obtain ex s1 m1 fs1 where one: "daily_sink_it sys mktime (now m) m s fs = Some (ex, s1, m1, fs1)" "ds_safe sys pattern (lm_time m) s1"
    using daily_sink_it_safe [OF Cons.prems(1), of m mktime "now m" fs] Cons.prems(2,3) by auto
  with Cons.IH [OF one(2), of fs1] Cons.prems(2,3) show ?case by auto
qed simp

text \<open>The next rotation lies ahead, at most a day, when the C library takes the chosen hour and minute of the present day for a time within a day
  of now.\<close>

lemma next_rotation_after_now:
  assumes "\<bar>mktime ((os_localtime sys (to_secs now))\<lparr>tm_hour := h, tm_min := m, tm_sec := 0\<rparr>) * 1000000000 - now\<bar> < 86400 * 1000000000"
  shows "now < next_rotation_tp sys mktime now h m" "next_rotation_tp sys mktime now h m \<le> now + 86400 * 1000000000"
  using assms by (auto simp: next_rotation_tp_def Let_def abs_if split: if_splits)

section \<open>Properties\<close>

lemma mk_rotating_safe:
  assumes "mk_rotating_file_sink base max_size max_files fs = (Inr s, fs0)"
  shows "rs_safe sys pattern (length (content fs0 base)) (sk_set_pattern pattern s)" "rs_base_filename (sk_set_pattern pattern s) = base"
proof -
  obtain ex h fs1 where o: "fh_open base False mk_file_helper fs = (ex, h, fs1)" by (metis prod_cases3)
  then have n: "ex = None" "fh_fd h = Some base" "fh_filename h = base" "fs1 = fs0"
    and s: "s = \<lparr>sk_level = L_trace, sk_formatter = default_formatter, rs_base_filename = base, rs_max_size = max_size,
      rs_max_files = max_files, rs_current_size = of_nat (length (content fs0 base)), rs_file = h\<rparr>"
    using assms fh_open_fd [OF o]
    by (auto simp: mk_rotating_file_sink_def calc_filename_eq(1) fh_size_def content_def split: option.splits if_splits)
  have "unat (of_nat (length (content fs0 base)) :: size_t) \<le> length (content fs0 base)" by (simp add: unat_of_nat)
  with n s show "rs_safe sys pattern (length (content fs0 base)) (sk_set_pattern pattern s)" "rs_base_filename (sk_set_pattern pattern s) = base"
    by (simp_all add: rs_safe_def sk_set_pattern_def sk_set_formatter_def mk_pattern_formatter_ok)
qed


text \<open>A sink on a full disk: the second line is cut short, the third cannot be rotated away, the last one is written.\<close>

definition full_disk :: file_sys where
  "full_disk = \<lparr>fs_files = (\<lambda>_. None), fs_faults = [None, None, Some 1, Some 0, Some 0, Some 0]\<rparr>"

lemma full_disk_runs:
  "\<exists>s fs0. mk_rotating_file_sink ''log.txt'' 5 1 full_disk = (Inr s, fs0) \<and> length (content fs0 ''log.txt'') = 0 \<and>
    map_option (map (\<lambda>e. e = None) \<circ> fst)
      (log_all (rotating_sink_it demo_os) (map (demo_msg 1007000000) [''a'', ''b'', ''c'', ''d'']) (sk_set_pattern ''%v'' s) fs0) =
    Some [True, False, False, True]"
proof -
  let ?r = "mk_rotating_file_sink ''log.txt'' 5 1 full_disk"
  have "(case ?r of (Inr s, fs0) \<Rightarrow> length (content fs0 ''log.txt'') = 0 \<and>
    map_option (map (\<lambda>e. e = None) \<circ> fst)
      (log_all (rotating_sink_it demo_os) (map (demo_msg 1007000000) [''a'', ''b'', ''c'', ''d'']) (sk_set_pattern ''%v'' s) fs0) =
    Some [True, False, False, True] | _ \<Rightarrow> False)"
    by code_simp
  then show ?thesis by (auto split: prod.splits sum.splits)
qed


text \<open>When the file cannot be opened again after a rotation, the next message rotates once more, although there is no new file: the only old file,
  with the line \<^verbatim>\<open>x\<close>, is removed, and nothing takes its place.\<close>

lemma failed_reopen_loses_old_file:
  "(case mk_rotating_file_sink ''log.txt'' 1 1 \<lparr>fs_files = [''log.txt'' \<mapsto> ''x''], fs_faults = replicate 2 None @ replicate 5 (Some 0)\<rparr> of
      (Inr s, fs0) \<Rightarrow>
        (case log_all (rotating_sink_it demo_os) (map (demo_msg 1007000000) [''a'', ''b'']) (sk_set_pattern ''%v'' s) fs0 of
           Some (exs, _, fs) \<Rightarrow> fs_files fs ''log.txt'' = Some (''b'' @ default_eol) \<and> fs_files fs ''log.1.txt'' = None
         | None \<Rightarrow> False)
    | _ \<Rightarrow> False)"
  by code_simp

text \<open>The daily sink writes every message in the order of their times to an open file, or an exception comes out of it.\<close>

lemma daily_in_order_safe:
  assumes "mk_daily_file_sink sys mktime start later base h m trunc fs = (Inr s, fs0)" "list_all (msg_ok sys Time_local) msgs" "sorted (map lm_time msgs)"
  shows "log_all (\<lambda>m. daily_sink_it sys mktime (now m) m) msgs (sk_set_pattern pattern s) fs0 \<noteq> None"
proof (cases msgs)
  case (Cons m ms)
  have "fh_fd (ds_file s) \<noteq> None"
    using assms(1) by (auto simp: mk_daily_file_sink_def split: if_splits prod.splits option.splits dest: fh_open_fd(2))
  then have "ds_safe sys pattern (lm_time m) (sk_set_pattern pattern s)"
    by (simp add: ds_safe_def sk_set_pattern_def sk_set_formatter_def mk_pattern_formatter_ok)
  then show ?thesis using assms(2,3) Cons by (intro daily_log_all_safe [of sys pattern "lm_time m"]) auto
qed simp

text \<open>Out of order it does not: a message of the new day that fails to open its file, followed by one that another thread made the day before, is
  a write to a null stream.\<close>

lemma daily_null_stream:
  assumes "fs_faults fs = replicate 5 (Some 0) @ faults" "ds_rotation_tp s \<le> lm_time new" "lm_time old < ds_rotation_tp s"
  shows "log_all (\<lambda>m. daily_sink_it sys mktime (now m) m) [new, old] s fs = None"
proof -
  have "sys_fopen name trunc (fs\<lparr>fs_faults := Some 0 # rest\<rparr>) = (False, fs\<lparr>fs_faults := rest\<rparr>)" for name trunc rest
    by (simp add: sys_fopen_def next_outcome_def)
  then have "\<exists>e h. fh_open name trunc (ds_file s) (fs\<lparr>fs_faults := fs_faults fs\<rparr>) = (Some e, h, fs\<lparr>fs_faults := faults\<rparr>) \<and> fh_fd h = None" for name trunc
    unfolding assms(1) by (simp add: fh_open_def open_tries_def fh_close_def eval_nat_numeral)
  then obtain e h where "fh_open (daily_filename (ds_base_filename s) (os_localtime sys (to_secs (lm_time new)))) (ds_truncate s) (ds_file s) fs =
      (Some e, h, fs\<lparr>fs_faults := faults\<rparr>)" "fh_fd h = None"
    by fastforce
  then show ?thesis using assms(2,3) by (simp add: daily_sink_it_def fh_write_def split: Option.bind_splits)
qed

end
