(* ===== verification/CircularQueue.thy ===== *)
theory CircularQueue
  imports Prelude
begin

text \<open>
  Ring buffers that overwrite their oldest element when they are full: \<^verbatim>\<open>code/CircularQueue.hpp\<close> and
  \<^verbatim>\<open>code/spdlog/details/circular_q.h\<close>, with the blocking queue of \<^verbatim>\<open>code/spdlog/details/mpmc_blocking_q.h\<close> on top of
  the second.

  Both keep a vector with one element more than the capacity, an index of the oldest element and one
  behind the newest. All arithmetic is that of \<^verbatim>\<open>size_t\<close>; a vector is a list, and using an index outside
  of it, which is undefined in C++, is the error \<open>Out_of_range\<close>; so is a remainder by zero. The locale
  \<open>overwriting_queue\<close> states the contract they share.
\<close>

datatype ring_error = Out_of_range | Division_by_zero

definition vec_get :: "'a list \<Rightarrow> size_t \<Rightarrow> ring_error + 'a" where
  "vec_get v i = (if unat i < length v then Inr (v ! unat i) else Inl Out_of_range)"

definition vec_set :: "'a list \<Rightarrow> size_t \<Rightarrow> 'a \<Rightarrow> ring_error + 'a list" where
  "vec_set v i x = (if unat i < length v then Inr (v[unat i := x]) else Inl Out_of_range)"

section \<open>CircularQueue.hpp\<close>

record 'a circular_queue =
  cq_vector :: "'a list"
  cq_max_count :: size_t
  cq_head :: size_t
  cq_tail :: size_t

definition mk_circular_queue :: "'a circular_queue" where
  "mk_circular_queue = \<lparr>cq_vector = [], cq_max_count = 0, cq_head = 0, cq_tail = 0\<rparr>"

text \<open>\<^verbatim>\<open>init\<close>. \<^verbatim>\<open>vector::reserve\<close> changes the capacity of the vector, not its elements.\<close>

definition cq_init :: "size_t \<Rightarrow> 'a circular_queue \<Rightarrow> bool \<times> 'a circular_queue" where
  "cq_init max_count q = (True, q\<lparr>cq_max_count := max_count + 1, cq_head := 0, cq_tail := 0\<rparr>)"

definition next_index :: "size_t \<Rightarrow> 'a circular_queue \<Rightarrow> ring_error + size_t" where
  "next_index idx q =
     (if cq_max_count q = 0 then Inl Division_by_zero else Inr ((idx + 1) mod cq_max_count q))"

definition prev_index :: "size_t \<Rightarrow> 'a circular_queue \<Rightarrow> ring_error + size_t" where
  "prev_index idx q =
     (if cq_max_count q = 0 then Inl Division_by_zero
      else Inr ((idx + cq_max_count q - 1) mod cq_max_count q))"

definition cq_empty :: "'a circular_queue \<Rightarrow> bool" where
  "cq_empty q \<longleftrightarrow> cq_head q = cq_tail q"

definition cq_full :: "'a circular_queue \<Rightarrow> ring_error + bool" where
  "cq_full q = bindE (next_index (cq_tail q) q) (\<lambda>i. Inr (cq_head q = i))"

definition cq_push :: "'a \<Rightarrow> 'a circular_queue \<Rightarrow> ring_error + bool \<times> 'a circular_queue" where
  "cq_push item q =
     bindE (cq_full q) (\<lambda>full.
     bindE (if full then bindE (next_index (cq_head q) q) (\<lambda>h. Inr (q\<lparr>cq_head := h\<rparr>)) else Inr q) (\<lambda>q.
     bindE (vec_set (cq_vector q) (cq_tail q) item) (\<lambda>v.
     bindE (next_index (cq_tail q) q) (\<lambda>t.
       Inr (True, q\<lparr>cq_vector := v, cq_tail := t\<rparr>)))))"

definition cq_pop :: "'a circular_queue \<Rightarrow> ring_error + 'a option \<times> 'a circular_queue" where
  "cq_pop q =
     (if cq_empty q then Inr (None, q)
      else
        bindE (vec_get (cq_vector q) (cq_head q)) (\<lambda>x.
        bindE (next_index (cq_head q) q) (\<lambda>h.
          Inr (Some x, q\<lparr>cq_head := h\<rparr>))))"

definition cq_front :: "'a circular_queue \<Rightarrow> ring_error + 'a option" where
  "cq_front q =
     (if cq_empty q then Inr None else bindE (vec_get (cq_vector q) (cq_head q)) (\<lambda>x. Inr (Some x)))"

definition cq_back :: "'a circular_queue \<Rightarrow> ring_error + 'a option" where
  "cq_back q =
     (if cq_empty q then Inr None
      else bindE (prev_index (cq_tail q) q) (\<lambda>i.
        bindE (vec_get (cq_vector q) i) (\<lambda>x. Inr (Some x))))"

definition cq_size :: "'a circular_queue \<Rightarrow> ring_error + size_t" where
  "cq_size q =
     (if cq_max_count q = 0 then Inl Division_by_zero
      else Inr ((cq_tail q - cq_head q + cq_max_count q) mod cq_max_count q))"

section \<open>circular\_q.h\<close>

text \<open>The vector is created with its elements, default values \<open>d\<close>.\<close>

record 'a circular_q =
  q_max_items :: size_t
  q_head :: size_t
  q_tail :: size_t
  q_v :: "'a list"
  q_overrun_counter :: size_t

definition mk_circular_q :: "'a \<Rightarrow> size_t \<Rightarrow> 'a circular_q" where
  "mk_circular_q d max_items =
     \<lparr>q_max_items = max_items + 1, q_head = 0, q_tail = 0, q_v = replicate (unat (max_items + 1)) d,
      q_overrun_counter = 0\<rparr>"

definition q_push_back :: "'a \<Rightarrow> 'a circular_q \<Rightarrow> ring_error + 'a circular_q" where
  "q_push_back item q =
     bindE (vec_set (q_v q) (q_tail q) item) (\<lambda>v.
     if q_max_items q = 0 then Inl Division_by_zero
     else
       (let q1 = q\<lparr>q_v := v, q_tail := (q_tail q + 1) mod q_max_items q\<rparr>
        in Inr (if q_tail q1 = q_head q1
                then q1\<lparr>q_head := (q_head q1 + 1) mod q_max_items q1,
                        q_overrun_counter := q_overrun_counter q1 + 1\<rparr>
                else q1)))"

definition q_pop_front :: "'a circular_q \<Rightarrow> ring_error + 'a \<times> 'a circular_q" where
  "q_pop_front q =
     bindE (vec_get (q_v q) (q_head q)) (\<lambda>x.
     if q_max_items q = 0 then Inl Division_by_zero
     else Inr (x, q\<lparr>q_head := (q_head q + 1) mod q_max_items q\<rparr>))"

definition q_empty :: "'a circular_q \<Rightarrow> bool" where
  "q_empty q \<longleftrightarrow> q_tail q = q_head q"

definition q_full :: "'a circular_q \<Rightarrow> ring_error + bool" where
  "q_full q =
     (if q_max_items q = 0 then Inl Division_by_zero
      else Inr ((q_tail q + 1) mod q_max_items q = q_head q))"

section \<open>mpmc\_blocking\_q.h\<close>

text \<open>The queue of the asynchronous logger: a \<open>circular_q\<close> under a mutex. \<open>enqueue\<close> waits while the queue is
  full; the result \<open>None\<close> says that it goes on waiting. \<open>dequeue_for\<close> returns \<^verbatim>\<open>false\<close> when the queue stays
  empty until the timeout.\<close>

definition mq_enqueue :: "'a \<Rightarrow> 'a circular_q \<Rightarrow> ring_error + 'a circular_q option" where
  "mq_enqueue item q =
     bindE (q_full q) (\<lambda>full. if full then Inr None else bindE (q_push_back item q) (\<lambda>q'. Inr (Some q')))"

definition mq_enqueue_nowait :: "'a \<Rightarrow> 'a circular_q \<Rightarrow> ring_error + 'a circular_q" where
  "mq_enqueue_nowait item q = q_push_back item q"

definition mq_dequeue_for :: "'a circular_q \<Rightarrow> ring_error + 'a option \<times> 'a circular_q" where
  "mq_dequeue_for q =
     (if q_empty q then Inr (None, q) else bindE (q_pop_front q) (\<lambda>(x, q'). Inr (Some x, q')))"

definition mq_overrun_counter :: "'a circular_q \<Rightarrow> size_t" where
  "mq_overrun_counter q = q_overrun_counter q"

section \<open>The elements of a ring\<close>

text \<open>The elements from index \<open>h\<close> up to index \<open>t\<close> of a ring of \<open>n\<close> places.\<close>

definition ring_elems :: "'a list \<Rightarrow> nat \<Rightarrow> nat \<Rightarrow> nat \<Rightarrow> 'a list" where
  "ring_elems v n h t = map (\<lambda>k. v ! ((h + k) mod n)) [0..<(t + n - h) mod n]"

text \<open>A well-formed ring: the vector has all its places, more than one, and the indices are among them.\<close>

definition ring_ok :: "'a list \<Rightarrow> size_t \<Rightarrow> size_t \<Rightarrow> size_t \<Rightarrow> bool" where
  "ring_ok v n h t \<longleftrightarrow> length v = unat n \<and> 1 < unat n \<and> unat n < 2 ^ 63 \<and> unat h < unat n \<and> unat t < unat n"

lemma ring_count: "h < n \<Longrightarrow> t < n \<Longrightarrow> (t + n - h) mod n = (if h \<le> t then t - h else t + n - h)" for h t n :: nat
  by (auto simp: mod_if)

lemma mod_once: "m < 2 * n \<Longrightarrow> m mod n = (if m < n then m else m - n)" for m n :: nat
  by (auto simp: le_mod_geq not_less)

lemma ring_Suc: "h < n \<Longrightarrow> Suc h mod n = (if Suc h = n then 0 else Suc h)" for h n :: nat
  by simp

lemma ring_next_neq: "1 < n \<Longrightarrow> t < n \<Longrightarrow> (t + 1) mod n \<noteq> t" for t n :: nat
  by (cases "Suc t = n") auto

lemma ring_elems_Nil: "h < n \<Longrightarrow> t < n \<Longrightarrow> ring_elems v n h t = [] \<longleftrightarrow> h = t"
  by (auto simp: ring_elems_def ring_count)

lemma length_ring_elems: "length (ring_elems v n h t) = (t + n - h) mod n"
  by (simp add: ring_elems_def)

text \<open>Taking the first element.\<close>

lemma ring_elems_Cons:
  assumes "h < n" "t < n" "h \<noteq> t"
  shows "ring_elems v n h t = v ! h # ring_elems v n ((h + 1) mod n) t"
proof -
  let ?c = "(t + n - h) mod n" and ?h = "(h + 1) mod n"
  from assms have c: "?c = Suc ((t + n - ?h) mod n)"
    by (cases "Suc h = n") (auto simp: ring_count)
  have "v ! ((h + Suc k) mod n) = v ! ((?h + k) mod n)" for k
    by (simp add: mod_simps)
  with assms(1) show ?thesis
    unfolding ring_elems_def c upt_conv_Cons [OF zero_less_Suc] map_Suc_upt [symmetric]
    by (simp add: comp_def)
qed

text \<open>Writing behind the last element.\<close>

lemma ring_elems_snoc:
  assumes "h < n" "t < n" "length v = n" "(t + 1) mod n \<noteq> h"
  shows "ring_elems (v[t := x]) n h ((t + 1) mod n) = ring_elems v n h t @ [x]"
proof -
  let ?c = "(t + n - h) mod n"
  have t: "(t + 1) mod n < n" using assms(1) by simp
  have c: "((t + 1) mod n + n - h) mod n = Suc ?c"
    unfolding ring_count [OF assms(1) t] ring_count [OF assms(1,2)]
    using assms by (cases "Suc t = n") auto
  have other: "(h + k) mod n \<noteq> t" if "k < ?c" for k
    using that assms(1,2) mod_once [of "h + k" n] unfolding ring_count [OF assms(1,2)]
    by (auto split: if_splits)
  have "(h + ?c) mod n = t"
    using assms(1,2) unfolding ring_count [OF assms(1,2)] by (auto simp: mod_once)
  moreover have "v[t := x] ! ((h + k) mod n) = v ! ((h + k) mod n)" if "k < ?c" for k
    using other [OF that] by simp
  ultimately show ?thesis
    unfolding ring_elems_def c upt_Suc using assms(2,3) by auto
qed

section \<open>Contract\<close>

text \<open>
  A queue of bounded capacity that makes room by dropping its oldest element: after a push it holds
  the last \<open>cap\<close> elements of what it held and the new one.
\<close>

definition keep_last :: "nat \<Rightarrow> 'a list \<Rightarrow> 'a list" where
  "keep_last n xs = drop (length xs - n) xs"

lemma keep_last_append: "keep_last n (keep_last n ys @ xs) = keep_last n (ys @ xs)"
  by (cases "length ys \<le> n") (auto simp: keep_last_def add.commute)

locale overwriting_queue =
  fixes ok :: "'q \<Rightarrow> bool"
    and elems :: "'q \<Rightarrow> 'a list"
    and cap :: "'q \<Rightarrow> nat"
    and push :: "'a \<Rightarrow> 'q \<Rightarrow> 'e + 'q"
  assumes cap_bound: "ok q \<Longrightarrow> length (elems q) \<le> cap q"
    and push_keeps: "ok q \<Longrightarrow> \<exists>q'. push x q = Inr q' \<and> ok q' \<and> cap q' = cap q \<and>
      elems q' = keep_last (cap q) (elems q @ [x])"
begin

text \<open>A series of pushes leaves the last elements.\<close>

lemma pushes_keep_last:
  "ok q \<Longrightarrow> \<exists>q'. foldE (\<lambda>q x. push x q) q xs = Inr q' \<and> ok q' \<and> cap q' = cap q \<and>
     elems q' = keep_last (cap q) (elems q @ xs)"
proof (induction xs arbitrary: q)
  case Nil
  then show ?case using cap_bound [of q] by (simp add: keep_last_def)
next
  case (Cons x xs)
  from push_keeps [OF Cons.prems, of x] obtain q1 where
    q1: "push x q = Inr q1" "ok q1" "cap q1 = cap q" "elems q1 = keep_last (cap q) (elems q @ [x])" by blast
  from Cons.IH [OF q1(2)] obtain q2 where
    "foldE (\<lambda>q x. push x q) q1 xs = Inr q2" "ok q2" "cap q2 = cap q1" "elems q2 = keep_last (cap q1) (elems q1 @ xs)"
    by blast
  then show ?case using q1 by (simp add: keep_last_append)
qed

end

section \<open>Both rings meet it\<close>

definition cq_ok :: "'a circular_queue \<Rightarrow> bool" where
  "cq_ok q \<longleftrightarrow> ring_ok (cq_vector q) (cq_max_count q) (cq_head q) (cq_tail q)"

definition cq_elems :: "'a circular_queue \<Rightarrow> 'a list" where
  "cq_elems q = ring_elems (cq_vector q) (unat (cq_max_count q)) (unat (cq_head q)) (unat (cq_tail q))"

definition q_ok :: "'a circular_q \<Rightarrow> bool" where
  "q_ok q \<longleftrightarrow> ring_ok (q_v q) (q_max_items q) (q_head q) (q_tail q)"

definition q_elems :: "'a circular_q \<Rightarrow> 'a list" where
  "q_elems q = ring_elems (q_v q) (unat (q_max_items q)) (unat (q_head q)) (unat (q_tail q))"

lemma ring_ok_facts:
  assumes "ring_ok v n h t"
  shows "n \<noteq> 0" "unat ((t + 1) mod n) = (unat t + 1) mod unat n" "unat ((h + 1) mod n) = (unat h + 1) mod unat n"
    "vec_set v t x = Inr (v[unat t := x])" "vec_get v h = Inr (v ! unat h)"
    "h = (t + 1) mod n \<longleftrightarrow> unat h = (unat t + 1) mod unat n" "(t + 1) mod n = h \<longleftrightarrow> unat h = (unat t + 1) mod unat n"
    "h = t \<longleftrightarrow> unat h = unat t" "(h + 1) mod n \<noteq> h"
proof -
  from assms have b: "unat h + 1 < 2 ^ 64" "unat t + 1 < 2 ^ 64" "1 < unat n" by (auto simp: ring_ok_def)
  show "n \<noteq> 0" using b(3) by auto
  show s: "unat ((t + 1) mod n) = (unat t + 1) mod unat n" "unat ((h + 1) mod n) = (unat h + 1) mod unat n"
    using b by (simp_all add: unat_mod unat_word_ariths)
  show "vec_set v t x = Inr (v[unat t := x])" "vec_get v h = Inr (v ! unat h)"
    using assms by (simp_all add: vec_set_def vec_get_def ring_ok_def)
  show "h = (t + 1) mod n \<longleftrightarrow> unat h = (unat t + 1) mod unat n" "(t + 1) mod n = h \<longleftrightarrow> unat h = (unat t + 1) mod unat n"
    using s(1) by (metis unsigned_word_eqI)+
  show "h = t \<longleftrightarrow> unat h = unat t" by (simp add: word_unat_eq_iff)
  have "(unat h + 1) mod unat n \<noteq> unat h"
    by (rule ring_next_neq) (use assms in \<open>simp_all add: ring_ok_def\<close>)
  with s(2) show "(h + 1) mod n \<noteq> h" by metis
qed

text \<open>Pushing in either order: the elements afterwards.\<close>

lemma ring_push_room:
  assumes "ring_ok v n h t" "unat h \<noteq> (unat t + 1) mod unat n"
  shows "ring_ok (v[unat t := x]) n h ((t + 1) mod n) \<and>
    ring_elems (v[unat t := x]) (unat n) (unat h) (unat ((t + 1) mod n)) =
      keep_last (unat n - 1) (ring_elems v (unat n) (unat h) (unat t) @ [x])"
proof -
  note f = ring_ok_facts [OF assms(1)]
  from assms have b: "unat h < unat n" "unat t < unat n" "length v = unat n" by (auto simp: ring_ok_def)
  have e: "ring_elems (v[unat t := x]) (unat n) (unat h) ((unat t + 1) mod unat n) =
      ring_elems v (unat n) (unat h) (unat t) @ [x]"
    using ring_elems_snoc [OF b] assms(2) by simp
  moreover have "length (ring_elems (v[unat t := x]) (unat n) (unat h) ((unat t + 1) mod unat n)) < unat n"
    unfolding length_ring_elems by (rule mod_less_divisor) (use b in linarith)
  ultimately have "keep_last (unat n - 1) (ring_elems v (unat n) (unat h) (unat t) @ [x]) =
      ring_elems v (unat n) (unat h) (unat t) @ [x]"
    unfolding keep_last_def by simp
  with e f(2) assms(1) show ?thesis by (simp add: ring_ok_def)
qed

lemma ring_push_full:
  assumes "ring_ok v n h t" "unat h = (unat t + 1) mod unat n"
  shows "ring_ok (v[unat t := x]) n ((h + 1) mod n) ((t + 1) mod n) \<and>
    ring_elems (v[unat t := x]) (unat n) (unat ((h + 1) mod n)) (unat ((t + 1) mod n)) =
      keep_last (unat n - 1) (ring_elems v (unat n) (unat h) (unat t) @ [x])"
proof -
  note f = ring_ok_facts [OF assms(1)]
  from assms have b: "unat h < unat n" "unat t < unat n" "length v = unat n" by (auto simp: ring_ok_def)
  have n: "1 < unat n" using assms(1) by (simp add: ring_ok_def)
  have ne: "unat h \<noteq> unat t" "(unat t + 1) mod unat n \<noteq> (unat h + 1) mod unat n"
    using ring_next_neq [OF n b(2)] ring_next_neq [OF n b(1)] assms(2) by metis+
  let ?h = "(unat h + 1) mod unat n"
  have h: "?h < unat n" using b by simp
  from ring_elems_snoc [OF h b(2,3) ne(2), of x]
  have e: "ring_elems (v[unat t := x]) (unat n) ?h ((unat t + 1) mod unat n) = ring_elems v (unat n) ?h (unat t) @ [x]" .
  have len: "length (ring_elems v (unat n) (unat h) (unat t)) = unat n - 1"
    using assms(2) b by (cases "Suc (unat t) = unat n") (auto simp: length_ring_elems ring_count)
  have "keep_last (unat n - 1) (ring_elems v (unat n) (unat h) (unat t) @ [x]) = ring_elems v (unat n) ?h (unat t) @ [x]"
    using len ring_elems_Cons [OF b(1,2) ne(1), of v] by (simp add: keep_last_def)
  with e f(2,3) assms(1) show ?thesis by (simp add: ring_ok_def)
qed

interpretation cq: overwriting_queue cq_ok cq_elems "\<lambda>q. unat (cq_max_count q) - 1"
  "\<lambda>x q. bindE (cq_push x q) (\<lambda>(_, q'). Inr q')"
proof
  fix q :: "'a circular_queue" and x
  assume ok: "cq_ok q"
  then have r: "ring_ok (cq_vector q) (cq_max_count q) (cq_head q) (cq_tail q)" by (simp add: cq_ok_def)
  note f = ring_ok_facts [OF r]
  have "length (cq_elems q) < unat (cq_max_count q)"
    unfolding cq_elems_def length_ring_elems by (rule mod_less_divisor) (use r in \<open>simp add: ring_ok_def\<close>)
  then show "length (cq_elems q) \<le> unat (cq_max_count q) - 1" by linarith
  show "\<exists>q'. bindE (cq_push x q) (\<lambda>(_, q'). Inr q') = Inr q' \<and> cq_ok q' \<and>
      unat (cq_max_count q') - 1 = unat (cq_max_count q) - 1 \<and>
      cq_elems q' = keep_last (unat (cq_max_count q) - 1) (cq_elems q @ [x])"
  proof (cases "unat (cq_head q) = (unat (cq_tail q) + 1) mod unat (cq_max_count q)")
    case True
    then have "cq_push x q = Inr (True, q\<lparr>cq_head := (cq_head q + 1) mod cq_max_count q,
        cq_vector := (cq_vector q)[unat (cq_tail q) := x], cq_tail := (cq_tail q + 1) mod cq_max_count q\<rparr>)"
      using f(1,4,6) by (simp add: cq_push_def cq_full_def next_index_def)
    with ring_push_full [OF r True, of x] show ?thesis by (simp add: cq_ok_def cq_elems_def)
  next
    case False
    then have "cq_push x q = Inr (True, q\<lparr>cq_vector := (cq_vector q)[unat (cq_tail q) := x],
        cq_tail := (cq_tail q + 1) mod cq_max_count q\<rparr>)"
      using f(1,4,6) by (simp add: cq_push_def cq_full_def next_index_def)
    with ring_push_room [OF r False, of x] show ?thesis by (simp add: cq_ok_def cq_elems_def)
  qed
qed

interpretation log_q: overwriting_queue q_ok q_elems "\<lambda>q. unat (q_max_items q) - 1" q_push_back
proof
  fix q :: "'a circular_q" and x
  assume ok: "q_ok q"
  then have r: "ring_ok (q_v q) (q_max_items q) (q_head q) (q_tail q)" by (simp add: q_ok_def)
  note f = ring_ok_facts [OF r]
  have "length (q_elems q) < unat (q_max_items q)"
    unfolding q_elems_def length_ring_elems by (rule mod_less_divisor) (use r in \<open>simp add: ring_ok_def\<close>)
  then show "length (q_elems q) \<le> unat (q_max_items q) - 1" by linarith
  show "\<exists>q'. q_push_back x q = Inr q' \<and> q_ok q' \<and> unat (q_max_items q') - 1 = unat (q_max_items q) - 1 \<and>
      q_elems q' = keep_last (unat (q_max_items q) - 1) (q_elems q @ [x])"
  proof (cases "unat (q_head q) = (unat (q_tail q) + 1) mod unat (q_max_items q)")
    case True
    then have "(q_tail q + 1) mod q_max_items q = q_head q" using f(7) by simp
    with True f(1,4) ring_push_full [OF r True, of x] show ?thesis
      by (simp add: q_push_back_def q_ok_def q_elems_def Let_def)
  next
    case False
    then have "(q_tail q + 1) mod q_max_items q \<noteq> q_head q" using f(7) by simp
    with f(1,4) ring_push_room [OF r False, of x] show ?thesis
      by (simp add: q_push_back_def q_ok_def q_elems_def Let_def)
  qed
qed

text \<open>Taking out the oldest element.\<close>

lemma q_pop_front_spec:
  assumes "q_ok q" "q_elems q \<noteq> []"
  shows "\<exists>x q'. q_pop_front q = Inr (x, q') \<and> q_ok q' \<and> q_elems q = x # q_elems q' \<and>
    q_max_items q' = q_max_items q"
proof -
  from assms(1) have r: "ring_ok (q_v q) (q_max_items q) (q_head q) (q_tail q)" by (simp add: q_ok_def)
  note f = ring_ok_facts [OF r]
  have b: "unat (q_head q) < unat (q_max_items q)" "unat (q_tail q) < unat (q_max_items q)"
    using r by (simp_all add: ring_ok_def)
  with assms(2) have "unat (q_head q) \<noteq> unat (q_tail q)" by (simp add: q_elems_def ring_elems_Nil)
  from ring_elems_Cons [OF b this] f(1,3,5) r b show ?thesis
    by (simp add: q_pop_front_def q_ok_def q_elems_def ring_ok_def)
qed

lemma q_empty_iff: "q_ok q \<Longrightarrow> q_empty q \<longleftrightarrow> q_elems q = []"
  using ring_ok_facts(8) [of "q_v q" "q_max_items q" "q_head q" "q_tail q"]
  by (auto simp: q_empty_def q_ok_def q_elems_def ring_elems_Nil ring_ok_def)

lemma q_full_iff:
  assumes "q_ok q"
  shows "q_full q = Inr (length (q_elems q) = unat (q_max_items q) - 1)"
proof -
  from assms have r: "ring_ok (q_v q) (q_max_items q) (q_head q) (q_tail q)" by (simp add: q_ok_def)
  let ?n = "unat (q_max_items q)" and ?h = "unat (q_head q)" and ?t = "unat (q_tail q)"
  have b: "?h < ?n" "?t < ?n" "1 < ?n" using r by (simp_all add: ring_ok_def)
  have "?h = (?t + 1) mod ?n \<longleftrightarrow> length (q_elems q) = ?n - 1"
    unfolding q_elems_def length_ring_elems ring_count [OF b(1,2)]
    using b by (cases "Suc ?t = ?n") auto
  with ring_ok_facts(1,7) [OF r] show ?thesis by (simp add: q_full_def)
qed

lemma q_push_back_overrun:
  assumes "q_ok q" "q_push_back x q = Inr q'"
  shows "q_overrun_counter q' = q_overrun_counter q + (if length (q_elems q) = unat (q_max_items q) - 1 then 1 else 0)"
proof -
  from assms(1) have r: "ring_ok (q_v q) (q_max_items q) (q_head q) (q_tail q)" by (simp add: q_ok_def)
  have "(q_tail q + 1) mod q_max_items q = q_head q \<longleftrightarrow> length (q_elems q) = unat (q_max_items q) - 1"
    using q_full_iff [OF assms(1)] ring_ok_facts(1) [OF r] by (simp add: q_full_def)
  with assms(2) ring_ok_facts(1,4) [OF r] show ?thesis by (auto simp: q_push_back_def Let_def)
qed

text \<open>How many elements a series of pushes loses.\<close>

lemma pushes_overrun:
  assumes "q_ok q" "foldE (\<lambda>q x. q_push_back x q) q xs = Inr q'"
  shows "q_overrun_counter q' = q_overrun_counter q +
    of_nat (length (q_elems q) + length xs - (unat (q_max_items q) - 1))"
  using assms
proof (induction xs arbitrary: q)
  case Nil
  then show ?case using log_q.cap_bound [of q] by simp
next
  case (Cons x xs)
  from log_q.push_keeps [OF Cons.prems(1), of x] Cons.prems(2) obtain q1 where
    q1: "q_push_back x q = Inr q1" "q_ok q1" "unat (q_max_items q1) - 1 = unat (q_max_items q) - 1"
      "q_elems q1 = keep_last (unat (q_max_items q) - 1) (q_elems q @ [x])"
      "foldE (\<lambda>q x. q_push_back x q) q1 xs = Inr q'" by auto
  let ?c = "unat (q_max_items q) - 1"
  have l: "length (q_elems q1) = min ?c (length (q_elems q) + 1)" "length (q_elems q) \<le> ?c"
    using q1(4) log_q.cap_bound [OF Cons.prems(1)] by (simp_all add: keep_last_def)
  have "length (q_elems q) + length (x # xs) - ?c =
      (if length (q_elems q) = ?c then 1 else 0) + (length (q_elems q1) + length xs - ?c)"
    using l by (auto simp: min_def)
  with Cons.IH [OF q1(2,5)] q_push_back_overrun [OF Cons.prems(1) q1(1)] q1(3) show ?case
    by (simp add: algebra_simps)
qed

lemma mk_circular_q_ok:
  assumes "0 < unat n" "unat n + 1 < 2 ^ 63"
  shows "q_ok (mk_circular_q d n)" "q_elems (mk_circular_q d n) = []"
    "unat (q_max_items (mk_circular_q d n)) - 1 = unat n" "q_overrun_counter (mk_circular_q d n) = 0"
  using assms
  by (simp_all add: q_ok_def mk_circular_q_def ring_ok_def q_elems_def ring_elems_def unat_add_no_wrap)

text \<open>Emptying the queue.\<close>

fun dequeue_all :: "nat \<Rightarrow> 'a circular_q \<Rightarrow> ring_error + 'a list \<times> 'a circular_q" where
  "dequeue_all 0 q = Inr ([], q)"
| "dequeue_all (Suc k) q =
     bindE (mq_dequeue_for q) (\<lambda>(r, q1).
       case r of None \<Rightarrow> Inr ([], q1)
       | Some x \<Rightarrow> bindE (dequeue_all k q1) (\<lambda>(xs, q2). Inr (x # xs, q2)))"

lemma dequeue_all_elems:
  "q_ok q \<Longrightarrow> \<exists>q'. dequeue_all k q = Inr (take k (q_elems q), q') \<and> q_ok q' \<and> q_elems q' = drop k (q_elems q)"
proof (induction k arbitrary: q)
  case (Suc k)
  show ?case
  proof (cases "q_elems q = []")
    case True
    with Suc.prems q_empty_iff [OF Suc.prems] show ?thesis by (simp add: mq_dequeue_for_def)
  next
    case False
    from q_pop_front_spec [OF Suc.prems False] obtain x q1 where
      "q_pop_front q = Inr (x, q1)" "q_ok q1" "q_elems q = x # q_elems q1" by blast
    with Suc.IH [of q1] q_empty_iff [OF Suc.prems] show ?thesis by (auto simp: mq_dequeue_for_def)
  qed
qed simp

section \<open>Properties\<close>

text \<open>C14: The log queue under overload. After any sequence \<open>xs\<close> of \<^verbatim>\<open>enqueue_nowait\<close> calls on a new queue for
  \<open>n\<close> messages, dequeuing gives the last \<open>n\<close> of \<open>xs\<close> in order, no access leaves the vector, and the overrun
  counter is the number of messages lost.\<close>

theorem log_queue_keeps_newest:
  assumes "0 < unat n" "unat n + 1 < 2 ^ 63"
  shows "\<exists>q q'. foldE (\<lambda>q x. mq_enqueue_nowait x q) (mk_circular_q d n) xs = Inr q \<and>
    dequeue_all (length xs) q = Inr (drop (length xs - unat n) xs, q') \<and> q_empty q' \<and>
    mq_overrun_counter q = of_nat (length xs - unat n)"
proof -
  note new = mk_circular_q_ok [OF assms, of d]
  from log_q.pushes_keep_last [OF new(1), of xs] obtain q where
    q: "foldE (\<lambda>q x. q_push_back x q) (mk_circular_q d n) xs = Inr q" "q_ok q"
      "q_elems q = drop (length xs - unat n) xs"
    unfolding new(2,3) by (auto simp: keep_last_def)
  moreover have "q_overrun_counter q = of_nat (length xs - unat n)"
    using pushes_overrun [OF new(1) q(1)] unfolding new(2-4) by simp
  moreover from dequeue_all_elems [OF q(2), of "length xs"] q(3) obtain q' where
    "dequeue_all (length xs) q = Inr (drop (length xs - unat n) xs, q')" "q_ok q'" "q_elems q' = []" by auto
  ultimately show ?thesis using q_empty_iff by (auto simp: mq_enqueue_nowait_def mq_overrun_counter_def)
qed

theorem log_queue_keeps_newest_witness:
  "\<exists>q q'. foldE (\<lambda>q x. mq_enqueue_nowait x q) (mk_circular_q 0 2) [1, 2, 3 :: nat] = Inr q \<and>
    dequeue_all 3 q = Inr ([2, 3], q') \<and> q_empty q' \<and> mq_overrun_counter q = 1"
proof -
  have n: "0 < unat (2 :: size_t)" "unat (2 :: size_t) + 1 < 2 ^ 63" by simp_all
  have l: "length [1, 2, 3 :: nat] = 3" "drop (3 - unat (2 :: size_t)) [1, 2, 3 :: nat] = [2, 3]"
    "of_nat (3 - unat (2 :: size_t)) = (1 :: size_t)" by simp_all
  from log_queue_keeps_newest [OF n, of 0 "[1, 2, 3 :: nat]"] show ?thesis unfolding l .
qed

text \<open>The other way to enqueue, which waits while the queue is full, loses nothing.\<close>

lemma mq_enqueue_spec:
  assumes "q_ok q"
  shows "mq_enqueue x q = Inr None \<and> length (q_elems q) = unat (q_max_items q) - 1 \<or>
    (\<exists>q'. mq_enqueue x q = Inr (Some q') \<and> q_ok q' \<and> q_elems q' = q_elems q @ [x] \<and>
       q_overrun_counter q' = q_overrun_counter q)"
proof (cases "length (q_elems q) = unat (q_max_items q) - 1")
  case False
  with log_q.cap_bound [OF assms] log_q.push_keeps [OF assms, of x] q_push_back_overrun [OF assms]
  show ?thesis by (fastforce simp: mq_enqueue_def q_full_iff [OF assms] keep_last_def)
qed (simp add: mq_enqueue_def q_full_iff [OF assms])

text \<open>\<^verbatim>\<open>CircularQueue::init\<close> reserves memory for the vector but creates no elements, so that the state it leaves
  is not well formed: every push that follows writes outside the vector, or divides by zero.\<close>

lemma circular_queue_push_after_init:
  assumes "cq_vector q = []"
  shows "cq_push x (snd (cq_init n q)) = Inl (if n + 1 = 0 then Division_by_zero else Out_of_range)"
  using assms by (simp add: cq_push_def cq_init_def cq_full_def next_index_def vec_set_def)

end
