(* ===== verification/Spd_Logger.thy ===== *)
theory Spd_Logger
  imports Spd_Faults CircularQueue
begin

text \<open>
  Loggers: \<^verbatim>\<open>logger_impl.h\<close>, the asynchronous logger with its thread pool (\<^verbatim>\<open>async_logger_impl.h\<close>, \<^verbatim>\<open>thread_pool.h\<close>, \<^verbatim>\<open>async.h\<close>), the
  registry (\<^verbatim>\<open>registry.h\<close>, \<^verbatim>\<open>spdlog.h\<close>), and \<^verbatim>\<open>Logger\<close> of the library with its macros.

  Loggers and pools are objects with addresses, the positions in the lists of the state. A call returns, waits for room in the queue of a
  pool, or is undefined behaviour. The worker of a pool takes one message after the other; the sinks of an asynchronous logger are only
  used by it.
\<close>

section \<open>Calls\<close>

datatype 'a call_result = Returns 'a | Waits | Undefined

fun then_call :: "'a call_result \<Rightarrow> ('a \<Rightarrow> 'b call_result) \<Rightarrow> 'b call_result" where
  "then_call (Returns x) f = f x"
| "then_call Waits f = Waits"
| "then_call Undefined f = Undefined"

text \<open>What the operating system and the C library answer during a call.\<close>

record ('d, 'c) log_env =
  le_os :: log_os
  le_mktime :: "tm \<Rightarrow> int"
  le_strftime :: "tm \<Rightarrow> string"
  le_now :: int
  le_time :: int
  le_thread_id :: size_t
  le_floats :: "'d float_ops"
  le_sep :: char
  le_custom :: "('d, 'c) custom_formatter"

section \<open>Sinks of a logger\<close>

datatype any_sink = Basic_sink basic_file_sink | Rotating_sink rotating_file_sink | Daily_sink daily_file_sink

fun any_should_log :: "level_enum \<Rightarrow> any_sink \<Rightarrow> bool" where
  "any_should_log l (Basic_sink s) = sk_should_log l s"
| "any_should_log l (Rotating_sink s) = sk_should_log l s"
| "any_should_log l (Daily_sink s) = sk_should_log l s"

fun any_set_formatter :: "pattern_formatter \<Rightarrow> any_sink \<Rightarrow> any_sink" where
  "any_set_formatter f (Basic_sink s) = Basic_sink (sk_set_formatter f s)"
| "any_set_formatter f (Rotating_sink s) = Rotating_sink (sk_set_formatter f s)"
| "any_set_formatter f (Daily_sink s) = Daily_sink (sk_set_formatter f s)"

fun any_log :: "('d, 'c) log_env \<Rightarrow> log_msg \<Rightarrow> any_sink \<Rightarrow> file_sys \<Rightarrow> any_sink sink_result" where
  "any_log env msg (Basic_sink s) fs = map_option (map_prod id (map_prod Basic_sink id)) (basic_sink_it (le_os env) msg s fs)"
| "any_log env msg (Rotating_sink s) fs = map_option (map_prod id (map_prod Rotating_sink id)) (rotating_sink_it (le_os env) msg s fs)"
| "any_log env msg (Daily_sink s) fs =
     map_option (map_prod id (map_prod Daily_sink id)) (daily_sink_it (le_os env) (le_mktime env) (le_now env) msg s fs)"

text \<open>\<^verbatim>\<open>fflush\<close>: the contents of the files include what the C library buffers.\<close>

fun any_flush :: "any_sink \<Rightarrow> file_sys \<Rightarrow> file_sys" where
  "any_flush s fs = fs"

text \<open>The loop over the sinks; an exception leaves it.\<close>

fun sink_loop :: "('d, 'c) log_env \<Rightarrow> log_msg \<Rightarrow> any_sink list \<Rightarrow> file_sys \<Rightarrow> (string option \<times> any_sink list \<times> log_msg \<times> file_sys) option" where
  "sink_loop env msg [] fs = Some (None, [], msg, fs)"
| "sink_loop env msg (s # ss) fs = do {
     (ex, s, msg, fs) \<leftarrow> (if any_should_log (lm_level msg) s then any_log env msg s fs else Some (None, s, msg, fs));
     (case ex of
        Some e \<Rightarrow> Some (Some e, s # ss, msg, fs)
      | None \<Rightarrow> do { (ex, ss, msg, fs) \<leftarrow> sink_loop env msg ss fs; Some (ex, s # ss, msg, fs) }) }"

section \<open>The state\<close>

datatype err_handler = Default_handler | Custom_handler nat

datatype async_overflow_policy = Policy_block | Policy_overrun_oldest

record logger =
  lg_name :: string
  lg_sinks :: "any_sink list"
  lg_level :: level_enum
  lg_flush_level :: level_enum
  lg_err_handler :: err_handler
  lg_last_err_time :: int
  lg_async :: "(nat \<times> async_overflow_policy) option"

datatype async_msg_type = Am_log | Am_flush | Am_terminate

record async_msg =
  am_msg_type :: async_msg_type
  am_level :: level_enum
  am_time :: int
  am_thread_id :: size_t
  am_raw :: string
  am_msg_id :: size_t
  am_worker :: "nat option"

record thread_pool =
  tp_q :: "async_msg circular_q"
  tp_threads :: nat

record log_sys =
  ls_fs :: file_sys
  ls_stderr :: "string list"
  ls_handled :: "(nat \<times> string) list"
  ls_loggers :: "logger list"
  ls_pools :: "thread_pool list"
  rg_loggers :: "(string \<times> nat) list"
  rg_formatter :: pattern_formatter
  rg_level :: level_enum
  rg_flush_level :: level_enum
  rg_err_handler :: "err_handler option"
  rg_tp :: "nat option"

definition mk_registry :: "file_sys \<Rightarrow> log_sys" where
  "mk_registry fs =
     \<lparr>ls_fs = fs, ls_stderr = [], ls_handled = [], ls_loggers = [], ls_pools = [], rg_loggers = [],
      rg_formatter = mk_pattern_formatter ''%+'' Time_local default_eol, rg_level = L_info, rg_flush_level = L_off,
      rg_err_handler = None, rg_tp = None\<rparr>"

definition at_logger :: "nat \<Rightarrow> (logger \<Rightarrow> logger) \<Rightarrow> log_sys \<Rightarrow> log_sys" where
  "at_logger l f st = st\<lparr>ls_loggers := (ls_loggers st)[l := f (ls_loggers st ! l)]\<rparr>"

section \<open>Loggers\<close>

definition mk_logger :: "string \<Rightarrow> any_sink list \<Rightarrow> (nat \<times> async_overflow_policy) option \<Rightarrow> logger" where
  "mk_logger name sinks async =
     \<lparr>lg_name = name, lg_sinks = sinks, lg_level = L_info, lg_flush_level = L_off, lg_err_handler = Default_handler,
      lg_last_err_time = 0, lg_async = async\<rparr>"

definition lg_set_formatter :: "pattern_formatter \<Rightarrow> logger \<Rightarrow> logger" where
  "lg_set_formatter f lg = lg\<lparr>lg_sinks := map (any_set_formatter (pf_clone f)) (lg_sinks lg)\<rparr>"

definition lg_set_pattern :: "string \<Rightarrow> pattern_time_type \<Rightarrow> logger \<Rightarrow> logger" where
  "lg_set_pattern pattern time_type lg = lg_set_formatter (mk_pattern_formatter pattern time_type default_eol) lg"

definition lg_set_level :: "level_enum \<Rightarrow> logger \<Rightarrow> logger" where
  "lg_set_level l lg = lg\<lparr>lg_level := l\<rparr>"

definition lg_flush_on :: "level_enum \<Rightarrow> logger \<Rightarrow> logger" where
  "lg_flush_on l lg = lg\<lparr>lg_flush_level := l\<rparr>"

definition lg_set_error_handler :: "err_handler \<Rightarrow> logger \<Rightarrow> logger" where
  "lg_set_error_handler h lg = lg\<lparr>lg_err_handler := h\<rparr>"

definition lg_should_log :: "level_enum \<Rightarrow> logger \<Rightarrow> bool" where
  "lg_should_log l lg \<longleftrightarrow> level_number l \<ge> level_number (lg_level lg)"

definition lg_should_flush :: "log_msg \<Rightarrow> logger \<Rightarrow> bool" where
  "lg_should_flush msg lg \<longleftrightarrow> level_number (lm_level msg) \<ge> level_number (lg_flush_level lg) \<and> lm_level msg \<noteq> L_off"

definition default_err_handler :: "('d, 'c) log_env \<Rightarrow> string \<Rightarrow> nat \<Rightarrow> log_sys \<Rightarrow> log_sys" where
  "default_err_handler env msg l st =
     (if le_time env - lg_last_err_time (ls_loggers st ! l) < 60 then st
      else (let st = at_logger l (\<lambda>lg. lg\<lparr>lg_last_err_time := le_time env\<rparr>) st;
                date = le_strftime env (os_localtime (le_os env) (le_time env))
            in st\<lparr>ls_stderr := ls_stderr st @ [format_text (''[*** LOG ERROR ***] [{}] [{}] {}'' @ [CHR 0x0A])
                 [String_arg date, String_arg (lg_name (ls_loggers st ! l)), String_arg msg]]\<rparr>))"

text \<open>\<^verbatim>\<open>SPDLOG_CATCH_AND_HANDLE\<close>.\<close>

definition handle_exception :: "('d, 'c) log_env \<Rightarrow> string \<Rightarrow> nat \<Rightarrow> log_sys \<Rightarrow> log_sys" where
  "handle_exception env what l st =
     (case lg_err_handler (ls_loggers st ! l) of
        Default_handler \<Rightarrow> default_err_handler env what l st
      | Custom_handler h \<Rightarrow> st\<lparr>ls_handled := ls_handled st @ [(h, what)]\<rparr>)"

definition flush_sinks :: "nat \<Rightarrow> log_sys \<Rightarrow> log_sys" where
  "flush_sinks l st = st\<lparr>ls_fs := fold any_flush (lg_sinks (ls_loggers st ! l)) (ls_fs st)\<rparr>"

section \<open>The thread pool\<close>

definition mk_async_msg :: "nat option \<Rightarrow> async_msg_type \<Rightarrow> log_msg \<Rightarrow> async_msg" where
  "mk_async_msg worker the_type m =
     \<lparr>am_msg_type = the_type, am_level = lm_level m, am_time = lm_time m, am_thread_id = lm_thread_id m, am_raw = lm_raw m,
      am_msg_id = lm_msg_id m, am_worker = worker\<rparr>"

definition to_log_msg :: "string \<Rightarrow> async_msg \<Rightarrow> log_msg" where
  "to_log_msg worker_name m =
     \<lparr>lm_logger_name = worker_name, lm_level = am_level m, lm_time = am_time m, lm_thread_id = am_thread_id m, lm_raw = am_raw m,
      lm_msg_id = am_msg_id m, lm_color_range_start = 0, lm_color_range_end = 0\<rparr>"

text \<open>A default message; \<^verbatim>\<open>log_msg()\<close> leaves the level, the time and the thread unset, and nobody reads them.\<close>

definition blank_msg :: log_msg where
  "blank_msg = \<lparr>lm_logger_name = [], lm_level = L_trace, lm_time = 0, lm_thread_id = 0, lm_raw = [], lm_msg_id = 0,
     lm_color_range_start = 0, lm_color_range_end = 0\<rparr>"

definition mk_thread_pool :: "size_t \<Rightarrow> nat \<Rightarrow> string + thread_pool" where
  "mk_thread_pool max_items threads_n =
     (if threads_n = 0 \<or> threads_n > 1000 then Inl ''spdlog::thread_pool(): invalid threads_n param (valid range is 1-1000)''
      else Inr \<lparr>tp_q = mk_circular_q (mk_async_msg None Am_log blank_msg) max_items, tp_threads = threads_n\<rparr>)"

definition at_pool :: "nat \<Rightarrow> (thread_pool \<Rightarrow> thread_pool) \<Rightarrow> log_sys \<Rightarrow> log_sys" where
  "at_pool tp f st = st\<lparr>ls_pools := (ls_pools st)[tp := f (ls_pools st ! tp)]\<rparr>"

definition post_async_msg :: "nat \<Rightarrow> async_msg \<Rightarrow> async_overflow_policy \<Rightarrow> log_sys \<Rightarrow> log_sys call_result" where
  "post_async_msg tp m policy st =
     (if policy = Policy_block
      then (case mq_enqueue m (tp_q (ls_pools st ! tp)) of
              Inl _ \<Rightarrow> Undefined | Inr None \<Rightarrow> Waits | Inr (Some q) \<Rightarrow> Returns (at_pool tp (\<lambda>p. p\<lparr>tp_q := q\<rparr>) st))
      else (case mq_enqueue_nowait m (tp_q (ls_pools st ! tp)) of
              Inl _ \<Rightarrow> Undefined | Inr q \<Rightarrow> Returns (at_pool tp (\<lambda>p. p\<lparr>tp_q := q\<rparr>) st)))"

definition post_log :: "nat \<Rightarrow> nat \<Rightarrow> log_msg \<Rightarrow> async_overflow_policy \<Rightarrow> log_sys \<Rightarrow> log_sys call_result" where
  "post_log tp worker msg policy st = post_async_msg tp (mk_async_msg (Some worker) Am_log msg) policy st"

definition post_flush :: "nat \<Rightarrow> nat \<Rightarrow> async_overflow_policy \<Rightarrow> log_sys \<Rightarrow> log_sys call_result" where
  "post_flush tp worker policy st = post_async_msg tp (mk_async_msg (Some worker) Am_flush blank_msg) policy st"

definition backend_flush :: "nat \<Rightarrow> log_sys \<Rightarrow> log_sys" where
  "backend_flush l st = flush_sinks l st"

definition backend_log :: "('d, 'c) log_env \<Rightarrow> log_msg \<Rightarrow> nat \<Rightarrow> log_sys \<Rightarrow> log_sys call_result" where
  "backend_log env msg l st =
     (case sink_loop env msg (lg_sinks (ls_loggers st ! l)) (ls_fs st) of
        None \<Rightarrow> Undefined
      | Some (ex, ss, msg, fs) \<Rightarrow>
          (let st = (at_logger l (\<lambda>lg. lg\<lparr>lg_sinks := ss\<rparr>) st)\<lparr>ls_fs := fs\<rparr>;
               st = (case ex of None \<Rightarrow> st | Some e \<Rightarrow> handle_exception env e l st)
           in Returns (if lg_should_flush msg (ls_loggers st ! l) then backend_flush l st else st)))"

definition process_next_msg :: "('d, 'c) log_env \<Rightarrow> nat \<Rightarrow> log_sys \<Rightarrow> (bool \<times> log_sys) call_result" where
  "process_next_msg env tp st =
     (case mq_dequeue_for (tp_q (ls_pools st ! tp)) of
        Inl _ \<Rightarrow> Undefined
      | Inr (None, q) \<Rightarrow> Returns (True, st)
      | Inr (Some m, q) \<Rightarrow>
          (let st = at_pool tp (\<lambda>p. p\<lparr>tp_q := q\<rparr>) st in
           case am_msg_type m of
             Am_flush \<Rightarrow> (case am_worker m of None \<Rightarrow> Undefined | Some l \<Rightarrow> Returns (True, backend_flush l st))
           | Am_terminate \<Rightarrow> Returns (False, st)
           | Am_log \<Rightarrow>
               (case am_worker m of
                  None \<Rightarrow> Undefined
                | Some l \<Rightarrow> then_call (backend_log env (to_log_msg (lg_name (ls_loggers st ! l)) m) l st) (\<lambda>st. Returns (True, st)))))"

text \<open>One turn of \<^verbatim>\<open>worker_loop_\<close> of some thread of the pool; the thread ends when there is nothing more to do.\<close>

definition worker_step :: "('d, 'c) log_env \<Rightarrow> nat \<Rightarrow> log_sys \<Rightarrow> log_sys call_result" where
  "worker_step env tp st =
     (if tp_threads (ls_pools st ! tp) = 0 then Returns st
      else then_call (process_next_msg env tp st) (\<lambda>(active, st).
        Returns (if active then st else at_pool tp (\<lambda>p. p\<lparr>tp_threads := tp_threads p - 1\<rparr>) st)))"

text \<open>The destructor: a request to terminate for every thread, each posted as soon as there is room, then the joins. The workers go on
  meanwhile. The fuel bounds their turns.\<close>

fun post_waiting :: "('d, 'c) log_env \<Rightarrow> nat \<Rightarrow> nat \<Rightarrow> async_msg \<Rightarrow> log_sys \<Rightarrow> log_sys call_result" where
  "post_waiting env 0 tp m st = post_async_msg tp m Policy_block st"
| "post_waiting env (Suc k) tp m st =
     (case post_async_msg tp m Policy_block st of
        Waits \<Rightarrow> then_call (worker_step env tp st) (post_waiting env k tp m)
      | r \<Rightarrow> r)"

fun post_terminates :: "('d, 'c) log_env \<Rightarrow> nat \<Rightarrow> nat \<Rightarrow> log_sys \<Rightarrow> log_sys call_result" where
  "post_terminates env 0 tp st = Returns st"
| "post_terminates env (Suc n) tp st =
     then_call (post_waiting env 1 tp (mk_async_msg None Am_terminate blank_msg) st) (post_terminates env n tp)"

fun join_threads :: "('d, 'c) log_env \<Rightarrow> nat \<Rightarrow> nat \<Rightarrow> log_sys \<Rightarrow> log_sys call_result" where
  "join_threads env 0 tp st = (if tp_threads (ls_pools st ! tp) = 0 then Returns st else Waits)"
| "join_threads env (Suc k) tp st =
     (if tp_threads (ls_pools st ! tp) = 0 then Returns st else then_call (worker_step env tp st) (join_threads env k tp))"

definition tp_destroy :: "('d, 'c) log_env \<Rightarrow> nat \<Rightarrow> log_sys \<Rightarrow> log_sys call_result" where
  "tp_destroy env tp st =
     then_call (post_terminates env (tp_threads (ls_pools st ! tp)) tp st) (\<lambda>st.
       join_threads env (unat (q_max_items (tp_q (ls_pools st ! tp)))) tp st)"

section \<open>Logging\<close>

text \<open>\<^verbatim>\<open>sink_it_\<close> and \<^verbatim>\<open>flush_\<close>, virtual functions: an exception is the first component. The pool of an asynchronous logger exists as long as
  the registry holds it.\<close>

definition async_sink_it :: "nat \<Rightarrow> async_overflow_policy \<Rightarrow> log_msg \<Rightarrow> nat \<Rightarrow> log_sys \<Rightarrow> (string option \<times> log_sys) call_result" where
  "async_sink_it tp policy msg l st =
     (if rg_tp st = Some tp then then_call (post_log tp l msg policy st) (\<lambda>st. Returns (None, st))
      else Returns (Some ''async log: thread pool doesn't exist anymore'', st))"

definition async_flush :: "nat \<Rightarrow> async_overflow_policy \<Rightarrow> nat \<Rightarrow> log_sys \<Rightarrow> (string option \<times> log_sys) call_result" where
  "async_flush tp policy l st =
     (if rg_tp st = Some tp then then_call (post_flush tp l policy st) (\<lambda>st. Returns (None, st))
      else Returns (Some ''async flush: thread pool doesn't exist anymore'', st))"

definition lg_flush_virtual :: "nat \<Rightarrow> log_sys \<Rightarrow> (string option \<times> log_sys) call_result" where
  "lg_flush_virtual l st =
     (case lg_async (ls_loggers st ! l) of
        None \<Rightarrow> Returns (None, flush_sinks l st)
      | Some (tp, policy) \<Rightarrow> async_flush tp policy l st)"

definition lg_flush :: "('d, 'c) log_env \<Rightarrow> nat \<Rightarrow> log_sys \<Rightarrow> log_sys call_result" where
  "lg_flush env l st =
     then_call (lg_flush_virtual l st) (\<lambda>(ex, st). Returns (case ex of None \<Rightarrow> st | Some e \<Rightarrow> handle_exception env e l st))"

definition lg_sink_it :: "('d, 'c) log_env \<Rightarrow> log_msg \<Rightarrow> nat \<Rightarrow> log_sys \<Rightarrow> (string option \<times> log_sys) call_result" where
  "lg_sink_it env msg l st =
     (case lg_async (ls_loggers st ! l) of
        None \<Rightarrow>
          (case sink_loop env msg (lg_sinks (ls_loggers st ! l)) (ls_fs st) of
             None \<Rightarrow> Undefined
           | Some (ex, ss, msg, fs) \<Rightarrow>
               (let st = (at_logger l (\<lambda>lg. lg\<lparr>lg_sinks := ss\<rparr>) st)\<lparr>ls_fs := fs\<rparr> in
                if ex = None \<and> lg_should_flush msg (ls_loggers st ! l)
                then then_call (lg_flush env l st) (\<lambda>st. Returns (None, st)) else Returns (ex, st)))
      | Some (tp, policy) \<Rightarrow> async_sink_it tp policy msg l st)"

definition new_log_msg :: "('d, 'c) log_env \<Rightarrow> string \<Rightarrow> level_enum \<Rightarrow> log_msg" where
  "new_log_msg env name lvl =
     \<lparr>lm_logger_name = name, lm_level = lvl, lm_time = le_now env, lm_thread_id = le_thread_id env, lm_raw = [], lm_msg_id = 0,
      lm_color_range_start = 0, lm_color_range_end = 0\<rparr>"

text \<open>\<^verbatim>\<open>log\<close>: exceptions of formatting and of the sinks end in the error handler.\<close>

definition lg_log ::
  "('d, 'c) log_env \<Rightarrow> level_enum \<Rightarrow> string \<Rightarrow> ('d, 'c) fmt_arg list \<Rightarrow> nat \<Rightarrow> log_sys \<Rightarrow> log_sys call_result" where
  "lg_log env lvl fmt as l st =
     (if \<not> lg_should_log lvl (ls_loggers st ! l) then Returns st
      else
        (case vformat_to (le_floats env) (le_sep env) (le_custom env) fmt as of
           Some (Inr raw) \<Rightarrow>
             then_call (lg_sink_it env ((new_log_msg env (lg_name (ls_loggers st ! l)) lvl)\<lparr>lm_raw := raw\<rparr>) l st)
               (\<lambda>(ex, st). Returns (case ex of None \<Rightarrow> st | Some e \<Rightarrow> handle_exception env e l st))
         | Some (Inl (Format_error e)) \<Rightarrow> Returns (handle_exception env e l st)
         | _ \<Rightarrow> Undefined))"

text \<open>\<^verbatim>\<open>log(lvl, const char *msg)\<close>, which C++ prefers when there are no arguments: the text is not a format string.\<close>

definition lg_log_str :: "('d, 'c) log_env \<Rightarrow> level_enum \<Rightarrow> string \<Rightarrow> nat \<Rightarrow> log_sys \<Rightarrow> log_sys call_result" where
  "lg_log_str env lvl msg l st = lg_log env lvl ''{}'' [Cstring_arg 1 msg] l st"

section \<open>The registry\<close>

text \<open>The map of the loggers; every operation holds its mutex.\<close>

definition all_loggers :: "(logger \<Rightarrow> logger) \<Rightarrow> log_sys \<Rightarrow> log_sys" where
  "all_loggers f st = fold (\<lambda>(_, l). at_logger l f) (rg_loggers st) st"

definition rg_find :: "string \<Rightarrow> log_sys \<Rightarrow> nat option" where
  "rg_find name st = map_of (rg_loggers st) name"

definition throw_if_exists :: "string \<Rightarrow> log_sys \<Rightarrow> string option" where
  "throw_if_exists name st =
     (if rg_find name st \<noteq> None then Some (''logger with name '' @ [CHR 0x27] @ name @ [CHR 0x27] @ '' already exists'') else None)"

definition register_logger :: "nat \<Rightarrow> log_sys \<Rightarrow> string option \<times> log_sys" where
  "register_logger l st =
     (let name = lg_name (ls_loggers st ! l) in
      case throw_if_exists name st of
        Some e \<Rightarrow> (Some e, st)
      | None \<Rightarrow> (None, st\<lparr>rg_loggers := (name, l) # rg_loggers st\<rparr>))"

definition register_and_init :: "nat \<Rightarrow> log_sys \<Rightarrow> string option \<times> log_sys" where
  "register_and_init l st =
     (let name = lg_name (ls_loggers st ! l) in
      case throw_if_exists name st of
        Some e \<Rightarrow> (Some e, st)
      | None \<Rightarrow>
          (let st = at_logger l (lg_set_formatter (pf_clone (rg_formatter st))) st;
               st = (case rg_err_handler st of None \<Rightarrow> st | Some h \<Rightarrow> at_logger l (lg_set_error_handler h) st);
               st = at_logger l (lg_set_level (rg_level st)) st;
               st = at_logger l (lg_flush_on (rg_flush_level st)) st
           in (None, st\<lparr>rg_loggers := (name, l) # rg_loggers st\<rparr>)))"

definition rg_set_formatter :: "pattern_formatter \<Rightarrow> log_sys \<Rightarrow> log_sys" where
  "rg_set_formatter f st = all_loggers (lg_set_formatter (pf_clone f)) (st\<lparr>rg_formatter := f\<rparr>)"

definition rg_set_pattern :: "string \<Rightarrow> log_sys \<Rightarrow> log_sys" where
  "rg_set_pattern pattern st = rg_set_formatter (mk_pattern_formatter pattern Time_local default_eol) st"

definition rg_set_level :: "level_enum \<Rightarrow> log_sys \<Rightarrow> log_sys" where
  "rg_set_level l st = (all_loggers (lg_set_level l) st)\<lparr>rg_level := l\<rparr>"

definition rg_flush_on :: "level_enum \<Rightarrow> log_sys \<Rightarrow> log_sys" where
  "rg_flush_on l st = (all_loggers (lg_flush_on l) st)\<lparr>rg_flush_level := l\<rparr>"

definition rg_set_error_handler :: "err_handler \<Rightarrow> log_sys \<Rightarrow> log_sys" where
  "rg_set_error_handler h st = (all_loggers (lg_set_error_handler h) st)\<lparr>rg_err_handler := Some h\<rparr>"

definition rg_drop :: "string \<Rightarrow> log_sys \<Rightarrow> log_sys" where
  "rg_drop name st = st\<lparr>rg_loggers := filter (\<lambda>(n, _). n \<noteq> name) (rg_loggers st)\<rparr>"

definition rg_drop_all :: "log_sys \<Rightarrow> log_sys" where
  "rg_drop_all st = st\<lparr>rg_loggers := []\<rparr>"

fun flush_each :: "('d, 'c) log_env \<Rightarrow> nat list \<Rightarrow> log_sys \<Rightarrow> log_sys call_result" where
  "flush_each env [] st = Returns st"
| "flush_each env (l # ls) st = then_call (lg_flush env l st) (flush_each env ls)"

definition rg_flush_all :: "('d, 'c) log_env \<Rightarrow> log_sys \<Rightarrow> log_sys call_result" where
  "rg_flush_all env st = flush_each env (map snd (rg_loggers st)) st"

text \<open>The registry owns the pool: giving it up destroys the pool.\<close>

definition set_tp :: "('d, 'c) log_env \<Rightarrow> nat option \<Rightarrow> log_sys \<Rightarrow> log_sys call_result" where
  "set_tp env tp st =
     (let old = rg_tp st; st = st\<lparr>rg_tp := tp\<rparr> in case old of None \<Rightarrow> Returns st | Some p \<Rightarrow> tp_destroy env p st)"

definition rg_shutdown :: "('d, 'c) log_env \<Rightarrow> log_sys \<Rightarrow> log_sys call_result" where
  "rg_shutdown env st = set_tp env None (rg_drop_all st)"

definition init_thread_pool :: "('d, 'c) log_env \<Rightarrow> size_t \<Rightarrow> nat \<Rightarrow> log_sys \<Rightarrow> (string option \<times> log_sys) call_result" where
  "init_thread_pool env q_size thread_count st =
     (case mk_thread_pool q_size thread_count of
        Inl e \<Rightarrow> Returns (Some e, st)
      | Inr p \<Rightarrow>
          then_call (set_tp env (Some (length (ls_pools st))) (st\<lparr>ls_pools := ls_pools st @ [p]\<rparr>)) (\<lambda>st. Returns (None, st)))"

text \<open>The factories; the constructor of the sink may fail.\<close>

type_synonym sink_maker = "file_sys \<Rightarrow> (string + any_sink) \<times> file_sys"

definition add_logger :: "sink_maker \<Rightarrow> string \<Rightarrow> (nat \<times> async_overflow_policy) option \<Rightarrow> log_sys \<Rightarrow> (string + nat) \<times> log_sys" where
  "add_logger mk name async st =
     (case mk (ls_fs st) of
        (Inl e, fs) \<Rightarrow> (Inl e, st\<lparr>ls_fs := fs\<rparr>)
      | (Inr s, fs) \<Rightarrow>
          (let l = length (ls_loggers st);
               st = st\<lparr>ls_fs := fs, ls_loggers := ls_loggers st @ [mk_logger name [s] async]\<rparr>
           in case register_and_init l st of (Some e, st) \<Rightarrow> (Inl e, st) | (None, st) \<Rightarrow> (Inr l, st)))"

definition synchronous_create :: "sink_maker \<Rightarrow> string \<Rightarrow> log_sys \<Rightarrow> (string + nat) \<times> log_sys" where
  "synchronous_create mk name st = add_logger mk name None st"

definition default_async_q_size :: size_t where "default_async_q_size = 8192"

definition async_create ::
  "('d, 'c) log_env \<Rightarrow> async_overflow_policy \<Rightarrow> sink_maker \<Rightarrow> string \<Rightarrow> log_sys \<Rightarrow> ((string + nat) \<times> log_sys) call_result" where
  "async_create env policy mk name st =
     then_call (case rg_tp st of Some _ \<Rightarrow> Returns (None, st) | None \<Rightarrow> init_thread_pool env default_async_q_size 1 st) (\<lambda>(ex, st).
       case ex of
         Some e \<Rightarrow> Returns (Inl e, st)
       | None \<Rightarrow> (case rg_tp st of None \<Rightarrow> Undefined | Some tp \<Rightarrow> Returns (add_logger mk name (Some (tp, policy)) st)))"

definition basic_sink_maker :: "string \<Rightarrow> bool \<Rightarrow> sink_maker" where
  "basic_sink_maker filename trunc fs = map_prod (map_sum id Basic_sink) id (mk_basic_file_sink filename trunc fs)"

section \<open>Logger.h and Logger.cpp\<close>

datatype LogLevel = LL_Trace | LL_Debug | LL_Info | LL_Warn | LL_Error | LL_Critical | LL_Off

fun ll_number :: "LogLevel \<Rightarrow> nat" where
  "ll_number LL_Trace = 0" | "ll_number LL_Debug = 1" | "ll_number LL_Info = 2" | "ll_number LL_Warn = 3"
| "ll_number LL_Error = 4" | "ll_number LL_Critical = 5" | "ll_number LL_Off = 6"

record ecron_logger =
  el_init :: bool
  el_lv :: LogLevel
  el_async :: bool
  el_logger :: "nat option"

definition mk_ecron_logger :: ecron_logger where
  "mk_ecron_logger = \<lparr>el_init = False, el_lv = LL_Info, el_async = False, el_logger = None\<rparr>"

text \<open>The part of \<^verbatim>\<open>init\<close> in the \<^verbatim>\<open>try\<close> block: the logger, or an exception.\<close>

definition create_basic_logger :: "('d, 'c) log_env \<Rightarrow> string \<Rightarrow> bool \<Rightarrow> bool \<Rightarrow> log_sys \<Rightarrow> ((string + nat) \<times> log_sys) call_result" where
  "create_basic_logger env file async trunc st =
     (if async
      then then_call (init_thread_pool env 8192 1 st) (\<lambda>(ex, st).
        case ex of
          Some e \<Rightarrow> Returns (Inl e, st)
        | None \<Rightarrow> async_create env Policy_block (basic_sink_maker file trunc) ''basic_logger'' st)
      else Returns (synchronous_create (basic_sink_maker file trunc) ''basic_logger'' st))"

definition logger_init ::
  "('d, 'c) log_env \<Rightarrow> string option \<Rightarrow> bool \<Rightarrow> bool \<Rightarrow> ecron_logger \<Rightarrow> log_sys \<Rightarrow> (bool \<times> ecron_logger \<times> log_sys) call_result" where
  "logger_init env strfile async trunc el st =
     (case strfile of
        None \<Rightarrow> Returns (False, el, st)
      | Some file \<Rightarrow>
          if el_init el then Returns (False, el, st)
          else then_call (create_basic_logger env file async trunc st) (\<lambda>(r, st).
            case r of
              Inl e \<Rightarrow> Returns (False, el, st)
            | Inr l \<Rightarrow>
                Returns (True, el\<lparr>el_logger := Some l, el_async := async, el_lv := LL_Info, el_init := True\<rparr>,
                  rg_set_pattern ''%C%m%d %T.%e %t %l %v'' (rg_set_level L_trace st))))"

definition logger_release :: "('d, 'c) log_env \<Rightarrow> ecron_logger \<Rightarrow> log_sys \<Rightarrow> (ecron_logger \<times> log_sys) call_result" where
  "logger_release env el st =
     (if \<not> el_init el then Returns (el, st)
      else
        (case el_logger el of
           None \<Rightarrow> Undefined
         | Some l \<Rightarrow>
             then_call (lg_flush env l st) (\<lambda>st.
             then_call (rg_shutdown env (rg_drop ''basic_logger'' st)) (\<lambda>st.
               Returns (el\<lparr>el_async := False, el_lv := LL_Off, el_init := False\<rparr>, st)))))"

definition logger_flush :: "('d, 'c) log_env \<Rightarrow> ecron_logger \<Rightarrow> log_sys \<Rightarrow> log_sys call_result" where
  "logger_flush env el st =
     (if \<not> el_init el then Returns st
      else (case el_logger el of None \<Rightarrow> Undefined | Some l \<Rightarrow> lg_flush env l st))"

definition logger_set_level :: "LogLevel \<Rightarrow> ecron_logger \<Rightarrow> ecron_logger" where
  "logger_set_level lv el = (if \<not> el_init el then el else el\<lparr>el_lv := lv\<rparr>)"

definition logger_get_level :: "ecron_logger \<Rightarrow> LogLevel" where
  "logger_get_level el = (if \<not> el_init el then LL_Off else el_lv el)"

fun spd_level :: "LogLevel \<Rightarrow> level_enum option" where
  "spd_level LL_Trace = Some L_trace"
| "spd_level LL_Debug = Some L_debug"
| "spd_level LL_Info = Some L_info"
| "spd_level LL_Warn = Some L_warn"
| "spd_level LL_Error = Some L_err"
| "spd_level LL_Critical = Some L_critical"
| "spd_level LL_Off = None"

definition write_log ::
  "('d, 'c) log_env \<Rightarrow> LogLevel \<Rightarrow> string \<Rightarrow> ('d, 'c) fmt_arg list \<Rightarrow> ecron_logger \<Rightarrow> log_sys \<Rightarrow> log_sys call_result" where
  "write_log env lvl fmt as el st =
     (case spd_level lvl of
        None \<Rightarrow> Returns st
      | Some lv_spd \<Rightarrow>
          (case el_logger el of
             None \<Rightarrow> Undefined
           | Some l \<Rightarrow> if as = [] then lg_log_str env lv_spd fmt l st else lg_log env lv_spd fmt as l st))"

text \<open>The macros: what they append to the format, and the place they add to the arguments.\<close>

record log_place =
  pl_filename :: string
  pl_line :: "32 word"
  pl_func :: string

fun macro_format :: "LogLevel \<Rightarrow> string" where
  "macro_format LL_Trace = '' - {}:{}:{}''"
| "macro_format LL_Debug = '' - {}:{}:{}''"
| "macro_format LL_Info = []"
| "macro_format _ = '' - {}:{}''"

fun macro_args :: "LogLevel \<Rightarrow> log_place \<Rightarrow> ('d, 'c) fmt_arg list" where
  "macro_args LL_Trace p = [Cstring_arg 1 (pl_filename p), Int_arg (pl_line p), Cstring_arg 1 (pl_func p)]"
| "macro_args LL_Debug p = [Cstring_arg 1 (pl_filename p), Int_arg (pl_line p), Cstring_arg 1 (pl_func p)]"
| "macro_args LL_Info p = []"
| "macro_args _ p = [Cstring_arg 1 (pl_filename p), Int_arg (pl_line p)]"

definition log_macro ::
  "('d, 'c) log_env \<Rightarrow> LogLevel \<Rightarrow> string \<Rightarrow> ('d, 'c) fmt_arg list \<Rightarrow> log_place \<Rightarrow> ecron_logger \<Rightarrow> log_sys \<Rightarrow> log_sys call_result" where
  "log_macro env lvl fmt as p el st =
     (if el_init el \<and> ll_number (logger_get_level el) \<le> ll_number lvl
      then write_log env lvl (fmt @ macro_format lvl) (as @ macro_args lvl p) el st
      else Returns st)"

end
