(* ===== verification/Spd_Front.thy ===== *)
theory Spd_Front
  imports Spd_Logger
begin

text \<open>
  \<^verbatim>\<open>Logger\<close> from \<^verbatim>\<open>init\<close> to \<^verbatim>\<open>release\<close>: what its file holds, for every order in which calls and turns of the worker follow each other.
\<close>

section \<open>Runs\<close>

datatype ('d, 'c) log_event =
    Ev_log "('d, 'c) log_env" LogLevel string "('d, 'c) fmt_arg list" log_place
  | Ev_set_level LogLevel
  | Ev_flush "('d, 'c) log_env"
  | Ev_work "('d, 'c) log_env"

fun run_event :: "('d, 'c) log_event \<Rightarrow> ecron_logger \<times> log_sys \<Rightarrow> (ecron_logger \<times> log_sys) call_result" where
  "run_event (Ev_log env lvl fmt as p) (el, st) = then_call (log_macro env lvl fmt as p el st) (\<lambda>st. Returns (el, st))"
| "run_event (Ev_set_level lv) (el, st) = Returns (logger_set_level lv el, st)"
| "run_event (Ev_flush env) (el, st) = then_call (logger_flush env el st) (\<lambda>st. Returns (el, st))"
| "run_event (Ev_work env) (el, st) =
     (case rg_tp st of None \<Rightarrow> Returns (el, st) | Some tp \<Rightarrow> then_call (worker_step env tp st) (\<lambda>st. Returns (el, st)))"

fun run_events :: "('d, 'c) log_event list \<Rightarrow> ecron_logger \<times> log_sys \<Rightarrow> (ecron_logger \<times> log_sys) call_result" where
  "run_events [] s = Returns s"
| "run_events (e # es) s = then_call (run_event e s) (run_events es)"

text \<open>The lines that the calls ask for: those of the messages at or above the level of the moment whose format is valid.\<close>

definition ecron_pattern :: string where "ecron_pattern = ''%C%m%d %T.%e %t %l %v''"

definition ecron_line :: "log_os \<Rightarrow> log_msg \<Rightarrow> string" where
  "ecron_line sys msg = log_line sys Time_local ecron_pattern default_eol msg"

definition logged_text :: "('d, 'c) log_env \<Rightarrow> string \<Rightarrow> ('d, 'c) fmt_arg list \<Rightarrow> string option" where
  "logged_text env fmt as =
     (case (if as = [] then vformat_to (le_floats env) (le_sep env) (le_custom env) ''{}'' [Cstring_arg 1 fmt]
            else vformat_to (le_floats env) (le_sep env) (le_custom env) fmt as) of
        Some (Inr t) \<Rightarrow> Some t | _ \<Rightarrow> None)"

definition call_lines :: "LogLevel \<Rightarrow> ('d, 'c) log_env \<Rightarrow> LogLevel \<Rightarrow> string \<Rightarrow> ('d, 'c) fmt_arg list \<Rightarrow> log_place \<Rightarrow> string list" where
  "call_lines lv env lvl fmt as p =
     (if ll_number lv \<le> ll_number lvl
      then (case (logged_text env (fmt @ macro_format lvl) (as @ macro_args lvl p), spd_level lvl) of
              (Some t, Some l) \<Rightarrow> [ecron_line (le_os env) ((new_log_msg env ''basic_logger'' l)\<lparr>lm_raw := t\<rparr>)]
            | _ \<Rightarrow> [])
      else [])"

fun event_lines :: "LogLevel \<Rightarrow> ('d, 'c) log_event list \<Rightarrow> string list" where
  "event_lines lv [] = []"
| "event_lines lv (Ev_log env lvl fmt as p # es) = call_lines lv env lvl fmt as p @ event_lines lv es"
| "event_lines lv (Ev_set_level lv' # es) = event_lines lv' es"
| "event_lines lv (Ev_flush env # es) = event_lines lv es"
| "event_lines lv (Ev_work env # es) = event_lines lv es"

fun event_ok :: "log_os \<Rightarrow> ('d, 'c) log_event \<Rightarrow> bool" where
  "event_ok sys (Ev_log env lvl fmt as p) \<longleftrightarrow>
     le_os env = sys \<and> msg_ok sys Time_local (new_log_msg env [] L_trace) \<and> list_all wf_arg as \<and> length as < 2 ^ 31"
| "event_ok sys (Ev_set_level lv) \<longleftrightarrow> True"
| "event_ok sys (Ev_flush env) \<longleftrightarrow> True"
| "event_ok sys (Ev_work env) \<longleftrightarrow> le_os env = sys"

section \<open>The logger and its file\<close>

definition queued_ok :: "log_os \<Rightarrow> async_msg \<Rightarrow> bool" where
  "queued_ok sys m \<longleftrightarrow> am_worker m = Some 0 \<and> am_msg_type m \<noteq> Am_terminate \<and>
     (am_msg_type m = Am_log \<longrightarrow> msg_ok sys Time_local (to_log_msg ''basic_logger'' m))"

definition queued_line :: "log_os \<Rightarrow> async_msg \<Rightarrow> string" where
  "queued_line sys m = (if am_msg_type m = Am_log then ecron_line sys (to_log_msg ''basic_logger'' m) else [])"

text \<open>The only logger with its file, that holds \<open>c\<close>, and the only pool with its queue.\<close>

definition logger_ok :: "log_os \<Rightarrow> string \<Rightarrow> bool \<Rightarrow> logger \<Rightarrow> file_sys \<Rightarrow> bool" where
  "logger_ok sys file async lg fs \<longleftrightarrow>
     lg_name lg = ''basic_logger'' \<and> lg_level lg = L_trace \<and> lg_flush_level lg = L_off \<and>
     lg_async lg = (if async then Some (0, Policy_block) else None) \<and>
     (\<exists>s. lg_sinks lg = [Basic_sink s] \<and> sk_level s = L_trace \<and> bs_ok sys ecron_pattern file s fs)"

definition pool_ok :: "nat \<Rightarrow> async_msg list \<Rightarrow> thread_pool \<Rightarrow> bool" where
  "pool_ok n pend p \<longleftrightarrow> tp_threads p = n \<and> q_ok (tp_q p) \<and> q_elems (tp_q p) = pend \<and> q_max_items (tp_q p) = 8193"

definition front_ok :: "log_os \<Rightarrow> string \<Rightarrow> (string \<rightharpoonup> string) \<Rightarrow> string \<Rightarrow> bool \<Rightarrow> nat \<Rightarrow> async_msg list \<Rightarrow> log_sys \<Rightarrow> bool" where
  "front_ok sys file F c async n pend st \<longleftrightarrow>
     (\<exists>lg. ls_loggers st = [lg] \<and> logger_ok sys file async lg (ls_fs st)) \<and> fs_files (ls_fs st) = F(file \<mapsto> c) \<and>
     (if async then \<exists>p. ls_pools st = [p] \<and> pool_ok n pend p else pend = [])"

lemma then_call_assoc: "then_call (then_call r f) g = then_call r (\<lambda>x. then_call (f x) g)"
  by (cases r) simp_all

lemma no_flush: "lg_flush_level lg = L_off \<Longrightarrow> \<not> lg_should_flush msg lg"
  by (cases "lm_level msg") (simp_all add: lg_should_flush_def)

lemma flush_sinks_id: "flush_sinks l st = st"
proof -
  have "fold any_flush ss fs = fs" for ss fs by (induction ss) simp_all
  then show ?thesis by (simp add: flush_sinks_def)
qed

lemma basic_sink_it_level: "basic_sink_it sys msg s fs = Some (ex, s', msg', fs') \<Longrightarrow> sk_level s' = sk_level s"
  by (auto simp: basic_sink_it_def split: Option.bind_splits)

text \<open>A line goes to the file.\<close>

lemma sink_loop_line:
  assumes "bs_ok sys ecron_pattern file s fs" "sk_level s = L_trace" "msg_ok sys Time_local msg" "le_os env = sys" "fs_files fs = F(file \<mapsto> c)"
  shows "\<exists>s' msg' fs'. sink_loop env msg [Basic_sink s] fs = Some (None, [Basic_sink s'], msg', fs') \<and> sk_level s' = L_trace \<and>
    bs_ok sys ecron_pattern file s' fs' \<and> fs_files fs' = F(file \<mapsto> c @ ecron_line sys msg)"
proof -
  obtain s' msg' fs' where "basic_sink_it sys msg s fs = Some (None, s', msg', fs')" "bs_ok sys ecron_pattern file s' fs'"
    "fs_files fs' = (fs_files fs)(file \<mapsto> content fs file @ log_line sys Time_local ecron_pattern default_eol msg)"
    using basic_sink_it_ok [OF assms(1,3)] by auto
  with assms(2,4,5) basic_sink_it_level [of sys msg s fs None s' msg' fs'] show ?thesis
    by (simp add: sk_should_log_def content_def ecron_line_def)
qed

text \<open>The error handler touches neither the file nor the queue.\<close>

lemma handle_exception_front:
  assumes "front_ok sys file F c async n pend st"
  shows "front_ok sys file F c async n pend (handle_exception env e 0 st)" "rg_tp (handle_exception env e 0 st) = rg_tp st"
  using assms by (auto simp: front_ok_def logger_ok_def handle_exception_def default_err_handler_def at_logger_def Let_def split: err_handler.splits)

section \<open>The worker\<close>

lemma mq_dequeue_front:
  assumes "pool_ok n (m # ms) p"
  shows "\<exists>q. mq_dequeue_for (tp_q p) = Inr (Some m, q) \<and> pool_ok n ms (p\<lparr>tp_q := q\<rparr>)"
proof -
  have q: "q_ok (tp_q p)" "q_elems (tp_q p) = m # ms" using assms by (simp_all add: pool_ok_def)
  from q_pop_front_spec [OF q(1)] q(2) obtain q' where
    "q_pop_front (tp_q p) = Inr (m, q')" "q_ok q'" "q_elems q' = ms" "q_max_items q' = q_max_items (tp_q p)" by auto
  with q assms show ?thesis by (simp add: mq_dequeue_for_def q_empty_iff pool_ok_def)
qed

lemma at_pool_front:
  assumes "front_ok sys file F c True n pend st" "pool_ok n' pend' (f (ls_pools st ! 0))"
  shows "front_ok sys file F c True n' pend' (at_pool 0 f st)"
  using assms by (auto simp: front_ok_def at_pool_def)

lemma front_pool: "front_ok sys file F c True n pend st \<Longrightarrow> pool_ok n pend (ls_pools st ! 0)"
  by (auto simp: front_ok_def)

lemma backend_log_front:
  assumes "front_ok sys file F c True n pend st" "msg_ok sys Time_local msg" "le_os env = sys"
  shows "\<exists>st'. backend_log env msg 0 st = Returns st' \<and> front_ok sys file F (c @ ecron_line sys msg) True n pend st' \<and> rg_tp st' = rg_tp st"
proof -
  obtain lg s where lg: "ls_loggers st = [lg]" "logger_ok sys file True lg (ls_fs st)" "lg_sinks lg = [Basic_sink s]"
    "sk_level s = L_trace" "bs_ok sys ecron_pattern file s (ls_fs st)" "fs_files (ls_fs st) = F(file \<mapsto> c)"
    using assms(1) by (auto simp: front_ok_def logger_ok_def)
  from sink_loop_line [OF lg(5,4) assms(2,3) lg(6)] obtain s' msg' fs' where
    "sink_loop env msg [Basic_sink s] (ls_fs st) = Some (None, [Basic_sink s'], msg', fs')" "sk_level s' = L_trace"
    "bs_ok sys ecron_pattern file s' fs'" "fs_files fs' = F(file \<mapsto> c @ ecron_line sys msg)" by blast
  with lg assms(1) show ?thesis
    by (auto simp: backend_log_def at_logger_def Let_def no_flush logger_ok_def front_ok_def)
qed

lemma worker_step_front:
  assumes "front_ok sys file F c True (Suc n) (m # ms) st" "queued_ok sys m" "le_os env = sys"
  shows "\<exists>st'. worker_step env 0 st = Returns st' \<and> front_ok sys file F (c @ queued_line sys m) True (Suc n) ms st' \<and> rg_tp st' = rg_tp st"
proof -
  note p = front_pool [OF assms(1)]
  obtain q where q: "mq_dequeue_for (tp_q (ls_pools st ! 0)) = Inr (Some m, q)" "pool_ok (Suc n) ms ((ls_pools st ! 0)\<lparr>tp_q := q\<rparr>)"
    using mq_dequeue_front [OF p] by blast
  let ?st = "at_pool 0 (\<lambda>p. p\<lparr>tp_q := q\<rparr>) st"
  have st: "front_ok sys file F c True (Suc n) ms ?st" using at_pool_front [OF assms(1)] q(2) by blast
  have name: "lg_name (ls_loggers ?st ! 0) = ''basic_logger''" "rg_tp ?st = rg_tp st"
    using st by (auto simp: front_ok_def logger_ok_def) (simp add: at_pool_def)
  have n: "tp_threads (ls_pools st ! 0) = Suc n" using p by (simp add: pool_ok_def)
  show ?thesis
  proof (cases "am_msg_type m")
    case Am_log
    then have "msg_ok sys Time_local (to_log_msg ''basic_logger'' m)" using assms(2) by (simp add: queued_ok_def)
    from backend_log_front [OF st this assms(3)] Am_log q n name assms(2) show ?thesis
      by (auto simp: worker_step_def process_next_msg_def queued_ok_def queued_line_def)
  next
    case Am_flush
    then show ?thesis using st q n name assms(2)
      by (auto simp: worker_step_def process_next_msg_def queued_ok_def queued_line_def backend_flush_def flush_sinks_id)
  qed (use assms(2) in \<open>simp add: queued_ok_def\<close>)
qed

lemma worker_step_terminates:
  assumes "front_ok sys file F c True (Suc n) (m # ms) st" "am_msg_type m = Am_terminate"
  shows "\<exists>st'. worker_step env 0 st = Returns st' \<and> front_ok sys file F c True n ms st' \<and> rg_tp st' = rg_tp st"
proof -
  note p = front_pool [OF assms(1)]
  obtain q where q: "mq_dequeue_for (tp_q (ls_pools st ! 0)) = Inr (Some m, q)" "pool_ok (Suc n) ms ((ls_pools st ! 0)\<lparr>tp_q := q\<rparr>)"
    using mq_dequeue_front [OF p] by blast
  let ?st = "at_pool 0 (\<lambda>p. p\<lparr>tp_q := q\<rparr>) st"
  have st: "front_ok sys file F c True (Suc n) ms ?st" using at_pool_front [OF assms(1)] q(2) by blast
  have "pool_ok n ms ((ls_pools ?st ! 0)\<lparr>tp_threads := n\<rparr>)" using front_pool [OF st] by (simp add: pool_ok_def)
  moreover have "tp_threads (ls_pools ?st ! 0) - 1 = n" "tp_threads (ls_pools st ! 0) = Suc n"
    using front_pool [OF st] p by (simp_all add: pool_ok_def)
  ultimately show ?thesis using q assms(2) at_pool_front [OF st, of n ms "\<lambda>p. p\<lparr>tp_threads := tp_threads p - 1\<rparr>"]
    by (simp add: worker_step_def process_next_msg_def) (simp add: at_pool_def)
qed

lemma worker_step_idle:
  assumes "front_ok sys file F c True n [] st"
  shows "worker_step env 0 st = Returns st"
  using front_pool [OF assms] by (simp add: worker_step_def process_next_msg_def mq_dequeue_for_def pool_ok_def q_empty_iff)

section \<open>Posting\<close>

lemma post_front:
  assumes "front_ok sys file F c True n pend st"
  shows "post_async_msg 0 m Policy_block st = Waits \<and> length pend = 8192 \<or>
    (\<exists>st'. post_async_msg 0 m Policy_block st = Returns st' \<and> front_ok sys file F c True n (pend @ [m]) st' \<and> rg_tp st' = rg_tp st)"
proof -
  note p = front_pool [OF assms]
  then have q: "q_ok (tp_q (ls_pools st ! 0))" "q_elems (tp_q (ls_pools st ! 0)) = pend" "q_max_items (tp_q (ls_pools st ! 0)) = 8193"
    by (simp_all add: pool_ok_def)
  from mq_enqueue_spec [OF q(1), of m] q(2,3) have "mq_enqueue m (tp_q (ls_pools st ! 0)) = Inr None \<and> length pend = 8192 \<or>
      (\<exists>q'. mq_enqueue m (tp_q (ls_pools st ! 0)) = Inr (Some q') \<and> q_ok q' \<and> q_elems q' = pend @ [m])" by auto
  then show ?thesis
  proof (elim disjE exE conjE)
    fix q'
    assume q': "mq_enqueue m (tp_q (ls_pools st ! 0)) = Inr (Some q')" "q_ok q'" "q_elems q' = pend @ [m]"
    have "q_max_items q' = 8193" using q'(1) q(3) by (auto simp: mq_enqueue_def q_push_back_def bindE_def Let_def split: sum.splits if_splits)
    with q' p have "pool_ok n (pend @ [m]) ((ls_pools st ! 0)\<lparr>tp_q := q'\<rparr>)" by (simp add: pool_ok_def)
    from at_pool_front [OF assms, of n "pend @ [m]" "\<lambda>p. p\<lparr>tp_q := q'\<rparr>"] this q'(1) show ?thesis
      by (simp add: post_async_msg_def) (simp add: at_pool_def)
  qed (simp add: post_async_msg_def)
qed

section \<open>Calls of the user\<close>

text \<open>The result of a call on the asynchronous logger waits, or the call returns with more in the queue; a call on the synchronous logger returns
  with more in the file.\<close>

definition does_call ::
  "log_os \<Rightarrow> string \<Rightarrow> (string \<rightharpoonup> string) \<Rightarrow> string \<Rightarrow> bool \<Rightarrow> async_msg list \<Rightarrow> nat option \<Rightarrow> string \<Rightarrow> log_sys call_result \<Rightarrow> bool" where
  "does_call sys file F c async pend tp text r \<longleftrightarrow>
     (case r of
        Undefined \<Rightarrow> False
      | Waits \<Rightarrow> async \<and> length pend = 8192
      | Returns st' \<Rightarrow> rg_tp st' = tp \<and> (\<exists>c' pend'. front_ok sys file F c' async 1 pend' st' \<and> list_all (queued_ok sys) pend' \<and>
          c' @ concat (map (queued_line sys) pend') = c @ concat (map (queued_line sys) pend) @ text))"

lemma does_nothing:
  assumes "front_ok sys file F c async 1 pend st" "list_all (queued_ok sys) pend"
  shows "does_call sys file F c async pend (rg_tp st) [] (Returns st)"
  using assms by (auto simp: does_call_def)

lemma does_post:
  assumes "front_ok sys file F c True 1 pend st" "list_all (queued_ok sys) pend" "queued_ok sys m"
  shows "does_call sys file F c True pend (rg_tp st) (queued_line sys m) (post_async_msg 0 m Policy_block st)"
  using post_front [OF assms(1), of m] assms(2,3) by (fastforce simp: does_call_def)

lemma does_handle:
  assumes "front_ok sys file F c async 1 pend st" "list_all (queued_ok sys) pend"
  shows "does_call sys file F c async pend (rg_tp st) [] (Returns (handle_exception env e 0 st))"
  using handle_exception_front [OF assms(1), of env e] assms(2) by (auto simp: does_call_def)

lemma lg_sink_it_front:
  assumes "front_ok sys file F c async 1 pend st" "list_all (queued_ok sys) pend" "rg_tp st = (if async then Some 0 else None)"
    and "msg_ok sys Time_local msg" "le_os env = sys" "lm_logger_name msg = ''basic_logger''" "lm_color_range_start msg = 0" "lm_color_range_end msg = 0"
  shows "does_call sys file F c async pend (rg_tp st) (ecron_line sys msg)
    (then_call (lg_sink_it env msg 0 st) (\<lambda>(ex, st). Returns (case ex of None \<Rightarrow> st | Some e \<Rightarrow> handle_exception env e 0 st)))"
proof (cases async)
  case True
  have m: "to_log_msg ''basic_logger'' (mk_async_msg (Some 0) Am_log msg) = msg"
    using assms(6-8) by (cases msg) (simp add: to_log_msg_def mk_async_msg_def)
  then have "queued_ok sys (mk_async_msg (Some 0) Am_log msg)" "queued_line sys (mk_async_msg (Some 0) Am_log msg) = ecron_line sys msg"
    using assms(4) by (simp_all add: queued_ok_def queued_line_def) (simp_all add: mk_async_msg_def)
  with does_post [of sys _ F c pend st "mk_async_msg (Some 0) Am_log msg"] assms(1-3) True
  show ?thesis
    by (cases "post_async_msg 0 (mk_async_msg (Some 0) Am_log msg) Policy_block st")
      (auto simp: lg_sink_it_def async_sink_it_def post_log_def front_ok_def logger_ok_def does_call_def)
next
  case False
  obtain lg s where lg: "ls_loggers st = [lg]" "logger_ok sys file False lg (ls_fs st)" "lg_sinks lg = [Basic_sink s]" "lg_async lg = None"
    "sk_level s = L_trace" "bs_ok sys ecron_pattern file s (ls_fs st)" "fs_files (ls_fs st) = F(file \<mapsto> c)" "pend = []"
    using assms(1) False by (auto simp: front_ok_def logger_ok_def)
  from sink_loop_line [OF lg(6,5) assms(4,5) lg(7)] obtain s' msg' fs' where
    "sink_loop env msg [Basic_sink s] (ls_fs st) = Some (None, [Basic_sink s'], msg', fs')" "sk_level s' = L_trace"
    "bs_ok sys ecron_pattern file s' fs'" "fs_files fs' = F(file \<mapsto> c @ ecron_line sys msg)" by blast
  with lg assms(1,3) False show ?thesis
    by (auto simp: lg_sink_it_def at_logger_def Let_def no_flush logger_ok_def front_ok_def does_call_def intro!: exI [of _ "c @ ecron_line sys msg"])
qed

lemma lg_flush_front:
  assumes "front_ok sys file F c async 1 pend st" "list_all (queued_ok sys) pend" "rg_tp st = (if async then Some 0 else None)"
  shows "does_call sys file F c async pend (rg_tp st) [] (lg_flush env 0 st)"
proof (cases async)
  case True
  have "queued_ok sys (mk_async_msg (Some 0) Am_flush blank_msg)" "queued_line sys (mk_async_msg (Some 0) Am_flush blank_msg) = []"
    by (simp_all add: queued_ok_def queued_line_def mk_async_msg_def)
  with does_post [of sys _ F c pend st "mk_async_msg (Some 0) Am_flush blank_msg"] assms True
  show ?thesis
    by (cases "post_async_msg 0 (mk_async_msg (Some 0) Am_flush blank_msg) Policy_block st")
      (auto simp: lg_flush_def lg_flush_virtual_def async_flush_def post_flush_def front_ok_def logger_ok_def does_call_def)
next
  case False
  then have "lg_flush env 0 st = Returns st" using assms(1)
    by (auto simp: lg_flush_def lg_flush_virtual_def flush_sinks_id front_ok_def logger_ok_def)
  then show ?thesis using does_nothing [OF assms(1,2)] by simp
qed

lemma lg_log_front:
  assumes "front_ok sys file F c async 1 pend st" "list_all (queued_ok sys) pend" "rg_tp st = (if async then Some 0 else None)"
    and "le_os env = sys" "msg_ok sys Time_local (new_log_msg env [] L_trace)" "list_all wf_arg as" "length as < 2 ^ 32"
  shows "does_call sys file F c async pend (rg_tp st)
    (case vformat_to (le_floats env) (le_sep env) (le_custom env) fmt as of
       Some (Inr t) \<Rightarrow> ecron_line sys ((new_log_msg env ''basic_logger'' lvl)\<lparr>lm_raw := t\<rparr>) | _ \<Rightarrow> [])
    (lg_log env lvl fmt as 0 st)"
proof -
  have lg: "lg_should_log lvl (ls_loggers st ! 0)" "lg_name (ls_loggers st ! 0) = ''basic_logger''"
    using assms(1) by (auto simp: front_ok_def logger_ok_def lg_should_log_def)
  have msg: "msg_ok sys Time_local ((new_log_msg env ''basic_logger'' lvl)\<lparr>lm_raw := t\<rparr>)" for t
    using assms(5) by (simp add: msg_ok_def new_log_msg_def)
  from vformat_ends [OF assms(6,7), of "le_floats env" "le_sep env" "le_custom env" fmt] show ?thesis
  proof (elim disjE exE)
    fix t
    assume "vformat_to (le_floats env) (le_sep env) (le_custom env) fmt as = Some (Inr t)"
    with lg_sink_it_front [OF assms(1-3) msg [of t] assms(4)] lg show ?thesis by (simp add: lg_log_def) (simp add: new_log_msg_def)
  next
    fix e
    assume "vformat_to (le_floats env) (le_sep env) (le_custom env) fmt as = Some (Inl (Format_error e))"
    with does_handle [OF assms(1,2)] lg show ?thesis by (simp add: lg_log_def)
  qed
qed

section \<open>The end of the pool\<close>

lemma join_front:
  assumes "front_ok sys file F c True 1 (ms @ [m]) st" "list_all (queued_ok sys) ms" "am_msg_type m = Am_terminate" "le_os env = sys"
    "Suc (length ms) \<le> k"
  shows "\<exists>st'. join_threads env k 0 st = Returns st' \<and> front_ok sys file F (c @ concat (map (queued_line sys) ms)) True 0 [] st'"
  using assms
proof (induction ms arbitrary: c st k)
  case Nil
  then obtain j where k: "k = Suc j" by (cases k) auto
  have n: "tp_threads (ls_pools st ! 0) = 1" using front_pool [OF Nil.prems(1)] by (simp add: pool_ok_def)
  obtain st' where st': "worker_step env 0 st = Returns st'" "front_ok sys file F c True 0 [] st'"
    using worker_step_terminates [of sys _ F c 0 m "[]" st env] Nil.prems(1,3) by auto
  have "tp_threads (ls_pools st' ! 0) = 0" using front_pool [OF st'(2)] by (simp add: pool_ok_def)
  then have "join_threads env j 0 st' = Returns st'" by (cases j) simp_all
  with k n st' show ?case by simp
next
  case (Cons m' ms)
  then obtain j where k: "k = Suc j" by (cases k) auto
  have n: "tp_threads (ls_pools st ! 0) = 1" using front_pool [OF Cons.prems(1)] by (simp add: pool_ok_def)
  obtain st' where st': "worker_step env 0 st = Returns st'" "front_ok sys file F (c @ queued_line sys m') True 1 (ms @ [m]) st'"
    using worker_step_front [of sys _ F c 0 m' "ms @ [m]" st env] Cons.prems(1,2,4) by auto
  from Cons.IH [OF st'(2), of j] Cons.prems k n st'(1) show ?case by auto
qed

lemma front_length: "front_ok sys file F c True n pend st \<Longrightarrow> length pend \<le> 8192"
  using log_q.cap_bound [of "tp_q (ls_pools st ! 0)"] front_pool [of sys _ F c n pend st] by (auto simp: pool_ok_def)

lemma destroy_front:
  assumes "front_ok sys file F c True 1 pend st" "list_all (queued_ok sys) pend" "le_os env = sys"
  shows "\<exists>st'. tp_destroy env 0 st = Returns st' \<and> front_ok sys file F (c @ concat (map (queued_line sys) pend)) True 0 [] st'"
proof -
  let ?m = "mk_async_msg None Am_terminate blank_msg"
  have m: "am_msg_type ?m = Am_terminate" by (simp add: mk_async_msg_def)
  obtain st1 c1 pend1 where st1: "post_waiting env 1 0 ?m st = Returns st1" "front_ok sys file F c1 True 1 (pend1 @ [?m]) st1"
    "list_all (queued_ok sys) pend1" "c1 @ concat (map (queued_line sys) pend1) = c @ concat (map (queued_line sys) pend)"
  proof (cases "post_async_msg 0 ?m Policy_block st = Waits")
    case False
    then obtain st1 where "post_async_msg 0 ?m Policy_block st = Returns st1" "front_ok sys file F c True 1 (pend @ [?m]) st1"
      using post_front [OF assms(1), of ?m] by auto
    with assms(2) show thesis by (intro that [of st1 c pend]) simp_all
  next
    case True
    then obtain m' ms where p: "pend = m' # ms" using post_front [OF assms(1), of ?m] by (cases pend) auto
    obtain st0 where st0: "worker_step env 0 st = Returns st0" "front_ok sys file F (c @ queued_line sys m') True 1 ms st0"
      using worker_step_front [of sys _ F c 0 m' ms st env] assms p by auto
    have "length ms \<noteq> 8192" using front_length [OF assms(1)] p by simp
    then obtain st1 where "post_async_msg 0 ?m Policy_block st0 = Returns st1" "front_ok sys file F (c @ queued_line sys m') True 1 (ms @ [?m]) st1"
      using post_front [OF st0(2), of ?m] by auto
    with True st0(1) p assms(2) show thesis by (intro that [of st1 "c @ queued_line sys m'" ms]) simp_all
  qed
  have n: "tp_threads (ls_pools st ! 0) = 1" using front_pool [OF assms(1)] by (simp add: pool_ok_def)
  have k: "unat (q_max_items (tp_q (ls_pools st1 ! 0))) = 8193" using front_pool [OF st1(2)] by (simp add: pool_ok_def)
  have "Suc (length pend1) \<le> 8193" using front_length [OF st1(2)] by simp
  from join_front [OF st1(2,3) m assms(3) this] n k st1(1,4) show ?thesis
    by (simp add: tp_destroy_def)
qed

section \<open>Runs keep the account\<close>

definition run_ok :: "log_os \<Rightarrow> string \<Rightarrow> (string \<rightharpoonup> string) \<Rightarrow> bool \<Rightarrow> LogLevel \<Rightarrow> string \<Rightarrow> ecron_logger \<times> log_sys \<Rightarrow> bool" where
  "run_ok sys file F async lv text = (\<lambda>(el, st).
     el_init el \<and> el_lv el = lv \<and> el_logger el = Some 0 \<and> rg_tp st = (if async then Some 0 else None) \<and>
     (\<exists>c pend. front_ok sys file F c async 1 pend st \<and> list_all (queued_ok sys) pend \<and> c @ concat (map (queued_line sys) pend) = text))"

lemma does_call_run:
  assumes "el_init el" "el_lv el = lv" "el_logger el = Some 0" "tp = (if async then Some 0 else None)"
    "does_call sys file F c async pend tp text r"
  shows "case then_call r (\<lambda>st. Returns (el, st)) of
      Undefined \<Rightarrow> False | Waits \<Rightarrow> async
    | Returns s' \<Rightarrow> run_ok sys file F async lv (c @ concat (map (queued_line sys) pend) @ text) s'"
  using assms by (cases r) (auto simp: does_call_def run_ok_def)

lemma write_log_front:
  assumes "front_ok sys file F c async 1 pend st" "list_all (queued_ok sys) pend" "rg_tp st = (if async then Some 0 else None)"
    and "event_ok sys (Ev_log env lvl fmt as p)" "el_logger el = Some 0"
  shows "does_call sys file F c async pend (rg_tp st) (concat (call_lines lv env lvl fmt as p))
    (if ll_number lv \<le> ll_number lvl then write_log env lvl (fmt @ macro_format lvl) (as @ macro_args lvl p) el st else Returns st)"
proof (cases "spd_level lvl")
  case None
  with does_nothing [OF assms(1,2)] show ?thesis by (simp add: write_log_def call_lines_def split: option.splits)
next
  case (Some l)
  have os: "le_os env = sys" "msg_ok sys Time_local (new_log_msg env [] L_trace)" using assms(4) by simp_all
  have as: "list_all wf_arg (as @ macro_args lvl p)" "length (as @ macro_args lvl p) < 2 ^ 32"
    using assms(4) by (cases lvl; simp)+
  note log = lg_log_front [OF assms(1-3) os]
  show ?thesis
  proof (cases "ll_number lv \<le> ll_number lvl")
    case False
    with does_nothing [OF assms(1,2)] show ?thesis by (simp add: call_lines_def)
  next
    case True
    have "concat (call_lines lv env lvl fmt as p) =
        (case (if as @ macro_args lvl p = [] then vformat_to (le_floats env) (le_sep env) (le_custom env) ''{}'' [Cstring_arg 1 (fmt @ macro_format lvl)]
            else vformat_to (le_floats env) (le_sep env) (le_custom env) (fmt @ macro_format lvl) (as @ macro_args lvl p)) of
          Some (Inr t) \<Rightarrow> ecron_line sys ((new_log_msg env ''basic_logger'' l)\<lparr>lm_raw := t\<rparr>) | _ \<Rightarrow> [])"
      using True Some os(1) by (auto simp: call_lines_def logged_text_def split: option.splits sum.splits)
    with True Some assms(5) as log [of "as @ macro_args lvl p" l "fmt @ macro_format lvl"]
      log [of "[Cstring_arg 1 (fmt @ macro_format lvl)]" l "''{}''"] show ?thesis
      by (auto simp: write_log_def lg_log_str_def)
  qed
qed

lemma run_event_ok:
  assumes "run_ok sys file F async lv text s" "event_ok sys e"
  shows "case run_event e s of
      Undefined \<Rightarrow> False | Waits \<Rightarrow> async
    | Returns s' \<Rightarrow> \<exists>lv'. run_ok sys file F async lv' (text @ concat (event_lines lv [e])) s' \<and> (\<forall>es. event_lines lv (e # es) = event_lines lv [e] @ event_lines lv' es)"
proof -
  obtain el st where s: "s = (el, st)" by fastforce
  obtain c pend where st: "front_ok sys file F c async 1 pend st" "list_all (queued_ok sys) pend" "rg_tp st = (if async then Some 0 else None)"
    and el: "el_init el" "el_lv el = lv" "el_logger el = Some 0" and sum: "text = c @ concat (map (queued_line sys) pend)"
    using assms(1) s by (auto simp: run_ok_def)
  note run = does_call_run [OF el st(3)]
  show ?thesis
  proof (cases e)
    case (Ev_log env lvl fmt as p)
    from run [OF write_log_front [OF st _ el(3), of env lvl fmt as p lv]] assms(2) Ev_log el sum s show ?thesis
      by (auto simp: log_macro_def logger_get_level_def split: call_result.splits if_splits)
  next
    case (Ev_set_level lv')
    then show ?thesis using st el sum s by (auto simp: run_ok_def logger_set_level_def)
  next
    case (Ev_flush env)
    from run [OF lg_flush_front [OF st, of env]] Ev_flush el sum s show ?thesis
      by (auto simp: logger_flush_def split: call_result.splits)
  next
    case (Ev_work env)
    show ?thesis
    proof (cases async)
      case False
      then show ?thesis using assms(1) Ev_work s st(3) by (auto simp: run_ok_def)
    next
      case True
      show ?thesis
      proof (cases pend)
        case Nil
        with st(1) True have "front_ok sys file F c True 1 [] st" by simp
        then have "worker_step env 0 st = Returns st" by (rule worker_step_idle)
        with assms(1) True Ev_work s st(3) show ?thesis by auto
      next
        case (Cons m ms)
        with worker_step_front [of sys _ F c 0 m ms st env] st True assms(2) Ev_work obtain st' where
          "worker_step env 0 st = Returns st'" "front_ok sys file F (c @ queued_line sys m) True 1 ms st'" "rg_tp st' = rg_tp st" by auto
        with Cons st True Ev_work s el sum show ?thesis
          by (auto simp: run_ok_def intro!: exI [of _ "c @ queued_line sys m"] exI [of _ ms])
      qed
    qed
  qed
qed

lemma run_events_ok:
  assumes "run_ok sys file F async lv out s" "list_all (event_ok sys) es"
  shows "case run_events es s of
      Undefined \<Rightarrow> False | Waits \<Rightarrow> async
    | Returns s' \<Rightarrow> \<exists>lv'. run_ok sys file F async lv' (out @ concat (event_lines lv es)) s'"
  using assms
proof (induction es arbitrary: lv out s)
  case Nil
  then show ?case by auto
next
  case (Cons e es)
  note one = run_event_ok [OF Cons.prems(1), of e]
  show ?case
  proof (cases "run_event e s")
    case (Returns s1)
    with one Cons.prems(2) obtain lv1 where 1: "run_ok sys file F async lv1 (out @ concat (event_lines lv [e])) s1"
      "event_lines lv (e # es) = event_lines lv [e] @ event_lines lv1 es" by auto
    from Cons.IH [OF 1(1)] Cons.prems(2) Returns show ?thesis by (auto simp: 1(2) split: call_result.splits)
  qed (use one Cons.prems(2) in auto)
qed

lemma release_ok:
  assumes "run_ok sys file F async lv text (el, st)" "le_os env = sys"
  shows "case logger_release env el st of
      Undefined \<Rightarrow> False | Waits \<Rightarrow> async
    | Returns (el', st') \<Rightarrow> \<not> el_init el' \<and> fs_files (ls_fs st') = F(file \<mapsto> text)"
proof -
  obtain c pend where st: "front_ok sys file F c async 1 pend st" "list_all (queued_ok sys) pend" "rg_tp st = (if async then Some 0 else None)"
    and el: "el_init el" "el_logger el = Some 0" and sum: "text = c @ concat (map (queued_line sys) pend)"
    using assms(1) by (auto simp: run_ok_def)
  note f = lg_flush_front [OF st, of env]
  show ?thesis
  proof (cases "lg_flush env 0 st")
    case (Returns st1)
    with f obtain c1 pend1 where 1: "front_ok sys file F c1 async 1 pend1 st1" "list_all (queued_ok sys) pend1" "rg_tp st1 = rg_tp st"
      "c1 @ concat (map (queued_line sys) pend1) = text" using sum by (auto simp: does_call_def)
    let ?st = "(rg_drop_all (rg_drop ''basic_logger'' st1))\<lparr>rg_tp := None\<rparr>"
    have d: "front_ok sys file F c1 async 1 pend1 ?st" using 1(1) by (simp add: front_ok_def rg_drop_def rg_drop_all_def)
    have "fs_files (ls_fs st') = F(file \<mapsto> c')" if "front_ok sys file F c' b n p st'" for c' b n p st'
      using that by (simp add: front_ok_def)
    moreover have "pend1 = []" if "\<not> async" using 1(1) that by (simp add: front_ok_def)
    moreover have "\<exists>st' b n p. tp_destroy env 0 ?st = Returns st' \<and> front_ok sys file F text b n p st'" if async
      using destroy_front [OF d [unfolded eqTrueI [OF that]] 1(2) assms(2)] 1(4) by auto
    ultimately show ?thesis
      using Returns el 1 st(3)
      by (cases async) (auto simp: logger_release_def rg_shutdown_def set_tp_def Let_def rg_drop_def rg_drop_all_def)
  qed (use f el in \<open>auto simp: does_call_def logger_release_def\<close>)
qed

section \<open>The start\<close>

lemma pf_clone_mk: "pf_clone (mk_pattern_formatter pattern time_type eol) = mk_pattern_formatter pattern time_type eol"
  by (simp add: pf_clone_def mk_pattern_formatter_def)

lemma init_ok:
  fixes fs :: file_sys
  assumes "fs_faults fs = []"
  shows "\<exists>el st. logger_init env (Some file) async trunc mk_ecron_logger (mk_registry fs) = Returns (True, el, st) \<and>
    run_ok sys file (fs_files fs) async LL_Info (if trunc then [] else content fs file) (el, st)"
proof -
  have q: "q_ok (mk_circular_q d 8192)" "q_elems (mk_circular_q d 8192) = []" "q_max_items (mk_circular_q d 8192) = 8193" for d :: async_msg
    using mk_circular_q_ok [of 8192 d] by (simp_all add: mk_circular_q_def)
  show ?thesis
    using assms q mk_pattern_formatter_ok [of sys Time_local ecron_pattern default_eol]
    by (simp add: logger_init_def mk_ecron_logger_def mk_registry_def create_basic_logger_def init_thread_pool_def mk_thread_pool_def set_tp_def
        async_create_def synchronous_create_def add_logger_def basic_sink_maker_def mk_basic_file_sink_def fh_open_ok register_and_init_def
        throw_if_exists_def rg_find_def at_logger_def mk_logger_def lg_set_formatter_def lg_set_level_def lg_flush_on_def rg_set_pattern_def
        rg_set_level_def rg_set_formatter_def all_loggers_def sk_set_formatter_def pf_clone_mk run_ok_def front_ok_def logger_ok_def bs_ok_def
        pool_ok_def ecron_pattern_def)
qed

section \<open>Properties\<close>


definition demo_env :: "int \<Rightarrow> (unit, unit) log_env" where
  "demo_env t =
     \<lparr>le_os = demo_os, le_mktime = (\<lambda>_. 0), le_strftime = (\<lambda>_. []), le_now = t, le_time = t div 1000000000, le_thread_id = 42,
      le_floats = no_floats, le_sep = CHR '','', le_custom = (\<lambda>_ _ _ _. Inr (0, 0, []))\<rparr>"

definition demo_place :: log_place where
  "demo_place = \<lparr>pl_filename = ''a.cpp'', pl_line = 7, pl_func = ''f''\<rparr>"

definition demo_events :: "(unit, unit) log_event list" where
  "demo_events =
     [Ev_log (demo_env 1007000000) LL_Debug ''x'' [] demo_place, Ev_log (demo_env 1007000000) LL_Info ''{a}'' [] demo_place,
      Ev_set_level LL_Warn, Ev_flush (demo_env 1008000000), Ev_log (demo_env 62000000000) LL_Info ''y'' [] demo_place,
      Ev_log (demo_env 62000000000) LL_Error ''n={}'' [Int_arg 5] demo_place]"


text \<open>Without arguments \<^verbatim>\<open>LOG_INFO\<close> takes its text literally, while the other macros, which append the place, take the same text for a format
  string and may lose the message.\<close>

lemma info_is_literal:
  "call_lines LL_Trace (demo_env 1007000000) LL_Info ''{'' [] demo_place = [''700101 00:00:01.007 000042 info {'' @ default_eol]"
  "call_lines LL_Trace (demo_env 1007000000) LL_Warn ''{'' [] demo_place = []"
  by code_simp+

text \<open>An exception from one sink keeps the message from the sinks behind it.\<close>

lemma sink_exception_skips_rest:
  "any_should_log (lm_level msg) s \<Longrightarrow> any_log env msg s fs = Some (Some e, s', msg', fs') \<Longrightarrow>
    sink_loop env msg (s # ss) fs = Some (Some e, s' # ss, msg', fs')"
  by simp

text \<open>A call that waits goes on after the next turn of the worker.\<close>

lemma call_waits_only_when_full:
  assumes "front_ok sys file F c async 1 pend st" "list_all (queued_ok sys) pend" "rg_tp st = (if async then Some 0 else None)"
    and "el_init el" "el_logger el = Some 0" "event_ok sys e" "\<And>env. e \<noteq> Ev_work env"
  shows "case run_event e (el, st) of Undefined \<Rightarrow> False | Waits \<Rightarrow> async \<and> length pend = 8192 | Returns _ \<Rightarrow> True"
proof (cases e)
  case (Ev_log env lvl fmt as p)
  with write_log_front [OF assms(1-3) _ assms(5), of env lvl fmt as p "el_lv el"] assms(4,6) show ?thesis
    by (auto simp: does_call_def log_macro_def logger_get_level_def split: call_result.splits if_splits)
next
  case (Ev_flush env)
  with lg_flush_front [OF assms(1-3), of env] assms(4,5) show ?thesis
    by (auto simp: does_call_def logger_flush_def split: call_result.splits)
qed (use assms(7) in auto)

lemma waiting_call_goes_on:
  assumes "run_ok sys file F async lv out s" "event_ok sys e" "run_event e s = Waits" "le_os env = sys"
  shows "\<exists>s1 s2. run_event (Ev_work env) s = Returns s1 \<and> run_event e s1 = Returns s2"
proof -
  obtain el st where s: "s = (el, st)" by fastforce
  obtain c pend where st: "front_ok sys file F c async 1 pend st" "list_all (queued_ok sys) pend" "rg_tp st = (if async then Some 0 else None)"
    and el: "el_init el" "el_logger el = Some 0"
    using assms(1) s by (auto simp: run_ok_def)
  have e: "e \<noteq> Ev_work env'" for env'
    using run_event_ok [OF assms(1), of e] assms(2,3) s st
    by (cases pend) (auto simp: worker_step_idle dest: worker_step_front [of sys _ F c 0 _ _ st env'])
  from call_waits_only_when_full [OF st el assms(2) e] assms(3) s have async: "async" "length pend = 8192" by auto
  then obtain m ms where p: "pend = m # ms" by (cases pend) auto
  obtain st' where st': "worker_step env 0 st = Returns st'" "front_ok sys file F (c @ queued_line sys m) True 1 ms st'" "rg_tp st' = rg_tp st"
    using worker_step_front [of sys _ F c 0 m ms st env] st async(1) p assms(4) by auto
  have "case run_event e (el, st') of Undefined \<Rightarrow> False | Waits \<Rightarrow> True \<and> length ms = 8192 | Returns _ \<Rightarrow> True"
    using call_waits_only_when_full [OF st'(2) _ _ el assms(2) e] st p st'(3) async(1) by simp
  with st' s st(3) async p show ?thesis by (auto split: call_result.splits)
qed

end
